(* ===== verification/Prelude.thy ===== *)
theory Prelude
  imports Main "HOL-Library.Word" "HOL-Library.Signed_Division"
begin

unbundle bit_operations_syntax

text \<open>
  Shared material of the development: the C integer and pointer types, the outcome of
  running C code (a value, or the run-time fault that ends it), byte blocks, and singly
  linked chains of heap nodes. Every component theory imports this one.
\<close>

section \<open>C types\<close>

text \<open>
  The library is compiled for LP64 platforms (Linux, macOS, NetBSD): \<open>size_t\<close> and
  \<open>unsigned long\<close> are 64-bit words, \<open>unsigned\<close> a 32-bit word. A \<open>long\<close> that takes
  part in unsigned arithmetic is kept as the same 64-bit word and read with \<open>sint\<close>.
  A signed value whose overflow the standard leaves undefined is an \<open>int\<close> with an
  explicit range check. A pointer is a natural number, \<open>NULL\<close> is 0.
\<close>

type_synonym u8 = "8 word"
type_synonym u32 = "32 word"
type_synonym u64 = "64 word"
type_synonym ptr = nat

abbreviation (input) NULL :: ptr where "NULL \<equiv> 0"

text \<open>The bytes of a string literal; \<open>of_char\<close> gives the code of a character.\<close>

definition bytes_of :: "string \<Rightarrow> u8 list" where
  "bytes_of s = map of_char s"

section \<open>Outcomes of C code\<close>

text \<open>
  \<open>Inl f\<close>: the code reaches behaviour the C standard does not define (or does not
  return, \<open>No_return\<close>); \<open>Inr x\<close>: it returns \<open>x\<close>.
\<close>

datatype fault =
    Null_deref
  | Out_of_bounds
  | Invalid_pointer
  | Uninitialised
  | Div_by_zero
  | Signed_overflow
  | No_return

type_synonym 'a outcome = "fault + 'a"

fun bind_outcome :: "'a outcome \<Rightarrow> ('a \<Rightarrow> 'b outcome) \<Rightarrow> 'b outcome" where
  "bind_outcome (Inl f) k = Inl f"
| "bind_outcome (Inr x) k = k x"

lemma bind_outcome_Inr_iff:
  "bind_outcome m k = Inr y \<longleftrightarrow> (\<exists>x. m = Inr x \<and> k x = Inr y)"
  by (cases m) auto

lemma bind_outcome_assoc:
  "bind_outcome (bind_outcome m k) h = bind_outcome m (\<lambda>x. bind_outcome (k x) h)"
  by (cases m) auto

lemma bind_outcome_cong [fundef_cong]:
  "m = m' \<Longrightarrow> (\<And>x. m' = Inr x \<Longrightarrow> k x = k' x) \<Longrightarrow> bind_outcome m k = bind_outcome m' k'"
  by (cases m') auto

text \<open>Running an operation over a list, stopping at the first fault.\<close>

fun fold_outcome :: "('s \<Rightarrow> 'a \<Rightarrow> 's outcome) \<Rightarrow> 's \<Rightarrow> 'a list \<Rightarrow> 's outcome" where
  "fold_outcome f s [] = Inr s"
| "fold_outcome f s (x # xs) = bind_outcome (f s x) (\<lambda>s'. fold_outcome f s' xs)"

lemma fold_outcome_append:
  "fold_outcome f s (xs @ ys) = bind_outcome (fold_outcome f s xs) (\<lambda>s'. fold_outcome f s' ys)"
  by (induction xs arbitrary: s) (simp_all add: bind_outcome_assoc)

section \<open>Signed integers\<close>

definition in_s32 :: "int \<Rightarrow> bool" where
  "in_s32 i \<longleftrightarrow> - (2 ^ 31) \<le> i \<and> i < 2 ^ 31"

definition in_s64 :: "int \<Rightarrow> bool" where
  "in_s64 i \<longleftrightarrow> - (2 ^ 63) \<le> i \<and> i < 2 ^ 63"

text \<open>The result of a signed operation: undefined when the exact value does not fit.\<close>

definition signed64 :: "int \<Rightarrow> int outcome" where
  "signed64 i = (if in_s64 i then Inr i else Inl Signed_overflow)"

definition signed32 :: "int \<Rightarrow> int outcome" where
  "signed32 i = (if in_s32 i then Inr i else Inl Signed_overflow)"

lemma signed64_Inr [simp]: "in_s64 i \<Longrightarrow> signed64 i = Inr i"
  by (simp add: signed64_def)

lemma signed64_Inr_iff: "signed64 i = Inr j \<longleftrightarrow> in_s64 i \<and> j = i"
  by (auto simp: signed64_def)

section \<open>64-bit words\<close>

named_theorems u64_simps

lemma u64_add [u64_simps]:
  "unat (x :: u64) + unat y < 2 ^ 64 \<Longrightarrow> unat (x + y) = unat x + unat y"
  by (simp add: unat_word_ariths)

lemma u64_sub [u64_simps]: "y \<le> (x :: u64) \<Longrightarrow> unat (x - y) = unat x - unat y"
  by (rule unat_sub)

lemma u64_mult [u64_simps]:
  "unat (x :: u64) * unat y < 2 ^ 64 \<Longrightarrow> unat (x * y) = unat x * unat y"
  by (simp add: unat_word_ariths)

lemma u64_div [u64_simps]: "unat (x div y :: u64) = unat x div unat y"
  by (rule unat_div)

lemma u64_mod [u64_simps]: "unat (x mod y :: u64) = unat x mod unat y"
  by (rule unat_mod)

lemma u64_lt: "unat (x :: u64) < 2 ^ 64"
  using unsigned_less [where 'a = nat, of x] by simp

lemma u64_of_nat [u64_simps]: "n < 2 ^ 64 \<Longrightarrow> unat (word_of_nat n :: u64) = n"
  by (simp add: unat_of_nat)

lemma u64_eq_0: "(x :: u64) = 0 \<longleftrightarrow> unat x = 0"
  by (simp add: unat_eq_zero)

lemma int_mod_sub:
  fixes a m :: int
  assumes "m \<le> a" and "a < 2 * m"
  shows "a mod m = a - m"
proof -
  have "(a - m) mod m = a - m" using assms by (intro mod_pos_pos_trivial) simp_all
  then show ?thesis by (simp only: minus_mod_self2)
qed

lemma u64_sint_cases:
  "sint (x :: u64) = (if unat x < 2 ^ 63 then int (unat x) else int (unat x) - 2 ^ 64)"
proof -
  define u where "u = int (unat x)"
  have "0 \<le> u" and u: "u < 2 ^ 64" and ux: "uint x = u"
    using uint_lt2p [of x] by (simp_all add: u_def)
  have "sint x = (u + 2 ^ 63) mod 2 ^ 64 - 2 ^ 63"
    by (simp add: ux sint_uint signed_take_bit_eq_take_bit_shift take_bit_eq_mod)
  also have "\<dots> = (if u < 2 ^ 63 then u else u - 2 ^ 64)"
  proof (cases "u < 2 ^ 63")
    case True
    then show ?thesis using \<open>0 \<le> u\<close> by simp
  next
    case False
    then show ?thesis using u int_mod_sub [of "2 ^ 64" "u + 2 ^ 63"] by simp
  qed
  finally show ?thesis
    unfolding u_def by (simp only: of_nat_less_numeral_power_cancel_iff)
qed

lemma u64_sint: "unat (x :: u64) < 2 ^ 63 \<Longrightarrow> sint x = int (unat x)"
  by (simp add: u64_sint_cases)

lemma u64_sint_nonneg: "0 \<le> sint (x :: u64) \<longleftrightarrow> unat x < 2 ^ 63"
proof -
  have "int (unat x) < 2 ^ 64"
    using u64_lt [of x] by (simp only: of_nat_less_numeral_power_cancel_iff)
  then show ?thesis unfolding u64_sint_cases by simp
qed

lemma signed_wrap64:
  assumes "- (2 ^ 64) \<le> k" and "k < 2 ^ 64"
  shows "signed_take_bit 63 k =
     (if in_s64 k then k else if 0 \<le> k then k - 2 ^ 64 else k + 2 ^ 64)"
proof -
  have eq: "signed_take_bit 63 k = (k + 2 ^ 63) mod 2 ^ 64 - 2 ^ 63"
    by (simp add: signed_take_bit_eq_take_bit_shift take_bit_eq_mod)
  consider "in_s64 k" | "2 ^ 63 \<le> k" | "k < - (2 ^ 63)"
    unfolding in_s64_def by linarith
  then show ?thesis
  proof cases
    case 1
    then show ?thesis by (simp add: eq in_s64_def)
  next
    case 2
    then show ?thesis using assms int_mod_sub [of "2 ^ 64" "k + 2 ^ 63"]
      by (simp add: eq in_s64_def)
  next
    case 3
    have "(k + 2 ^ 63 + 2 ^ 64) mod 2 ^ 64 = k + 2 ^ 63 + 2 ^ 64"
      using 3 assms by (intro mod_pos_pos_trivial) simp_all
    then have "(k + 2 ^ 63) mod 2 ^ 64 = k + 2 ^ 63 + 2 ^ 64" by (simp only: mod_add_self2)
    then show ?thesis using 3 by (simp add: eq in_s64_def)
  qed
qed

lemma in_s64_sint: "in_s64 (sint (x :: u64))"
  using sint_less [of x] sint_ge [of x] by (simp add: in_s64_def)

lemma u64_sint_of_int: "in_s64 i \<Longrightarrow> sint (word_of_int i :: u64) = i"
  by (simp add: signed_of_int signed_wrap64 in_s64_def)

lemma u64_sint_add:
  "sint (x + y :: u64) =
     (let k = sint x + sint y
      in if in_s64 k then k else if 0 \<le> k then k - 2 ^ 64 else k + 2 ^ 64)"
  using signed_wrap64 [of "sint x + sint y"] in_s64_sint [of x] in_s64_sint [of y]
  by (simp add: sint_word_ariths in_s64_def Let_def)

lemma u64_unat_sint: "0 \<le> sint (x :: u64) \<Longrightarrow> int (unat x) = sint x"
  using u64_sint_nonneg [of x] u64_sint [of x] by simp

lemma scast_nonneg:
  fixes x :: u32
  assumes "unat x < 2 ^ 31"
  shows "unat (scast x :: u64) = unat x"
proof -
  define u where "u = uint x"
  have u3: "u = int (unat x)" by (simp add: u_def)
  have "int (unat x) < int (2 ^ 31)" using assms by (simp only: of_nat_less_iff)
  then have u2: "u < 2 ^ 31" unfolding u3 by simp
  have "0 \<le> u" unfolding u3 by simp
  note u = this u2 u3
  have s: "sint x = signed_take_bit 31 u" unfolding u_def by (simp add: sint_uint)
  have "- (2 ^ 31) \<le> (0 :: int)" by simp
  then have "- (2 ^ 31) \<le> u" using u(1) by (rule order_trans)
  then have "signed_take_bit 31 u = u" using u(2) by (rule signed_take_bit_int_eq_self)
  with s have "(scast x :: u64) = word_of_int u" by (simp only: scast_eq)
  then have c: "(scast x :: u64) = word_of_nat (unat x)" by (simp only: u(3) of_int_of_nat_eq)
  have "(2 :: nat) ^ 31 \<le> 2 ^ 64" by simp
  with assms have "unat x < 2 ^ 64" by (rule less_le_trans)
  then have "unat (word_of_nat (unat x) :: u64) = unat x" by (rule u64_of_nat)
  with c show ?thesis by (simp only:)
qed

section \<open>Byte blocks\<close>

text \<open>
  A memory block is the list of its bytes, \<open>None\<close> for a \<open>NULL\<close> pointer. Reads and
  writes outside the block are faults; a transfer of no bytes touches nothing.
\<close>

definition overlay :: "'a list \<Rightarrow> nat \<Rightarrow> 'a list \<Rightarrow> 'a list" where
  "overlay xs i ys = take i xs @ ys @ drop (i + length ys) xs"

definition mem_read :: "u8 list option \<Rightarrow> int \<Rightarrow> nat \<Rightarrow> u8 list outcome" where
  "mem_read blk off n =
     (if n = 0 then Inr []
      else case blk of
        None \<Rightarrow> Inl Null_deref
      | Some d \<Rightarrow>
          (if 0 \<le> off \<and> nat off + n \<le> length d
           then Inr (take n (drop (nat off) d)) else Inl Out_of_bounds))"

definition mem_write :: "u8 list option \<Rightarrow> int \<Rightarrow> u8 list \<Rightarrow> u8 list option outcome" where
  "mem_write blk off bs =
     (if bs = [] then Inr blk
      else case blk of
        None \<Rightarrow> Inl Null_deref
      | Some d \<Rightarrow>
          (if 0 \<le> off \<and> nat off + length bs \<le> length d
           then Inr (Some (overlay d (nat off) bs)) else Inl Out_of_bounds))"

lemma length_overlay [simp]:
  "i + length ys \<le> length xs \<Longrightarrow> length (overlay xs i ys) = length xs"
  by (simp add: overlay_def)

lemma overlay_Nil [simp]: "overlay xs i [] = xs"
  by (simp add: overlay_def)

lemma overlay_whole: "length ys = length xs \<Longrightarrow> overlay xs 0 ys = ys"
  by (simp add: overlay_def)

lemma take_overlay:
  assumes "i + length ys \<le> n" and "n \<le> length xs"
  shows "take n (overlay xs i ys) = overlay (take n xs) i ys"
proof -
  have "take (n - (i + length ys)) (drop (i + length ys) xs) = drop (i + length ys) (take n xs)"
    by (simp add: drop_take)
  moreover have "min n i = i" and "length ys \<le> n - i" using assms by linarith+
  ultimately show ?thesis using assms by (simp add: overlay_def)
qed

lemma take_overlay_before:
  "n \<le> i \<Longrightarrow> i \<le> length xs \<Longrightarrow> take n (overlay xs i ys) = take n xs"
  by (simp add: overlay_def min_def)

lemma take_overlay_end:
  "n = i + length ys \<Longrightarrow> n \<le> length xs \<Longrightarrow> take n (overlay xs i ys) = take i xs @ ys"
  by (simp add: overlay_def)

lemma drop_overlay:
  "i \<le> length xs \<Longrightarrow> take (length ys) (drop i (overlay xs i ys)) = ys"
  by (simp add: overlay_def)

lemma nth_overlay:
  assumes "i + length ys \<le> length xs" and "j < length xs"
  shows "overlay xs i ys ! j = (if i \<le> j \<and> j < i + length ys then ys ! (j - i) else xs ! j)"
proof -
  consider "j < i" | "i \<le> j" "j < i + length ys" | "i + length ys \<le> j" by linarith
  then show ?thesis
  proof cases
    case 2
    then have "j - i < length ys" by linarith
    with 2 assms show ?thesis by (simp add: overlay_def nth_append min_def)
  next
    case 3
    then have "\<not> j - i < length ys" and "i + length ys + (j - i - length ys) = j" by linarith+
    with 3 assms show ?thesis by (simp add: overlay_def nth_append min_def)
  qed (use assms in \<open>simp add: overlay_def nth_append min_def\<close>)
qed

lemma overlay_overlay:
  assumes "i + length ys + length zs \<le> length xs"
  shows "overlay (overlay xs i ys) (i + length ys) zs = overlay xs i (ys @ zs)"
proof -
  have "drop (length zs) (drop (i + length ys) xs) = drop (i + (length ys + length zs)) xs"
    by (simp add: ac_simps)
  then show ?thesis using assms by (simp add: overlay_def)
qed

lemma mem_read_ok:
  "0 \<le> off \<Longrightarrow> nat off + n \<le> length d \<Longrightarrow>
   mem_read (Some d) off n = Inr (take n (drop (nat off) d))"
  by (simp add: mem_read_def)

lemma mem_write_ok:
  "0 \<le> off \<Longrightarrow> nat off + length bs \<le> length d \<Longrightarrow>
   mem_write (Some d) off bs = Inr (Some (overlay d (nat off) bs))"
  by (simp add: mem_write_def)

section \<open>Chains of heap nodes\<close>

text \<open>
  The nodes \<open>xs\<close> linked by their \<open>next\<close> pointers, the last one pointing to \<open>q\<close>;
  \<open>first xs q\<close> is the pointer to such a chain.
\<close>

fun first :: "ptr list \<Rightarrow> ptr \<Rightarrow> ptr" where
  "first [] q = q"
| "first (x # xs) q = x"

fun chain :: "(ptr \<Rightarrow> ptr option) \<Rightarrow> ptr list \<Rightarrow> ptr \<Rightarrow> bool" where
  "chain nxt [] q \<longleftrightarrow> True"
| "chain nxt (x # xs) q \<longleftrightarrow> x \<noteq> NULL \<and> nxt x = Some (first xs q) \<and> chain nxt xs q"

lemma first_append [simp]: "first (xs @ ys) q = first xs (first ys q)"
  by (cases xs) simp_all

lemma first_hd: "xs \<noteq> [] \<Longrightarrow> first xs q = hd xs"
  by (cases xs) simp_all

lemma chain_append [simp]:
  "chain nxt (xs @ ys) q \<longleftrightarrow> chain nxt xs (first ys q) \<and> chain nxt ys q"
  by (induction xs) auto

lemma chain_cong:
  "(\<And>x. x \<in> set xs \<Longrightarrow> nxt x = nxt' x) \<Longrightarrow> chain nxt xs q = chain nxt' xs q"
  by (induction xs) auto

lemma chain_update [simp]: "x \<notin> set xs \<Longrightarrow> chain (nxt(x := v)) xs q = chain nxt xs q"
  by (rule chain_cong) auto

lemma chain_not_NULL: "chain nxt xs q \<Longrightarrow> NULL \<notin> set xs"
  by (induction xs) auto

lemma first_NULL_iff: "NULL \<notin> set xs \<Longrightarrow> first xs NULL = NULL \<longleftrightarrow> xs = []"
  by (cases xs) auto

lemma replicate_2: "replicate 2 x = [x, x]"
  by (simp add: numeral_2_eq_2)

end
