(* ===== verification/TecTime.thy ===== *)
theory TecTime
  imports Prelude
begin

text \<open>
  Models \<open>tecc_time.h\<close> and \<open>tecc_time.c\<close>: time points in nanoseconds, their
  conversion to and from \<open>struct timespec\<close>, the duration macros. What the platform
  supplies (\<open>timespec_get\<close>, \<open>gmtime_r\<close>) is an argument.
\<close>

section \<open>Model\<close>

text \<open>\<open>TecTimePoint\<close> is a \<open>long long\<close>: an \<open>int\<close> in the 64-bit signed range.\<close>

type_synonym TecTimePoint = int

record timespec =
  tv_sec :: int
  tv_nsec :: int

definition MICROSECS :: "int \<Rightarrow> TecTimePoint outcome" where
  "MICROSECS us = signed64 (us * 1000)"

definition MILLISECS :: "int \<Rightarrow> TecTimePoint outcome" where
  "MILLISECS ms = signed64 (ms * 1000000)"

definition SECONDS :: "int \<Rightarrow> TecTimePoint outcome" where
  "SECONDS sec = signed64 (sec * 1000000000)"

definition MINUTES :: "int \<Rightarrow> TecTimePoint outcome" where
  "MINUTES m = bind_outcome (SECONDS m) (\<lambda>s. signed64 (60 * s))"

definition HOURS :: "int \<Rightarrow> TecTimePoint outcome" where
  "HOURS h = bind_outcome (MINUTES h) (\<lambda>m. signed64 (60 * m))"

definition DAYS :: "int \<Rightarrow> TecTimePoint outcome" where
  "DAYS d = bind_outcome (HOURS d) (\<lambda>h. signed64 (24 * h))"

text \<open>C division truncates towards zero: \<open>sdiv\<close>, not \<open>div\<close>.\<close>

definition tec_tp_to_ts :: "TecTimePoint \<Rightarrow> timespec" where
  "tec_tp_to_ts tp =
     (let s = tp sdiv 1000000000
      in \<lparr>tv_sec = s, tv_nsec = tp - s * 1000000000\<rparr>)"

definition tec_ts_to_tp :: "timespec \<Rightarrow> TecTimePoint outcome" where
  "tec_ts_to_tp ts =
     bind_outcome (signed64 (tv_sec ts * 1000000000)) (\<lambda>s. signed64 (s + tv_nsec ts))"

text \<open>\<open>gmtime_r\<close> reads the seconds only.\<close>

definition tec_ts_to_tm :: "(int \<Rightarrow> 'tm) \<Rightarrow> timespec \<Rightarrow> 'tm" where
  "tec_ts_to_tm gmtime_r ts = gmtime_r (tv_sec ts)"

definition tec_tp_to_tm :: "(int \<Rightarrow> 'tm) \<Rightarrow> TecTimePoint \<Rightarrow> 'tm" where
  "tec_tp_to_tm gmtime_r tp = tec_ts_to_tm gmtime_r (tec_tp_to_ts tp)"

text \<open>\<open>now\<close> is what \<open>timespec_get\<close> stored, \<open>None\<close> when it returned 0.\<close>

definition tec_tp_now :: "timespec option \<Rightarrow> TecTimePoint outcome" where
  "tec_tp_now now = (case now of None \<Rightarrow> Inr 0 | Some ts \<Rightarrow> tec_ts_to_tp ts)"

text \<open>The \<open>timespec\<close> handed to \<open>nanosleep\<close>, whose result is ignored.\<close>

definition tec_sleep_for :: "TecTimePoint \<Rightarrow> timespec" where
  "tec_sleep_for dur = tec_tp_to_ts dur"

section \<open>Properties\<close>

lemma sdiv_bounds:
  fixes a b :: int
  assumes "0 < b"
  shows "\<bar>a - (a sdiv b) * b\<bar> < b" and "\<bar>a sdiv b\<bar> * b \<le> \<bar>a\<bar>"
    and "0 \<le> a \<Longrightarrow> a - (a sdiv b) * b = a mod b"
    and "a < 0 \<Longrightarrow> a - (a sdiv b) * b = - ((- a) mod b)"
proof -
  have nonneg: "a sdiv b = a div b" if "0 \<le> a"
    using that assms by (simp add: signed_divide_int_def sgn_if)
  have neg: "a sdiv b = - ((- a) div b)" if "a < 0"
    using that assms by (simp add: signed_divide_int_def sgn_if)
  show "0 \<le> a \<Longrightarrow> a - (a sdiv b) * b = a mod b"
    by (simp add: nonneg minus_div_mult_eq_mod)
  show n: "a < 0 \<Longrightarrow> a - (a sdiv b) * b = - ((- a) mod b)"
    using minus_div_mult_eq_mod [of "- a" b] by (simp add: neg)
  have r: "0 \<le> a mod b \<and> a mod b < b" "0 \<le> (- a) mod b \<and> (- a) mod b < b"
    using assms by auto
  show "\<bar>a - (a sdiv b) * b\<bar> < b"
    by (cases "0 \<le> a") (use r n nonneg in \<open>auto simp: minus_div_mult_eq_mod\<close>)
  show "\<bar>a sdiv b\<bar> * b \<le> \<bar>a\<bar>"
  proof (cases "0 \<le> a")
    case True
    with assms r(1) have "0 \<le> a div b" by (simp add: pos_imp_zdiv_nonneg_iff)
    then show ?thesis
      using True r(1) nonneg minus_div_mult_eq_mod [of a b] by simp
  next
    case False
    with assms have "0 \<le> (- a) div b" by (simp add: pos_imp_zdiv_nonneg_iff)
    then show ?thesis
      using False r(2) neg minus_div_mult_eq_mod [of "- a" b] by simp
  qed
qed

lemma tp_to_ts_nsec: "\<bar>tv_nsec (tec_tp_to_ts tp)\<bar> < 1000000000"
  using sdiv_bounds(1) [of 1000000000 tp] by (simp add: tec_tp_to_ts_def Let_def)

lemma tp_to_ts_exact: "tv_sec (tec_tp_to_ts tp) * 1000000000 + tv_nsec (tec_tp_to_ts tp) = tp"
  by (simp add: tec_tp_to_ts_def Let_def)

lemma tp_to_ts_sec_in_s64:
  assumes "in_s64 tp"
  shows "in_s64 (tv_sec (tec_tp_to_ts tp) * 1000000000)"
proof -
  have "\<bar>tv_sec (tec_tp_to_ts tp) * 1000000000\<bar> \<le> \<bar>tp\<bar>"
    using sdiv_bounds(2) [of 1000000000 tp]
    by (simp add: tec_tp_to_ts_def Let_def abs_mult)
  moreover have "\<not> (1000000000 :: int) dvd 2 ^ 63" by simp
  then have "tv_sec (tec_tp_to_ts tp) * 1000000000 \<noteq> 2 ^ 63"
    by (metis dvd_triv_right)
  ultimately show ?thesis using assms by (auto simp: in_s64_def)
qed

text \<open>
  Converting a time point to a \<open>timespec\<close> and back gives the same time point, for
  every value a \<open>TecTimePoint\<close> can hold and without signed overflow on the way.
\<close>

theorem tp_ts_roundtrip:
  "in_s64 tp \<Longrightarrow> tec_ts_to_tp (tec_tp_to_ts tp) = Inr tp"
  by (simp add: tec_ts_to_tp_def tp_to_ts_sec_in_s64 tp_to_ts_exact)

theorem tp_ts_roundtrip_witness:
  "tec_ts_to_tp (tec_tp_to_ts (- 1500000001)) = Inr (- 1500000001)"
  by (rule tp_ts_roundtrip) (simp add: in_s64_def)

text \<open>
  The \<open>timespec\<close> of a time point has its nanoseconds in the range that
  \<open>nanosleep\<close> and \<open>pthread_cond_timedwait\<close> accept exactly when the time point is not
  negative or is a whole number of seconds; a negative fraction gives a negative
  \<open>tv_nsec\<close>.
\<close>

theorem tp_to_ts_normalised:
  "0 \<le> tv_nsec (tec_tp_to_ts tp) \<and> tv_nsec (tec_tp_to_ts tp) < 1000000000
     \<longleftrightarrow> 0 \<le> tp \<or> 1000000000 dvd tp"
proof (cases "0 \<le> tp")
  case True
  then show ?thesis
    using sdiv_bounds(3) [of 1000000000 tp] by (simp add: tec_tp_to_ts_def Let_def)
next
  case False
  then have "tv_nsec (tec_tp_to_ts tp) = - ((- tp) mod 1000000000)"
    using sdiv_bounds(4) [of 1000000000 tp] by (simp add: tec_tp_to_ts_def Let_def)
  moreover have "0 \<le> (- tp) mod 1000000000" by simp
  ultimately have "0 \<le> tv_nsec (tec_tp_to_ts tp) \<longleftrightarrow> (- tp) mod 1000000000 = 0"
    and "tv_nsec (tec_tp_to_ts tp) < 1000000000"
    by linarith+
  moreover have "(- tp) mod 1000000000 = 0 \<longleftrightarrow> 1000000000 dvd tp"
    by (metis dvd_eq_mod_eq_0 dvd_minus_iff)
  ultimately show ?thesis using False by simp
qed

end
