(* ===== verification/TecBuffer.thy ===== *)
theory TecBuffer
  imports Prelude "HOL-Library.While_Combinator"
begin

text \<open>
  Models the buffer API of \<open>tecc_buffer.c\<close> and \<open>tecc_buffer.h\<close>: a growable byte
  block with a file-like position. The debugging output (hex, table, JSON) is in
  \<open>TecBufferDump\<close>.
\<close>

section \<open>Model\<close>

text \<open>
  \<open>buf_data\<close> is the block the \<open>data\<close> pointer owns. \<open>buf_pos\<close> is the \<open>long pos\<close>,
  kept as its 64-bit pattern because the code adds \<open>size_t\<close> values to it.
\<close>

record TecBuffer =
  buf_data :: "u8 list option"
  buf_pos :: u64
  buf_size :: u64
  buf_capacity :: u64
  buf_block_size :: u64

text \<open>
  What the code depends on outside the buffer: whether \<open>calloc (1, n)\<close> succeeds, and the
  global \<open>on_buffer_error\<close> handler (\<open>None\<close> for \<open>NULL\<close>), which may change the buffer.
\<close>

record buffer_env =
  calloc_ok :: "u64 \<Rightarrow> bool"
  on_buffer_error :: "(TecBuffer \<Rightarrow> TecBuffer) option"

definition TECC_BUFFER_BLOCK_SIZE :: u64 where
  "TECC_BUFFER_BLOCK_SIZE = 80"

definition TECC_EOB :: int where
  "TECC_EOB = - 1"

definition kTecSeekCur :: int where "kTecSeekCur = 0"

definition kTecSeekSet :: int where "kTecSeekSet = 1"

definition kTecSeekEnd :: int where "kTecSeekEnd = 2"

definition TecBuffer_set_error_handler ::
  "buffer_env \<Rightarrow> (TecBuffer \<Rightarrow> TecBuffer) option \<Rightarrow> buffer_env" where
  "TecBuffer_set_error_handler env handler = env\<lparr>on_buffer_error := handler\<rparr>"

definition ON_ERROR :: "buffer_env \<Rightarrow> TecBuffer \<Rightarrow> TecBuffer" where
  "ON_ERROR env b = (case on_buffer_error env of None \<Rightarrow> b | Some f \<Rightarrow> f b)"

text \<open>Returns whether the buffer could be expanded; the old block is copied and freed.\<close>

definition realloc_buffer :: "buffer_env \<Rightarrow> TecBuffer \<Rightarrow> u64 \<Rightarrow> (bool \<times> TecBuffer) outcome" where
  "realloc_buffer env b new_capacity =
     (if new_capacity \<le> buf_capacity b then Inr (True, b)
      else if \<not> calloc_ok env new_capacity then Inr (False, b)
      else
        let new_data = Some (replicate (unat new_capacity) 0);
            copied = (if buf_data b = None then Inr new_data
              else bind_outcome (mem_read (buf_data b) 0 (unat (buf_size b)))
                     (\<lambda>old. mem_write new_data 0 old))
        in bind_outcome copied (\<lambda>d.
             Inr (True, b\<lparr>buf_capacity := new_capacity, buf_data := d\<rparr>)))"

text \<open>
  The loop \<open>while (new_capacity < buf->capacity) new_capacity += buf->block_size\<close>; it may
  not end when the sum wraps around.
\<close>

definition grow_capacity :: "TecBuffer \<Rightarrow> u64 \<Rightarrow> u64 outcome" where
  "grow_capacity b n0 =
     (case while_option (\<lambda>n. n < buf_capacity b) (\<lambda>n. n + buf_block_size b) n0 of
        None \<Rightarrow> Inl No_return
      | Some n \<Rightarrow> Inr n)"

definition ensure_capacity :: "buffer_env \<Rightarrow> TecBuffer \<Rightarrow> u64 \<Rightarrow> u64 \<Rightarrow> TecBuffer outcome" where
  "ensure_capacity env b pos len =
     (if pos + len \<le> buf_capacity b then Inr b
      else if buf_capacity b \<noteq> 0 \<and> buf_block_size b = 0 then Inl Div_by_zero
      else
        let new_capacity =
          (if buf_capacity b \<noteq> 0
           then buf_capacity b + ((pos + len) div buf_block_size b) * buf_block_size b
           else buf_block_size b)
        in bind_outcome (grow_capacity b new_capacity) (\<lambda>n.
           bind_outcome (realloc_buffer env b n) (\<lambda>(ok, b').
             Inr (if ok then b' else ON_ERROR env b'))))"

definition TecBuffer_init :: "buffer_env \<Rightarrow> u64 \<Rightarrow> u64 \<Rightarrow> TecBuffer outcome" where
  "TecBuffer_init env initial_size block_size =
     (let b = \<lparr>buf_data = None, buf_pos = 0, buf_size = 0, buf_capacity = 0,
               buf_block_size = (if block_size = 0 then TECC_BUFFER_BLOCK_SIZE else block_size)\<rparr>
      in if initial_size \<noteq> 0 then ensure_capacity env b (buf_pos b) initial_size else Inr b)"

definition TecBuffer_create :: "buffer_env \<Rightarrow> u64 \<Rightarrow> u64 \<Rightarrow> TecBuffer outcome" where
  "TecBuffer_create env initial_size block_size = TecBuffer_init env initial_size block_size"

definition TecBuffer_done :: "TecBuffer \<Rightarrow> TecBuffer" where
  "TecBuffer_done b =
     b\<lparr>buf_data := None, buf_pos := 0, buf_size := 0, buf_capacity := 0\<rparr>"

text \<open>\<open>src\<close> is the block the source pointer reaches.\<close>

definition TecBuffer_write ::
  "buffer_env \<Rightarrow> TecBuffer \<Rightarrow> u8 list \<Rightarrow> u64 \<Rightarrow> (u64 \<times> TecBuffer) outcome" where
  "TecBuffer_write env b src len =
     (if len = 0 then Inr (0, b)
      else
        let pos = buf_pos b
        in bind_outcome (ensure_capacity env b pos len) (\<lambda>b.
           bind_outcome (mem_read (Some src) 0 (unat len)) (\<lambda>bytes.
           bind_outcome (mem_write (buf_data b) (sint pos) bytes) (\<lambda>d.
             let pos = pos + len;
                 b = b\<lparr>buf_data := d\<rparr>;
                 b = (if buf_size b < pos then b\<lparr>buf_size := pos\<rparr> else b)
             in Inr (len, b\<lparr>buf_pos := pos\<rparr>)))))"

text \<open>Returns the bytes stored at \<open>dst\<close>, their number, and the buffer.\<close>

definition TecBuffer_read ::
  "TecBuffer \<Rightarrow> u64 \<Rightarrow> (u8 list \<times> u64 \<times> TecBuffer) outcome" where
  "TecBuffer_read b len =
     (if len = 0 then Inr ([], 0, b)
      else
        let len = (if buf_size b < buf_pos b + len then buf_size b - buf_pos b else len)
        in bind_outcome (mem_read (buf_data b) (sint (buf_pos b)) (unat len)) (\<lambda>bytes.
             Inr (bytes, len, b\<lparr>buf_pos := buf_pos b + len\<rparr>)))"

definition TecBuffer_tell :: "TecBuffer \<Rightarrow> u64" where
  "TecBuffer_tell b = buf_pos b"

definition TecBuffer_rewind :: "TecBuffer \<Rightarrow> TecBuffer" where
  "TecBuffer_rewind b = b\<lparr>buf_pos := 0\<rparr>"

text \<open>
  \<open>offset\<close> is a \<open>long\<close>. \<open>pos + offset\<close> is a signed sum; \<open>size + offset\<close> is unsigned and
  converted back. Every \<open>origin\<close> other than the first two is taken as the end.
\<close>

definition TecBuffer_seek :: "TecBuffer \<Rightarrow> u64 \<Rightarrow> int \<Rightarrow> (int \<times> TecBuffer) outcome" where
  "TecBuffer_seek b offset origin =
     bind_outcome
       (if origin = kTecSeekSet then Inr offset
        else if origin = kTecSeekCur
        then bind_outcome (signed64 (sint (buf_pos b) + sint offset)) (\<lambda>i. Inr (word_of_int i))
        else Inr (buf_size b + offset))
       (\<lambda>new_pos.
          if sint new_pos < 0 \<or> buf_size b < new_pos then Inr (TECC_EOB, b)
          else Inr (0, b\<lparr>buf_pos := new_pos\<rparr>))"

text \<open>
  \<open>str\<close> is the C string without its final zero, \<open>None\<close> for \<open>NULL\<close>. \<open>len\<close> is an \<open>int\<close>:
  \<open>strlen\<close> is truncated to 32 bits and \<open>len + 1\<close> is a signed sum.
\<close>

definition TecBuffer_puts ::
  "buffer_env \<Rightarrow> TecBuffer \<Rightarrow> u8 list option \<Rightarrow> (u64 \<times> TecBuffer) outcome" where
  "TecBuffer_puts env b str =
     (case str of
        None \<Rightarrow> Inr (0, b)
      | Some s \<Rightarrow>
          let len = sint (word_of_nat (length s) :: u32)
          in if len = 0 then Inr (0, b)
             else
               let pos = buf_pos b
               in bind_outcome (signed32 (len + 1)) (\<lambda>n.
                  bind_outcome (ensure_capacity env b pos (word_of_int n)) (\<lambda>b.
                  bind_outcome
                    (if 0 < sint pos then mem_read (buf_data b) (sint pos - 1) 1 else Inr [1])
                    (\<lambda>last.
                    let (pos, b) =
                      (if last = [0]
                       then (pos - 1, if buf_size b \<noteq> 0 then b\<lparr>buf_size := buf_size b - 1\<rparr> else b)
                       else (pos, b));
                      b = b\<lparr>buf_pos := pos\<rparr>
                    in TecBuffer_write env b (s @ [0]) (word_of_int n)))))"

section \<open>Well-formed buffers\<close>

definition buf_bytes :: "TecBuffer \<Rightarrow> u8 list" where
  "buf_bytes b = (case buf_data b of None \<Rightarrow> [] | Some d \<Rightarrow> d)"

text \<open>What a reader of the buffer sees: the first \<open>size\<close> bytes of the block.\<close>

definition buf_content :: "TecBuffer \<Rightarrow> u8 list" where
  "buf_content b = take (unat (buf_size b)) (buf_bytes b)"

definition buffer_wf :: "TecBuffer \<Rightarrow> bool" where
  "buffer_wf b \<longleftrightarrow>
     (buf_data b = None \<longleftrightarrow> buf_capacity b = 0) \<and>
     length (buf_bytes b) = unat (buf_capacity b) \<and>
     buf_size b \<le> buf_capacity b \<and> buf_pos b \<le> buf_size b \<and>
     buf_block_size b \<noteq> 0 \<and>
     (buf_capacity b \<noteq> 0 \<longrightarrow> buf_block_size b \<le> buf_capacity b) \<and>
     unat (buf_capacity b) < 2 ^ 63 \<and> unat (buf_block_size b) < 2 ^ 63"

text \<open>
  Room for \<open>n\<close> more bytes at \<open>p\<close>: an empty buffer must not be asked for more than one
  block (see \<open>fresh_write_overflow\<close> below).
\<close>

definition room_at :: "TecBuffer \<Rightarrow> nat \<Rightarrow> nat \<Rightarrow> bool" where
  "room_at b p n \<longleftrightarrow>
     p + n \<le> 2 ^ 61 \<and> (buf_capacity b \<noteq> 0 \<or> p + n \<le> unat (buf_block_size b))"

definition room :: "TecBuffer \<Rightarrow> nat \<Rightarrow> bool" where
  "room b n \<longleftrightarrow> room_at b (unat (buf_pos b)) n"

definition env_ok :: "buffer_env \<Rightarrow> bool" where
  "env_ok env \<longleftrightarrow> calloc_ok env = (\<lambda>_. True)"

text \<open>The environment in which allocation succeeds, with any error handler.\<close>

abbreviation ample :: "(TecBuffer \<Rightarrow> TecBuffer) option \<Rightarrow> buffer_env" where
  "ample h \<equiv> \<lparr>calloc_ok = (\<lambda>_. True), on_buffer_error = h\<rparr>"

lemma env_ok_ample: "env_ok env \<longleftrightarrow> (\<exists>h. env = ample h)"
  by (cases env) (simp add: env_ok_def)

lemma env_ok_ampleI [simp]: "env_ok (ample h)"
  by (simp add: env_ok_def)

lemma buffer_wfD:
  assumes "buffer_wf b"
  shows "unat (buf_size b) \<le> unat (buf_capacity b)"
    and "unat (buf_pos b) \<le> unat (buf_size b)"
    and "length (buf_bytes b) = unat (buf_capacity b)"
    and "sint (buf_pos b) = int (unat (buf_pos b))"
    and "unat (buf_capacity b) < 2 ^ 63"
    and "unat (buf_block_size b) < 2 ^ 63"
    and "0 < unat (buf_block_size b)"
  using assms u64_sint [of "buf_pos b"] unfolding buffer_wf_def word_le_nat_alt
  by (auto simp: u64_eq_0)

lemma length_buf_content [simp]:
  "buffer_wf b \<Longrightarrow> length (buf_content b) = unat (buf_size b)"
  using buffer_wfD(1,3) [of b] by (simp add: buf_content_def)

section \<open>Growing\<close>

lemma grow_capacity_done: "buf_capacity b \<le> n \<Longrightarrow> grow_capacity b n = Inr n"
  by (subst grow_capacity_def, subst while_option_unfold) (simp add: leD)

lemma grow_capacity_returns:
  assumes "unat (buf_capacity b) + unat (buf_block_size b) \<le> 2 ^ 64"
    and "buf_block_size b \<noteq> 0"
  shows "\<exists>n. grow_capacity b n0 = Inr n \<and> buf_capacity b \<le> n"
proof -
  have step: "unat (buf_capacity b) - unat (n + buf_block_size b)
      < unat (buf_capacity b) - unat n" if "n < buf_capacity b" for n
  proof -
    have "unat n < unat (buf_capacity b)" using that by (simp add: word_less_nat_alt)
    moreover from this have "unat (n + buf_block_size b) = unat n + unat (buf_block_size b)"
      using assms(1) by (intro u64_add) simp
    moreover have "0 < unat (buf_block_size b)" using assms(2) by (simp add: u64_eq_0)
    ultimately show ?thesis by linarith
  qed
  have "\<exists>n. while_option (\<lambda>n. n < buf_capacity b) (\<lambda>n. n + buf_block_size b) n0 = Some n"
    by (rule measure_while_option_Some
        [where P = "\<lambda>_. True" and f = "\<lambda>n. unat (buf_capacity b) - unat n"])
      (use step in auto)
  then obtain n where
    n: "while_option (\<lambda>n. n < buf_capacity b) (\<lambda>n. n + buf_block_size b) n0 = Some n"
    by blast
  from while_option_stop [OF n] n show ?thesis
    by (auto simp: grow_capacity_def)
qed

lemma realloc_buffer_ok:
  assumes "buffer_wf b" and "calloc_ok env n" and "buf_capacity b < n"
  shows "realloc_buffer env b n = Inr (True, b\<lparr>buf_capacity := n,
     buf_data := Some (overlay (replicate (unat n) 0) 0 (buf_content b))\<rparr>)"
proof (cases "buf_data b")
  case None
  then have "buf_content b = []" by (simp add: buf_content_def buf_bytes_def)
  with None assms show ?thesis by (simp add: realloc_buffer_def not_le)
next
  case (Some d)
  have d: "length d = unat (buf_capacity b)" and "unat (buf_size b) \<le> length d"
    using assms(1) buffer_wfD [OF assms(1)] Some by (simp_all add: buf_bytes_def)
  moreover from this have "length d < unat n" using assms(3) by (simp add: word_less_nat_alt)
  moreover have "mem_write (Some xs) 0 bs = Inr (Some (overlay xs 0 bs))"
    if "length bs \<le> length xs" for xs bs :: "u8 list"
    using that by (simp add: mem_write_def)
  moreover have "mem_read (Some d) 0 (unat (buf_size b)) = Inr (buf_content b)"
    using calculation(2) Some by (simp add: mem_read_def buf_content_def buf_bytes_def)
  ultimately show ?thesis
    using assms Some by (simp add: realloc_buffer_def not_le)
qed

lemma div_mult_bounds:
  fixes m n :: nat
  assumes "0 < n"
  shows "m div n * n \<le> m" and "m < m div n * n + n"
  using assms dividend_less_div_times [of n m] by simp_all

text \<open>
  The new capacity is enough for any buffer that is not empty: rounding \<open>pos + len\<close> down
  to whole blocks loses less than a block, and the old capacity is at least a block.
\<close>

lemma ensure_capacity_grow:
  assumes wf: "buffer_wf b" and env: "env_ok env"
    and room: "room_at b (unat pos) (unat len)" and big: "\<not> pos + len \<le> buf_capacity b"
  obtains n where "ensure_capacity env b pos len = Inr (b\<lparr>buf_capacity := n,
       buf_data := Some (overlay (replicate (unat n) 0) 0 (buf_content b))\<rparr>)"
    and "unat pos + unat len \<le> unat n" and "buf_capacity b < n" and "buf_block_size b \<le> n"
    and "unat n < 2 ^ 63"
proof -
  let ?c = "unat (buf_capacity b)" and ?bs = "unat (buf_block_size b)"
  note w = buffer_wfD [OF wf]
  define q where "q = (unat pos + unat len) div ?bs * ?bs"
  have q: "q \<le> unat pos + unat len" "unat pos + unat len < q + ?bs"
    using div_mult_bounds [OF w(7), of "unat pos + unat len"] by (simp_all add: q_def)
  have sum: "unat (pos + len) = unat pos + unat len"
    using room by (intro u64_add) (simp add: room_at_def)
  have gt: "?c < unat pos + unat len"
    using big sum by (simp add: word_le_nat_alt)
  define n where "n = (if buf_capacity b \<noteq> 0
      then buf_capacity b + ((pos + len) div buf_block_size b) * buf_block_size b
      else buf_block_size b)"
  have n: "unat n = (if buf_capacity b \<noteq> 0 then ?c + q else ?bs)"
  proof -
    have "q < 2 ^ 62" using q(1) room by (simp add: room_at_def)
    then have "unat ((pos + len) div buf_block_size b * buf_block_size b) = q"
      unfolding q_def by (simp add: u64_mult u64_div sum)
    moreover have "?c + q < 2 ^ 64" using \<open>q < 2 ^ 62\<close> w(5) by simp
    ultimately show ?thesis by (simp add: n_def u64_add)
  qed
  have enough: "unat pos + unat len \<le> unat n \<and> ?bs \<le> unat n \<and> unat n < 2 ^ 63"
  proof (cases "buf_capacity b = 0")
    case True
    then show ?thesis using room n w(6) by (simp add: room_at_def)
  next
    case False
    then have "?bs \<le> ?c" using wf by (simp add: buffer_wf_def word_le_nat_alt)
    moreover have "unat pos + unat len \<le> 2 ^ 61" using room by (simp add: room_at_def)
    ultimately show ?thesis using False n gt q by simp
  qed
  have lt: "buf_capacity b < n" using enough gt by (simp add: word_less_nat_alt)
  have "ensure_capacity env b pos len =
      bind_outcome (grow_capacity b n) (\<lambda>n. bind_outcome (realloc_buffer env b n)
        (\<lambda>(ok, b'). Inr (if ok then b' else ON_ERROR env b')))"
    using big wf by (simp add: ensure_capacity_def n_def buffer_wf_def)
  also have "\<dots> = Inr (b\<lparr>buf_capacity := n,
       buf_data := Some (overlay (replicate (unat n) 0) 0 (buf_content b))\<rparr>)"
    using grow_capacity_done [of b n] realloc_buffer_ok [OF wf _ lt, of env] lt env
    by (simp add: env_ok_def)
  finally show thesis
    using that enough lt by (simp add: word_le_nat_alt)
qed

lemma ensure_capacity_room:
  assumes wf: "buffer_wf b" and env: "env_ok env"
    and room: "room_at b (unat pos) (unat len)"
  obtains b' where "ensure_capacity env b pos len = Inr b'" and "buffer_wf b'"
    and "unat pos + unat len \<le> unat (buf_capacity b')"
    and "buf_content b' = buf_content b" and "buf_pos b' = buf_pos b"
    and "buf_size b' = buf_size b" and "buf_block_size b' = buf_block_size b"
proof (cases "pos + len \<le> buf_capacity b")
  case True
  have "unat (pos + len) = unat pos + unat len"
    using room by (intro u64_add) (simp add: room_at_def)
  with True have "unat pos + unat len \<le> unat (buf_capacity b)"
    by (simp add: word_le_nat_alt)
  then show thesis using that [of b] wf True by (simp add: ensure_capacity_def)
next
  case False
  from ensure_capacity_grow [OF wf env room False] obtain n where
    eq: "ensure_capacity env b pos len = Inr (b\<lparr>buf_capacity := n,
       buf_data := Some (overlay (replicate (unat n) 0) 0 (buf_content b))\<rparr>)"
    and n: "unat pos + unat len \<le> unat n" "buf_capacity b < n" "buf_block_size b \<le> n"
      "unat n < 2 ^ 63" .
  let ?b = "b\<lparr>buf_capacity := n,
       buf_data := Some (overlay (replicate (unat n) 0) 0 (buf_content b))\<rparr>"
  note w = buffer_wfD [OF wf]
  have le: "unat (buf_size b) \<le> unat n" using n(2) w(1) by (simp add: word_less_nat_alt)
  have "length (buf_content b) = unat (buf_size b)" using wf by simp
  then have "buf_content ?b = buf_content b"
    using le by (subst buf_content_def) (simp add: buf_bytes_def take_overlay_end)
  moreover have "buffer_wf ?b"
    using wf le n by (auto simp: buffer_wf_def buf_bytes_def word_le_nat_alt)
  ultimately show thesis using that [of ?b] eq n(1) by simp
qed

text \<open>
  The growth loop always ends: for every well-formed buffer and
  every request, even one whose sum wraps around, \<open>ensure_capacity\<close> returns.
\<close>

theorem ensure_capacity_returns:
  assumes "buffer_wf b"
  shows "\<exists>b'. ensure_capacity env b pos len = Inr b'"
proof -
  note w = buffer_wfD [OF assms]
  have "\<exists>n. grow_capacity b n0 = Inr n" for n0
    using grow_capacity_returns [of b n0] w(5,6,7) by (auto simp: u64_eq_0)
  moreover have "\<exists>r. realloc_buffer env b n = Inr r" for n
  proof (cases "n \<le> buf_capacity b \<or> \<not> calloc_ok env n")
    case True
    then show ?thesis by (auto simp: realloc_buffer_def)
  next
    case False
    then show ?thesis using realloc_buffer_ok [OF assms, of env n] by (force simp: not_le)
  qed
  ultimately have "\<exists>b'. bind_outcome (grow_capacity b n0) (\<lambda>n.
      bind_outcome (realloc_buffer env b n) (\<lambda>(ok, b').
        Inr (if ok then b' else ON_ERROR env b'))) = Inr b'" for n0
    by (metis (no_types, lifting) bind_outcome.simps(2) case_prod_beta)
  then show ?thesis
    using assms by (simp add: ensure_capacity_def buffer_wf_def Let_def)
qed

text \<open>A buffer of one 8-byte block with four bytes written; the position is 3.\<close>

definition sample_buffer :: TecBuffer where
  "sample_buffer =
     \<lparr>buf_data = Some [72, 105, 0, 200, 0, 0, 0, 0], buf_pos = 3, buf_size = 4,
      buf_capacity = 8, buf_block_size = 8\<rparr>"

lemma sample_buffer_wf: "buffer_wf sample_buffer"
  by (simp add: buffer_wf_def sample_buffer_def buf_bytes_def)

lemma sample_fields [simp]:
  "buf_pos sample_buffer = 3" "buf_size sample_buffer = 4" "buf_capacity sample_buffer = 8"
  "buf_block_size sample_buffer = 8" "buf_data sample_buffer = Some [72, 105, 0, 200, 0, 0, 0, 0]"
  by (simp_all add: sample_buffer_def)

lemma sample_content: "buf_content sample_buffer = [72, 105, 0, 200]"
  by (simp add: buf_content_def buf_bytes_def sample_buffer_def)

theorem ensure_capacity_returns_witness:
  "\<exists>b'. ensure_capacity (ample None) sample_buffer (- 1) 7 = Inr b'"
  by (rule ensure_capacity_returns) (rule sample_buffer_wf)

section \<open>The contract: a byte file\<close>

text \<open>
  What the header promises: a sequence of bytes with a position, read and written as a
  \<open>stdio\<close> file.
\<close>

record bfile =
  bf_bytes :: "u8 list"
  bf_pos :: nat

definition file_of :: "TecBuffer \<Rightarrow> bfile" where
  "file_of b = \<lparr>bf_bytes = buf_content b, bf_pos = unat (buf_pos b)\<rparr>"

definition file_write :: "bfile \<Rightarrow> u8 list \<Rightarrow> bfile" where
  "file_write f bs =
     \<lparr>bf_bytes = overlay (bf_bytes f) (bf_pos f) bs, bf_pos = bf_pos f + length bs\<rparr>"

definition file_read :: "bfile \<Rightarrow> nat \<Rightarrow> u8 list \<times> bfile" where
  "file_read f n =
     (let bs = take n (drop (bf_pos f) (bf_bytes f)) in (bs, f\<lparr>bf_pos := bf_pos f + length bs\<rparr>))"

definition file_seek :: "bfile \<Rightarrow> int \<Rightarrow> int \<Rightarrow> int \<times> bfile" where
  "file_seek f offset origin =
     (let base = (if origin = kTecSeekSet then 0
                  else if origin = kTecSeekCur then int (bf_pos f)
                  else int (length (bf_bytes f)));
          p = base + offset
      in if 0 \<le> p \<and> p \<le> int (length (bf_bytes f)) then (0, f\<lparr>bf_pos := nat p\<rparr>)
         else (TECC_EOB, f))"

lemma file_of_pos: "buffer_wf b \<Longrightarrow> bf_pos (file_of b) \<le> length (bf_bytes (file_of b))"
  using buffer_wfD(2) [of b] by (simp add: file_of_def)

lemma buf_content_overlay:
  assumes wf: "buffer_wf b" and d: "buf_data b = Some d"
    and fits: "unat (buf_pos b) + length bs \<le> unat (buf_capacity b)"
    and sz: "unat sz = max (unat (buf_size b)) (unat (buf_pos b) + length bs)"
  shows "take (unat sz) (overlay d (unat (buf_pos b)) bs)
       = overlay (buf_content b) (unat (buf_pos b)) bs"
proof -
  let ?p = "unat (buf_pos b)"
  note w = buffer_wfD [OF wf]
  have len: "length d = unat (buf_capacity b)" using w(3) d by (simp add: buf_bytes_def)
  have c: "buf_content b = take (unat (buf_size b)) d"
    using d by (simp add: buf_content_def buf_bytes_def)
  show ?thesis
  proof (cases "?p + length bs \<le> unat (buf_size b)")
    case True
    then show ?thesis using sz len w(1) by (simp add: c take_overlay)
  next
    case False
    then have "take (unat sz) (overlay d ?p bs) = take ?p d @ bs"
      using sz len fits by (intro take_overlay_end) simp_all
    moreover have "overlay (buf_content b) ?p bs = take ?p d @ bs"
      using False w(1,2) len by (simp add: overlay_def c min_def)
    ultimately show ?thesis by simp
  qed
qed

lemma write_room:
  assumes wf: "buffer_wf b" and env: "env_ok env" and room: "room b (unat len)"
    and src: "unat len \<le> length src"
  obtains b' where "TecBuffer_write env b src len = Inr (len, b')" and "buffer_wf b'"
    and "file_of b' = file_write (file_of b) (take (unat len) src)"
    and "buf_block_size b' = buf_block_size b"
    and "len \<noteq> 0 \<Longrightarrow> buf_capacity b' \<noteq> 0" and "len = 0 \<Longrightarrow> b' = b"
proof (cases "len = 0")
  case True
  then show thesis
    using that [of b] wf by (simp add: TecBuffer_write_def file_write_def file_of_def)
next
  case False
  let ?p = "unat (buf_pos b)" and ?bs = "take (unat len) src"
  obtain b1 where
    e: "ensure_capacity env b (buf_pos b) len = Inr b1" and wf1: "buffer_wf b1"
    and cap: "?p + unat len \<le> unat (buf_capacity b1)"
    and keep: "buf_content b1 = buf_content b" "buf_pos b1 = buf_pos b"
      "buf_size b1 = buf_size b" "buf_block_size b1 = buf_block_size b"
    using ensure_capacity_room [OF wf env, of "buf_pos b" len] room
    unfolding room_def by blast
  note w1 = buffer_wfD [OF wf1]
  have len0: "0 < unat len" using False by (simp add: unat_gt_0)
  have cap0: "buf_capacity b1 \<noteq> 0" using cap len0 by (auto simp: u64_eq_0)
  then obtain d where d: "buf_data b1 = Some d" using wf1 by (auto simp: buffer_wf_def)
  have dl: "length d = unat (buf_capacity b1)" using w1(3) d by (simp add: buf_bytes_def)
  have bl: "length ?bs = unat len" using src by simp
  let ?d = "overlay d ?p ?bs"
  have rd: "mem_read (Some src) 0 (unat len) = Inr ?bs" using src by (simp add: mem_read_def)
  have wr: "mem_write (buf_data b1) (sint (buf_pos b)) ?bs = Inr (Some ?d)"
    using mem_write_ok [of "int ?p" ?bs d] cap dl bl w1(4) keep(2) by (simp add: d)
  have sum: "unat (buf_pos b + len) = ?p + unat len"
    using room by (intro u64_add) (simp add: room_def room_at_def)
  define sz where "sz = (if buf_size b < buf_pos b + len then buf_pos b + len else buf_size b)"
  have sz: "unat sz = max (unat (buf_size b1)) (unat (buf_pos b1) + length ?bs)"
    using sum bl keep by (simp add: sz_def word_less_nat_alt)
  let ?b = "b1\<lparr>buf_data := Some ?d, buf_size := sz, buf_pos := buf_pos b + len\<rparr>"
  have res: "TecBuffer_write env b src len = Inr (len, ?b)"
    using False e rd wr by (simp add: TecBuffer_write_def Let_def keep sz_def)
  have "buf_content ?b = overlay (buf_content b) ?p ?bs"
    using buf_content_overlay [OF wf1 d _ sz] cap bl keep
    by (simp add: buf_content_def buf_bytes_def)
  then have fw: "file_of ?b = file_write (file_of b) ?bs"
    using bl sum by (simp add: file_of_def file_write_def)
  have "buffer_wf ?b"
    using wf1 w1 cap0 cap dl sum sz bl keep
    by (auto simp: buffer_wf_def buf_bytes_def word_le_nat_alt d)
  then show thesis using that [of ?b] res fw False cap0 keep by simp
qed

text \<open>
  C13: on a well-formed buffer with room, \<open>TecBuffer_write\<close> stores all
  the bytes, keeps the buffer well-formed and does to the file it represents what a file
  write at the current position does.
\<close>

theorem write_refines_file_write:
  assumes "buffer_wf b" and "env_ok env" and "room b (length bs)" and "unat len = length bs"
  shows "\<exists>b'. TecBuffer_write env b bs len = Inr (len, b') \<and> buffer_wf b' \<and>
     file_of b' = file_write (file_of b) bs"
  using write_room [OF assms(1,2), of len bs] assms(3,4) by force

theorem write_refines_file_write_witness:
  "\<exists>b'. TecBuffer_write (ample None) sample_buffer [1, 2, 3] 3 = Inr (3, b') \<and>
     buf_content b' = [72, 105, 0, 1, 2, 3] \<and> unat (buf_pos b') = 6"
proof -
  obtain b' where b': "TecBuffer_write (ample None) sample_buffer [1, 2, 3] 3 = Inr (3, b')"
    "file_of b' = file_write (file_of sample_buffer) [1, 2, 3]"
    using write_refines_file_write [OF sample_buffer_wf, of "ample None" "[1, 2, 3]" 3]
    by (auto simp: room_def room_at_def)
  then have "buf_content b' = [72, 105, 0, 1, 2, 3]" and "unat (buf_pos b') = 6"
    by (simp_all add: file_of_def file_write_def overlay_def sample_content)
  then show ?thesis using b'(1) by auto
qed

lemma read_spec:
  assumes wf: "buffer_wf b" and len: "unat len < 2 ^ 63"
  shows "\<exists>bs n b'. TecBuffer_read b len = Inr (bs, n, b') \<and> buffer_wf b' \<and>
     unat n = length bs \<and> (bs, file_of b') = file_read (file_of b) (unat len)"
proof (cases "len = 0")
  case True
  then show ?thesis
    using wf by (simp add: TecBuffer_read_def file_read_def file_of_def)
next
  case False
  let ?p = "unat (buf_pos b)" and ?s = "unat (buf_size b)"
  note w = buffer_wfD [OF wf]
  define n where "n = (if buf_size b < buf_pos b + len then buf_size b - buf_pos b else len)"
  have sum: "unat (buf_pos b + len) = ?p + unat len"
    using w(1,2,5) len by (intro u64_add) simp
  have sub: "unat (buf_size b - buf_pos b) = ?s - ?p"
    using wf by (intro u64_sub) (simp add: buffer_wf_def)
  have n: "unat n = min (unat len) (?s - ?p)"
    using sum sub w(2) by (auto simp: n_def word_less_nat_alt)
  let ?bs = "take (unat len) (drop ?p (buf_content b))"
  have bl: "length ?bs = unat n" using n wf by simp
  have rd: "mem_read (buf_data b) (sint (buf_pos b)) (unat n) = Inr ?bs"
  proof (cases "unat n = 0")
    case True
    then show ?thesis using bl by (auto simp: mem_read_def)
  next
    case False
    then obtain d where d: "buf_data b = Some d"
      using n w(1,2) wf by (cases "buf_data b") (auto simp: buffer_wf_def)
    have "?p + unat n \<le> length d" using n w(1,2,3) d by (simp add: buf_bytes_def)
    then have "mem_read (buf_data b) (sint (buf_pos b)) (unat n) = Inr (take (unat n) (drop ?p d))"
      using mem_read_ok [of "int ?p" "unat n" d] w(4) by (simp add: d)
    also have "take (unat n) (drop ?p d) = ?bs"
      using n d by (simp add: buf_content_def buf_bytes_def drop_take min.commute)
    finally show ?thesis .
  qed
  let ?b = "b\<lparr>buf_pos := buf_pos b + n\<rparr>"
  have pos: "unat (buf_pos b + n) = ?p + unat n"
    using n w(1,2,5) by (intro u64_add) simp
  have "TecBuffer_read b len = Inr (?bs, n, ?b)"
    using False rd by (simp add: TecBuffer_read_def Let_def n_def)
  moreover have "buffer_wf ?b"
    using wf pos n w(2) by (simp add: buffer_wf_def buf_bytes_def word_le_nat_alt)
  moreover have "(?bs, file_of ?b) = file_read (file_of b) (unat len)"
    using pos bl by (simp add: file_read_def file_of_def Let_def buf_content_def buf_bytes_def)
  ultimately show ?thesis using bl by auto
qed

text \<open>
  C#read_refines_file_read: \<open>TecBuffer_read\<close> returns the bytes between the position and the end
  of the file, at most as many as asked for, and advances the position by their number.
\<close>

theorem read_refines_file_read:
  assumes wf: "buffer_wf b" and len: "unat len < 2 ^ 63"
  shows "\<exists>bs n b'. TecBuffer_read b len = Inr (bs, n, b') \<and> buffer_wf b' \<and>
     unat n = length bs \<and> (bs, file_of b') = file_read (file_of b) (unat len)"
  using assms by (rule read_spec)

theorem read_refines_file_read_witness:
  "\<exists>n b'. TecBuffer_read sample_buffer 5 = Inr ([200], n, b') \<and> unat n = 1"
  using read_refines_file_read [OF sample_buffer_wf, of 5]
  by (auto simp: file_read_def file_of_def sample_content Let_def)

text \<open>
  C#seek_refines_file_seek: \<open>TecBuffer_seek\<close> moves to the requested position when it lies
  between the start and the end of the file and returns \<open>TECC_EOB\<close> without moving
  otherwise; only a relative seek beyond the range of \<open>long\<close> is undefined.
\<close>

theorem seek_refines_file_seek:
  assumes wf: "buffer_wf b"
    and range: "origin = kTecSeekCur \<Longrightarrow> in_s64 (sint (buf_pos b) + sint offset)"
  shows "\<exists>r b'. TecBuffer_seek b offset origin = Inr (r, b') \<and> buffer_wf b' \<and>
     (r, file_of b') = file_seek (file_of b) (sint offset) origin"
proof -
  note w = buffer_wfD [OF wf]
  have size: "sint (buf_size b) = int (unat (buf_size b))"
    using w(1,5) by (intro u64_sint) simp
  define base where "base = (if origin = kTecSeekSet then 0
      else if origin = kTecSeekCur then int (unat (buf_pos b)) else int (unat (buf_size b)))"
  define np where "np = (if origin = kTecSeekSet then offset
      else if origin = kTecSeekCur then word_of_int (sint (buf_pos b) + sint offset)
      else buf_size b + offset)"
  let ?t = "base + sint offset"
  have "0 \<le> sint np \<and> sint np \<le> int (unat (buf_size b)) \<longleftrightarrow>
        0 \<le> ?t \<and> ?t \<le> int (unat (buf_size b))" and
    val: "0 \<le> ?t \<and> ?t \<le> int (unat (buf_size b)) \<longrightarrow> sint np = ?t"
    using range w(4) in_s64_sint [of offset] in_s64_sint [of "buf_size b"] size
    by (auto simp: np_def base_def kTecSeekSet_def kTecSeekCur_def u64_sint_of_int
        u64_sint_add Let_def in_s64_def)
  moreover have "\<not> sint np < 0 \<and> \<not> buf_size b < np \<longleftrightarrow>
      0 \<le> sint np \<and> sint np \<le> int (unat (buf_size b))"
    using u64_unat_sint [of np] by (auto simp: word_less_alt not_less)
  ultimately have iff: "\<not> sint np < 0 \<and> \<not> buf_size b < np \<longleftrightarrow>
      0 \<le> ?t \<and> ?t \<le> int (unat (buf_size b))" by simp
  have eq: "TecBuffer_seek b offset origin =
      (if sint np < 0 \<or> buf_size b < np then Inr (TECC_EOB, b)
       else Inr (0, b\<lparr>buf_pos := np\<rparr>))"
    using range by (simp add: TecBuffer_seek_def np_def)
  have spec: "file_seek (file_of b) (sint offset) origin =
      (if 0 \<le> ?t \<and> ?t \<le> int (unat (buf_size b))
       then (0, (file_of b)\<lparr>bf_pos := nat ?t\<rparr>) else (TECC_EOB, file_of b))"
    using wf by (auto simp: file_seek_def base_def file_of_def Let_def)
  show ?thesis
  proof (cases "0 \<le> ?t \<and> ?t \<le> int (unat (buf_size b))")
    case False
    then show ?thesis using eq iff spec wf by auto
  next
    case True
    then have np: "int (unat np) = ?t" using val u64_unat_sint [of np] by simp
    then have "unat np \<le> unat (buf_size b)" using True by linarith
    then have "buffer_wf (b\<lparr>buf_pos := np\<rparr>)"
      using wf by (simp add: buffer_wf_def buf_bytes_def word_le_nat_alt)
    moreover have "file_of (b\<lparr>buf_pos := np\<rparr>) = (file_of b)\<lparr>bf_pos := nat ?t\<rparr>"
      using np by (simp add: file_of_def buf_content_def buf_bytes_def flip: np)
    ultimately show ?thesis using eq iff spec True by auto
  qed
qed

theorem seek_refines_file_seek_witness:
  "\<exists>b'. TecBuffer_seek sample_buffer (- 2) kTecSeekCur = Inr (0, b') \<and> bf_pos (file_of b') = 1"
proof -
  have "in_s64 (sint (buf_pos sample_buffer) + sint (- 2 :: u64))"
    by (simp add: sample_buffer_def in_s64_def)
  then have "\<exists>r b'. TecBuffer_seek sample_buffer (- 2) kTecSeekCur = Inr (r, b') \<and> buffer_wf b' \<and>
      (r, file_of b') = file_seek (file_of sample_buffer) (sint (- 2 :: u64)) kTecSeekCur"
    by (intro seek_refines_file_seek sample_buffer_wf)
  then show ?thesis
    by (auto simp: file_seek_def file_of_def sample_content kTecSeekCur_def kTecSeekSet_def)
qed

section \<open>Initialisation\<close>

definition fresh_buffer :: "u64 \<Rightarrow> TecBuffer" where
  "fresh_buffer bs =
     \<lparr>buf_data = None, buf_pos = 0, buf_size = 0, buf_capacity = 0, buf_block_size = bs\<rparr>"

definition one_block_buffer :: "u64 \<Rightarrow> TecBuffer" where
  "one_block_buffer bs =
     \<lparr>buf_data = Some (replicate (unat bs) 0), buf_pos = 0, buf_size = 0, buf_capacity = bs,
      buf_block_size = bs\<rparr>"

lemma fresh_buffer_wf: "bs \<noteq> 0 \<Longrightarrow> unat bs < 2 ^ 63 \<Longrightarrow> buffer_wf (fresh_buffer bs)"
  by (simp add: buffer_wf_def fresh_buffer_def buf_bytes_def)

lemma one_block_buffer_wf: "bs \<noteq> 0 \<Longrightarrow> unat bs < 2 ^ 63 \<Longrightarrow> buffer_wf (one_block_buffer bs)"
  by (simp add: buffer_wf_def one_block_buffer_def buf_bytes_def)

lemma grow_fresh:
  assumes "env_ok env" and "bs \<noteq> 0" and "len \<noteq> 0"
  shows "ensure_capacity env (fresh_buffer bs) 0 len = Inr (one_block_buffer bs)"
proof -
  have "\<not> len \<le> 0" and "\<not> bs \<le> 0" using assms by simp_all
  then show ?thesis
    using assms grow_capacity_done [of "fresh_buffer bs" bs]
    by (simp add: ensure_capacity_def fresh_buffer_def realloc_buffer_def env_ok_def
        one_block_buffer_def)
qed

lemma TecBuffer_init_result:
  assumes "env_ok env"
  shows "TecBuffer_init env n bs =
     (let k = (if bs = 0 then TECC_BUFFER_BLOCK_SIZE else bs)
      in Inr (if n = 0 then fresh_buffer k else one_block_buffer k))"
proof -
  define k where "k = (if bs = 0 then TECC_BUFFER_BLOCK_SIZE else bs)"
  have "k \<noteq> 0" by (simp add: k_def TECC_BUFFER_BLOCK_SIZE_def)
  then show ?thesis
    using grow_fresh [OF assms, of k n]
    by (simp add: TecBuffer_init_def Let_def flip: k_def fresh_buffer_def) (simp add: fresh_buffer_def)
qed

text \<open>
  Whatever initial size is asked for, \<open>TecBuffer_init\<close> allocates
  exactly one block (and nothing when the size is 0).
\<close>

theorem init_allocates_one_block:
  assumes "env_ok env"
  shows "TecBuffer_init env n bs =
     (let k = (if bs = 0 then TECC_BUFFER_BLOCK_SIZE else bs)
      in Inr (if n = 0 then fresh_buffer k else one_block_buffer k))"
  using assms by (rule TecBuffer_init_result)

theorem init_allocates_one_block_witness:
  "TecBuffer_init (ample None) 1000 16 = Inr (one_block_buffer 16)"
  using init_allocates_one_block [OF env_ok_ampleI, of None 1000 16] by simp

text \<open>
  The first write to an empty buffer, when it is longer than one
  block, writes past the end of the block it has just allocated: \<open>ensure_capacity\<close> takes
  one block for an empty buffer whatever the request is.
\<close>

theorem fresh_write_overflow:
  assumes "env_ok env" and "bs \<noteq> 0" and "bs < len" and "unat len \<le> length src"
  shows "TecBuffer_write env (fresh_buffer bs) src len = Inl Out_of_bounds"
proof -
  have lt: "unat bs < unat len" using assms(3) by (simp add: word_less_nat_alt)
  then have "len \<noteq> 0" and "take (unat len) src \<noteq> []" using assms(4) by auto
  moreover have "buf_pos (fresh_buffer bs) = 0" by (simp add: fresh_buffer_def)
  moreover have "mem_read (Some src) 0 (unat len) = Inr (take (unat len) src)"
    using assms(4) by (simp add: mem_read_def)
  moreover have "mem_write (buf_data (one_block_buffer bs)) 0 (take (unat len) src)
      = Inl Out_of_bounds"
    using lt assms(4) \<open>take (unat len) src \<noteq> []\<close>
    by (auto simp: mem_write_def one_block_buffer_def)
  ultimately show ?thesis
    using grow_fresh [OF assms(1,2)] by (simp add: TecBuffer_write_def Let_def)
qed

theorem fresh_write_overflow_witness:
  "TecBuffer_write \<lparr>calloc_ok = (\<lambda>_. True), on_buffer_error = None\<rparr> (fresh_buffer 80)
     (replicate 81 65) 81 = Inl Out_of_bounds"
  by (rule fresh_write_overflow) (simp_all add: env_ok_def)

lemma done_fresh: "TecBuffer_done b = fresh_buffer (buf_block_size b)"
  by (simp add: TecBuffer_done_def fresh_buffer_def)

section \<open>The interface for clients: a byte stream\<close>

text \<open>
  What the socket layer and the table printer rely on: bytes put one after the other are
  the bytes read back.
\<close>

locale byte_stream =
  fixes ok :: "'b \<Rightarrow> bool"
    and file_at :: "'b \<Rightarrow> bfile"
    and space :: "'b \<Rightarrow> nat \<Rightarrow> bool"
    and put :: "'b \<Rightarrow> u8 list \<Rightarrow> 'b outcome"
    and get :: "'b \<Rightarrow> nat \<Rightarrow> (u8 list \<times> 'b) outcome"
    and rewind :: "'b \<Rightarrow> 'b"
  assumes pos_le: "ok b \<Longrightarrow> bf_pos (file_at b) \<le> length (bf_bytes (file_at b))"
    and space_mono: "space b n \<Longrightarrow> m \<le> n \<Longrightarrow> space b m"
    and put_spec: "ok b \<Longrightarrow> space b (length bs) \<Longrightarrow>
      \<exists>b'. put b bs = Inr b' \<and> ok b' \<and> file_at b' = file_write (file_at b) bs"
    and put_space: "ok b \<Longrightarrow> space b (length bs + n) \<Longrightarrow> put b bs = Inr b' \<Longrightarrow> space b' n"
    and get_spec: "ok b \<Longrightarrow> n < 2 ^ 63 \<Longrightarrow>
      \<exists>bs b'. get b n = Inr (bs, b') \<and> ok b' \<and> (bs, file_at b') = file_read (file_at b) n"
    and rewind_spec: "ok b \<Longrightarrow> ok (rewind b) \<and> file_at (rewind b) = (file_at b)\<lparr>bf_pos := 0\<rparr>"
begin

lemma file_write_append:
  assumes "bf_pos f \<le> length (bf_bytes f)"
  shows "file_write (file_write f xs) ys = file_write f (xs @ ys)"
proof -
  have "drop (length ys) (drop (bf_pos f + length xs) (bf_bytes f))
      = drop (bf_pos f + (length xs + length ys)) (bf_bytes f)"
    by (simp add: ac_simps)
  then show ?thesis using assms by (simp add: file_write_def overlay_def)
qed

lemma put_all:
  "ok b \<Longrightarrow> space b (length (concat chunks)) \<Longrightarrow>
   \<exists>b'. fold_outcome put b chunks = Inr b' \<and> ok b' \<and>
     file_at b' = file_write (file_at b) (concat chunks)"
proof (induction chunks arbitrary: b)
  case Nil
  then show ?case by (simp add: file_write_def)
next
  case (Cons c cs)
  then have "space b (length c)" by (auto intro: space_mono)
  then obtain b1 where
    b1: "put b c = Inr b1" "ok b1" "file_at b1 = file_write (file_at b) c"
    using put_spec Cons.prems(1) by blast
  have "space b1 (length (concat cs))"
    using put_space [OF Cons.prems(1) _ b1(1)] Cons.prems(2) by simp
  from Cons.IH [OF b1(2) this] show ?case
    using b1 file_write_append [OF pos_le [OF Cons.prems(1)]] by auto
qed

lemma put_all_rewind_get:
  assumes ok: "ok b" and empty: "bf_bytes (file_at b) = []"
    and fits: "space b (length (concat chunks))"
    and n: "length (concat chunks) \<le> n" "n < 2 ^ 63"
  shows "\<exists>b1 b2. fold_outcome put b chunks = Inr b1 \<and>
     get (rewind b1) n = Inr (concat chunks, b2)"
proof -
  obtain b1 where b1: "fold_outcome put b chunks = Inr b1" "ok b1"
    "file_at b1 = file_write (file_at b) (concat chunks)"
    using put_all [OF ok fits] by blast
  have "bf_pos (file_at b) = 0" using pos_le [OF ok] empty by simp
  then have bytes: "bf_bytes (file_at b1) = concat chunks"
    using b1(3) empty by (simp add: file_write_def overlay_def)
  from rewind_spec [OF b1(2)] obtain
    rw: "ok (rewind b1)" "file_at (rewind b1) = (file_at b1)\<lparr>bf_pos := 0\<rparr>" by blast
  then obtain bs b2 where
    "get (rewind b1) n = Inr (bs, b2)" "(bs, file_at b2) = file_read (file_at (rewind b1)) n"
    using get_spec [OF _ n(2)] by blast
  then show ?thesis using b1(1) rw(2) bytes n(1) by (auto simp: file_read_def Let_def)
qed

end

definition put_bytes :: "buffer_env \<Rightarrow> TecBuffer \<Rightarrow> u8 list \<Rightarrow> TecBuffer outcome" where
  "put_bytes env b bs =
     bind_outcome (TecBuffer_write env b bs (word_of_nat (length bs))) (\<lambda>(n, b'). Inr b')"

definition get_bytes :: "TecBuffer \<Rightarrow> nat \<Rightarrow> (u8 list \<times> TecBuffer) outcome" where
  "get_bytes b n = bind_outcome (TecBuffer_read b (word_of_nat n)) (\<lambda>(bs, k, b'). Inr (bs, b'))"

lemma room_unat: "room b n \<Longrightarrow> unat (word_of_nat n :: u64) = n"
  by (intro u64_of_nat) (simp add: room_def room_at_def)

lemma put_bytes_room:
  assumes "buffer_wf b" and "env_ok env" and "room b (length bs)"
  obtains b' where "put_bytes env b bs = Inr b'" and "buffer_wf b'"
    and "file_of b' = file_write (file_of b) bs"
    and "buf_block_size b' = buf_block_size b"
    and "bs \<noteq> [] \<Longrightarrow> buf_capacity b' \<noteq> 0" and "bs = [] \<Longrightarrow> b' = b"
proof -
  let ?len = "word_of_nat (length bs) :: u64"
  have len: "unat ?len = length bs" using assms(3) by (rule room_unat)
  have "room b (unat ?len)" and "unat ?len \<le> length bs"
    using len assms(3) by simp_all
  from write_room [OF assms(1,2) this] obtain b' where
    b': "TecBuffer_write env b bs ?len = Inr (?len, b')" "buffer_wf b'"
      "file_of b' = file_write (file_of b) (take (unat ?len) bs)"
      "buf_block_size b' = buf_block_size b"
      "?len \<noteq> 0 \<longrightarrow> buf_capacity b' \<noteq> 0" "?len = 0 \<longrightarrow> b' = b" by blast
  have "?len = 0 \<longleftrightarrow> bs = []" using len by (simp only: u64_eq_0 length_0_conv)
  with b' len show thesis
    by (intro that [of b']) (simp_all add: put_bytes_def)
qed

interpretation buffer_stream: byte_stream buffer_wf file_of room "put_bytes (ample h)" get_bytes
  TecBuffer_rewind for h
proof
  show "bf_pos (file_of b) \<le> length (bf_bytes (file_of b))" if "buffer_wf b" for b
    using that by (rule file_of_pos)
  show "room b m" if "room b n" "m \<le> n" for b n m
    using that by (auto simp: room_def room_at_def)
  show "\<exists>b'. put_bytes (ample h) b bs = Inr b' \<and> buffer_wf b' \<and>
      file_of b' = file_write (file_of b) bs" if "buffer_wf b" "room b (length bs)" for b bs
    using put_bytes_room [OF that(1) _ that(2), of "ample h"] by (metis env_ok_ample)
  show "room b' n"
    if wf: "buffer_wf b" and room: "room b (length bs + n)" and eq: "put_bytes (ample h) b bs = Inr b'"
    for b bs n b'
  proof -
    have "room b (length bs)" using room by (auto simp: room_def room_at_def)
    then obtain b1 where "put_bytes (ample h) b bs = Inr b1"
      "file_of b1 = file_write (file_of b) bs" "bs \<noteq> [] \<Longrightarrow> buf_capacity b1 \<noteq> 0"
      "bs = [] \<Longrightarrow> b1 = b"
      using put_bytes_room [OF wf, of "ample h" bs] by (metis env_ok_ample)
    then have "unat (buf_pos b') = unat (buf_pos b) + length bs"
      "bs \<noteq> [] \<Longrightarrow> buf_capacity b' \<noteq> 0" "bs = [] \<Longrightarrow> b' = b"
      using eq by (simp_all add: file_of_def file_write_def)
    then show ?thesis using room by (cases "bs = []") (auto simp: room_def room_at_def)
  qed
  show "\<exists>bs b'. get_bytes b n = Inr (bs, b') \<and> buffer_wf b' \<and> (bs, file_of b') = file_read (file_of b) n"
    if "buffer_wf b" "n < 2 ^ 63" for b n
    using read_spec [OF that(1), of "word_of_nat n"] that(2)
    by (auto simp: get_bytes_def u64_of_nat)
  show "buffer_wf (TecBuffer_rewind b) \<and> file_of (TecBuffer_rewind b) = (file_of b)\<lparr>bf_pos := 0\<rparr>"
    if "buffer_wf b" for b
    using that by (simp add: buffer_wf_def TecBuffer_rewind_def file_of_def buf_content_def buf_bytes_def)
qed

text \<open>
  C15: any sequence of writes to a buffer created with a non-zero
  initial size, followed by a rewind and one read, gives back exactly the bytes written, in
  order.
\<close>

theorem create_write_read_roundtrip:
  assumes "TecBuffer_create (ample h) n bs = Inr b" and "n \<noteq> 0" and "unat bs < 2 ^ 63"
    and "length (concat chunks) \<le> 2 ^ 61"
  shows "\<exists>b1 b2. fold_outcome (put_bytes (ample h)) b chunks = Inr b1 \<and>
     get_bytes (TecBuffer_rewind b1) (length (concat chunks)) = Inr (concat chunks, b2)"
proof -
  define k where "k = (if bs = 0 then TECC_BUFFER_BLOCK_SIZE else bs)"
  have k: "k \<noteq> 0" "unat k < 2 ^ 63"
    using assms(3) by (simp_all add: k_def TECC_BUFFER_BLOCK_SIZE_def)
  have b: "b = one_block_buffer k"
    using assms(1,2) TecBuffer_init_result [of "ample h" n bs]
    by (simp add: TecBuffer_create_def Let_def k_def env_ok_def)
  have "room b (length (concat chunks))"
    using assms(4) k(1) by (simp add: b room_def room_at_def one_block_buffer_def)
  moreover have "bf_bytes (file_of b) = []"
    by (simp add: b file_of_def buf_content_def buf_bytes_def one_block_buffer_def)
  ultimately show ?thesis
    using buffer_stream.put_all_rewind_get [of b chunks "length (concat chunks)"]
      one_block_buffer_wf [OF k] assms(4) b by simp
qed

theorem create_write_read_roundtrip_witness:
  "\<exists>b b1 b2. TecBuffer_create (ample None) 1 4 = Inr b \<and>
     fold_outcome (put_bytes (ample None)) b [[1, 2, 3], [], [4, 5, 6, 7]] = Inr b1 \<and>
     get_bytes (TecBuffer_rewind b1) 7 = Inr ([1, 2, 3, 4, 5, 6, 7], b2)"
proof -
  have "TecBuffer_create (ample None) 1 4 = Inr (one_block_buffer 4)"
    by (simp add: TecBuffer_create_def TecBuffer_init_result)
  moreover have c: "concat [[1, 2, 3], [], [4, 5, 6, 7 :: u8]] = [1, 2, 3, 4, 5, 6, 7]"
    and l: "length [1, 2, 3, 4, 5, 6, 7 :: u8] = 7"
    by simp_all
  ultimately show ?thesis
    using create_write_read_roundtrip [of None 1 4 "one_block_buffer 4"
        "[[1, 2, 3], [], [4, 5, 6, 7]]", unfolded c l] by auto
qed

section \<open>Strings\<close>

text \<open>
  Where \<open>TecBuffer_puts\<close> starts to write: over the terminator of the previous string, when
  the byte before the position is one; the size is then reduced by one as well.
\<close>

definition puts_start :: "bfile \<Rightarrow> bfile" where
  "puts_start f =
     (if 0 < bf_pos f \<and> bf_bytes f ! (bf_pos f - 1) = 0
      then \<lparr>bf_bytes = butlast (bf_bytes f), bf_pos = bf_pos f - 1\<rparr> else f)"

lemma puts_chop:
  assumes wf: "buffer_wf b" and pos: "0 < unat (buf_pos b)"
  defines "b' \<equiv> b\<lparr>buf_size := buf_size b - 1, buf_pos := buf_pos b - 1\<rparr>"
  shows "buffer_wf b'" and "unat (buf_pos b') = unat (buf_pos b) - 1"
    and "file_of b' = \<lparr>bf_bytes = butlast (buf_content b), bf_pos = unat (buf_pos b) - 1\<rparr>"
proof -
  note w = buffer_wfD [OF wf]
  have s: "unat (buf_size b - 1) = unat (buf_size b) - 1"
    using pos w(2) by (simp add: u64_sub word_le_nat_alt)
  show p: "unat (buf_pos b') = unat (buf_pos b) - 1"
    using pos by (simp add: b'_def u64_sub word_le_nat_alt)
  have "unat (buf_size b) - 1 \<le> unat (buf_capacity b)"
    and "unat (buf_pos b) - 1 \<le> unat (buf_size b) - 1"
    using w(1,2) by linarith+
  then show "buffer_wf b'"
    using wf s p by (simp add: b'_def buffer_wf_def buf_bytes_def word_le_nat_alt)
  have "buf_content b' = butlast (buf_content b)"
    using s w(1,3) by (simp add: b'_def buf_content_def buf_bytes_def butlast_take)
  then show "file_of b' = \<lparr>bf_bytes = butlast (buf_content b), bf_pos = unat (buf_pos b) - 1\<rparr>"
    using p by (simp add: file_of_def)
qed

lemma puts_file_write:
  assumes wf: "buffer_wf b" and env: "env_ok env" and room: "room b (length s + 1)"
    and s: "s \<noteq> []" "length s + 1 < 2 ^ 31"
  obtains b' where "TecBuffer_puts env b (Some s) = Inr (word_of_nat (length s + 1), b')"
    and "buffer_wf b'" and "buf_capacity b' \<noteq> 0" and "buf_block_size b' = buf_block_size b"
    and "file_of b' = file_write (puts_start (file_of b)) (s @ [0])"
proof -
  let ?n = "word_of_nat (length s + 1) :: u64" and ?p = "unat (buf_pos b)"
  have n: "unat ?n = length s + 1" using s(2) by (intro u64_of_nat) simp
  have len: "sint (word_of_nat (length s) :: u32) = int (length s)"
    using s(2) by (simp add: signed_of_nat signed_take_bit_int_eq_self)
  have n32: "signed32 (int (length s) + 1) = Inr (int (length s + 1))"
    using s(2) by (simp add: signed32_def in_s32_def)
  have wn: "word_of_int (int (length s + 1)) = ?n" by simp
  obtain b1 where e: "ensure_capacity env b (buf_pos b) ?n = Inr b1" and wf1: "buffer_wf b1"
    and cap: "?p + unat ?n \<le> unat (buf_capacity b1)"
    and keep: "buf_content b1 = buf_content b" "buf_pos b1 = buf_pos b"
      "buf_size b1 = buf_size b" "buf_block_size b1 = buf_block_size b"
    using ensure_capacity_room [OF wf env, of "buf_pos b" ?n] room n
    unfolding room_def by metis
  note w1 = buffer_wfD [OF wf1]
  define last where "last = (if 0 < ?p then buf_content b ! (?p - 1) else 1)"
  have rd: "(if 0 < sint (buf_pos b) then mem_read (buf_data b1) (sint (buf_pos b) - 1) 1
      else Inr [1]) = Inr [last]"
  proof (cases "0 < ?p")
    case True
    then obtain d where d: "buf_data b1 = Some d"
      using w1(1,2) wf1 keep by (cases "buf_data b1") (auto simp: buffer_wf_def)
    have lt: "?p - 1 < length d" "?p - 1 < unat (buf_size b1)"
      using True w1(1,2,3) d keep by (simp_all add: buf_bytes_def)
    then have "take 1 (drop (?p - 1) d) = [d ! (?p - 1)]"
      by (simp add: take_Suc_conv_app_nth)
    moreover have sp: "sint (buf_pos b) = int ?p" using w1(4) keep by metis
    then have "nat (sint (buf_pos b) - 1) = ?p - 1" and "0 < sint (buf_pos b)"
      unfolding sp using True by linarith+
    moreover have "buf_content b1 ! (?p - 1) = d ! (?p - 1)"
      using lt d by (simp add: buf_content_def buf_bytes_def)
    ultimately show ?thesis using True lt d by (simp add: mem_read_def last_def keep(1))
  next
    case False
    then show ?thesis using w1(4) keep by (simp add: last_def)
  qed
  define b2 where "b2 = (if last = 0
      then b1\<lparr>buf_size := buf_size b1 - 1, buf_pos := buf_pos b - 1\<rparr> else b1)"
  have l0: "0 < ?p" if "last = 0" using that by (auto simp: last_def split: if_splits)
  have f1: "file_of b1 = file_of b" using keep by (simp add: file_of_def)
  have b2: "buffer_wf b2 \<and> unat (buf_pos b2) \<le> ?p \<and> file_of b2 = puts_start (file_of b)"
  proof (cases "last = 0")
    case True
    note chop = puts_chop [OF wf1, unfolded keep, OF l0 [OF True]]
    have "puts_start (file_of b) = \<lparr>bf_bytes = butlast (buf_content b), bf_pos = ?p - 1\<rparr>"
      using True l0 [OF True] by (simp add: puts_start_def file_of_def last_def)
    with chop show ?thesis by (simp add: b2_def True keep)
  next
    case False
    then have "puts_start (file_of b) = file_of b"
      by (simp add: puts_start_def file_of_def last_def split: if_splits)
    then show ?thesis using False wf1 f1 keep by (simp add: b2_def)
  qed
  have c2: "buf_capacity b2 \<noteq> 0" "buf_block_size b2 = buf_block_size b"
    using cap n keep by (auto simp: b2_def)
  then have r2: "room b2 (unat ?n)"
    using room b2 n by (simp add: room_def room_at_def)
  have s1: "buf_size b1 \<noteq> 0" if "last = 0"
    using l0 [OF that] w1(2) keep by (auto simp: u64_eq_0)
  have eq: "TecBuffer_puts env b (Some s) = TecBuffer_write env b2 (s @ [0]) ?n"
  proof (cases "last = 0")
    case True
    then show ?thesis
      using s(1) e rd s1 unfolding TecBuffer_puts_def option.case Let_def len n32
      by (simp add: wn b2_def del: of_nat_add of_nat_Suc)
  next
    case False
    moreover have "b1\<lparr>buf_pos := buf_pos b\<rparr> = b1" using keep(2) by simp
    ultimately show ?thesis
      using s(1) e rd unfolding TecBuffer_puts_def option.case Let_def len n32
      by (simp add: wn b2_def del: of_nat_add of_nat_Suc)
  qed
  obtain b' where "TecBuffer_write env b2 (s @ [0]) ?n = Inr (?n, b')" "buffer_wf b'"
    "file_of b' = file_write (file_of b2) (take (unat ?n) (s @ [0]))"
    "buf_block_size b' = buf_block_size b2" "buf_capacity b' \<noteq> 0"
    using write_room [OF _ env r2, of "s @ [0]"] n
      b2 by (metis add_is_0 length_append_singleton Suc_eq_plus1 order_refl u64_eq_0 zero_neq_one)
  then show thesis using that [of b'] eq b2 c2 n by simp
qed

text \<open>The bytes before the terminator of what has been put so far.\<close>

definition unterminated :: "u8 list \<Rightarrow> u8 list" where
  "unterminated c = (if c \<noteq> [] \<and> last c = 0 then butlast c else c)"

definition put_string :: "buffer_env \<Rightarrow> TecBuffer \<Rightarrow> u8 list \<Rightarrow> TecBuffer outcome" where
  "put_string env b s = bind_outcome (TecBuffer_puts env b (Some s)) (\<lambda>(n, b'). Inr b')"

lemma puts_start_end:
  assumes "bf_pos f = length (bf_bytes f)"
  shows "file_write (puts_start f) (s @ [0]) =
    (let c = unterminated (bf_bytes f) @ s @ [0] in \<lparr>bf_bytes = c, bf_pos = length c\<rparr>)"
  using assms
  by (auto simp: file_write_def puts_start_def unterminated_def overlay_def Let_def last_conv_nth)

lemma put_string_end:
  assumes "buffer_wf b" and "env_ok env" and "buf_pos b = buf_size b" and "room b (length s + 1)"
    and "s \<noteq> []" and "length s + 1 < 2 ^ 31"
  obtains b' where "put_string env b s = Inr b'" and "buffer_wf b'" and "buf_capacity b' \<noteq> 0"
    and "buf_pos b' = buf_size b'" and "buf_content b' = unterminated (buf_content b) @ s @ [0]"
proof -
  obtain b' where b': "TecBuffer_puts env b (Some s) = Inr (word_of_nat (length s + 1), b')"
    "buffer_wf b'" "buf_capacity b' \<noteq> 0"
    "file_of b' = file_write (puts_start (file_of b)) (s @ [0])"
    using puts_file_write [OF assms(1,2,4,5,6)] .
  have end_pos: "bf_pos (file_of b) = length (bf_bytes (file_of b))"
    using assms(1,3) by (simp add: file_of_def)
  define c where "c = unterminated (buf_content b) @ s @ [0]"
  have "file_of b' = \<lparr>bf_bytes = c, bf_pos = length c\<rparr>"
    using b'(4) puts_start_end [OF end_pos, of s] by (simp add: Let_def c_def file_of_def)
  then have c': "buf_content b' = c" "unat (buf_pos b') = length c"
    by (simp_all add: file_of_def)
  then have "unat (buf_pos b') = unat (buf_size b')"
    using length_buf_content [OF b'(2)] by simp
  then have "buf_pos b' = buf_size b'" by (simp add: unat_arith_simps)
  then show thesis using that [of b'] b' c' by (simp add: put_string_def c_def)
qed

lemma unterminated_append [simp]: "unterminated (c @ [0]) = c"
  by (simp add: unterminated_def)

lemma fold_put_string:
  assumes "buffer_wf b" and "env_ok env" and "buf_capacity b \<noteq> 0" and "buf_pos b = buf_size b"
    and "\<forall>s \<in> set ss. s \<noteq> [] \<and> length s + 1 < 2 ^ 31"
    and "unat (buf_pos b) + length (concat ss) + length ss \<le> 2 ^ 61" and "ss \<noteq> []"
  shows "\<exists>b'. fold_outcome (put_string env) b ss = Inr b' \<and> buffer_wf b' \<and>
     buf_pos b' = buf_size b' \<and>
     buf_content b' = unterminated (buf_content b) @ concat ss @ [0]"
  using assms
proof (induction ss arbitrary: b)
  case Nil
  then show ?case by simp
next
  case (Cons s ss)
  have "room b (length s + 1)"
    using Cons.prems(3,6) by (simp add: room_def room_at_def)
  then obtain b1 where b1: "put_string env b s = Inr b1" "buffer_wf b1" "buf_capacity b1 \<noteq> 0"
    "buf_pos b1 = buf_size b1" "buf_content b1 = unterminated (buf_content b) @ s @ [0]"
    using put_string_end [OF Cons.prems(1,2,4), of s] Cons.prems(5) by auto
  have "length (unterminated (buf_content b)) \<le> unat (buf_pos b)"
    using length_buf_content [OF Cons.prems(1)] Cons.prems(4) by (simp add: unterminated_def)
  moreover have "unat (buf_pos b1) = length (buf_content b1)"
    using length_buf_content [OF b1(2)] b1(4) by simp
  ultimately have "unat (buf_pos b1) + length (concat ss) + length ss \<le> 2 ^ 61"
    using Cons.prems(6) b1(5) by simp
  moreover have "unterminated (buf_content b1) = unterminated (buf_content b) @ s"
    using b1(5) unterminated_append [of "unterminated (buf_content b) @ s"] by simp
  ultimately show ?case
    using Cons.IH [OF b1(2) Cons.prems(2) b1(3,4)] Cons.prems(5) b1
    by (cases "ss = []") auto
qed

text \<open>
  Strings put one after the other at the end of an allocated buffer
  leave the concatenation of the strings, terminated once, in the buffer.
\<close>

theorem puts_concatenates:
  assumes "buffer_wf b" and "env_ok env" and "buf_capacity b \<noteq> 0" and "buf_pos b = buf_size b"
    and "\<forall>s \<in> set ss. s \<noteq> [] \<and> length s + 1 < 2 ^ 31"
    and "unat (buf_pos b) + length (concat ss) + length ss \<le> 2 ^ 61" and "ss \<noteq> []"
  shows "\<exists>b'. fold_outcome (put_string env) b ss = Inr b' \<and> buffer_wf b' \<and>
     buf_pos b' = buf_size b' \<and>
     buf_content b' = unterminated (buf_content b) @ concat ss @ [0]"
  using assms by (rule fold_put_string)

theorem puts_concatenates_witness:
  "\<exists>b'. fold_outcome (put_string (ample None)) (one_block_buffer 4) [[65, 66, 67], [68, 69]] = Inr b' \<and>
     buf_content b' = [65, 66, 67, 68, 69, 0]"
  using puts_concatenates [OF one_block_buffer_wf [of 4], of "ample None" "[[65, 66, 67], [68, 69]]"]
  by (auto simp: one_block_buffer_def unterminated_def buf_content_def)

text \<open>
  Putting a string after a terminator that is not the last byte
  shortens the buffer: the overlay starts one byte early, as intended, and the last byte of
  the buffer is lost as well.
\<close>

theorem puts_inside_drops_last:
  assumes "buffer_wf b" and "env_ok env" and "room b (length s + 1)"
    and "s \<noteq> []" and "length s + 1 < 2 ^ 31"
    and "0 < unat (buf_pos b)" and "buf_content b ! (unat (buf_pos b) - 1) = 0"
    and "unat (buf_pos b) + length s < unat (buf_size b)"
  shows "\<exists>b'. put_string env b s = Inr b' \<and>
     buf_content b' = overlay (butlast (buf_content b)) (unat (buf_pos b) - 1) (s @ [0]) \<and>
     unat (buf_size b') = unat (buf_size b) - 1"
proof -
  obtain b' where b': "put_string env b s = Inr b'" "buffer_wf b'"
    "file_of b' = file_write (puts_start (file_of b)) (s @ [0])"
    using puts_file_write [OF assms(1-5)]
    by (metis bind_outcome.simps(2) case_prod_conv put_string_def)
  then have c: "buf_content b' =
      overlay (butlast (buf_content b)) (unat (buf_pos b) - 1) (s @ [0])"
    using assms(6,7) by (simp add: file_of_def file_write_def puts_start_def)
  moreover have "unat (buf_size b') = unat (buf_size b) - 1"
    using length_buf_content [OF b'(2)] length_buf_content [OF assms(1)] assms(6,8) c
    by simp
  ultimately show ?thesis using b'(1) by blast
qed

theorem puts_inside_drops_last_witness:
  "\<exists>b'. put_string (ample None) (sample_buffer\<lparr>buf_size := 6\<rparr>) [65] = Inr b' \<and>
     unat (buf_size b') = 5"
proof -
  let ?b = "sample_buffer\<lparr>buf_size := 6\<rparr>"
  have "buffer_wf ?b" by (simp add: buffer_wf_def sample_buffer_def buf_bytes_def)
  moreover have "room ?b (length [65 :: u8] + 1)"
    by (simp add: room_def room_at_def sample_buffer_def)
  moreover have "buf_content ?b ! (unat (buf_pos ?b) - 1) = 0"
    by (simp add: buf_content_def buf_bytes_def sample_buffer_def)
  moreover have "unat (buf_pos ?b) + length [65 :: u8] < unat (buf_size ?b)"
    "0 < unat (buf_pos ?b)" "unat (buf_size ?b) = 6"
    by (simp_all add: sample_buffer_def)
  ultimately show ?thesis
    using puts_inside_drops_last [of ?b "ample None" "[65]"] by auto
qed

end
