(* ===== verification/TecBufferDump.thy ===== *)
theory TecBufferDump
  imports TecBuffer
begin

text \<open>
  Models the debugging output of \<open>tecc_buffer.c\<close>: \<open>TecBuffer_json\<close>,
  \<open>TecBuffer_as_hex\<close> and \<open>TecBuffer_as_table\<close>, with the \<open>printf\<close> conversions they use.
\<close>

section \<open>Formatted output\<close>

text \<open>A C string ends before the first zero.\<close>

definition c_string :: "u8 list \<Rightarrow> u8 list" where
  "c_string bs = takeWhile (\<lambda>c. c \<noteq> 0) bs"

text \<open>\<open>%lu\<close>, \<open>%ld\<close>, and zero-padded \<open>%08lu\<close>, \<open>%08lx\<close>.\<close>

fun digits :: "nat \<Rightarrow> nat \<Rightarrow> nat list" where
  "digits base n =
     (if base < 2 \<or> n < base then [n] else digits base (n div base) @ [n mod base])"

declare digits.simps [simp del]

definition digit_byte :: "nat \<Rightarrow> u8" where
  "digit_byte d = word_of_nat (if d < 10 then 48 + d else 87 + d)"

definition fmt_lu :: "u64 \<Rightarrow> u8 list" where
  "fmt_lu x = map digit_byte (digits 10 (unat x))"

definition fmt_ld :: "u64 \<Rightarrow> u8 list" where
  "fmt_ld x = (if sint x < 0 then 45 # map digit_byte (digits 10 (nat (- sint x))) else fmt_lu x)"

definition zero_pad :: "nat \<Rightarrow> u8 list \<Rightarrow> u8 list" where
  "zero_pad w bs = replicate (w - length bs) 48 @ bs"

definition fmt_08lu :: "u64 \<Rightarrow> u8 list" where
  "fmt_08lu x = zero_pad 8 (fmt_lu x)"

definition fmt_08lx :: "u64 \<Rightarrow> u8 list" where
  "fmt_08lx x = zero_pad 8 (map digit_byte (digits 16 (unat x)))"

text \<open>\<open>sprintf\<close> into an array of \<open>n\<close> bytes: the text and its terminator must fit.\<close>

definition c_sprintf :: "nat \<Rightarrow> u8 list \<Rightarrow> u8 list outcome" where
  "c_sprintf n text = (if length text < n then Inr text else Inl Out_of_bounds)"

section \<open>JSON\<close>

text \<open>\<open>ENQUOTE (s)\<close>: the name between double quotes (code 34).\<close>

definition ENQUOTE :: "string \<Rightarrow> u8 list" where
  "ENQUOTE s = [34] @ bytes_of s @ [34]"

definition json_text :: "TecBuffer \<Rightarrow> u64 \<Rightarrow> u8 list" where
  "json_text b addr =
     bytes_of ''{'' @ ENQUOTE ''data'' @ bytes_of '': 0x'' @ fmt_08lx addr @ bytes_of '', ''
     @ ENQUOTE ''block_size'' @ bytes_of '': '' @ fmt_lu (buf_block_size b) @ bytes_of '', ''
     @ ENQUOTE ''capacity'' @ bytes_of '': '' @ fmt_lu (buf_capacity b) @ bytes_of '', ''
     @ ENQUOTE ''size'' @ bytes_of '': '' @ fmt_lu (buf_size b) @ bytes_of '', ''
     @ ENQUOTE ''pos'' @ bytes_of '': '' @ fmt_ld (buf_pos b)
     @ bytes_of ''}''"

text \<open>
  \<open>addr\<close> is the value of the \<open>data\<close> pointer; \<open>name\<close> is \<open>None\<close> for \<open>NULL\<close>. Both texts
  are printed into the local array \<open>content\<close> of 128 bytes. \<open>maxlen\<close> is ignored.
\<close>

definition TecBuffer_json ::
  "buffer_env \<Rightarrow> TecBuffer \<Rightarrow> u64 \<Rightarrow> u8 list option \<Rightarrow> u64 \<Rightarrow> TecBuffer outcome" where
  "TecBuffer_json env b addr name maxlen =
     bind_outcome (TecBuffer_create env 80 80) (\<lambda>dst.
     bind_outcome
       (case name of
          None \<Rightarrow> Inr dst
        | Some s \<Rightarrow> bind_outcome (c_sprintf 128 ([34] @ s @ [34] @ bytes_of '': ''))
                      (put_string env dst))
       (\<lambda>dst. bind_outcome (c_sprintf 128 (json_text b addr)) (put_string env dst)))"

section \<open>Hexadecimal text\<close>

definition hex_table :: "u8 list" where
  "hex_table = bytes_of ''0123456789ABCDEF'' @ [0]"

definition table_at :: "int \<Rightarrow> u8 outcome" where
  "table_at i =
     (if 0 \<le> i \<and> nat i < length hex_table then Inr (hex_table ! nat i) else Inl Out_of_bounds)"

text \<open>A \<open>char\<close> read as an \<open>int\<close>: signed or not, as the platform has it.\<close>

definition char_int :: "bool \<Rightarrow> u8 \<Rightarrow> int" where
  "char_int signed_char c = (if signed_char then sint c else uint c)"

definition to_hex_chars :: "int \<Rightarrow> (u8 \<times> u8) outcome" where
  "to_hex_chars ch =
     (if 0x20 < ch \<and> ch < 0x7F then Inr (32, word_of_int ch)
      else bind_outcome (table_at (drop_bit 4 ch)) (\<lambda>h0.
           bind_outcome (table_at (ch AND 0x0F)) (\<lambda>h1. Inr (h0, h1))))"

definition hex_buffer_block_size :: u64 where
  "hex_buffer_block_size = 256"

text \<open>
  The loop \<open>for (i = 0; i < len; ++i)\<close>: \<open>k\<close> iterations are left, the next one reads the
  source at \<open>off\<close> and writes the destination at \<open>pos\<close> and \<open>pos + 1\<close>.
\<close>

fun hex_loop ::
  "bool \<Rightarrow> u8 list option \<Rightarrow> nat \<Rightarrow> nat \<Rightarrow> u8 list option \<Rightarrow> nat \<Rightarrow> (u8 list option \<times> nat) outcome"
where
  "hex_loop sc src off 0 d pos = Inr (d, pos)"
| "hex_loop sc src off (Suc k) d pos =
     bind_outcome (mem_read src (int off) 1) (\<lambda>c.
     bind_outcome (to_hex_chars (char_int sc (hd c))) (\<lambda>(h0, h1).
     bind_outcome (mem_write d (int pos) [h0]) (\<lambda>d.
     bind_outcome (mem_write d (int (Suc pos)) [h1]) (\<lambda>d.
       hex_loop sc src (Suc off) k d (Suc (Suc pos))))))"

definition TecBuffer_as_hex ::
  "buffer_env \<Rightarrow> bool \<Rightarrow> TecBuffer \<Rightarrow> u64 \<Rightarrow> u64 \<Rightarrow> TecBuffer outcome" where
  "TecBuffer_as_hex env sc src start len =
     bind_outcome (TecBuffer_create env 0 hex_buffer_block_size) (\<lambda>dst.
       if buf_size src = 0 then Inr dst
       else
         let start = (if sint start < 0 then 0 else start);
             len = (if len = 0 then buf_size src else len)
         in if buf_size src < start then Inr dst
            else
              let len = (if buf_size src < start + len then buf_size src - start else len);
                  size = push_bit 1 len + 1;
                  dst = dst\<lparr>buf_block_size :=
                    (size div hex_buffer_block_size) * hex_buffer_block_size
                    + hex_buffer_block_size\<rparr>
              in bind_outcome (ensure_capacity env dst 0 size) (\<lambda>dst.
                 bind_outcome (hex_loop sc (buf_data src) (unat start) (unat len) (buf_data dst) 0)
                   (\<lambda>(d, pos).
                 bind_outcome (mem_write d (int pos) [0]) (\<lambda>d.
                   Inr (dst\<lparr>buf_data := d, buf_size := word_of_nat pos,
                            buf_pos := word_of_nat pos\<rparr>)))))"

section \<open>The table\<close>

definition bytes_per_line :: nat where
  "bytes_per_line = 32"

definition hex_table_block_size :: u64 where
  "hex_table_block_size = 256"

definition hex_table_header :: "u8 list" where
  "hex_table_header =
     bytes_of '' offset |''
     @ bytes_of ''00  02  04  06  08  10  12  14  16  18  20  22  24  26  28  30  |'' @ [10]
     @ bytes_of ''========|''
     @ bytes_of ''++--++--++--++--++--++--++--++--++--++--++--++--++--++--++--++--''"

text \<open>\<open>row_prefix_format\<close>: the end of the previous row and the label of the next.\<close>

definition row_prefix :: "u64 \<Rightarrow> u8 list" where
  "row_prefix offset = bytes_of ''|'' @ [10] @ fmt_08lu offset @ bytes_of ''|''"

text \<open>
  The printing loop: \<open>s\<close> is the block of the hex buffer, \<open>n\<close> the next character of it,
  \<open>nbyte\<close> the cell of the table.
\<close>

function table_loop ::
  "buffer_env \<Rightarrow> u8 list option \<Rightarrow> nat \<Rightarrow> nat \<Rightarrow> TecBuffer \<Rightarrow> u64 \<Rightarrow> nat \<Rightarrow> nat \<Rightarrow> TecBuffer outcome"
where
  "table_loop env s sz start dst offset n nbyte =
     (if n < sz then
        bind_outcome
          (if nbyte mod bytes_per_line = 0
           then bind_outcome (c_sprintf 80 (row_prefix offset)) (\<lambda>text.
                bind_outcome (put_string env dst text) (\<lambda>dst.
                  Inr (dst, offset + word_of_nat bytes_per_line)))
           else Inr (dst, offset))
          (\<lambda>(dst, offset).
             if nbyte < start
             then bind_outcome (put_string env dst (bytes_of ''  ''))
                    (\<lambda>dst. table_loop env s sz start dst offset n (Suc nbyte))
             else bind_outcome (mem_read s (int n) 2) (\<lambda>d.
                  bind_outcome (put_string env dst (c_string d))
                    (\<lambda>dst. table_loop env s sz start dst offset (n + 2) (Suc nbyte))))
      else Inr dst)"
  by pat_completeness auto
termination
  by (relation "measure (\<lambda>(env, s, sz, start, dst, offset, n, nbyte).
        (sz - n) + (start - nbyte))") auto

declare table_loop.simps [simp del]

definition TecBuffer_as_table ::
  "buffer_env \<Rightarrow> bool \<Rightarrow> TecBuffer \<Rightarrow> u64 \<Rightarrow> u64 \<Rightarrow> TecBuffer outcome" where
  "TecBuffer_as_table env sc src start len =
     bind_outcome (TecBuffer_as_hex env sc src start len) (\<lambda>tmp.
     let block_size = (buf_size tmp div hex_table_block_size) * hex_table_block_size
                      + hex_table_block_size + 2
     in bind_outcome (TecBuffer_create env block_size block_size) (\<lambda>dst.
        bind_outcome (put_string env dst hex_table_header) (\<lambda>dst.
        let start = (if sint start < 0 then 0 else start);
            start_offset = (start div word_of_nat bytes_per_line) * word_of_nat bytes_per_line
        in if buf_size tmp = 0 \<or> buf_data tmp = None
           then bind_outcome (c_sprintf 80 (row_prefix start_offset)) (put_string env dst)
           else table_loop env (buf_data tmp) (unat (buf_size tmp)) (unat start) dst
                  start_offset 0 0)))"

section \<open>Hexadecimal text: properties\<close>

text \<open>The two characters of a byte, and the byte two characters stand for.\<close>

definition hex_pair :: "u8 \<Rightarrow> u8 list" where
  "hex_pair c =
     (if 0x20 < unat c \<and> unat c < 0x7F then [32, c]
      else [hex_table ! (unat c div 16), hex_table ! (unat c mod 16)])"

definition hex_digit :: "u8 \<Rightarrow> nat" where
  "hex_digit h = (if unat h < 58 then unat h - 48 else unat h - 55)"

fun unhex :: "u8 list \<Rightarrow> u8 list" where
  "unhex (h0 # h1 # hs) =
     (if h0 = 32 then h1 else word_of_nat (16 * hex_digit h0 + hex_digit h1)) # unhex hs"
| "unhex _ = []"

definition hex_text :: "u8 list \<Rightarrow> u8 list" where
  "hex_text bs = concat (map hex_pair bs)"

text \<open>A byte is printable without a fault unless \<open>char\<close> is signed and its top bit is set.\<close>

definition dumpable :: "bool \<Rightarrow> u8 \<Rightarrow> bool" where
  "dumpable sc c \<longleftrightarrow> \<not> sc \<or> unat c < 128"

lemma u8_sint: "sint (c :: u8) = (if unat c < 128 then int (unat c) else int (unat c) - 256)"
proof -
  define u where "u = int (unat c)"
  have "0 \<le> u" and u: "u < 256" and uc: "uint c = u"
    using uint_lt2p [of c] by (simp_all add: u_def)
  have "sint c = (u + 128) mod 256 - 128"
    by (simp add: uc sint_uint signed_take_bit_eq_take_bit_shift take_bit_eq_mod)
  also have "\<dots> = (if u < 128 then u else u - 256)"
    using \<open>0 \<le> u\<close> u int_mod_sub [of 256 "u + 128"] by simp
  finally show ?thesis unfolding u_def by (simp only: of_nat_less_numeral_iff)
qed

lemma hex_table_digits:
  assumes "d < 16"
  shows "hex_digit (hex_table ! d) = d" and "hex_table ! d \<noteq> 32" and "hex_table ! d \<noteq> 0"
proof -
  have "d \<in> {0, 1, 2, 3, 4, 5, 6, 7, 8, 9, 10, 11, 12, 13, 14, 15}"
    unfolding insert_iff empty_iff using assms by presburger
  then have "hex_digit (hex_table ! d) = d \<and> hex_table ! d \<noteq> 32 \<and> hex_table ! d \<noteq> 0"
    by (auto simp: hex_table_def bytes_of_def hex_digit_def)
  then show "hex_digit (hex_table ! d) = d" and "hex_table ! d \<noteq> 32" and "hex_table ! d \<noteq> 0"
    by simp_all
qed

lemma to_hex_chars_ok:
  assumes "dumpable sc c"
  shows "\<exists>h0 h1. to_hex_chars (char_int sc c) = Inr (h0, h1) \<and> hex_pair c = [h0, h1]"
proof -
  define n where "n = unat c"
  have c: "c = word_of_nat n" by (simp add: n_def)
  have ch: "char_int sc c = int n"
    using assms u8_sint [of c] by (auto simp: char_int_def dumpable_def n_def)
  have lt: "n < 256" using unsigned_less [where 'a = nat, of c] by (simp add: n_def)
  have len: "length hex_table = 17" by (simp add: hex_table_def bytes_of_def)
  have d: "drop_bit 4 (int n) = int (n div 16)"
    by (simp add: drop_bit_eq_div zdiv_int)
  have m: "int n AND 15 = int (n mod 16)"
  proof -
    have "int n AND mask 4 = take_bit 4 (int n)" by (simp only: take_bit_eq_mask)
    then show ?thesis by (simp add: take_bit_eq_mod zmod_int mask_eq_exp_minus_1)
  qed
  have t: "table_at (int d) = Inr (hex_table ! d)" if "d < 16" for d
    using that by (simp add: table_at_def len)
  have "n div 16 < 16" "n mod 16 < 16" using lt by simp_all
  then have "to_hex_chars (int n) = (if 32 < n \<and> n < 127 then Inr (32, c)
      else Inr (hex_table ! (n div 16), hex_table ! (n mod 16)))"
    using t [of "n div 16"] t [of "n mod 16"] by (simp add: to_hex_chars_def d m c)
  then show ?thesis by (simp add: ch hex_pair_def n_def [symmetric])
qed

lemma to_hex_chars_bad:
  assumes "\<not> dumpable sc c"
  shows "to_hex_chars (char_int sc c) = Inl Out_of_bounds"
proof -
  have sc: "sc" "\<not> unat c < 128" using assms by (simp_all add: dumpable_def)
  have "unat c < 256" using unsigned_less [where 'a = nat, of c] by simp
  with sc have "(if unat c < 128 then int (unat c) else int (unat c) - 256) < 0" by presburger
  then have "sint c < 0" by (simp only: u8_sint)
  with sc have ch: "char_int sc c < 0" by (simp add: char_int_def)
  then have "drop_bit 4 (char_int sc c) < 0" by (simp add: drop_bit_eq_div)
  with ch show ?thesis by (simp add: to_hex_chars_def table_at_def)
qed

lemma length_hex_pair [simp]: "length (hex_pair c) = 2"
  by (simp add: hex_pair_def)

lemma hex_pair_nonempty [simp]: "hex_pair c \<noteq> []"
  by (simp add: hex_pair_def)

lemma length_hex_text [simp]: "length (hex_text bs) = 2 * length bs"
  by (induction bs) (simp_all add: hex_text_def)

lemma hex_text_Cons: "hex_text (c # bs) = hex_pair c @ hex_text bs"
  by (simp add: hex_text_def)

lemma unhex_hex_pair: "unhex (hex_pair c @ hs) = c # unhex hs"
proof -
  have "unat c div 16 < 16" "unat c mod 16 < 16"
    using unsigned_less [where 'a = nat, of c] by simp_all
  then show ?thesis by (auto simp: hex_pair_def hex_table_digits)
qed

lemma unhex_hex_text: "unhex (hex_text bs) = bs"
  by (induction bs) (simp_all add: hex_text_def unhex_hex_pair)

lemma take_Suc_drop:
  "off < length src \<Longrightarrow> take (Suc k) (drop off src) = src ! off # take k (drop (Suc off) src)"
  by (metis Cons_nth_drop_Suc take_Suc_Cons)

lemma hex_loop_ok:
  assumes "off + k \<le> length src" and "pos + 2 * k \<le> length d"
    and "\<forall>c \<in> set (take k (drop off src)). dumpable sc c"
  shows "hex_loop sc (Some src) off k (Some d) pos
       = Inr (Some (overlay d pos (hex_text (take k (drop off src)))), pos + 2 * k)"
  using assms
proof (induction k arbitrary: off d pos)
  case 0
  then show ?case by (simp add: hex_text_def)
next
  case (Suc k)
  let ?c = "src ! off"
  have off: "off < length src" using Suc.prems(1) by simp
  have t: "take (Suc k) (drop off src) = ?c # take k (drop (Suc off) src)"
    using off by (rule take_Suc_drop)
  obtain h0 h1 where
    h: "to_hex_chars (char_int sc ?c) = Inr (h0, h1)" "hex_pair ?c = [h0, h1]"
    using to_hex_chars_ok [of sc ?c] Suc.prems(3) t by auto
  have rd: "mem_read (Some src) (int off) 1 = Inr [?c]"
    using off take_Suc_drop [OF off, of 0] by (simp add: mem_read_def)
  let ?d = "overlay d pos [h0, h1]"
  have w0: "mem_write (Some d) (int pos) [h0] = Inr (Some (overlay d pos [h0]))"
    using Suc.prems(2) by (simp add: mem_write_def)
  have w1: "mem_write (Some (overlay d pos [h0])) (int (Suc pos)) [h1] = Inr (Some ?d)"
    using Suc.prems(2) overlay_overlay [of pos "[h0]" "[h1]" d]
    by (simp add: mem_write_def nat_add_distrib)
  have "hex_loop sc (Some src) (Suc off) k (Some ?d) (Suc (Suc pos)) =
      Inr (Some (overlay ?d (Suc (Suc pos)) (hex_text (take k (drop (Suc off) src)))),
           Suc (Suc pos) + 2 * k)"
    using Suc.prems t by (intro Suc.IH) auto
  moreover have "overlay ?d (Suc (Suc pos)) (hex_text (take k (drop (Suc off) src)))
      = overlay d pos (hex_text (take (Suc k) (drop off src)))"
    using Suc.prems(1,2) overlay_overlay [of pos "[h0, h1]" "hex_text (take k (drop (Suc off) src))" d]
    by (simp add: t h(2) hex_text_Cons)
  ultimately show ?case using rd h(1) w0 w1 by simp
qed

lemma hex_loop_bad:
  assumes "off + k \<le> length src" and "pos + 2 * k \<le> length d"
    and "\<exists>c \<in> set (take k (drop off src)). \<not> dumpable sc c"
  shows "hex_loop sc (Some src) off k (Some d) pos = Inl Out_of_bounds"
  using assms
proof (induction k arbitrary: off d pos)
  case 0
  then show ?case by simp
next
  case (Suc k)
  let ?c = "src ! off"
  have off: "off < length src" using Suc.prems(1) by simp
  have t: "take (Suc k) (drop off src) = ?c # take k (drop (Suc off) src)"
    using off by (rule take_Suc_drop)
  have rd: "mem_read (Some src) (int off) 1 = Inr [?c]"
    using off take_Suc_drop [OF off, of 0] by (simp add: mem_read_def)
  show ?case
  proof (cases "dumpable sc ?c")
    case False
    then show ?thesis using rd by (simp add: to_hex_chars_bad)
  next
    case True
    then obtain h0 h1 where h: "to_hex_chars (char_int sc ?c) = Inr (h0, h1)"
      using to_hex_chars_ok by blast
    have w0: "mem_write (Some d) (int pos) [h0] = Inr (Some (overlay d pos [h0]))"
      using Suc.prems(2) by (simp add: mem_write_def)
    have w1: "mem_write (Some (overlay d pos [h0])) (int (Suc pos)) [h1]
        = Inr (Some (overlay d pos [h0, h1]))"
      using Suc.prems(2) overlay_overlay [of pos "[h0]" "[h1]" d]
      by (simp add: mem_write_def nat_add_distrib)
    have "hex_loop sc (Some src) (Suc off) k (Some (overlay d pos [h0, h1])) (Suc (Suc pos))
        = Inl Out_of_bounds"
      using Suc.prems t True by (intro Suc.IH) auto
    then show ?thesis using rd h w0 w1 by simp
  qed
qed

lemma u64_push_bit_1: "unat (x :: u64) < 2 ^ 63 \<Longrightarrow> unat (push_bit 1 x) = 2 * unat x"
  by (simp add: push_bit_eq_mult unat_word_ariths)

text \<open>The part of the source a dump shows.\<close>

definition shown :: "TecBuffer \<Rightarrow> u64 \<Rightarrow> u64 \<Rightarrow> u8 list" where
  "shown b start len =
     (let rest = drop (nat (sint start)) (buf_content b)
      in if len = 0 then rest else take (unat len) rest)"

lemma as_hex_run:
  assumes wf: "buffer_wf src" and env: "env_ok env" and small: "unat (buf_size src) < 2 ^ 60"
    and len: "unat len < 2 ^ 63" and start: "nat (sint start) < unat (buf_size src)"
  defines "bs \<equiv> shown src start len"
  obtains dst where "buffer_wf dst" and "buf_capacity dst \<noteq> 0"
    and "bs \<noteq> []"
    and "(\<exists>c \<in> set bs. \<not> dumpable sc c) \<Longrightarrow>
      TecBuffer_as_hex env sc src start len = Inl Out_of_bounds"
    and "\<forall>c \<in> set bs. dumpable sc c \<Longrightarrow> TecBuffer_as_hex env sc src start len = Inr dst"
    and "buf_content dst = hex_text bs" and "buf_bytes dst ! (2 * length bs) = 0"
    and "length (buf_bytes dst) > 2 * length bs"
proof -
  note w = buffer_wfD [OF wf]
  define st where "st = (if sint start < 0 then 0 else start)"
  define n0 where "n0 = (if len = 0 then buf_size src else len)"
  define n where "n = (if buf_size src < st + n0 then buf_size src - st else n0)"
  define N where "N = unat (buf_size src)"
  have st: "unat st = nat (sint start)" and stN: "unat st < N"
  proof -
    show st: "unat st = nat (sint start)"
    proof (cases "sint start < 0")
      case False
      then have "int (unat start) = sint start" by (intro u64_unat_sint) simp
      then have "unat start = nat (sint start)" by (metis nat_int)
      with False show ?thesis by (simp add: st_def)
    qed (simp add: st_def)
    show "unat st < N" using start unfolding st N_def .
  qed
  have N: "0 < N" "N < 2 ^ 60" using stN small by (simp_all add: N_def)
  then have sz: "buf_size src \<noteq> 0" by (auto simp: N_def)
  have n0: "unat n0 < 2 ^ 63" using len N by (simp add: n0_def flip: N_def)
  have "unat (st + n0) = unat st + unat n0" using n0 stN N by (intro u64_add) simp
  moreover have "unat (buf_size src - st) = N - unat st"
    using stN by (simp add: u64_sub word_le_nat_alt N_def)
  ultimately have n: "unat n = min (unat n0) (N - unat st)"
    by (auto simp: n_def word_less_nat_alt N_def)
  have "unat n0 \<noteq> 0" using sz by (auto simp: n0_def u64_eq_0)
  then have n_pos: "0 < unat n" and nN: "unat st + unat n \<le> N" using n stN by simp_all
  define size where "size = push_bit 1 n + (1 :: u64)"
  have "unat (push_bit 1 n) = 2 * unat n" using nN N by (intro u64_push_bit_1) simp
  then have size: "unat size = 2 * unat n + 1"
    using nN N by (simp add: size_def u64_add)
  define bsz where "bsz = (size div hex_buffer_block_size) * hex_buffer_block_size
      + hex_buffer_block_size"
  have b256: "unat hex_buffer_block_size = 256" by (simp add: hex_buffer_block_size_def)
  have q: "unat size div 256 * 256 \<le> unat size" "unat size < unat size div 256 * 256 + 256"
    using div_mult_bounds [of 256 "unat size"] by simp_all
  have s60: "unat size < 2 ^ 61 + 1" using size nN N by simp
  have "unat (size div hex_buffer_block_size * hex_buffer_block_size) = unat size div 256 * 256"
    using q(1) s60 by (simp add: u64_mult u64_div b256)
  then have bsz: "unat bsz = unat size div 256 * 256 + 256"
    using q(1) s60 by (simp add: bsz_def u64_add b256)
  have bsz_nz: "bsz \<noteq> 0" and bsz_lt: "unat bsz < 2 ^ 63" "unat size < unat bsz"
    using bsz q s60 by (auto simp: u64_eq_0)
  have bs: "bs = take (unat n) (drop (unat st) (buf_content src))"
  proof (cases "len = 0")
    case True
    then have "unat n = N - unat st" using n by (simp add: n0_def flip: N_def)
    then show ?thesis using True wf by (simp add: bs_def shown_def Let_def st N_def)
  next
    case False
    then have "unat n = min (unat len) (N - unat st)" using n by (simp add: n0_def)
    moreover have "length (drop (unat st) (buf_content src)) = N - unat st"
      using wf by (simp add: N_def)
    ultimately show ?thesis using False
      by (simp add: bs_def shown_def Let_def st min_def)
  qed
  have lbs: "length bs = unat n" using bs nN wf by (simp add: N_def)
  obtain d where d: "buf_data src = Some d" and dl: "N \<le> length d"
    using wf w(1,3) N by (cases "buf_data src") (auto simp: buf_bytes_def N_def)
  have bsd: "bs = take (unat n) (drop (unat st) d)"
    using d nN by (simp add: bs buf_content_def buf_bytes_def drop_take N_def)
  have create: "TecBuffer_create env 0 hex_buffer_block_size
      = Inr (fresh_buffer hex_buffer_block_size)"
    by (simp add: TecBuffer_create_def TecBuffer_init_def fresh_buffer_def
        hex_buffer_block_size_def)
  have upd: "(fresh_buffer hex_buffer_block_size)\<lparr>buf_block_size := bsz\<rparr> = fresh_buffer bsz"
    by (simp add: fresh_buffer_def)
  have grow: "ensure_capacity env (fresh_buffer bsz) 0 size = Inr (one_block_buffer bsz)"
    using grow_fresh [OF env bsz_nz, of size] size by (auto simp: u64_eq_0)
  define z where "z = replicate (unat bsz) (0 :: u8)"
  have not_lt: "\<not> buf_size src < st" using stN by (simp add: word_less_nat_alt N_def)
  define rest where "rest = (\<lambda>(d, pos :: nat). bind_outcome (mem_write d (int pos) [0]) (\<lambda>d.
      Inr ((one_block_buffer bsz)\<lparr>buf_data := d, buf_size := word_of_nat pos,
                            buf_pos := word_of_nat pos\<rparr>)))"
  have run: "TecBuffer_as_hex env sc src start len =
      bind_outcome (hex_loop sc (Some d) (unat st) (unat n) (Some z) 0) rest"
    using sz not_lt d
    unfolding TecBuffer_as_hex_def create bind_outcome.simps Let_def st_def [symmetric]
      n0_def [symmetric] n_def [symmetric] size_def [symmetric] bsz_def [symmetric] upd grow
    by (simp add: rest_def z_def one_block_buffer_def)
  let ?d1 = "overlay z 0 (hex_text bs)"
  let ?d2 = "overlay ?d1 (2 * unat n) [0]"
  have zl: "length z = unat bsz" by (simp add: z_def)
  have fit: "2 * unat n + 1 < unat bsz" using bsz_lt size by simp
  have l1: "length ?d1 = unat bsz" using fit zl lbs by simp
  have l2: "length ?d2 = unat bsz" using fit l1 by simp
  have wr: "mem_write (Some ?d1) (int (2 * unat n)) [0] = Inr (Some ?d2)"
    using fit l1 by (subst mem_write_ok) (simp_all del: of_nat_mult)
  let ?k = "word_of_nat (2 * unat n) :: u64"
  have k: "unat ?k = 2 * unat n" using nN N by (intro u64_of_nat) simp
  let ?dst = "(one_block_buffer bsz)\<lparr>buf_data := Some ?d2, buf_size := ?k, buf_pos := ?k\<rparr>"
  have good: "TecBuffer_as_hex env sc src start len = Inr ?dst"
    if "\<forall>c \<in> set bs. dumpable sc c"
  proof -
    have "hex_loop sc (Some d) (unat st) (unat n) (Some z) 0 = Inr (Some ?d1, 2 * unat n)"
      using hex_loop_ok [of "unat st" "unat n" d 0 z sc] that nN dl fit zl bsd by simp
    then show ?thesis using run wr by (simp add: rest_def del: of_nat_mult)
  qed
  have bad: "TecBuffer_as_hex env sc src start len = Inl Out_of_bounds"
    if "\<exists>c \<in> set bs. \<not> dumpable sc c"
  proof -
    have "hex_loop sc (Some d) (unat st) (unat n) (Some z) 0 = Inl Out_of_bounds"
      using hex_loop_bad [of "unat st" "unat n" d 0 z sc] that nN dl fit zl bsd by simp
    then show ?thesis using run by simp
  qed
  have "buf_content ?dst = take (2 * unat n) ?d2"
    using k by (simp add: buf_content_def buf_bytes_def)
  also have "\<dots> = hex_text bs"
    using fit l1 lbs zl by (simp add: take_overlay_before take_overlay_end)
  finally have content: "buf_content ?dst = hex_text bs" .
  have "?d2 ! (2 * unat n) = 0" using fit l1 by (subst nth_overlay) simp_all
  then have nul: "buf_bytes ?dst ! (2 * length bs) = 0" by (simp add: buf_bytes_def lbs)
  have wf': "buffer_wf ?dst"
    using l2 k fit bsz_nz bsz_lt
    by (simp add: buffer_wf_def buf_bytes_def one_block_buffer_def word_le_nat_alt)
  have "bs \<noteq> []" using lbs n_pos by (metis length_0_conv less_irrefl)
  then show thesis
    using that [of ?dst] wf' bsz_nz content nul good bad lbs l2 fit
    by (auto simp: one_block_buffer_def buf_bytes_def)
qed

text \<open>
  For a range that starts inside the buffer and whose bytes are dumpable,
  \<open>TecBuffer_as_hex\<close> produces exactly the pairs of characters of the shown bytes, followed
  by a terminator outside the content, and the bytes can be read back from the text.
\<close>

theorem as_hex_decodes:
  assumes "buffer_wf src" and "env_ok env" and "unat (buf_size src) < 2 ^ 60"
    and "unat len < 2 ^ 63" and "nat (sint start) < unat (buf_size src)"
    and "\<forall>c \<in> set (shown src start len). dumpable sc c"
  shows "\<exists>dst. TecBuffer_as_hex env sc src start len = Inr dst \<and>
     buf_content dst = hex_text (shown src start len) \<and>
     unhex (buf_content dst) = shown src start len \<and>
     length (buf_content dst) < length (buf_bytes dst) \<and>
     buf_bytes dst ! length (buf_content dst) = 0"
proof -
  obtain dst where "TecBuffer_as_hex env sc src start len = Inr dst"
    "buf_content dst = hex_text (shown src start len)"
    "buf_bytes dst ! (2 * length (shown src start len)) = 0"
    "length (buf_bytes dst) > 2 * length (shown src start len)"
    using as_hex_run [OF assms(1-5), of sc] assms(6) by metis
  then show ?thesis by (simp add: unhex_hex_text)
qed

theorem as_hex_decodes_witness:
  "\<exists>dst. TecBuffer_as_hex (ample None) True sample_buffer 0 3 = Inr dst \<and>
     buf_content dst = bytes_of '' H i00'' \<and> unhex (buf_content dst) = [72, 105, 0]"
proof -
  have s: "shown sample_buffer 0 3 = [72, 105, 0]" by (simp add: shown_def sample_content)
  have "hex_text [72, 105, 0] = bytes_of '' H i00''"
    by (simp add: hex_text_def hex_pair_def hex_table_def bytes_of_def)
  then show ?thesis
    using as_hex_decodes [OF sample_buffer_wf, of "ample None" 3 0 True]
    by (auto simp: s dumpable_def)
qed

text \<open>
  Where \<open>char\<close> is signed, one shown byte of 128 or more makes
  \<open>to_hex_chars\<close> index its table with a negative number.
\<close>

theorem as_hex_signed_char:
  assumes "buffer_wf src" and "env_ok env" and "unat (buf_size src) < 2 ^ 60"
    and "unat len < 2 ^ 63" and "nat (sint start) < unat (buf_size src)"
    and "c \<in> set (shown src start len)" and "128 \<le> unat c"
  shows "TecBuffer_as_hex env True src start len = Inl Out_of_bounds"
proof -
  have "\<exists>c \<in> set (shown src start len). \<not> dumpable True c"
    using assms(6,7) by (intro bexI [of _ c]) (simp_all add: dumpable_def)
  then show ?thesis using as_hex_run [OF assms(1-5), of True] by metis
qed

theorem as_hex_signed_char_witness:
  "TecBuffer_as_hex (ample None) True sample_buffer 1 0 = Inl Out_of_bounds"
  by (rule as_hex_signed_char [where c = 200])
    (simp_all add: sample_buffer_wf shown_def sample_content)

section \<open>The table: properties\<close>

text \<open>
  The strings the table is made of: a cell per byte, and a row prefix before every
  thirty-second cell, whose label counts up from the first one.
\<close>

fun table_rows :: "u64 \<Rightarrow> nat \<Rightarrow> u8 list list \<Rightarrow> u8 list list" where
  "table_rows offset i [] = []"
| "table_rows offset i (c # cs) =
     (if i mod bytes_per_line = 0
      then row_prefix offset # c # table_rows (offset + word_of_nat bytes_per_line) (Suc i) cs
      else c # table_rows offset (Suc i) cs)"

definition table_cells :: "nat \<Rightarrow> u8 list \<Rightarrow> u8 list list" where
  "table_cells start bs = replicate start (bytes_of ''  '') @ map hex_pair bs"

lemma length_digits: "n < 10 ^ k \<Longrightarrow> 0 < k \<Longrightarrow> length (digits 10 n) \<le> k"
proof (induction k arbitrary: n)
  case (Suc k)
  show ?case
  proof (cases "n < 10")
    case True
    then show ?thesis by (simp add: digits.simps [of 10 n])
  next
    case False
    then have "n div 10 < 10 ^ k" and "0 < k" using Suc.prems
      by (auto intro: less_mult_imp_div_less gr0I)
    then show ?thesis using Suc.IH [of "n div 10"] False by (simp add: digits.simps [of 10 n])
  qed
qed simp

lemma length_fmt_lu: "length (fmt_lu x) \<le> 20"
proof -
  have "unat x < 10 ^ 20" using u64_lt [of x] by (rule order.strict_trans) simp
  then show ?thesis using length_digits [of "unat x" 20] by (simp add: fmt_lu_def)
qed

lemma length_row_prefix: "0 < length (row_prefix x)" "length (row_prefix x) \<le> 23"
  using length_fmt_lu [of x]
  by (simp_all add: row_prefix_def fmt_08lu_def zero_pad_def bytes_of_def)

lemma row_prefix_fits: "c_sprintf 80 (row_prefix x) = Inr (row_prefix x)"
  using length_row_prefix [of x] by (simp add: c_sprintf_def)

lemma hex_pair_nonzero: "0 \<notin> set (hex_pair c)"
proof -
  have "unat c div 16 < 16" "unat c mod 16 < 16"
    using unsigned_less [where 'a = nat, of c] by simp_all
  then show ?thesis by (auto simp: hex_pair_def hex_table_digits)
qed

lemma c_string_pair: "c_string (hex_pair c) = hex_pair c"
  unfolding c_string_def takeWhile_eq_all_conv using hex_pair_nonzero [of c] by metis

text \<open>Numbers, and the text of the table, have no terminator inside.\<close>

lemma digit_byte_nonzero: "a < 16 \<Longrightarrow> digit_byte a \<noteq> 0"
proof -
  assume a: "a < 16"
  let ?n = "if a < 10 then 48 + a else 87 + a"
  have "unat (word_of_nat ?n :: u8) = ?n" using a by (simp add: unsigned_of_nat take_bit_eq_mod)
  moreover have "?n \<noteq> 0" by simp
  ultimately show ?thesis unfolding digit_byte_def by (metis unat_0)
qed

lemma digits_less: "2 \<le> b \<Longrightarrow> d \<in> set (digits b n) \<Longrightarrow> d < b"
proof (induction b n rule: digits.induct)
  case (1 b n)
  show ?case
  proof (cases "n < b")
    case False
    then have "d \<in> set (digits b (n div b)) \<or> d = n mod b"
      using 1(2,3) by (auto simp: digits.simps [of b n])
    then show ?thesis using 1 False by auto
  qed (use 1 in \<open>simp add: digits.simps [of b n]\<close>)
qed

lemma digits_nonzero: "2 \<le> b \<Longrightarrow> b \<le> 16 \<Longrightarrow> 0 \<notin> set (map digit_byte (digits b n))"
  using digits_less [of b _ n] digit_byte_nonzero by fastforce

lemma text_nonzero:
  "0 \<notin> set (fmt_lu x)" "0 \<notin> set (fmt_ld x)" "0 \<notin> set (fmt_08lx x)" "0 \<notin> set (row_prefix x)"
  "0 \<notin> set hex_table_header"
proof -
  note d = digits_nonzero [of 10, simplified] digits_nonzero [of 16, simplified]
  show "0 \<notin> set (fmt_lu x)" "0 \<notin> set (fmt_ld x)" "0 \<notin> set (fmt_08lx x)" "0 \<notin> set (row_prefix x)"
    using d by (auto simp: fmt_lu_def fmt_ld_def fmt_08lx_def fmt_08lu_def row_prefix_def zero_pad_def bytes_of_def)
  show "0 \<notin> set hex_table_header" by (simp add: hex_table_header_def bytes_of_def)
qed

lemma rows_nonzero: "0 \<notin> \<Union> (set ` set cs) \<Longrightarrow> 0 \<notin> set (concat (table_rows offset i cs))"
  by (induction offset i cs rule: table_rows.induct) (use text_nonzero(4) in auto)

lemma cells_nonzero: "0 \<notin> \<Union> (set ` set (table_cells n bs))"
  using hex_pair_nonzero by (auto simp: table_cells_def bytes_of_def)

lemma string_end: "0 \<notin> set s \<Longrightarrow> c_string (s @ 0 # r) = s"
  by (induction s) (auto simp: c_string_def)

text \<open>One step of the loop: the row prefix, when a row begins.\<close>

definition row_step :: "buffer_env \<Rightarrow> TecBuffer \<Rightarrow> u64 \<Rightarrow> nat \<Rightarrow> (TecBuffer \<times> u64) outcome" where
  "row_step env dst offset nbyte =
     (if nbyte mod bytes_per_line = 0
      then bind_outcome (put_string env dst (row_prefix offset)) (\<lambda>dst.
             Inr (dst, offset + word_of_nat bytes_per_line))
      else Inr (dst, offset))"

lemma table_loop_step:
  "table_loop env s sz start dst offset n nbyte =
     (if n < sz then
        bind_outcome (row_step env dst offset nbyte)
          (\<lambda>(dst, offset).
             if nbyte < start
             then bind_outcome (put_string env dst (bytes_of ''  ''))
                    (\<lambda>dst. table_loop env s sz start dst offset n (Suc nbyte))
             else bind_outcome (mem_read s (int n) 2) (\<lambda>d.
                  bind_outcome (put_string env dst (c_string d))
                    (\<lambda>dst. table_loop env s sz start dst offset (n + 2) (Suc nbyte))))
      else Inr dst)"
  by (subst table_loop.simps) (simp add: row_step_def row_prefix_fits)

lemma fold_table_rows:
  "fold_outcome (put_string env) dst (table_rows offset i (c # cs)) =
     bind_outcome (row_step env dst offset i) (\<lambda>(dst, offset).
       bind_outcome (put_string env dst c) (\<lambda>dst.
         fold_outcome (put_string env) dst (table_rows offset (Suc i) cs)))"
  by (simp add: row_step_def bind_outcome_assoc)

lemma table_loop_pairs:
  assumes "start \<le> nbyte" and "sz = n + 2 * length bs" and "sz \<le> length s"
    and "take (2 * length bs) (drop n s) = hex_text bs"
  shows "table_loop env (Some s) sz start dst offset n nbyte
       = fold_outcome (put_string env) dst (table_rows offset nbyte (map hex_pair bs))"
  using assms
proof (induction bs arbitrary: n nbyte dst offset)
  case Nil
  then show ?case by (subst table_loop_step) simp
next
  case (Cons b bs)
  have h: "take (2 * length bs + 2) (drop n s) = hex_pair b @ hex_text bs"
    using Cons.prems(4) by (simp add: hex_text_Cons)
  have "min 2 (2 * length bs + 2) = 2" by linarith
  then have "take 2 (drop n s) = take 2 (take (2 * length bs + 2) (drop n s))"
    by (simp only: take_take)
  also have "\<dots> = hex_pair b" unfolding h by simp
  finally have rd: "mem_read (Some s) (int n) 2 = Inr (hex_pair b)"
    using Cons.prems(2,3) by (simp add: mem_read_def)
  have "take (2 * length bs) (drop (n + 2) s) = drop 2 (take (2 * length bs + 2) (drop n s))"
    by (simp add: drop_take add.commute)
  also have "\<dots> = hex_text bs" unfolding h by simp
  finally have tl: "take (2 * length bs) (drop (n + 2) s) = hex_text bs" .
  have IH: "table_loop env (Some s) sz start dst offset (n + 2) (Suc nbyte)
      = fold_outcome (put_string env) dst (table_rows offset (Suc nbyte) (map hex_pair bs))"
    for dst offset
    using Cons.prems tl by (intro Cons.IH) auto
  have "n < sz" "\<not> nbyte < start" using Cons.prems(1,2) by simp_all
  then show ?case
    by (subst table_loop_step)
      (simp add: fold_table_rows rd c_string_pair IH [simplified] del: table_rows.simps)
qed

lemma table_loop_rows:
  assumes "start = nbyte + k" and "sz = 2 * length bs" and "sz \<le> length s" and "bs \<noteq> []"
    and "take (2 * length bs) s = hex_text bs"
  shows "table_loop env (Some s) sz start dst offset 0 nbyte
       = fold_outcome (put_string env) dst (table_rows offset nbyte (table_cells k bs))"
  using assms
proof (induction k arbitrary: nbyte dst offset)
  case 0
  then show ?case by (simp add: table_cells_def table_loop_pairs)
next
  case (Suc k)
  have IH: "table_loop env (Some s) sz start dst offset 0 (Suc nbyte)
      = fold_outcome (put_string env) dst (table_rows offset (Suc nbyte) (table_cells k bs))"
    for dst offset
    using Suc.prems by (intro Suc.IH) auto
  have c: "table_cells (Suc k) bs = bytes_of ''  '' # table_cells k bs"
    by (simp add: table_cells_def)
  have "0 < sz" "nbyte < start" using Suc.prems(1,2,4) by simp_all
  then show ?case
    by (subst table_loop_step) (simp add: c fold_table_rows IH del: table_rows.simps)
qed

lemma table_rows_nonempty:
  "x \<in> set (table_rows offset i cs) \<Longrightarrow> \<forall>c \<in> set cs. 0 < length c \<and> length c < 24 \<Longrightarrow>
   x \<noteq> [] \<and> length x + 1 < 2 ^ 31"
proof (induction cs arbitrary: offset i)
  case (Cons c cs)
  have "0 < length (row_prefix offset)" "length (row_prefix offset) < 24"
    using length_row_prefix [of offset] by simp_all
  with Cons show ?case by (auto split: if_splits)
qed simp

lemma table_rows_length:
  "\<forall>c \<in> set cs. length c < 24 \<Longrightarrow>
   length (concat (table_rows offset i cs)) + length (table_rows offset i cs) \<le> 48 * length cs"
proof (induction cs arbitrary: offset i)
  case (Cons c cs)
  have p: "length (row_prefix offset) < 24" using length_row_prefix [of offset] by simp
  have c: "length c < 24" using Cons.prems by simp
  have IH: "length (concat (table_rows o' (Suc i) cs)) + length (table_rows o' (Suc i) cs)
      \<le> 48 * length cs" for o'
    using Cons by simp
  show ?case
    using p c IH [of offset] IH [of "offset + word_of_nat bytes_per_line"]
    by (simp del: length_concat)
qed simp

text \<open>
  For a dumpable range inside the buffer the table is its header and its
  rows, one string after the other, terminated once. The rows begin with \<open>start\<close> blank
  cells and their labels count from \<open>start\<close> rounded down to a multiple of 32.
\<close>

theorem as_table_text:
  assumes "buffer_wf src" and "env_ok env" and "unat (buf_size src) < 2 ^ 50"
    and "unat len < 2 ^ 63" and "unat start < unat (buf_size src)"
    and "\<forall>c \<in> set (shown src start len). dumpable sc c"
  shows "\<exists>dst. TecBuffer_as_table env sc src start len = Inr dst \<and>
     buf_content dst = hex_table_header @
       concat (table_rows (start div 32 * 32) 0 (table_cells (unat start) (shown src start len)))
       @ [0]"
proof -
  define bs where "bs = shown src start len"
  define rows where "rows = table_rows (start div 32 * 32) 0 (table_cells (unat start) bs)"
  have s63: "unat start < 2 ^ 63" using assms(3,5) by simp
  then have ss: "sint start = int (unat start)" by (rule u64_sint)
  then have nn: "\<not> sint start < 0" by linarith
  have ns: "nat (sint start) = unat start" using ss by (simp only: nat_int)
  have s60: "unat (buf_size src) < 2 ^ 60" using assms(3) by simp
  obtain tmp where tmp: "buffer_wf tmp" "bs \<noteq> []"
    "TecBuffer_as_hex env sc src start len = Inr tmp"
    "buf_content tmp = hex_text bs" "length (buf_bytes tmp) > 2 * length bs"
    using as_hex_run [OF assms(1,2) s60 assms(4), of start sc] assms(5,6)
    unfolding ns bs_def by metis
  have lbs: "length bs \<le> unat (buf_size src)"
    using assms(1) by (auto simp: bs_def shown_def Let_def)
  have size: "unat (buf_size tmp) = 2 * length bs"
    using length_buf_content [OF tmp(1)] tmp(4) by simp
  obtain s where s: "buf_data tmp = Some s" using tmp(5) by (cases "buf_data tmp") (auto simp: buf_bytes_def)
  have sl: "2 * length bs \<le> length s" and st: "take (2 * length bs) s = hex_text bs"
    using tmp(4,5) s size by (simp_all add: buf_bytes_def buf_content_def)
  have size0: "buf_size tmp \<noteq> 0" using size tmp(2) by (auto simp: u64_eq_0)
  define blk where "blk = (buf_size tmp div hex_table_block_size) * hex_table_block_size
      + hex_table_block_size + 2"
  have b256: "unat hex_table_block_size = 256" by (simp add: hex_table_block_size_def)
  have q: "unat (buf_size tmp) div 256 * 256 \<le> unat (buf_size tmp)"
    "unat (buf_size tmp) < unat (buf_size tmp) div 256 * 256 + 256"
    using div_mult_bounds [of 256 "unat (buf_size tmp)"] by simp_all
  have sz51: "unat (buf_size tmp) < 2 ^ 51" using size lbs assms(3) by simp
  have "unat ((buf_size tmp div hex_table_block_size) * hex_table_block_size)
      = unat (buf_size tmp) div 256 * 256"
    using q(1) sz51 by (simp add: u64_mult u64_div b256)
  then have blk: "unat blk = unat (buf_size tmp) div 256 * 256 + 258"
    using q(1) sz51 by (simp add: blk_def u64_add b256)
  have blk_nz: "blk \<noteq> 0" using blk by (auto simp: u64_eq_0)
  have blk_lt: "unat blk < 2 ^ 63" using blk q(1) sz51 by simp
  have create: "TecBuffer_create env blk blk = Inr (one_block_buffer blk)"
    using TecBuffer_init_result [OF assms(2), of blk blk] blk_nz
    by (simp add: TecBuffer_create_def)
  have loop: "table_loop env (Some s) (unat (buf_size tmp)) (unat start) dst
      (start div 32 * 32) 0 0 = fold_outcome (put_string env) dst rows" for dst
    unfolding rows_def using size sl tmp(2) st by (intro table_loop_rows) auto
  have "TecBuffer_as_table env sc src start len =
      fold_outcome (put_string env) (one_block_buffer blk) (hex_table_header # rows)"
    unfolding TecBuffer_as_table_def tmp(3) bind_outcome.simps Let_def blk_def [symmetric] create
    using nn size0 by (simp add: s loop bytes_per_line_def)
  moreover have "\<exists>b'. fold_outcome (put_string env) (one_block_buffer blk) (hex_table_header # rows)
      = Inr b' \<and> buffer_wf b' \<and> buf_pos b' = buf_size b' \<and>
      buf_content b' = unterminated (buf_content (one_block_buffer blk))
        @ concat (hex_table_header # rows) @ [0]"
  proof (intro fold_put_string)
    have cells: "\<forall>c \<in> set (table_cells (unat start) bs). 0 < length c \<and> length c < 24"
      by (auto simp: table_cells_def bytes_of_def)
    have h: "hex_table_header \<noteq> []" "length hex_table_header + 1 < 2 ^ 31"
      by (simp_all add: hex_table_header_def bytes_of_def)
    show "\<forall>x \<in> set (hex_table_header # rows). x \<noteq> [] \<and> length x + 1 < 2 ^ 31"
      using h table_rows_nonempty [OF _ cells] by (auto simp: rows_def)
    have "length (concat rows) + length rows \<le> 48 * length (table_cells (unat start) bs)"
      unfolding rows_def using cells by (intro table_rows_length) auto
    also have "\<dots> \<le> 2 ^ 57" using lbs assms(3,5) by (simp add: table_cells_def)
    finally show "unat (buf_pos (one_block_buffer blk)) + length (concat (hex_table_header # rows))
        + length (hex_table_header # rows) \<le> 2 ^ 61"
      by (simp add: one_block_buffer_def hex_table_header_def bytes_of_def)
  qed (use assms(2) blk_nz blk_lt one_block_buffer_wf [of blk] in
      \<open>simp_all add: one_block_buffer_def\<close>)
  moreover have "buf_content (one_block_buffer blk) = []"
    by (simp add: buf_content_def one_block_buffer_def)
  ultimately show ?thesis by (auto simp: unterminated_def rows_def bs_def)
qed

theorem as_table_text_witness:
  "\<exists>dst. TecBuffer_as_table (ample None) True sample_buffer 1 1 = Inr dst \<and>
     buf_content dst = hex_table_header @ bytes_of ''|'' @ [10] @ bytes_of ''00000000|   i'' @ [0]"
proof -
  have s: "shown sample_buffer 1 1 = [105]" by (simp add: shown_def sample_content)
  have "row_prefix 0 = bytes_of ''|'' @ [10] @ bytes_of ''00000000|''"
    by (simp add: row_prefix_def fmt_08lu_def fmt_lu_def zero_pad_def digits.simps [of 10 0]
        digit_byte_def bytes_of_def)
      (simp add: numeral_eq_Suc)
  then have "concat (table_rows (1 div 32 * 32) 0 (table_cells 1 [105]))
      = bytes_of ''|'' @ [10] @ bytes_of ''00000000|   i''"
    by (simp add: table_cells_def bytes_of_def bytes_per_line_def hex_pair_def)
  then show ?thesis
    using as_table_text [OF sample_buffer_wf, of "ample None" 1 1 True]
    by (auto simp: s dumpable_def)
qed

section \<open>JSON: properties\<close>

lemma length_fmt: 
  assumes "unat x < 10 ^ 12"
  shows "length (fmt_lu x) \<le> 12" and "unat x < 2 ^ 63 \<Longrightarrow> length (fmt_ld x) \<le> 12"
proof -
  show lu: "length (fmt_lu x) \<le> 12"
    using length_digits [of "unat x" 12] assms by (simp add: fmt_lu_def)
  show "length (fmt_ld x) \<le> 12" if "unat x < 2 ^ 63"
    using lu that u64_sint_nonneg [of x] by (simp add: fmt_ld_def)
qed

lemma length_hex_digits: "n < 16 ^ k \<Longrightarrow> 0 < k \<Longrightarrow> length (digits 16 n) \<le> k"
proof (induction k arbitrary: n)
  case (Suc k)
  show ?case
  proof (cases "n < 16")
    case True
    then show ?thesis by (simp add: digits.simps [of 16 n])
  next
    case False
    then have "n div 16 < 16 ^ k" and "0 < k" using Suc.prems
      by (auto intro: less_mult_imp_div_less gr0I)
    then show ?thesis using Suc.IH [of "n div 16"] False by (simp add: digits.simps [of 16 n])
  qed
qed simp

lemma length_fmt_08lx: "length (fmt_08lx x) \<le> 16"
proof -
  have "unat x < 16 ^ 16" using u64_lt [of x] by simp
  then show ?thesis
    using length_hex_digits [of "unat x" 16] by (simp add: fmt_08lx_def zero_pad_def)
qed

lemma json_text_fits:
  assumes "buffer_wf b" and "unat (buf_capacity b) < 10 ^ 12" and "unat (buf_block_size b) < 10 ^ 12"
  shows "length (json_text b addr) < 128" and "json_text b addr \<noteq> []"
proof -
  note w = buffer_wfD [OF assms(1)]
  have "unat (buf_size b) < 10 ^ 12" "unat (buf_pos b) < 10 ^ 12" "unat (buf_pos b) < 2 ^ 63"
    using w(1,2,5) assms(2) by linarith+
  then show "length (json_text b addr) < 128"
    using length_fmt(1) [of "buf_capacity b"] length_fmt(1) [of "buf_block_size b"]
      length_fmt(1) [of "buf_size b"] length_fmt(2) [of "buf_pos b"] assms(2,3)
      length_fmt_08lx [of addr]
    by (simp add: json_text_def ENQUOTE_def bytes_of_def)
  show "json_text b addr \<noteq> []" by (simp add: json_text_def bytes_of_def)
qed

definition json_name :: "u8 list \<Rightarrow> u8 list" where
  "json_name s = [34] @ s @ [34] @ bytes_of '': ''"

text \<open>
  With sizes below 10 to the 12th and a name of at most 123 characters,
  \<open>TecBuffer_json\<close> produces the quoted name, a colon and the object, terminated once.
\<close>

theorem json_output:
  assumes "buffer_wf b" and "env_ok env"
    and "unat (buf_capacity b) < 10 ^ 12" and "unat (buf_block_size b) < 10 ^ 12"
    and "length s < 124"
  shows "\<exists>dst. TecBuffer_json env b addr (Some s) maxlen = Inr dst \<and>
     buf_content dst = json_name s @ json_text b addr @ [0]"
proof -
  note j = json_text_fits [OF assms(1,3,4), of addr]
  have create: "TecBuffer_create env 80 80 = Inr (one_block_buffer 80)"
    using TecBuffer_init_result [OF assms(2), of 80 80] by (simp add: TecBuffer_create_def)
  have n: "length (json_name s) < 128" "json_name s \<noteq> []"
    using assms(5) by (simp_all add: json_name_def bytes_of_def)
  let ?ss = "[json_name s, json_text b addr]"
  have "TecBuffer_json env b addr (Some s) maxlen
      = fold_outcome (put_string env) (one_block_buffer 80) ?ss"
  proof -
    have "bind_outcome m Inr = m" for m :: "TecBuffer outcome" by (cases m) simp_all
    then show ?thesis
      using n(1) j(1) unfolding TecBuffer_json_def create option.case json_name_def [symmetric]
      by (simp add: c_sprintf_def)
  qed
  moreover have "\<exists>b'. fold_outcome (put_string env) (one_block_buffer 80) ?ss = Inr b' \<and>
      buffer_wf b' \<and> buf_pos b' = buf_size b' \<and>
      buf_content b' = unterminated (buf_content (one_block_buffer 80)) @ concat ?ss @ [0]"
    using n j assms(2) one_block_buffer_wf [of 80]
    by (intro fold_put_string) (auto simp: one_block_buffer_def)
  ultimately show ?thesis
    by (auto simp: unterminated_def buf_content_def one_block_buffer_def)
qed

theorem json_output_witness:
  "\<exists>dst. TecBuffer_json (ample None) sample_buffer 4096 (Some (bytes_of ''buf'')) 0 = Inr dst \<and>
     buf_content dst = json_name (bytes_of ''buf'') @ json_text sample_buffer 4096 @ [0]"
  by (rule json_output [OF sample_buffer_wf])
    (simp_all add: bytes_of_def)

text \<open>A longer name overruns the local array \<open>content\<close>.\<close>

lemma json_name_overflow:
  assumes "env_ok env" and "124 \<le> length s"
  shows "TecBuffer_json env b addr (Some s) maxlen = Inl Out_of_bounds"
proof -
  have "TecBuffer_create env 80 80 = Inr (one_block_buffer 80)"
    using TecBuffer_init_result [OF assms(1), of 80 80] by (simp add: TecBuffer_create_def)
  then show ?thesis using assms(2) by (simp add: TecBuffer_json_def c_sprintf_def bytes_of_def)
qed

end
