(* ===== verification/TecThreads.thy ===== *)
theory TecThreads
  imports Prelude
begin

text \<open>
  Models \<open>tecc_threads.h\<close> for POSIX: the thread, mutex and condition variable objects with
  their \<open>result\<close> fields, and the calls on a mutex as events whose order can be checked.
\<close>

section \<open>Threads\<close>

text \<open>
  \<open>thr_result\<close> is \<open>None\<close> in memory nobody has initialised; \<open>thr_t\<close> is the handle
  \<open>pthread_create\<close> stored.
\<close>

record TecThread =
  thr_result :: "int option"
  thr_t :: nat

definition read_field :: "'a option \<Rightarrow> 'a outcome" where
  "read_field x = (case x of None \<Rightarrow> Inl Uninitialised | Some v \<Rightarrow> Inr v)"

definition TecThread_ok :: "TecThread \<Rightarrow> bool outcome" where
  "TecThread_ok t = bind_outcome (read_field (thr_result t)) (\<lambda>r. Inr (r = 0))"

definition TecThread_init :: "TecThread \<Rightarrow> TecThread" where
  "TecThread_init t = t\<lparr>thr_result := Some 22\<rparr>"

text \<open>\<open>rc\<close> is what \<open>pthread_create\<close> returned, \<open>h\<close> the handle it stored on success.\<close>

definition TecThread_create :: "TecThread \<Rightarrow> int \<Rightarrow> nat \<Rightarrow> TecThread" where
  "TecThread_create t rc h =
     t\<lparr>thr_result := Some rc, thr_t := (if rc = 0 then h else thr_t t)\<rparr>"

text \<open>The handles joined, and the thread object after the macro.\<close>

definition TecThread_join :: "TecThread \<Rightarrow> (nat list \<times> TecThread) outcome" where
  "TecThread_join t =
     bind_outcome (TecThread_ok t) (\<lambda>ok.
       if ok then Inr ([thr_t t], t\<lparr>thr_result := Some 22\<rparr>) else Inr ([], t))"

section \<open>Mutexes and condition variables\<close>

record TecMutex =
  mtx_result :: "int option"

record TecCV =
  cv_result :: "int option"

definition TecMutex_init :: "TecMutex \<Rightarrow> int \<Rightarrow> TecMutex" where
  "TecMutex_init m rc = m\<lparr>mtx_result := Some rc\<rparr>"

definition TecMutex_ok :: "TecMutex \<Rightarrow> bool outcome" where
  "TecMutex_ok m = bind_outcome (read_field (mtx_result m)) (\<lambda>r. Inr (r = 0))"

definition TecCV_init :: "TecCV \<Rightarrow> int \<Rightarrow> TecCV" where
  "TecCV_init c rc = c\<lparr>cv_result := Some rc\<rparr>"

definition TecCV_ok :: "TecCV \<Rightarrow> bool outcome" where
  "TecCV_ok c = bind_outcome (read_field (cv_result c)) (\<lambda>r. Inr (r = 0))"

text \<open>The platform calls a monitor makes, in order.\<close>

datatype mon_call =
    Lock int
  | Unlock
  | Wait int
  | Broadcast
  | Signal
  | Destroy_mutex
  | Destroy_cv

definition TecMutex_destroy :: "TecMutex \<Rightarrow> mon_call list outcome" where
  "TecMutex_destroy m =
     bind_outcome (TecMutex_ok m) (\<lambda>ok. Inr (if ok then [Destroy_mutex] else []))"

definition TecCV_destroy :: "TecCV \<Rightarrow> int \<Rightarrow> (mon_call list \<times> TecCV) outcome" where
  "TecCV_destroy c rc =
     bind_outcome (TecCV_ok c) (\<lambda>ok.
       Inr (if ok then ([Destroy_cv], c\<lparr>cv_result := Some rc\<rparr>) else ([], c)))"

text \<open>
  A sequence of calls uses the mutex correctly: it is unlocked and waited on only while it
  is held, and locked only while it is not. The second argument is whether it is held.
\<close>

fun mutex_safe :: "bool \<Rightarrow> mon_call list \<Rightarrow> bool" where
  "mutex_safe held [] \<longleftrightarrow> \<not> held"
| "mutex_safe held (Lock rc # cs) \<longleftrightarrow> \<not> held \<and> mutex_safe (rc = 0) cs"
| "mutex_safe held (Unlock # cs) \<longleftrightarrow> held \<and> mutex_safe False cs"
| "mutex_safe held (Wait rc # cs) \<longleftrightarrow> held \<and> mutex_safe held cs"
| "mutex_safe held (Broadcast # cs) \<longleftrightarrow> mutex_safe held cs"
| "mutex_safe held (Signal # cs) \<longleftrightarrow> mutex_safe held cs"
| "mutex_safe held (Destroy_mutex # cs) \<longleftrightarrow> \<not> held \<and> mutex_safe held cs"
| "mutex_safe held (Destroy_cv # cs) \<longleftrightarrow> mutex_safe held cs"

section \<open>Properties\<close>

fun join_times :: "nat \<Rightarrow> TecThread \<Rightarrow> (nat list \<times> TecThread) outcome" where
  "join_times 0 t = Inr ([], t)"
| "join_times (Suc n) t =
     bind_outcome (TecThread_join t) (\<lambda>(hs, t').
     bind_outcome (join_times n t') (\<lambda>(hs', t''). Inr (hs @ hs', t'')))"

lemma join_idle:
  "thr_result t = Some r \<Longrightarrow> r \<noteq> 0 \<Longrightarrow> join_times n t = Inr ([], t)"
  by (induction n) (simp_all add: TecThread_join_def TecThread_ok_def read_field_def)

text \<open>
  However often \<open>TecThread_join\<close> is called after \<open>TecThread_create\<close>, a thread
  that was created is joined exactly once, and one whose creation failed never.
\<close>

theorem join_once:
  "\<exists>t'. join_times (Suc n) (TecThread_create t rc h) = Inr (if rc = 0 then [h] else [], t')"
proof (cases "rc = 0")
  case True
  then show ?thesis
    using join_idle [of "TecThread_create t 0 h\<lparr>thr_result := Some 22\<rparr>" 22 n]
    by (simp add: TecThread_join_def TecThread_ok_def read_field_def TecThread_create_def)
next
  case False
  then show ?thesis
    using join_idle [of "TecThread_create t rc h" rc "Suc n"] by (simp add: TecThread_create_def)
qed

section \<open>The C11 variant\<close>

text \<open>
  \<open>thrd_error\<close> is the platform's constant. \<open>ec\<close> is the exit code \<open>thrd_join\<close> stores in the
  result field, which the macro then overwrites.
\<close>

definition stdc_TecThread_init :: "int \<Rightarrow> TecThread \<Rightarrow> TecThread" where
  "stdc_TecThread_init thrd_error t = t\<lparr>thr_result := Some thrd_error\<rparr>"

definition stdc_TecThread_create :: "TecThread \<Rightarrow> int \<Rightarrow> nat \<Rightarrow> TecThread" where
  "stdc_TecThread_create t rc h =
     t\<lparr>thr_result := Some rc, thr_t := (if rc = 0 then h else thr_t t)\<rparr>"

definition stdc_TecThread_join :: "TecThread \<Rightarrow> int \<Rightarrow> (nat list \<times> TecThread) outcome" where
  "stdc_TecThread_join t ec =
     bind_outcome (TecThread_ok t) (\<lambda>ok.
       if ok then let t = t\<lparr>thr_result := Some ec\<rparr> in Inr ([thr_t t], t\<lparr>thr_result := Some 22\<rparr>)
       else Inr ([], t))"

definition stdc_TecMutex_init :: "TecMutex \<Rightarrow> int \<Rightarrow> TecMutex" where
  "stdc_TecMutex_init m rc = m\<lparr>mtx_result := Some rc\<rparr>"

definition stdc_TecMutex_destroy :: "TecMutex \<Rightarrow> mon_call list outcome" where
  "stdc_TecMutex_destroy m =
     bind_outcome (TecMutex_ok m) (\<lambda>ok. Inr (if ok then [Destroy_mutex] else []))"

definition stdc_TecCV_init :: "TecCV \<Rightarrow> int \<Rightarrow> TecCV" where
  "stdc_TecCV_init c rc = c\<lparr>cv_result := Some rc\<rparr>"

definition stdc_TecCV_destroy :: "TecCV \<Rightarrow> (mon_call list \<times> TecCV) outcome" where
  "stdc_TecCV_destroy c =
     bind_outcome (TecCV_ok c) (\<lambda>ok. Inr (if ok then [Destroy_cv] else [], c))"

text \<open>A program that uses one thread object.\<close>

datatype thread_op = Init_thread | Create_thread int nat | Join_thread int

fun posix_op :: "nat list \<times> TecThread \<Rightarrow> thread_op \<Rightarrow> (nat list \<times> TecThread) outcome" where
  "posix_op (hs, t) Init_thread = Inr (hs, TecThread_init t)"
| "posix_op (hs, t) (Create_thread rc h) = Inr (hs, TecThread_create t rc h)"
| "posix_op (hs, t) (Join_thread ec) =
     bind_outcome (TecThread_join t) (\<lambda>(js, t). Inr (hs @ js, t))"

fun stdc_op :: "int \<Rightarrow> nat list \<times> TecThread \<Rightarrow> thread_op \<Rightarrow> (nat list \<times> TecThread) outcome" where
  "stdc_op thrd_error (hs, t) Init_thread = Inr (hs, stdc_TecThread_init thrd_error t)"
| "stdc_op _ (hs, t) (Create_thread rc h) = Inr (hs, stdc_TecThread_create t rc h)"
| "stdc_op _ (hs, t) (Join_thread ec) =
     bind_outcome (stdc_TecThread_join t ec) (\<lambda>(js, t). Inr (hs @ js, t))"

text \<open>What a client can tell of two runs: the handles joined, and whether the thread is ok.\<close>

fun same_view :: "(nat list \<times> TecThread) outcome \<Rightarrow> (nat list \<times> TecThread) outcome \<Rightarrow> bool" where
  "same_view (Inr (hs, t)) (Inr (hs', t')) \<longleftrightarrow>
     hs' = hs \<and> thr_t t' = thr_t t \<and> TecThread_ok t' = TecThread_ok t"
| "same_view (Inl f) (Inl f') \<longleftrightarrow> f' = f"
| "same_view _ _ \<longleftrightarrow> False"

lemma op_agrees:
  assumes "e \<noteq> 0" and "same_view (Inr (hs, t)) (Inr (hs', t'))"
  shows "same_view (posix_op (hs, t) x) (stdc_op e (hs', t') x)"
  using assms
  by (cases x; cases "thr_result t"; cases "thr_result t'")
     (auto simp: TecThread_ok_def read_field_def TecThread_init_def stdc_TecThread_init_def
       TecThread_create_def stdc_TecThread_create_def TecThread_join_def stdc_TecThread_join_def Let_def)

lemma ops_agree:
  assumes "e \<noteq> 0"
  shows "same_view (Inr (hs, t)) (Inr (hs', t')) \<Longrightarrow>
     same_view (fold_outcome posix_op (hs, t) xs) (fold_outcome (stdc_op e) (hs', t') xs)"
proof (induction xs arbitrary: hs t hs' t')
  case Nil
  then show ?case by simp
next
  case (Cons x xs)
  have v: "same_view (posix_op (hs, t) x) (stdc_op e (hs', t') x)"
    using Cons.prems by (rule op_agrees [OF assms])
  show ?case
  proof (cases "posix_op (hs, t) x")
    case (Inl f)
    then show ?thesis using v by (cases "stdc_op e (hs', t') x") auto
  next
    case (Inr r)
    then obtain hs1 t1 where r: "posix_op (hs, t) x = Inr (hs1, t1)" by (cases r) auto
    then obtain hs2 t2 where r': "stdc_op e (hs', t') x = Inr (hs2, t2)"
      using v by (cases "stdc_op e (hs', t') x") auto
    show ?thesis using Cons.IH [of hs1 t1 hs2 t2] v r r' by simp
  qed
qed

text \<open>
  A program cannot tell the POSIX and the C11 macros of the thread object
  apart: on every sequence of initialisations, creations and joins they join the same
  handles, read an uninitialised field in the same place, and report the same status,
  whatever the exit codes of the threads.
\<close>

theorem thread_apis_agree:
  assumes "thrd_error \<noteq> 0"
  shows "same_view (fold_outcome posix_op ([], t) xs) (fold_outcome (stdc_op thrd_error) ([], t) xs)"
  using assms by (rule ops_agree) simp

theorem thread_apis_agree_witness:
  "same_view
     (fold_outcome posix_op ([], \<lparr>thr_result = None, thr_t = 0\<rparr>)
        [Init_thread, Join_thread 0, Create_thread 0 5, Join_thread 0, Join_thread 0])
     (fold_outcome (stdc_op 2) ([], \<lparr>thr_result = None, thr_t = 0\<rparr>)
        [Init_thread, Join_thread 0, Create_thread 0 5, Join_thread 0, Join_thread 0])"
  by (rule thread_apis_agree) simp

end
