(* ===== verification/TecMap.thy ===== *)
theory TecMap
  imports Prelude
begin

text \<open>
  Models \<open>tecc_map.c\<close> and \<open>tecc_map.h\<close>: a hash table from C strings to pointers whose
  buckets are doubly linked lists of nodes, and its iterator.
\<close>

section \<open>Model\<close>

record TecMapKeyValue =
  kv_key :: "u8 list"
  kv_value :: ptr

record TecMapNode =
  node_pair :: TecMapKeyValue
  node_prev :: ptr
  node_next :: ptr

type_synonym node_heap = "ptr \<Rightarrow> TecMapNode option"

text \<open>
  \<open>map_nodes\<close> is the bucket array (\<open>None\<close> for \<open>NULL\<close>); \<open>map_heap\<close> is the memory that
  holds the nodes this map has allocated. A key is the string its pointer reaches, which
  the caller must leave unchanged while it is in the map.
\<close>

record TecMap =
  map_nodes :: "ptr list option"
  map_size :: u64
  map_capacity :: u64
  map_heap :: node_heap

definition TECC_MAP_DEFAULT_SIZE :: u64 where
  "TECC_MAP_DEFAULT_SIZE = 117"

text \<open>Dereferencing a node pointer, and writing through one.\<close>

definition node_at :: "node_heap \<Rightarrow> ptr \<Rightarrow> TecMapNode outcome" where
  "node_at h p =
     (if p = NULL then Inl Null_deref
      else case h p of None \<Rightarrow> Inl Invalid_pointer | Some n \<Rightarrow> Inr n)"

definition update_node :: "node_heap \<Rightarrow> ptr \<Rightarrow> (TecMapNode \<Rightarrow> TecMapNode) \<Rightarrow> node_heap outcome" where
  "update_node h p f = bind_outcome (node_at h p) (\<lambda>n. Inr (h(p \<mapsto> f n)))"

text \<open>Reading and writing \<open>map->nodes[ndx]\<close>.\<close>

definition bucket_at :: "TecMap \<Rightarrow> nat \<Rightarrow> ptr outcome" where
  "bucket_at m ndx =
     (case map_nodes m of
        None \<Rightarrow> Inl Null_deref
      | Some bs \<Rightarrow> (if ndx < length bs then Inr (bs ! ndx) else Inl Out_of_bounds))"

definition set_bucket :: "TecMap \<Rightarrow> nat \<Rightarrow> ptr \<Rightarrow> TecMap outcome" where
  "set_bucket m ndx p =
     (case map_nodes m of
        None \<Rightarrow> Inl Null_deref
      | Some bs \<Rightarrow>
          (if ndx < length bs then Inr (m\<lparr>map_nodes := Some (bs[ndx := p])\<rparr>)
           else Inl Out_of_bounds))"

fun fnv_loop :: "u64 \<Rightarrow> u8 list \<Rightarrow> u64" where
  "fnv_loop h [] = h"
| "fnv_loop h (c # s) = fnv_loop ((h XOR ucast c) * 1099511628211) s"

definition tec_fnv_1a_64 :: "u8 list \<Rightarrow> u64" where
  "tec_fnv_1a_64 s = fnv_loop 14695981039346656037 s"

text \<open>\<open>p\<close> is what \<open>malloc\<close> returned; the code does not test it.\<close>

definition new_node ::
  "node_heap \<Rightarrow> ptr \<Rightarrow> u8 list \<Rightarrow> ptr \<Rightarrow> ptr \<Rightarrow> ptr \<Rightarrow> node_heap outcome" where
  "new_node h p key value prev next =
     (if p = NULL then Inl Null_deref
      else Inr (h(p \<mapsto> \<lparr>node_pair = \<lparr>kv_key = key, kv_value = value\<rparr>,
                      node_prev = prev, node_next = next\<rparr>)))"

definition delete_node :: "node_heap \<Rightarrow> ptr \<Rightarrow> (ptr \<times> node_heap) outcome" where
  "delete_node h n = bind_outcome (node_at h n) (\<lambda>x. Inr (node_next x, h(n := None)))"

text \<open>
  The loops that follow \<open>next\<close> pointers end only on a list that ends; \<open>None\<close> is a loop
  that does not.
\<close>

partial_function (option) delete_loop :: "node_heap \<Rightarrow> ptr \<Rightarrow> node_heap outcome option" where
  "delete_loop h n =
     (if n = NULL then Some (Inr h)
      else case delete_node h n of
        Inl f \<Rightarrow> Some (Inl f)
      | Inr (next, h') \<Rightarrow> delete_loop h' next)"

definition delete_bucket :: "node_heap \<Rightarrow> ptr \<Rightarrow> node_heap outcome" where
  "delete_bucket h n = (case delete_loop h n of None \<Rightarrow> Inl No_return | Some r \<Rightarrow> r)"

partial_function (option) find_loop :: "node_heap \<Rightarrow> u8 list \<Rightarrow> ptr \<Rightarrow> ptr outcome option" where
  "find_loop h key b =
     (if b = NULL then Some (Inr NULL)
      else case node_at h b of
        Inl f \<Rightarrow> Some (Inl f)
      | Inr n \<Rightarrow> (if kv_key (node_pair n) = key then Some (Inr b)
                  else find_loop h key (node_next n)))"

definition find_node :: "TecMap \<Rightarrow> u8 list \<Rightarrow> nat \<Rightarrow> ptr outcome" where
  "find_node m key ndx =
     bind_outcome (bucket_at m ndx) (\<lambda>node.
       if node = NULL then Inr NULL
       else bind_outcome (node_at (map_heap m) node) (\<lambda>n.
         if kv_key (node_pair n) = key then Inr node
         else case find_loop (map_heap m) key (node_next n) of
                None \<Rightarrow> Inl No_return
              | Some r \<Rightarrow> r))"

text \<open>\<open>calloc_ok\<close> tells whether \<open>calloc\<close> gave the bucket array.\<close>

definition TecMap_init :: "bool \<Rightarrow> TecMap \<Rightarrow> u64 \<Rightarrow> bool \<times> TecMap" where
  "TecMap_init calloc_ok m size0 =
     (let size0 = (if size0 = 0 then TECC_MAP_DEFAULT_SIZE else size0)
      in if \<not> calloc_ok then (False, m\<lparr>map_nodes := None\<rparr>)
         else (True, m\<lparr>map_nodes := Some (replicate (unat size0) NULL), map_size := 0,
                      map_capacity := size0\<rparr>))"

definition clear_step :: "TecMap \<Rightarrow> nat \<Rightarrow> TecMap outcome" where
  "clear_step m i =
     bind_outcome (bucket_at m i) (\<lambda>node.
       if node = NULL then Inr m
       else bind_outcome (delete_bucket (map_heap m) node) (\<lambda>h.
            set_bucket (m\<lparr>map_heap := h\<rparr>) i NULL))"

definition TecMap_clear :: "TecMap \<Rightarrow> TecMap outcome" where
  "TecMap_clear m =
     bind_outcome (fold_outcome clear_step m [0 ..< unat (map_capacity m)])
       (\<lambda>m. Inr (m\<lparr>map_size := 0\<rparr>))"

definition TecMap_done :: "TecMap \<Rightarrow> TecMap outcome" where
  "TecMap_done m =
     bind_outcome (TecMap_clear m) (\<lambda>m. Inr (m\<lparr>map_nodes := None, map_capacity := 0\<rparr>))"

definition map_index :: "TecMap \<Rightarrow> u8 list \<Rightarrow> nat outcome" where
  "map_index m key =
     (if map_capacity m = 0 then Inl Div_by_zero
      else Inr (unat (tec_fnv_1a_64 key mod map_capacity m)))"

definition TecMap_set :: "TecMap \<Rightarrow> u8 list \<Rightarrow> ptr \<Rightarrow> ptr \<Rightarrow> (ptr \<times> TecMap) outcome" where
  "TecMap_set m key value p =
     bind_outcome (map_index m key) (\<lambda>ndx.
     bind_outcome (find_node m key ndx) (\<lambda>found.
       if found \<noteq> NULL then
         bind_outcome (node_at (map_heap m) found) (\<lambda>n.
         bind_outcome (update_node (map_heap m) found
             (\<lambda>n. n\<lparr>node_pair := (node_pair n)\<lparr>kv_value := value\<rparr>\<rparr>)) (\<lambda>h.
           Inr (kv_value (node_pair n), m\<lparr>map_heap := h\<rparr>)))
       else
         bind_outcome (bucket_at m ndx) (\<lambda>root.
         bind_outcome (new_node (map_heap m) p key value NULL root) (\<lambda>h.
         bind_outcome (if root \<noteq> NULL then update_node h root (\<lambda>n. n\<lparr>node_prev := p\<rparr>) else Inr h)
           (\<lambda>h.
         bind_outcome (set_bucket (m\<lparr>map_heap := h\<rparr>) ndx p) (\<lambda>m.
           Inr (NULL, m\<lparr>map_size := map_size m + 1\<rparr>)))))))"

definition TecMap_get :: "TecMap \<Rightarrow> u8 list \<Rightarrow> ptr outcome" where
  "TecMap_get m key =
     bind_outcome (map_index m key) (\<lambda>ndx.
     bind_outcome (find_node m key ndx) (\<lambda>node.
       if node \<noteq> NULL
       then bind_outcome (node_at (map_heap m) node) (\<lambda>n. Inr (kv_value (node_pair n)))
       else Inr NULL))"

definition TecMap_remove :: "TecMap \<Rightarrow> u8 list \<Rightarrow> (ptr \<times> TecMap) outcome" where
  "TecMap_remove m key =
     bind_outcome (map_index m key) (\<lambda>ndx.
     bind_outcome (find_node m key ndx) (\<lambda>node.
       if node = NULL then Inr (NULL, m)
       else
         bind_outcome (node_at (map_heap m) node) (\<lambda>n.
         bind_outcome
           (if node_prev n = NULL then
              bind_outcome
                (if node_next n \<noteq> NULL
                 then update_node (map_heap m) (node_next n) (\<lambda>x. x\<lparr>node_prev := NULL\<rparr>)
                 else Inr (map_heap m))
                (\<lambda>h. set_bucket (m\<lparr>map_heap := h\<rparr>) ndx (node_next n))
            else
              bind_outcome
                (update_node (map_heap m) (node_prev n) (\<lambda>x. x\<lparr>node_next := node_next n\<rparr>))
                (\<lambda>h.
              bind_outcome
                (if node_next n \<noteq> NULL
                 then update_node h (node_next n) (\<lambda>x. x\<lparr>node_prev := node_prev n\<rparr>)
                 else Inr h)
                (\<lambda>h. Inr (m\<lparr>map_heap := h\<rparr>))))
           (\<lambda>m.
         bind_outcome (delete_node (map_heap m) node) (\<lambda>(next, h).
           Inr (kv_value (node_pair n),
                m\<lparr>map_heap := h, map_size := map_size m - 1\<rparr>))))))"

text \<open>
  The iterator: \<open>iter_map\<close> is the pointer to the map, which the operations take as \<open>m\<close>.
  A \<open>TecMapKeyValuePtr\<close> is the address of the node it is the first member of.
\<close>

record TecMapIter =
  iter_map :: ptr
  iter_pos :: u64
  iter_cur :: ptr

fun next_bucket :: "ptr list \<Rightarrow> nat \<Rightarrow> (nat \<times> ptr) option" where
  "next_bucket [] pos = None"
| "next_bucket (b # bs) pos = (if b \<noteq> NULL then Some (pos, b) else next_bucket bs (Suc pos))"

text \<open>The scan \<open>for (; pos < map->capacity; ++pos)\<close> for a bucket that is not empty.\<close>

definition scan_buckets :: "TecMap \<Rightarrow> nat \<Rightarrow> (nat \<times> ptr) option outcome" where
  "scan_buckets m pos =
     (if unat (map_capacity m) \<le> pos then Inr None
      else case map_nodes m of
        None \<Rightarrow> Inl Null_deref
      | Some bs \<Rightarrow>
          (if length bs < unat (map_capacity m) then Inl Out_of_bounds
           else Inr (next_bucket (drop pos (take (unat (map_capacity m)) bs)) pos)))"

definition TecMapIter_begin :: "TecMapIter \<Rightarrow> ptr \<Rightarrow> TecMap \<Rightarrow> (ptr \<times> TecMapIter) outcome" where
  "TecMapIter_begin it mp m =
     bind_outcome (scan_buckets m 0) (\<lambda>r.
       case r of
         None \<Rightarrow> Inr (NULL, \<lparr>iter_map = mp, iter_pos = 0, iter_cur = NULL\<rparr>)
       | Some (pos, cur) \<Rightarrow>
           Inr (cur, \<lparr>iter_map = mp, iter_pos = word_of_nat pos, iter_cur = cur\<rparr>))"

definition TecMapIter_next :: "TecMapIter \<Rightarrow> TecMap \<Rightarrow> (ptr \<times> TecMapIter) outcome" where
  "TecMapIter_next it m =
     (if iter_cur it = NULL then Inr (NULL, it)
      else bind_outcome (node_at (map_heap m) (iter_cur it)) (\<lambda>n.
        if node_next n \<noteq> NULL then Inr (node_next n, it\<lparr>iter_cur := node_next n\<rparr>)
        else bind_outcome (scan_buckets m (unat (iter_pos it + 1))) (\<lambda>r.
          case r of
            None \<Rightarrow> Inr (NULL, it)
          | Some (pos, node) \<Rightarrow>
              Inr (node, it\<lparr>iter_cur := node, iter_pos := word_of_nat pos\<rparr>))))"

definition TecMapIter_rewind :: "TecMapIter \<Rightarrow> TecMap \<Rightarrow> (ptr \<times> TecMapIter) outcome" where
  "TecMapIter_rewind it m =
     (if iter_map it = NULL then Inr (NULL, it) else TecMapIter_begin it (iter_map it) m)"

section \<open>Layout in memory\<close>

text \<open>
  A bucket is a doubly linked list: \<open>linked h pv xs q\<close> holds when the nodes \<open>xs\<close> are linked
  both ways, \<open>pv\<close> before the first and \<open>q\<close> after the last.
\<close>

fun linked :: "node_heap \<Rightarrow> ptr \<Rightarrow> ptr list \<Rightarrow> ptr \<Rightarrow> bool" where
  "linked h pv [] q \<longleftrightarrow> True"
| "linked h pv (x # xs) q \<longleftrightarrow>
     x \<noteq> NULL \<and>
     (\<exists>n. h x = Some n \<and> node_prev n = pv \<and> node_next n = first xs q) \<and>
     linked h x xs q"

definition key_at :: "node_heap \<Rightarrow> ptr \<Rightarrow> u8 list" where
  "key_at h p = (case h p of None \<Rightarrow> [] | Some n \<Rightarrow> kv_key (node_pair n))"

definition value_at :: "node_heap \<Rightarrow> ptr \<Rightarrow> ptr" where
  "value_at h p = (case h p of None \<Rightarrow> NULL | Some n \<Rightarrow> kv_value (node_pair n))"

definition slot :: "TecMap \<Rightarrow> u8 list \<Rightarrow> nat" where
  "slot m key = unat (tec_fnv_1a_64 key mod map_capacity m)"

text \<open>
  A well-formed map whose bucket \<open>i\<close> holds the nodes \<open>xss ! i\<close>: the memory holds exactly
  the linked nodes, every node is in the bucket of its key, no key occurs twice, and
  \<open>size\<close> counts the nodes.
\<close>

definition bucket_ok :: "TecMap \<Rightarrow> nat \<Rightarrow> ptr list \<Rightarrow> bool" where
  "bucket_ok m i xs \<longleftrightarrow>
     linked (map_heap m) NULL xs NULL \<and> distinct xs \<and>
     distinct (map (key_at (map_heap m)) xs) \<and>
     (\<forall>x \<in> set xs. slot m (key_at (map_heap m) x) = i)"

definition map_layout :: "TecMap \<Rightarrow> ptr list list \<Rightarrow> bool" where
  "map_layout m xss \<longleftrightarrow>
     map_capacity m \<noteq> 0 \<and> length xss = unat (map_capacity m) \<and>
     map_nodes m = Some (map (\<lambda>xs. first xs NULL) xss) \<and>
     (\<forall>i < length xss. bucket_ok m i (xss ! i)) \<and>
     dom (map_heap m) = set (concat xss) \<and>
     map_size m = word_of_nat (length (concat xss))"

text \<open>The entry a node stands for, and the finite map a bucket list stands for.\<close>

definition entry :: "node_heap \<Rightarrow> ptr \<Rightarrow> u8 list \<times> ptr" where
  "entry h x = (key_at h x, value_at h x)"

definition bucket_map :: "node_heap \<Rightarrow> ptr list \<Rightarrow> u8 list \<Rightarrow> ptr option" where
  "bucket_map h xs = map_of (map (entry h) xs)"

text \<open>The finite map a hash table represents.\<close>

definition represents :: "TecMap \<Rightarrow> (u8 list \<Rightarrow> ptr option) \<Rightarrow> bool" where
  "represents m f \<longleftrightarrow>
     (\<exists>xss. map_layout m xss \<and> f = (\<lambda>k. bucket_map (map_heap m) (xss ! slot m k) k))"

subsection \<open>Linked buckets\<close>

lemma linked_append [simp]:
  "linked h pv (xs @ ys) q \<longleftrightarrow> linked h pv xs (first ys q) \<and> linked h (last (pv # xs)) ys q"
  by (induction xs arbitrary: pv) auto

lemma linked_cong:
  "(\<And>x. x \<in> set xs \<Longrightarrow> h x = h' x) \<Longrightarrow> linked h pv xs q = linked h' pv xs q"
  by (induction xs arbitrary: pv) auto

lemma linked_update [simp]: "x \<notin> set xs \<Longrightarrow> linked (h(x := v)) pv xs q = linked h pv xs q"
  by (rule linked_cong) auto

lemma linked_not_NULL: "linked h pv xs q \<Longrightarrow> NULL \<notin> set xs"
  by (induction xs arbitrary: pv) auto

lemma linked_dom: "linked h pv xs q \<Longrightarrow> set xs \<subseteq> dom h"
  by (induction xs arbitrary: pv) (auto split: option.splits)

lemma linked_next:
  assumes "linked h pv (xs @ [x]) q" and "distinct (xs @ [x])" and "h x = Some n"
  shows "linked (h(x \<mapsto> n\<lparr>node_next := q'\<rparr>)) pv (xs @ [x]) q'"
  using assms by auto

lemma linked_prev:
  assumes "linked h pv (x # xs) q" and "distinct (x # xs)" and "h x = Some n"
  shows "linked (h(x \<mapsto> n\<lparr>node_prev := pv'\<rparr>)) pv' (x # xs) q"
  using assms by auto

lemma node_at_linked:
  assumes "linked h pv xs q" and "x \<in> set xs"
  shows "\<exists>n. node_at h x = Inr n \<and> h x = Some n \<and> key_at h x = kv_key (node_pair n) \<and>
       value_at h x = kv_value (node_pair n)"
proof -
  have "x \<in> dom h" using linked_dom [OF assms(1)] assms(2) by (rule subsetD)
  moreover have "x \<noteq> NULL" using linked_not_NULL [OF assms(1)] assms(2) by (cases "x = NULL") simp_all
  ultimately show ?thesis by (auto simp: node_at_def key_at_def value_at_def)
qed

text \<open>The node a search stops at: the first with the key, or \<open>NULL\<close>.\<close>

fun seek_key :: "node_heap \<Rightarrow> u8 list \<Rightarrow> ptr list \<Rightarrow> ptr" where
  "seek_key h k [] = NULL"
| "seek_key h k (x # xs) = (if key_at h x = k then x else seek_key h k xs)"

lemma find_loop_linked:
  "linked h pv xs NULL \<Longrightarrow> find_loop h k (first xs NULL) = Some (Inr (seek_key h k xs))"
proof (induction xs arbitrary: pv)
  case Nil
  then show ?case by (subst find_loop.simps) simp
next
  case (Cons x xs)
  then obtain n where "h x = Some n" "x \<noteq> NULL" "node_next n = first xs NULL" "linked h x xs NULL"
    by (auto split: option.splits)
  with Cons.IH show ?case
    by (subst find_loop.simps) (simp add: node_at_def key_at_def)
qed

lemma seek_key_cases [consumes 2, case_names none some]:
  assumes "NULL \<notin> set xs" and "distinct (map (key_at h) xs)"
  obtains "seek_key h k xs = NULL" and "k \<notin> key_at h ` set xs" and "bucket_map h xs k = None"
  | ys zs x where "xs = ys @ x # zs" and "seek_key h k xs = x" and "x \<noteq> NULL"
    and "key_at h x = k" and "bucket_map h xs k = Some (value_at h x)"
    and "k \<notin> key_at h ` set ys" and "k \<notin> key_at h ` set zs"
  using assms
proof (induction xs arbitrary: thesis)
  case Nil
  then show ?case by (simp add: bucket_map_def)
next
  case (Cons x xs)
  show ?case
  proof (cases "key_at h x = k")
    case True
    then show ?thesis using Cons.prems(2) [of "[]" x xs] Cons.prems(3,4)
      by (auto simp: bucket_map_def entry_def)
  next
    case False
    show ?thesis
    proof (rule Cons.IH)
      assume "seek_key h k xs = NULL" "k \<notin> key_at h ` set xs" "bucket_map h xs k = None"
      then show thesis using Cons.prems(1) False by (auto simp: bucket_map_def entry_def)
    next
      fix ys zs y
      assume "xs = ys @ y # zs" "seek_key h k xs = y" "y \<noteq> NULL" "key_at h y = k"
        "bucket_map h xs k = Some (value_at h y)" "k \<notin> key_at h ` set ys"
        "k \<notin> key_at h ` set zs"
      then show thesis using Cons.prems(2) [of "x # ys" y zs] False
        by (auto simp: bucket_map_def entry_def)
    qed (use Cons.prems(3,4) in auto)
  qed
qed

lemma find_node_linked:
  assumes "bucket_at m ndx = Inr (first xs NULL)" and "linked (map_heap m) NULL xs NULL"
  shows "find_node m k ndx = Inr (seek_key (map_heap m) k xs)"
proof (cases xs)
  case Nil
  then show ?thesis using assms(1) by (simp add: find_node_def)
next
  case (Cons x ys)
  then obtain n where n: "map_heap m x = Some n" "x \<noteq> NULL" "node_next n = first ys NULL"
    "linked (map_heap m) x ys NULL"
    using assms(2) by (auto split: option.splits)
  with find_loop_linked [OF n(4), of k] assms(1) Cons show ?thesis
    by (simp add: find_node_def node_at_def key_at_def)
qed

subsection \<open>Layouts\<close>

lemma slot_bound: "map_capacity m \<noteq> 0 \<Longrightarrow> slot m k < unat (map_capacity m)"
  by (simp add: slot_def u64_mod u64_eq_0)

lemma map_index_slot: "map_capacity m \<noteq> 0 \<Longrightarrow> map_index m k = Inr (slot m k)"
  by (simp add: map_index_def slot_def)

lemma layoutD:
  assumes "map_layout m xss"
  shows "map_capacity m \<noteq> 0" and "length xss = unat (map_capacity m)"
    and "map_nodes m = Some (map (\<lambda>xs. first xs NULL) xss)"
    and "i < length xss \<Longrightarrow> bucket_ok m i (xss ! i)"
    and "dom (map_heap m) = set (concat xss)"
    and "map_size m = word_of_nat (length (concat xss))"
  using assms by (auto simp: map_layout_def)

lemma layout_bucket_at:
  "map_layout m xss \<Longrightarrow> i < length xss \<Longrightarrow> bucket_at m i = Inr (first (xss ! i) NULL)"
  by (simp add: bucket_at_def layoutD)

lemma layout_slot:
  assumes "map_layout m xss"
  shows "slot m k < length xss" and "bucket_ok m (slot m k) (xss ! slot m k)"
    and "map_index m k = Inr (slot m k)"
    and "bucket_at m (slot m k) = Inr (first (xss ! slot m k) NULL)"
    and "find_node m k (slot m k) = Inr (seek_key (map_heap m) k (xss ! slot m k))"
proof -
  show s: "slot m k < length xss" using assms by (simp add: layoutD slot_bound)
  show b: "bucket_ok m (slot m k) (xss ! slot m k)" using assms s by (rule layoutD)
  show "map_index m k = Inr (slot m k)" using assms by (simp add: layoutD map_index_slot)
  show a: "bucket_at m (slot m k) = Inr (first (xss ! slot m k) NULL)"
    using assms s by (rule layout_bucket_at)
  show "find_node m k (slot m k) = Inr (seek_key (map_heap m) k (xss ! slot m k))"
    using a b by (intro find_node_linked) (simp_all add: bucket_ok_def)
qed

lemma slot_cong: "map_capacity m' = map_capacity m \<Longrightarrow> slot m' = slot m"
  by (simp add: fun_eq_iff slot_def)

text \<open>Nodes of different buckets are different.\<close>

lemma layout_disjoint:
  assumes "map_layout m xss" and "i < length xss" and "j < length xss" and "i \<noteq> j"
  shows "set (xss ! i) \<inter> set (xss ! j) = {}"
  using layoutD(4) [OF assms(1,2)] layoutD(4) [OF assms(1,3)] assms(4)
  by (fastforce simp: bucket_ok_def)

text \<open>Changing one bucket and leaving the others alone.\<close>

definition bucket_change :: "TecMap \<Rightarrow> ptr list list \<Rightarrow> nat \<Rightarrow> ptr list \<Rightarrow> TecMap \<Rightarrow> bool" where
  "bucket_change m xss i xs' m' \<longleftrightarrow>
     i < length xss \<and> map_capacity m' = map_capacity m \<and>
     map_nodes m' = Some ((map (\<lambda>xs. first xs NULL) xss)[i := first xs' NULL]) \<and>
     bucket_ok m' i xs' \<and>
     (\<forall>x. x \<notin> set (xss ! i) \<and> x \<notin> set xs' \<longrightarrow> map_heap m' x = map_heap m x) \<and>
     (\<forall>j < length xss. j \<noteq> i \<longrightarrow> set xs' \<inter> set (xss ! j) = {}) \<and>
     dom (map_heap m') = dom (map_heap m) - set (xss ! i) \<union> set xs' \<and>
     map_size m' = map_size m + word_of_nat (length xs') - word_of_nat (length (xss ! i))"

lemma bucket_change_same:
  assumes "map_layout m xss" and "bucket_change m xss i xs' m'"
    and "j < length xss" and "j \<noteq> i" and "x \<in> set (xss ! j)"
  shows "map_heap m' x = map_heap m x"
proof -
  have "set (xss ! i) \<inter> set (xss ! j) = {}"
    using assms layout_disjoint [OF assms(1), of i j] by (auto simp: bucket_change_def)
  then show ?thesis using assms(2-5) by (auto simp: bucket_change_def)
qed

lemma bucket_ok_cong:
  assumes "\<And>x. x \<in> set xs \<Longrightarrow> map_heap m' x = map_heap m x"
    and "map_capacity m' = map_capacity m"
  shows "bucket_ok m' i xs = bucket_ok m i xs"
proof -
  have k: "key_at (map_heap m') x = key_at (map_heap m) x" if "x \<in> set xs" for x
    using assms(1) [OF that] by (simp add: key_at_def)
  then have eq: "map (key_at (map_heap m')) xs = map (key_at (map_heap m)) xs"
    by (rule map_cong [OF refl])
  have "linked (map_heap m') NULL xs NULL = linked (map_heap m) NULL xs NULL"
    using assms(1) by (rule linked_cong)
  then show ?thesis unfolding bucket_ok_def eq slot_cong [OF assms(2)] using k by auto
qed

lemma length_concat_update:
  assumes "i < length xss"
  shows "length (concat (xss[i := xs'])) + length (xss ! i) = length (concat xss) + length xs'"
proof -
  have "length (xss ! i) \<le> sum_list (map length xss)"
    using assms by (intro member_le_sum_list) simp_all
  then show ?thesis
    using assms by (simp add: length_concat map_update sum_list_update)
qed

lemma layout_change:
  assumes L: "map_layout m xss" and C: "bucket_change m xss i xs' m'"
  shows "map_layout m' (xss[i := xs'])"
proof -
  have i: "i < length xss" and cap: "map_capacity m' = map_capacity m"
    using C by (simp_all add: bucket_change_def)
  have buckets: "bucket_ok m' j (xss[i := xs'] ! j)" if "j < length xss" for j
  proof (cases "j = i")
    case True
    then show ?thesis using C by (simp add: bucket_change_def)
  next
    case False
    then have "bucket_ok m' j (xss ! j) = bucket_ok m j (xss ! j)"
      using bucket_change_same [OF L C that False] cap by (intro bucket_ok_cong)
    then show ?thesis using False that layoutD(4) [OF L] by simp
  qed
  have "set (concat (xss[i := xs'])) = set (concat xss) - set (xss ! i) \<union> set xs'"
  proof -
    have "x \<in> set (concat xss) - set (xss ! i) \<union> set xs'"
      if xc: "x \<in> set (concat (xss[i := xs']))" for x
    proof -
      obtain ys where ys: "ys \<in> set (xss[i := xs'])" "x \<in> set ys" using xc by auto
      then obtain j where j: "j < length xss" "ys = xss[i := xs'] ! j"
        by (auto simp: in_set_conv_nth)
      show ?thesis
      proof (cases "j = i")
        case True
        then show ?thesis using ys j i by simp
      next
        case False
        then have "x \<in> set (xss ! j)" using ys j by simp
        moreover from this have "x \<in> set (concat xss)" using j(1) by auto
        ultimately show ?thesis using layout_disjoint [OF L j(1) i False] by blast
      qed
    qed
    moreover have "x \<in> set (concat (xss[i := xs']))"
      if xn: "x \<in> set (concat xss) - set (xss ! i) \<union> set xs'" for x
    proof (cases "x \<in> set xs'")
      case True
      then show ?thesis using i set_update_memI [OF i] by auto
    next
      case False
      then obtain ys where ys: "ys \<in> set xss" "x \<in> set ys" "ys \<noteq> xss ! i"
        using xn by auto
      then obtain j where "j < length xss" "ys = xss ! j" "j \<noteq> i"
        by (auto simp: in_set_conv_nth)
      then have "ys \<in> set (xss[i := xs'])"
        using nth_mem [of j "xss[i := xs']"] by simp
      then show ?thesis using ys(2) by auto
    qed
    ultimately show ?thesis by (intro set_eqI iffI)
  qed
  moreover have "map_size m' = word_of_nat (length (concat (xss[i := xs'])))"
  proof -
    have "(word_of_nat (length (concat (xss[i := xs']))) :: u64)
        = word_of_nat (length (concat xss)) + word_of_nat (length xs')
          - word_of_nat (length (xss ! i))"
      using length_concat_update [OF i, of xs'] by (metis add_diff_cancel_right' of_nat_add)
    then show ?thesis using C layoutD(6) [OF L] by (simp add: bucket_change_def)
  qed
  ultimately show ?thesis
    using C cap i buckets layoutD [OF L] by (auto simp: map_layout_def bucket_change_def map_update)
qed

lemma represents_change:
  assumes L: "map_layout m xss" and C: "bucket_change m xss i xs' m'"
    and f: "f = (\<lambda>k. bucket_map (map_heap m) (xss ! slot m k) k)"
    and here: "\<And>k. slot m k = i \<Longrightarrow> bucket_map (map_heap m') xs' k = f' k"
    and there: "\<And>k. slot m k \<noteq> i \<Longrightarrow> f' k = f k"
  shows "represents m' f'"
proof -
  have i: "i < length xss" and cap: "slot m' = slot m"
    using C slot_cong [of m' m] by (simp_all add: bucket_change_def)
  have "f' k = bucket_map (map_heap m') (xss[i := xs'] ! slot m' k) k" for k
  proof (cases "slot m k = i")
    case True
    then show ?thesis using here cap i by simp
  next
    case False
    have "map (entry (map_heap m')) (xss ! slot m k) = map (entry (map_heap m)) (xss ! slot m k)"
      using bucket_change_same [OF L C layout_slot(1) [OF L] False]
      by (simp add: entry_def key_at_def value_at_def)
    then have "bucket_map (map_heap m') (xss ! slot m k) = bucket_map (map_heap m) (xss ! slot m k)"
      by (simp only: bucket_map_def)
    then show ?thesis using there [OF False] False cap f by simp
  qed
  then show ?thesis using layout_change [OF L C] unfolding represents_def by blast
qed

section \<open>Lookup\<close>

definition value_of :: "ptr option \<Rightarrow> ptr" where
  "value_of r = (case r of None \<Rightarrow> NULL | Some v \<Rightarrow> v)"

text \<open>What a search in the bucket of a key finds.\<close>

lemma layout_find [consumes 2, case_names none some]:
  assumes L: "map_layout m xss" and f: "f = (\<lambda>k. bucket_map (map_heap m) (xss ! slot m k) k)"
  obtains "find_node m k (slot m k) = Inr NULL" and "f k = None"
      and "k \<notin> key_at (map_heap m) ` set (xss ! slot m k)"
  | ys x zs n where "xss ! slot m k = ys @ x # zs" and "find_node m k (slot m k) = Inr x"
      and "x \<noteq> NULL" and "map_heap m x = Some n" and "kv_key (node_pair n) = k"
      and "f k = Some (kv_value (node_pair n))"
      and "k \<notin> key_at (map_heap m) ` set ys" and "k \<notin> key_at (map_heap m) ` set zs"
proof -
  let ?xs = "xss ! slot m k" and ?h = "map_heap m"
  have b: "linked ?h NULL ?xs NULL" "distinct (map (key_at ?h) ?xs)"
    using layout_slot(2) [OF L] by (simp_all add: bucket_ok_def)
  note found = layout_slot(5) [OF L, of k]
  from linked_not_NULL [OF b(1)] b(2) show thesis
  proof (cases rule: seek_key_cases [of ?xs ?h k])
    case none
    then show thesis using that(1) found f by simp
  next
    case (some ys zs x)
    have "x \<in> set ?xs" unfolding some(1) by simp
    then obtain n where n: "?h x = Some n" "key_at ?h x = kv_key (node_pair n)"
      "value_at ?h x = kv_value (node_pair n)"
      using node_at_linked [OF b(1)] by metis
    show thesis
    proof (rule that(2) [of ys x zs n])
      show "find_node m k (slot m k) = Inr x" using found by (simp only: some(2))
      show "kv_key (node_pair n) = k" using some(4) n(2) by (simp only:)
      show "f k = Some (kv_value (node_pair n))" unfolding f using some(5) n(3) by (simp only:)
    qed (fact some(1) some(3) n(1) some(6) some(7))+
  qed
qed

lemma get_represents:
  assumes "represents m f"
  shows "TecMap_get m k = Inr (value_of (f k))"
proof -
  obtain xss where L: "map_layout m xss"
    and f: "f = (\<lambda>k. bucket_map (map_heap m) (xss ! slot m k) k)"
    using assms by (auto simp: represents_def)
  from L f show ?thesis
  proof (cases rule: layout_find [of m xss f k])
    case none
    then show ?thesis using layout_slot(3) [OF L, of k] by (simp add: TecMap_get_def value_of_def)
  next
    case (some ys x zs n)
    then show ?thesis using layout_slot(3) [OF L, of k]
      by (simp add: TecMap_get_def value_of_def node_at_def)
  qed
qed

section \<open>Insertion\<close>

definition upd :: "node_heap \<Rightarrow> ptr \<Rightarrow> (TecMapNode \<Rightarrow> TecMapNode) \<Rightarrow> node_heap" where
  "upd h p f = h(p := map_option f (h p))"

lemma upd_other [simp]: "y \<noteq> p \<Longrightarrow> upd h p f y = h y"
  by (simp add: upd_def)

lemma dom_upd [simp]: "dom (upd h p f) = dom h"
  by (auto simp: upd_def)

lemma update_node_upd: "p \<noteq> NULL \<Longrightarrow> p \<in> dom h \<Longrightarrow> update_node h p f = Inr (upd h p f)"
  by (auto simp: update_node_def node_at_def upd_def)

text \<open>Changing links keeps entries; changing a value keeps links.\<close>

definition link_only :: "(TecMapNode \<Rightarrow> TecMapNode) \<Rightarrow> bool" where
  "link_only f \<longleftrightarrow> (\<forall>n. node_pair (f n) = node_pair n)"

lemma entry_upd: "link_only f \<Longrightarrow> entry (upd h p f) x = entry h x"
  by (cases "h p") (auto simp: entry_def key_at_def value_at_def upd_def link_only_def)

lemma key_at_upd: "link_only f \<Longrightarrow> key_at (upd h p f) x = key_at h x"
  using entry_upd [of f h p x] by (simp add: entry_def)

lemma link_only_simps [simp]:
  "link_only (\<lambda>n. n\<lparr>node_prev := q\<rparr>)" "link_only (\<lambda>n. n\<lparr>node_next := q\<rparr>)"
  by (simp_all add: link_only_def)

lemma linked_value:
  "linked (upd h x (\<lambda>n. n\<lparr>node_pair := g n\<rparr>)) pv xs q = linked h pv xs q"
  by (induction xs arbitrary: pv) (auto simp: upd_def split: option.splits)

lemma linked_upd [simp]: "x \<notin> set xs \<Longrightarrow> linked (upd h x f) pv xs q = linked h pv xs q"
  by (rule linked_cong) (auto simp: upd_def)

lemma linked_upd_next:
  assumes "linked h pv xs q" and "distinct xs" and "xs \<noteq> []"
  shows "linked (upd h (last xs) (\<lambda>n. n\<lparr>node_next := q'\<rparr>)) pv xs q'"
  using assms
proof (induction xs arbitrary: pv)
  case (Cons x xs)
  then show ?case by (cases "xs = []") (auto simp: upd_def first_hd)
qed simp

lemma linked_upd_prev:
  assumes "linked h pv (x # xs) q" and "distinct (x # xs)"
  shows "linked (upd h x (\<lambda>n. n\<lparr>node_prev := pv'\<rparr>)) pv' (x # xs) q"
proof -
  have "linked (upd h x f) x xs q = linked h x xs q" for f
    using assms(2) by simp
  then show ?thesis using assms by (auto simp: upd_def)
qed

lemma map_of_middle:
  "k \<notin> fst ` set as \<Longrightarrow> map_of (as @ (k, v) # bs) = (map_of (as @ (k, v0) # bs))(k \<mapsto> v)"
  by (induction as) (auto simp: fun_eq_iff)

lemma map_of_drop:
  "k \<notin> fst ` set as \<Longrightarrow> k \<notin> fst ` set bs \<Longrightarrow>
   map_of (as @ bs) = (map_of (as @ (k, v) # bs))(k := None)"
  by (induction as) (auto simp: fun_eq_iff map_of_eq_None_iff)

text \<open>The memory that \<open>malloc\<close> may return for a new node.\<close>

definition fresh_node :: "TecMap \<Rightarrow> ptr \<Rightarrow> bool" where
  "fresh_node m p \<longleftrightarrow> p \<noteq> NULL \<and> map_heap m p = None"

lemma set_bucket_layout:
  "map_nodes m = Some bs \<Longrightarrow> i < length bs \<Longrightarrow>
   set_bucket m i p = Inr (m\<lparr>map_nodes := Some (bs[i := p])\<rparr>)"
  by (simp add: set_bucket_def)

lemma set_new:
  assumes L: "map_layout m xss" and fr: "fresh_node m p"
    and none: "find_node m k (slot m k) = Inr NULL"
    and key: "k \<notin> key_at (map_heap m) ` set (xss ! slot m k)"
  obtains m' where "TecMap_set m k v p = Inr (NULL, m')"
    and "bucket_change m xss (slot m k) (p # xss ! slot m k) m'"
    and "bucket_map (map_heap m') (p # xss ! slot m k)
       = (bucket_map (map_heap m) (xss ! slot m k))(k \<mapsto> v)"
proof -
  let ?i = "slot m k" and ?h = "map_heap m"
  define xs where "xs = xss ! ?i"
  define nn where "nn = \<lparr>node_pair = \<lparr>kv_key = k, kv_value = v\<rparr>, node_prev = NULL,
      node_next = first xs NULL\<rparr>"
  define h1 where "h1 = ?h(p \<mapsto> nn)"
  define h2 where "h2 = (if xs = [] then h1 else upd h1 (hd xs) (\<lambda>n. n\<lparr>node_prev := p\<rparr>))"
  define m' where "m' = m\<lparr>map_heap := h2, map_size := map_size m + 1,
      map_nodes := Some ((map (\<lambda>xs. first xs NULL) xss)[?i := p])\<rparr>"
  have i: "?i < length xss" and b: "bucket_ok m ?i xs"
    using layout_slot [OF L, of k] by (simp_all add: xs_def)
  have p: "p \<noteq> NULL" "p \<notin> dom ?h" using fr by (auto simp: fresh_node_def)
  have lk: "linked ?h NULL xs NULL" "distinct xs" using b by (simp_all add: bucket_ok_def)
  have sub: "set xs \<subseteq> dom ?h" using linked_dom [OF lk(1)] .
  then have pxs: "p \<notin> set xs" using p(2) by blast
  have nz: "NULL \<notin> set xs" using linked_not_NULL [OF lk(1)] .
  have keys: "key_at h2 x = (if x = p then k else key_at ?h x)" for x
    using key_at_upd [of "\<lambda>n. n\<lparr>node_prev := p\<rparr>" h1 "hd xs" x]
    by (auto simp: h2_def h1_def nn_def key_at_def)
  have entries: "entry h2 x = (if x = p then (k, v) else entry ?h x)" for x
    using entry_upd [of "\<lambda>n. n\<lparr>node_prev := p\<rparr>" h1 "hd xs" x]
    by (auto simp: h2_def h1_def nn_def key_at_def value_at_def entry_def)
  have link: "linked h2 NULL (p # xs) NULL"
  proof (cases xs)
    case Nil
    then show ?thesis using p by (simp add: h2_def h1_def nn_def)
  next
    case (Cons r rs)
    have "linked h1 NULL (r # rs) NULL" using lk(1) pxs Cons by (simp add: h1_def)
    then have "linked h2 p (r # rs) NULL"
      using linked_upd_prev [of h1 NULL r rs NULL p] lk(2) Cons by (simp add: h2_def)
    moreover have "h2 p = Some nn" using Cons pxs by (simp add: h2_def h1_def)
    ultimately show ?thesis using Cons p by (simp add: nn_def)
  qed
  have root: "bucket_at m ?i = Inr (first xs NULL)"
    using layout_slot(4) [OF L, of k] by (simp add: xs_def)
  have upd: "(if first xs NULL \<noteq> NULL then update_node h1 (first xs NULL) (\<lambda>n. n\<lparr>node_prev := p\<rparr>)
      else Inr h1) = Inr h2"
    using sub nz by (cases xs) (auto simp: h2_def update_node_upd h1_def)
  have new: "new_node ?h p k v NULL (first xs NULL) = Inr h1"
    using p(1) by (simp add: new_node_def h1_def nn_def)
  have run: "TecMap_set m k v p = Inr (NULL, m')"
    unfolding TecMap_set_def layout_slot(3) [OF L] none root new upd bind_outcome.simps
    using i layoutD(3) [OF L] by (simp add: m'_def set_bucket_layout)
  have dom: "dom h2 = insert p (dom ?h)" by (auto simp: h2_def h1_def)
  have keys': "map (key_at h2) xs = map (key_at ?h) xs"
    using pxs by (intro map_cong refl) (auto simp: keys)
  have "slot m' = slot m" by (rule slot_cong) (simp add: m'_def)
  then have "bucket_ok m' ?i (p # xs)"
  proof -
    assume s: "slot m' = slot m"
    have h': "map_heap m' = h2" by (simp add: m'_def)
    have "\<forall>x \<in> set (p # xs). slot m (key_at h2 x) = ?i"
      using b by (simp add: keys bucket_ok_def)
    moreover have "distinct (map (key_at h2) (p # xs))"
      using b key unfolding list.map keys' by (simp add: keys bucket_ok_def xs_def)
    ultimately show ?thesis
      using link pxs lk(2) unfolding bucket_ok_def s h' by simp
  qed
  moreover have "h2 x = ?h x" if "x \<notin> set xs" "x \<noteq> p" for x
    using that by (cases xs) (auto simp: h2_def h1_def)
  moreover have "set (p # xs) \<inter> set (xss ! j) = {}" if "j < length xss" "j \<noteq> ?i" for j
  proof -
    have "linked ?h NULL (xss ! j) NULL" using layoutD(4) [OF L that(1)] by (simp add: bucket_ok_def)
    then have "set (xss ! j) \<subseteq> dom ?h" by (rule linked_dom)
    then show ?thesis using layout_disjoint [OF L i that(1)] that(2) p(2) by (auto simp: xs_def)
  qed
  ultimately have "bucket_change m xss ?i (p # xs) m'"
    using i dom sub by (auto simp: bucket_change_def m'_def xs_def)
  moreover have "bucket_map h2 (p # xs) = (bucket_map ?h xs)(k \<mapsto> v)"
  proof -
    have e: "map (entry h2) xs = map (entry ?h) xs"
      using pxs by (intro map_cong refl) (auto simp: entries)
    show ?thesis unfolding bucket_map_def list.map e by (simp add: entries)
  qed
  ultimately show thesis using that [of m'] run by (simp add: xs_def m'_def)
qed

lemma set_old:
  assumes L: "map_layout m xss" and found: "find_node m k (slot m k) = Inr x"
    and xs: "xss ! slot m k = ys @ x # zs" and x: "x \<noteq> NULL" "map_heap m x = Some n"
    and k: "kv_key (node_pair n) = k"
    and key: "k \<notin> key_at (map_heap m) ` set ys" "k \<notin> key_at (map_heap m) ` set zs"
  obtains m' where "TecMap_set m k v p = Inr (kv_value (node_pair n), m')"
    and "bucket_change m xss (slot m k) (xss ! slot m k) m'"
    and "bucket_map (map_heap m') (xss ! slot m k)
       = (bucket_map (map_heap m) (xss ! slot m k))(k \<mapsto> v)"
proof -
  let ?i = "slot m k" and ?h = "map_heap m"
  let ?f = "\<lambda>n. n\<lparr>node_pair := (node_pair n)\<lparr>kv_value := v\<rparr>\<rparr>"
  define h' where "h' = upd ?h x ?f"
  define m' where "m' = m\<lparr>map_heap := h'\<rparr>"
  have i: "?i < length xss" and b: "bucket_ok m ?i (xss ! ?i)"
    using layout_slot [OF L, of k] by simp_all
  have kx: "key_at ?h x = k" using x(2) k by (simp add: key_at_def)
  have "update_node ?h x ?f = Inr h'"
    using x unfolding h'_def by (intro update_node_upd) auto
  then have run: "TecMap_set m k v p = Inr (kv_value (node_pair n), m')"
    using layout_slot(3) [OF L, of k] found x
    by (simp add: TecMap_set_def node_at_def m'_def)
  have keys: "key_at h' y = key_at ?h y" for y
    by (cases "?h y") (auto simp: h'_def upd_def key_at_def)
  have entries: "entry h' y = (if y = x then (k, v) else entry ?h y)" for y
    using x(2) k by (auto simp: h'_def upd_def entry_def key_at_def value_at_def)
  have "slot m' = slot m" by (rule slot_cong) (simp add: m'_def)
  moreover have "map_heap m' = h'" by (simp add: m'_def)
  moreover have "key_at h' = key_at ?h" by (rule ext) (rule keys)
  moreover have "linked h' NULL (xss ! ?i) NULL = linked ?h NULL (xss ! ?i) NULL"
    unfolding h'_def by (rule linked_value)
  ultimately have "bucket_ok m' ?i (xss ! ?i)" using b by (simp add: bucket_ok_def)
  moreover have "set (xss ! ?i) \<inter> set (xss ! j) = {}" if "j < length xss" "j \<noteq> ?i" for j
    using layout_disjoint [OF L i that(1)] that(2) by simp
  moreover have "dom ?h = dom ?h - set (xss ! ?i) \<union> set (xss ! ?i)"
    using linked_dom [of ?h NULL "xss ! ?i" NULL] b by (auto simp: bucket_ok_def)
  moreover have "y \<notin> set (xss ! ?i) \<Longrightarrow> h' y = ?h y" for y
    using xs by (auto simp: h'_def upd_def)
  moreover have "map_nodes m = Some ((map (\<lambda>xs. first xs NULL) xss)[?i := first (xss ! ?i) NULL])"
    using layoutD(3) [OF L] list_update_id [of "map (\<lambda>xs. first xs NULL) xss" ?i] i by simp
  ultimately have "bucket_change m xss ?i (xss ! ?i) m'"
    using i by (auto simp: bucket_change_def m'_def h'_def)
  moreover have "bucket_map h' (xss ! ?i) = (bucket_map ?h (xss ! ?i))(k \<mapsto> v)"
  proof -
    have e: "map (entry h') ys = map (entry ?h) ys" "map (entry h') zs = map (entry ?h) zs"
      using key kx by (auto simp: entries)
    have "entry ?h x = (k, value_at ?h x)" using kx by (simp add: entry_def)
    moreover have "k \<notin> fst ` set (map (entry ?h) ys)"
      using key(1) by (auto simp: entry_def)
    ultimately show ?thesis
      using map_of_middle [of k "map (entry ?h) ys" v "map (entry ?h) zs" "value_at ?h x"]
      unfolding bucket_map_def xs map_append list.map e by (simp add: entries del: map_of_append)
  qed
  ultimately show thesis using that [of m'] run by (simp add: m'_def)
qed

lemma set_represents:
  assumes R: "represents m f" and fr: "fresh_node m p"
  obtains m' where "TecMap_set m k v p = Inr (value_of (f k), m')" and "represents m' (f(k \<mapsto> v))"
proof -
  obtain xss where L: "map_layout m xss"
    and f: "f = (\<lambda>k. bucket_map (map_heap m) (xss ! slot m k) k)"
    using R by (auto simp: represents_def)
  have change: "represents m' (f(k \<mapsto> v))"
    if C: "bucket_change m xss (slot m k) xs' m'"
      and new: "bucket_map (map_heap m') xs' = (bucket_map (map_heap m) (xss ! slot m k))(k \<mapsto> v)"
    for xs' m'
  proof (rule represents_change [OF L C f])
    show "bucket_map (map_heap m') xs' k' = (f(k \<mapsto> v)) k'" if "slot m k' = slot m k" for k'
      using new that by (simp add: f)
    show "(f(k \<mapsto> v)) k' = f k'" if "slot m k' \<noteq> slot m k" for k'
      using that by (cases "k' = k") simp_all
  qed
  from L f show thesis
  proof (cases rule: layout_find [of m xss f k])
    case none
    with set_new [OF L fr none(1) none(3)] that change show thesis
      by (metis option.simps(4) value_of_def)
  next
    case (some ys x zs n)
    obtain m' where "TecMap_set m k v p = Inr (kv_value (node_pair n), m')"
      "bucket_change m xss (slot m k) (xss ! slot m k) m'"
      "bucket_map (map_heap m') (xss ! slot m k)
         = (bucket_map (map_heap m) (xss ! slot m k))(k \<mapsto> v)"
      using set_old [OF L some(2) some(1) some(3) some(4) some(5) some(7) some(8)] .
    then show thesis using that [of m'] change some(6) by (simp add: value_of_def)
  qed
qed

text \<open>A cell that is free stays free, unless it is the one given for the new node.\<close>

lemma set_heap:
  assumes "TecMap_set m k v p = Inr (r, m')" and "map_heap m x = None" and "x \<noteq> p"
  shows "map_heap m' x = None"
  using assms
  by (auto simp: TecMap_set_def update_node_def new_node_def set_bucket_def node_at_def upd_def bind_outcome_Inr_iff
      Let_def split: if_splits option.splits)

lemma remove_heap:
  assumes "TecMap_remove m k = Inr (r, m')" and "map_heap m x = None"
  shows "map_heap m' x = None"
  using assms
  by (auto simp: TecMap_remove_def update_node_def delete_node_def set_bucket_def node_at_def upd_def
      bind_outcome_Inr_iff Let_def split: if_splits option.splits)

section \<open>Removal\<close>

text \<open>Taking a node out of a bucket, as the code does it.\<close>

definition unlink :: "node_heap \<Rightarrow> ptr list \<Rightarrow> ptr \<Rightarrow> ptr list \<Rightarrow> node_heap" where
  "unlink h ys x zs =
     (let h1 = (if ys = [] then h else upd h (last ys) (\<lambda>n. n\<lparr>node_next := first zs NULL\<rparr>));
          h2 = (if zs = [] then h1 else upd h1 (hd zs) (\<lambda>n. n\<lparr>node_prev := last (NULL # ys)\<rparr>))
      in h2(x := None))"

lemma unlink_linked:
  assumes "linked h NULL (ys @ x # zs) NULL" and "distinct (ys @ x # zs)"
  shows "linked (unlink h ys x zs) NULL (ys @ zs) NULL"
proof -
  define h1 where "h1 = (if ys = [] then h
      else upd h (last ys) (\<lambda>n. n\<lparr>node_next := first zs NULL\<rparr>))"
  define h2 where "h2 = (if zs = [] then h1
      else upd h1 (hd zs) (\<lambda>n. n\<lparr>node_prev := last (NULL # ys)\<rparr>))"
  have d: "distinct ys" "distinct zs" "x \<notin> set ys" "x \<notin> set zs" "set ys \<inter> set zs = {}"
    using assms(2) by auto
  have ly: "linked h NULL ys x" and lz: "linked h x zs NULL"
    using assms(1) by simp_all
  have "linked h1 NULL ys (first zs NULL)"
    using linked_upd_next [OF ly d(1)] by (cases "ys = []") (simp_all add: h1_def)
  then have y: "linked h2 NULL ys (first zs NULL)"
    using d(5) by (cases zs) (auto simp: h2_def)
  have "linked h1 x zs NULL"
  proof (cases "ys = []")
    case True
    then show ?thesis using lz by (simp add: h1_def)
  next
    case False
    then have "last ys \<notin> set zs" using d(5) last_in_set [of ys] by blast
    then show ?thesis using False lz by (simp add: h1_def)
  qed
  then have "linked h2 (last (NULL # ys)) zs NULL"
    using linked_upd_prev [of h1 x _ _ NULL] d(2) by (cases zs) (auto simp: h2_def)
  then show ?thesis
    using y d by (simp add: unlink_def Let_def flip: h1_def h2_def)
qed

lemma unlink_heap:
  "y \<noteq> x \<Longrightarrow> entry (unlink h ys x zs) y = entry h y"
  "dom (unlink h ys x zs) = dom h - {x}"
  "y \<notin> set (ys @ x # zs) \<Longrightarrow> unlink h ys x zs y = h y"
proof -
  show "entry (unlink h ys x zs) y = entry h y" if "y \<noteq> x"
  proof -
    have "entry (g(x := None)) y = entry g y" for g
      using that by (simp add: entry_def key_at_def value_at_def)
    then show ?thesis by (simp add: unlink_def Let_def entry_upd)
  qed
  show "dom (unlink h ys x zs) = dom h - {x}" by (simp add: unlink_def Let_def)
  show "unlink h ys x zs y = h y" if y: "y \<notin> set (ys @ x # zs)"
  proof -
    have "ys \<noteq> [] \<Longrightarrow> y \<noteq> last ys" "zs \<noteq> [] \<Longrightarrow> y \<noteq> hd zs" "y \<noteq> x"
      using y last_in_set [of ys] hd_in_set [of zs] by auto
    then show ?thesis by (simp add: unlink_def Let_def)
  qed
qed

lemma remove_found:
  assumes L: "map_layout m xss" and found: "find_node m k (slot m k) = Inr x"
    and xs: "xss ! slot m k = ys @ x # zs" and x: "x \<noteq> NULL" "map_heap m x = Some n"
    and k: "kv_key (node_pair n) = k"
    and key: "k \<notin> key_at (map_heap m) ` set ys" "k \<notin> key_at (map_heap m) ` set zs"
  obtains m' where "TecMap_remove m k = Inr (kv_value (node_pair n), m')"
    and "bucket_change m xss (slot m k) (ys @ zs) m'"
    and "bucket_map (map_heap m') (ys @ zs)
       = (bucket_map (map_heap m) (xss ! slot m k))(k := None)"
    and "map_heap m' x = None"
proof -
  let ?i = "slot m k" and ?h = "map_heap m"
  define h' where "h' = unlink ?h ys x zs"
  define m' where "m' = m\<lparr>map_heap := h', map_size := map_size m - 1,
      map_nodes := Some ((map (\<lambda>xs. first xs NULL) xss)[?i := first (ys @ zs) NULL])\<rparr>"
  have i: "?i < length xss" and b: "bucket_ok m ?i (ys @ x # zs)"
    using layout_slot [OF L, of k] xs by simp_all
  have lk: "linked ?h NULL (ys @ x # zs) NULL" "distinct (ys @ x # zs)"
    using b by (simp_all add: bucket_ok_def)
  have prev: "node_prev n = last (NULL # ys)" and nxt: "node_next n = first zs NULL"
    using lk(1) x(2) by auto
  have sub: "set (ys @ x # zs) \<subseteq> dom ?h" using linked_dom [OF lk(1)] .
  have nz: "NULL \<notin> set ys" "NULL \<notin> set zs" using linked_not_NULL [OF lk(1)] by auto
  have nodes: "map_nodes m = Some (map (\<lambda>xs. first xs NULL) xss)" by (rule layoutD(3) [OF L])
  have kx: "key_at ?h x = k" using x(2) k by (simp add: key_at_def)
  have nx: "(if node_next n \<noteq> NULL then update_node h (node_next n) (\<lambda>x. x\<lparr>node_prev := q\<rparr>)
        else Inr h) = Inr (if zs = [] then h else upd h (hd zs) (\<lambda>x. x\<lparr>node_prev := q\<rparr>))"
    if "dom h = dom ?h" for h q
    using nz(2) nxt sub that by (cases zs) (auto simp: update_node_upd)
  define hx where "hx = (let h1 = (if ys = [] then ?h
        else upd ?h (last ys) (\<lambda>n. n\<lparr>node_next := first zs NULL\<rparr>))
      in if zs = [] then h1 else upd h1 (hd zs) (\<lambda>n. n\<lparr>node_prev := last (NULL # ys)\<rparr>))"
  have hx: "h' = hx(x := None)" "dom hx = dom ?h"
    by (simp_all add: h'_def unlink_def hx_def Let_def)
  define mx where "mx = m\<lparr>map_heap := hx,
      map_nodes := Some ((map (\<lambda>xs. first xs NULL) xss)[?i := first (ys @ zs) NULL])\<rparr>"
  define body where "body =
      (if node_prev n = NULL then
         bind_outcome
           (if node_next n \<noteq> NULL
            then update_node (map_heap m) (node_next n) (\<lambda>x. x\<lparr>node_prev := NULL\<rparr>)
            else Inr (map_heap m))
           (\<lambda>h. set_bucket (m\<lparr>map_heap := h\<rparr>) ?i (node_next n))
       else
         bind_outcome
           (update_node (map_heap m) (node_prev n) (\<lambda>x. x\<lparr>node_next := node_next n\<rparr>))
           (\<lambda>h.
         bind_outcome
           (if node_next n \<noteq> NULL
            then update_node h (node_next n) (\<lambda>x. x\<lparr>node_prev := node_prev n\<rparr>)
            else Inr h)
           (\<lambda>h. Inr (m\<lparr>map_heap := h\<rparr>))))"
  have body: "body = Inr mx"
  proof (cases "ys = []")
    case True
    then have "node_prev n = NULL" using prev by simp
    then have "body = set_bucket (m\<lparr>map_heap := hx\<rparr>) ?i (first zs NULL)"
      using nx [of ?h NULL] True nxt by (simp add: body_def hx_def)
    then show ?thesis using True i nodes by (simp add: set_bucket_layout mx_def)
  next
    case False
    then have p: "node_prev n = last ys" and "last ys \<in> set ys"
      using prev by simp_all
    then have "node_prev n \<noteq> NULL" using nz(1) by metis
    have "last ys \<in> dom ?h" using sub \<open>last ys \<in> set ys\<close> by auto
    then have u: "update_node ?h (node_prev n) (\<lambda>x. x\<lparr>node_next := node_next n\<rparr>)
        = Inr (upd ?h (last ys) (\<lambda>n. n\<lparr>node_next := first zs NULL\<rparr>))"
      using \<open>node_prev n \<noteq> NULL\<close> p nxt by (simp add: update_node_upd)
    have "body = Inr (m\<lparr>map_heap := hx\<rparr>)"
      using nx [of "upd ?h (last ys) (\<lambda>n. n\<lparr>node_next := first zs NULL\<rparr>)" "node_prev n"]
        False p \<open>node_prev n \<noteq> NULL\<close>
      by (simp add: body_def u [unfolded p] hx_def)
    moreover have "m\<lparr>map_heap := hx\<rparr> = mx"
    proof -
      have "first (ys @ zs) NULL = first (xss ! ?i) NULL" using False xs by (cases ys) simp_all
      then have "(map (\<lambda>xs. first xs NULL) xss)[?i := first (ys @ zs) NULL]
          = map (\<lambda>xs. first xs NULL) xss"
        using i list_update_id [of "map (\<lambda>xs. first xs NULL) xss" ?i] by simp
      then show ?thesis using nodes by (simp add: mx_def)
    qed
    ultimately show ?thesis by simp
  qed
  have "hx x \<noteq> None" using x(2) hx(2) by auto
  then have del: "delete_node hx x = Inr (node_next (the (hx x)), h')"
    using x(1) hx(1) by (auto simp: delete_node_def node_at_def)
  have run: "TecMap_remove m k = Inr (kv_value (node_pair n), m')"
  proof -
    have "TecMap_remove m k = bind_outcome body (\<lambda>m.
         bind_outcome (delete_node (map_heap m) x) (\<lambda>(next, h).
           Inr (kv_value (node_pair n), m\<lparr>map_heap := h, map_size := map_size m - 1\<rparr>)))"
      using x by (simp add: TecMap_remove_def layout_slot(3) [OF L] found node_at_def body_def)
    then show ?thesis using body del by (simp add: mx_def m'_def)
  qed
  have h': "map_heap m' = h'" by (simp add: m'_def)
  have s: "slot m' = slot m" by (rule slot_cong) (simp add: m'_def)
  have entries: "entry h' y = entry ?h y" if "y \<noteq> x" for y
    unfolding h'_def using that by (rule unlink_heap(1))
  have xn: "x \<notin> set ys" "x \<notin> set zs" using lk(2) by auto
  have e: "map (entry h') (ys @ zs) = map (entry ?h) (ys @ zs)"
    using xn by (intro map_cong refl) (auto intro: entries)
  have keys: "key_at h' y = key_at ?h y" if "y \<noteq> x" for y
    using entries [OF that] by (simp add: entry_def)
  have ke: "map (key_at h') (ys @ zs) = map (key_at ?h) (ys @ zs)"
    using xn by (intro map_cong refl) (auto intro: keys)
  have "linked h' NULL (ys @ zs) NULL" unfolding h'_def using lk by (rule unlink_linked)
  moreover have "distinct (map (key_at h') (ys @ zs))"
    unfolding ke using b by (simp add: bucket_ok_def)
  moreover have "\<forall>y \<in> set (ys @ zs). slot m (key_at h' y) = ?i"
    using b xn keys by (metis Un_iff bucket_ok_def list.set_intros(2) set_append)
  ultimately have "bucket_ok m' ?i (ys @ zs)"
    using lk(2) unfolding bucket_ok_def h' s by simp
  moreover have "set (ys @ zs) \<inter> set (xss ! j) = {}" if "j < length xss" "j \<noteq> ?i" for j
    using layout_disjoint [OF L i that(1)] that(2) xs by auto
  moreover have "dom h' = dom ?h - set (ys @ x # zs) \<union> set (ys @ zs)"
    using unlink_heap(2) [of ?h ys x zs] sub xn by (auto simp: h'_def)
  moreover have "h' y = ?h y" if "y \<notin> set (ys @ x # zs)" for y
    unfolding h'_def using that by (rule unlink_heap(3))
  moreover have "x \<notin> dom h'" by (simp add: h'_def unlink_heap(2))
  ultimately have "bucket_change m xss ?i (ys @ zs) m'" and "h' x = None"
    using i x(2) by (auto simp: bucket_change_def m'_def xs)
  moreover have "bucket_map h' (ys @ zs) = (bucket_map ?h (xss ! ?i))(k := None)"
  proof -
    have "k \<notin> fst ` set (map (entry ?h) ys)" "k \<notin> fst ` set (map (entry ?h) zs)"
      using key by (auto simp: entry_def)
    from map_of_drop [OF this, of "value_at ?h x"] show ?thesis
      using kx unfolding bucket_map_def e xs by (simp add: entry_def del: map_of_append)
  qed
  ultimately show thesis using that [of m'] run h' by simp
qed

lemma remove_represents:
  assumes R: "represents m f"
  obtains m' where "TecMap_remove m k = Inr (value_of (f k), m')" and "represents m' (f(k := None))"
proof -
  obtain xss where L: "map_layout m xss"
    and f: "f = (\<lambda>k. bucket_map (map_heap m) (xss ! slot m k) k)"
    using R by (auto simp: represents_def)
  from L f show thesis
  proof (cases rule: layout_find [of m xss f k])
    case none
    then have "TecMap_remove m k = Inr (NULL, m)" and "f(k := None) = f"
      by (auto simp: TecMap_remove_def layout_slot(3) [OF L])
    then show thesis using that [of m] R none(2) by (simp add: value_of_def)
  next
    case (some ys x zs n)
    obtain m' where r: "TecMap_remove m k = Inr (kv_value (node_pair n), m')"
      and C: "bucket_change m xss (slot m k) (ys @ zs) m'"
      and new: "bucket_map (map_heap m') (ys @ zs)
         = (bucket_map (map_heap m) (xss ! slot m k))(k := None)"
      using remove_found [OF L some(2) some(1) some(3) some(4) some(5) some(7) some(8)] .
    have "represents m' (f(k := None))"
    proof (rule represents_change [OF L C f])
      show "bucket_map (map_heap m') (ys @ zs) k' = (f(k := None)) k'"
        if "slot m k' = slot m k" for k'
        using new that by (simp add: f)
      show "(f(k := None)) k' = f k'" if "slot m k' \<noteq> slot m k" for k'
        using that by (cases "k' = k") simp_all
    qed
    then show thesis using that [of m'] r some(6) by (simp add: value_of_def)
  qed
qed

section \<open>The interface: a finite map from strings\<close>

text \<open>
  What a client relies on: lookup, insertion and removal act on a finite map; \<open>NULL\<close>
  stands for "no value". \<open>node_ok m p\<close> says that \<open>p\<close> can hold a new entry of \<open>m\<close>.
\<close>

locale string_map =
  fixes rep :: "'m \<Rightarrow> ('k \<Rightarrow> ptr option) \<Rightarrow> bool"
    and node_ok :: "'m \<Rightarrow> ptr \<Rightarrow> bool"
    and put :: "'m \<Rightarrow> 'k \<Rightarrow> ptr \<Rightarrow> ptr \<Rightarrow> (ptr \<times> 'm) outcome"
    and get :: "'m \<Rightarrow> 'k \<Rightarrow> ptr outcome"
    and del :: "'m \<Rightarrow> 'k \<Rightarrow> (ptr \<times> 'm) outcome"
  assumes get_spec: "rep m f \<Longrightarrow> get m k = Inr (value_of (f k))"
    and put_spec: "rep m f \<Longrightarrow> node_ok m p \<Longrightarrow>
      \<exists>m'. put m k v p = Inr (value_of (f k), m') \<and> rep m' (f(k \<mapsto> v))"
    and del_spec: "rep m f \<Longrightarrow>
      \<exists>m'. del m k = Inr (value_of (f k), m') \<and> rep m' (f(k := None))"
begin

lemma get_after_put:
  assumes "rep m f" and "node_ok m p"
  shows "\<exists>old m'. put m k v p = Inr (old, m') \<and> get m' k = Inr v \<and>
     (\<forall>k'. k' \<noteq> k \<longrightarrow> get m' k' = get m k')"
proof -
  obtain m' where m': "put m k v p = Inr (value_of (f k), m')" "rep m' (f(k \<mapsto> v))"
    using put_spec [OF assms] by blast
  then show ?thesis
    using get_spec [OF m'(2)] get_spec [OF assms(1)] by (auto simp: value_of_def)
qed

lemma get_after_del:
  assumes "rep m f"
  shows "\<exists>old m'. del m k = Inr (old, m') \<and> get m k = Inr old \<and> get m' k = Inr NULL \<and>
     (\<forall>k'. k' \<noteq> k \<longrightarrow> get m' k' = get m k')"
proof -
  obtain m' where m': "del m k = Inr (value_of (f k), m')" "rep m' (f(k := None))"
    using del_spec [OF assms] by blast
  then show ?thesis
    using get_spec [OF m'(2)] get_spec [OF assms] by (auto simp: value_of_def)
qed

end

interpretation tec_map: string_map represents fresh_node TecMap_set TecMap_get TecMap_remove
proof
  show "TecMap_get m k = Inr (value_of (f k))" if "represents m f" for m f k
    using that by (rule get_represents)
  show "\<exists>m'. TecMap_set m k v p = Inr (value_of (f k), m') \<and> represents m' (f(k \<mapsto> v))"
    if "represents m f" "fresh_node m p" for m f p k v
    using set_represents [OF that] by blast
  show "\<exists>m'. TecMap_remove m k = Inr (value_of (f k), m') \<and> represents m' (f(k := None))"
    if "represents m f" for m f k
    using remove_represents [OF that] by blast
qed

section \<open>Creation and destruction\<close>

definition empty_map :: "u64 \<Rightarrow> TecMap" where
  "empty_map n =
     \<lparr>map_nodes = Some (replicate (unat n) NULL), map_size = 0, map_capacity = n,
      map_heap = Map.empty\<rparr>"

lemma empty_map_layout: "n \<noteq> 0 \<Longrightarrow> map_layout (empty_map n) (replicate (unat n) [])"
  by (simp add: map_layout_def empty_map_def bucket_ok_def)

lemma empty_map_represents: "n \<noteq> 0 \<Longrightarrow> represents (empty_map n) Map.empty"
proof -
  assume n: "n \<noteq> 0"
  have "(\<lambda>k. bucket_map Map.empty (replicate (unat n) [] ! slot (empty_map n) k) k) = Map.empty"
    using slot_bound [of "empty_map n"] n by (simp add: empty_map_def bucket_map_def)
  then show ?thesis
    using empty_map_layout [OF n] unfolding represents_def
    by (intro exI [of _ "replicate (unat n) []"]) (simp add: empty_map_def)
qed

lemma init_empty:
  assumes "map_heap m = Map.empty"
  shows "TecMap_init True m n = (True, empty_map (if n = 0 then TECC_MAP_DEFAULT_SIZE else n))"
  using assms by (cases m) (simp add: TecMap_init_def empty_map_def)

lemma delete_loop_linked:
  "linked h pv xs NULL \<Longrightarrow> distinct xs \<Longrightarrow>
   delete_loop h (first xs NULL) = Some (Inr (h |` (- set xs)))"
proof (induction xs arbitrary: h pv)
  case Nil
  have "h = h |` UNIV" by (simp add: restrict_map_def)
  then show ?case by (subst delete_loop.simps) simp
next
  case (Cons x xs)
  then obtain n where n: "h x = Some n" "x \<noteq> NULL" "node_next n = first xs NULL"
    and l: "linked h x xs NULL" by auto
  have l': "linked (h(x := None)) x xs NULL" using l Cons.prems(2) by simp
  have "distinct xs" using Cons.prems(2) by simp
  with l' have "delete_loop (h(x := None)) (first xs NULL)
      = Some (Inr ((h(x := None)) |` (- set xs)))"
    by (rule Cons.IH)
  moreover have "(h(x := None)) |` (- set xs) = h |` (- set (x # xs))"
    by (auto simp: restrict_map_def fun_eq_iff)
  ultimately show ?case
    using n by (subst delete_loop.simps) (simp add: delete_node_def node_at_def)
qed

lemma clear_steps:
  assumes L: "map_layout m xss" and k: "k \<le> length xss"
  shows "fold_outcome clear_step m [0 ..< k] =
     Inr (m\<lparr>map_heap := map_heap m |` (- set (concat (take k xss))),
           map_nodes := Some (replicate k NULL @ drop k (map (\<lambda>xs. first xs NULL) xss))\<rparr>)"
  using k
proof (induction k)
  case 0
  then show ?case using layoutD(3) [OF L] by (simp add: restrict_map_def)
next
  case (Suc k)
  let ?bs = "map (\<lambda>xs. first xs NULL) xss"
  define hk where "hk = map_heap m |` (- set (concat (take k xss)))"
  define mk where "mk = m\<lparr>map_heap := hk, map_nodes := Some (replicate k NULL @ drop k ?bs)\<rparr>"
  define xs where "xs = xss ! k"
  have k: "k < length xss" using Suc.prems by simp
  have b: "linked (map_heap m) NULL xs NULL" "distinct xs"
    using layoutD(4) [OF L k] by (simp_all add: bucket_ok_def xs_def)
  have tk: "take (Suc k) xss = take k xss @ [xs]" using k by (simp add: take_Suc_conv_app_nth xs_def)
  have disj: "set xs \<inter> set (concat (take k xss)) = {}"
  proof -
    have "set xs \<inter> set ys = {}" if "ys \<in> set (take k xss)" for ys
    proof -
      have "\<exists>j < k. ys = xss ! j" using that k by (auto simp: in_set_conv_nth)
      then obtain j where "j < k" "ys = xss ! j" by blast
      then show ?thesis using layout_disjoint [OF L k, of j] k by (simp add: xs_def)
    qed
    then show ?thesis by auto
  qed
  have "hk y = map_heap m y" if "y \<in> set xs" for y
    unfolding hk_def using that disj by (intro restrict_in) blast
  then have "linked hk NULL xs NULL" using b(1) linked_cong [of xs hk "map_heap m"] by simp
  then have del: "delete_bucket hk (first xs NULL) = Inr (hk |` (- set xs))"
    using delete_loop_linked b(2) by (simp add: delete_bucket_def)
  have hk': "hk |` (- set xs) = map_heap m |` (- set (concat (take (Suc k) xss)))"
    by (auto simp: hk_def tk restrict_map_def fun_eq_iff)
  have dk: "drop k ?bs = first xs NULL # drop (Suc k) ?bs"
    using k by (simp add: xs_def Cons_nth_drop_Suc [symmetric])
  have at: "bucket_at mk k = Inr (first xs NULL)"
    using k by (simp add: bucket_at_def mk_def dk nth_append)
  have nz: "xs \<noteq> [] \<Longrightarrow> first xs NULL \<noteq> NULL"
    using first_NULL_iff [OF linked_not_NULL [OF b(1)]] by simp
  have step: "clear_step mk k = Inr (m\<lparr>map_heap := hk |` (- set xs),
      map_nodes := Some (replicate (Suc k) NULL @ drop (Suc k) ?bs)\<rparr>)"
  proof (cases "xs = []")
    case True
    then have "mk = m\<lparr>map_heap := hk |` (- set xs),
        map_nodes := Some (replicate (Suc k) NULL @ drop (Suc k) ?bs)\<rparr>"
      by (simp add: mk_def dk replicate_app_Cons_same restrict_map_def)
    then show ?thesis using at True by (simp add: clear_step_def)
  next
    case False
    then show ?thesis
      using at nz del k
      by (simp add: clear_step_def mk_def set_bucket_def dk list_update_append
          replicate_app_Cons_same)
  qed
  have IH: "fold_outcome clear_step m [0 ..< k] = Inr mk"
    unfolding mk_def hk_def using k by (intro Suc.IH) simp
  have upt: "[0 ..< Suc k] = [0 ..< k] @ [k]" by simp
  show ?case
    unfolding upt fold_outcome_append IH fold_outcome.simps bind_outcome.simps step hk' ..
qed

lemma clear_result:
  assumes "represents m f"
  shows "TecMap_clear m = Inr (empty_map (map_capacity m))"
proof -
  obtain xss where L: "map_layout m xss" using assms by (auto simp: represents_def)
  have "map_heap m |` (- set (concat xss)) = Map.empty"
    using layoutD(5) [OF L] by (auto simp: restrict_map_def fun_eq_iff)
  then show ?thesis
    using clear_steps [OF L, of "unat (map_capacity m)"] layoutD(2) [OF L]
    by (simp add: TecMap_clear_def empty_map_def)
qed

section \<open>Iteration\<close>

text \<open>The client loop of the header: \<open>p\<close> is the current entry, \<open>fuel\<close> bounds the visits.\<close>

fun visit :: "nat \<Rightarrow> TecMap \<Rightarrow> TecMapIter \<Rightarrow> ptr \<Rightarrow> ptr list outcome" where
  "visit fuel m it p =
     (if p = NULL then Inr []
      else case fuel of
        0 \<Rightarrow> Inl No_return
      | Suc fuel' \<Rightarrow>
          bind_outcome (TecMapIter_next it m) (\<lambda>(q, it').
            bind_outcome (visit fuel' m it' q) (\<lambda>ps. Inr (p # ps))))"

declare visit.simps [simp del]

definition iterate :: "nat \<Rightarrow> TecMap \<Rightarrow> ptr list outcome" where
  "iterate fuel m =
     bind_outcome (TecMapIter_begin \<lparr>iter_map = NULL, iter_pos = 0, iter_cur = NULL\<rparr> 1 m)
       (\<lambda>(p, it). visit fuel m it p)"

lemma next_bucket_first:
  assumes "NULL \<notin> set (concat post)"
  shows "(concat post = [] \<and> next_bucket (map (\<lambda>xs. first xs NULL) post) n = None) \<or>
     (\<exists>es y ys rest. post = es @ (y # ys) # rest \<and> concat es = [] \<and>
        next_bucket (map (\<lambda>xs. first xs NULL) post) n = Some (n + length es, y))"
  using assms
proof (induction post arbitrary: n)
  case Nil
  then show ?case by simp
next
  case (Cons xs post)
  show ?case
  proof (cases xs)
    case Nil
    have "NULL \<notin> set (concat post)" using Cons.prems by simp
    from Cons.IH [OF this, of "Suc n"] show ?thesis
    proof (elim disjE exE conjE)
      fix es y ys rest
      assume "post = es @ (y # ys) # rest" "concat es = []"
        "next_bucket (map (\<lambda>xs. first xs NULL) post) (Suc n) = Some (Suc n + length es, y)"
      then show ?thesis using Nil
        by (intro disjI2 exI [of _ "[] # es"] exI [of _ y] exI [of _ ys] exI [of _ rest]) simp
    qed (use Nil in simp)
  next
    case (Cons y ys)
    then have "y \<noteq> NULL" using Cons.prems by auto
    then show ?thesis using Cons
      by (intro disjI2 exI [of _ "[]"] exI [of _ y] exI [of _ ys] exI [of _ post]) simp
  qed
qed

lemma layout_not_NULL: "map_layout m xss \<Longrightarrow> NULL \<notin> set (concat xss)"
proof
  assume L: "map_layout m xss" and "NULL \<in> set (concat xss)"
  then obtain ys where "ys \<in> set xss" "NULL \<in> set ys" by auto
  then obtain i where "i < length xss" "NULL \<in> set (xss ! i)" by (metis in_set_conv_nth)
  then show False
    using layoutD(4) [OF L, of i] linked_not_NULL by (metis bucket_ok_def)
qed

text \<open>The scan from position \<open>length pre\<close>.\<close>

lemma scan_layout:
  assumes L: "map_layout m xss" and xss: "xss = pre @ post"
  shows "(concat post = [] \<and> scan_buckets m (length pre) = Inr None) \<or>
     (\<exists>es y ys rest. post = es @ (y # ys) # rest \<and> concat es = [] \<and>
        scan_buckets m (length pre) = Inr (Some (length pre + length es, y)))"
proof (cases "unat (map_capacity m) \<le> length pre")
  case True
  have "length pre + length post = unat (map_capacity m)"
    using layoutD(2) [OF L] xss by simp
  then have "length post = 0" using True by linarith
  then have "post = []" by simp
  then show ?thesis using True by (simp add: scan_buckets_def)
next
  case False
  have "NULL \<notin> set (concat post)" using layout_not_NULL [OF L] xss by auto
  moreover have "scan_buckets m (length pre) =
      Inr (next_bucket (map (\<lambda>xs. first xs NULL) post) (length pre))"
    using False layoutD(2,3) [OF L] xss by (simp add: scan_buckets_def)
  ultimately show ?thesis using next_bucket_first [of post "length pre"] by fastforce
qed

text \<open>From a node on, the loop visits the rest of its bucket and the buckets after it.\<close>

lemma visit_from:
  assumes L: "map_layout m xss" and xss: "xss = pre @ (us @ x # zs) # post"
    and it: "unat (iter_pos it) = length pre" "iter_cur it = x"
    and fuel: "length (x # zs @ concat post) \<le> fuel"
  shows "visit fuel m it x = Inr (x # zs @ concat post)"
  using xss it fuel
proof (induction fuel arbitrary: pre us x zs post it)
  case 0
  then show ?case by simp
next
  case (Suc fuel)
  let ?i = "length pre"
  have i: "?i < length xss" and xi: "xss ! ?i = us @ x # zs"
    using Suc.prems(1) by simp_all
  have lk: "linked (map_heap m) NULL (us @ x # zs) NULL"
    using layoutD(4) [OF L i] xi by (simp add: bucket_ok_def)
  then obtain n where n: "map_heap m x = Some n" "x \<noteq> NULL" "node_next n = first zs NULL"
    by auto
  have nz: "NULL \<notin> set zs" using linked_not_NULL [OF lk] by simp
  have nx: "TecMapIter_next it m =
      (if zs \<noteq> [] then Inr (hd zs, it\<lparr>iter_cur := hd zs\<rparr>)
       else bind_outcome (scan_buckets m (length (pre @ [us @ x # zs]))) (\<lambda>r.
          case r of None \<Rightarrow> Inr (NULL, it)
          | Some (pos, node) \<Rightarrow> Inr (node, it\<lparr>iter_cur := node, iter_pos := word_of_nat pos\<rparr>)))"
  proof -
    have "length pre + 1 < 2 ^ 64"
      using i layoutD(2) [OF L] u64_lt [of "map_capacity m"] by linarith
    then have "unat (iter_pos it + 1) = length pre + 1"
      using Suc.prems(2) by (simp add: u64_add)
    then show ?thesis
      using n nz Suc.prems(3) by (cases zs) (simp_all add: TecMapIter_next_def node_at_def)
  qed
  show ?case
  proof (cases zs)
    case (Cons z zs')
    have "visit fuel m (it\<lparr>iter_cur := z\<rparr>) z = Inr (z # zs' @ concat post)"
      using Suc.prems Cons by (intro Suc.IH [of pre "us @ [x]"]) simp_all
    then show ?thesis using nx Cons n(2) by (simp add: visit.simps [of "Suc fuel"])
  next
    case Nil
    have xss': "xss = (pre @ [us @ x # zs]) @ post" using Suc.prems(1) by simp
    from scan_layout [OF L xss'] show ?thesis
    proof (elim disjE exE conjE)
      assume "concat post = []" "scan_buckets m (length (pre @ [us @ x # zs])) = Inr None"
      then show ?thesis
        using nx Nil n(2) by (simp add: visit.simps [of "Suc fuel"] visit.simps [of fuel _ _ NULL])
    next
      fix es y ys rest
      assume post: "post = es @ (y # ys) # rest" "concat es = []"
        and sc: "scan_buckets m (length (pre @ [us @ x # zs]))
           = Inr (Some (length (pre @ [us @ x # zs]) + length es, y))"
      let ?pos = "length (pre @ [us @ x # zs]) + length es"
      let ?it = "it\<lparr>iter_cur := y, iter_pos := word_of_nat ?pos\<rparr>"
      have "?pos < length xss" using Suc.prems(1) post(1) by simp
      then have "unat (word_of_nat ?pos :: u64) = ?pos"
        using layoutD(2) [OF L] u64_lt [of "map_capacity m"] by (intro u64_of_nat) linarith
      then have "visit fuel m ?it y = Inr (y # ys @ concat rest)"
        using Suc.prems post Nil
        by (intro Suc.IH [of "(pre @ [us @ x # zs]) @ es" "[]"]) simp_all
      then show ?thesis
        using nx Nil n(2) sc post by (simp add: visit.simps [of "Suc fuel"])
    qed
  qed
qed

lemma begin_layout:
  assumes L: "map_layout m xss" and fuel: "length (concat xss) \<le> fuel"
  shows "\<exists>p it'. TecMapIter_begin it mp m = Inr (p, it') \<and> visit fuel m it' p = Inr (concat xss)"
proof -
  have xss: "xss = [] @ xss" by simp
  from scan_layout [OF L xss] show ?thesis
  proof (elim disjE exE conjE)
    assume "concat xss = []" "scan_buckets m (length ([] :: ptr list list)) = Inr None"
    then show ?thesis by (simp add: TecMapIter_begin_def visit.simps)
  next
    fix es y ys rest
    assume e: "xss = es @ (y # ys) # rest" "concat es = []"
      and sc: "scan_buckets m (length ([] :: ptr list list))
         = Inr (Some (length ([] :: ptr list list) + length es, y))"
    have "length es < length xss" using e(1) by simp
    then have "unat (word_of_nat (length es) :: u64) = length es"
      using layoutD(2) [OF L] u64_lt [of "map_capacity m"] by (intro u64_of_nat) linarith
    then have "visit fuel m \<lparr>iter_map = mp, iter_pos = word_of_nat (length es), iter_cur = y\<rparr> y
        = Inr (y # ys @ concat rest)"
      using L e fuel by (intro visit_from [of m xss es "[]"]) simp_all
    then show ?thesis using sc e by (simp add: TecMapIter_begin_def)
  qed
qed

lemma iterate_layout:
  assumes "map_layout m xss" and "length (concat xss) \<le> fuel"
  shows "iterate fuel m = Inr (concat xss)"
  using begin_layout [OF assms, of "\<lparr>iter_map = NULL, iter_pos = 0, iter_cur = NULL\<rparr>" 1]
  by (auto simp: iterate_def)

text \<open>All the entries, bucket after bucket, form the finite map.\<close>

lemma layout_entries:
  assumes L: "map_layout m xss"
  shows "distinct (map (key_at (map_heap m)) (concat xss))"
    and "map_of (map (entry (map_heap m)) (concat xss)) k
       = bucket_map (map_heap m) (xss ! slot m k) k"
proof -
  let ?h = "map_heap m"
  have ok: "\<forall>i < length xss. bucket_ok m i (xss ! i)" using layoutD(4) [OF L] by simp
  have dis: "distinct (map (key_at ?h) (concat yss)) \<and>
      (\<forall>x \<in> set (concat yss). n \<le> slot m (key_at ?h x))"
    if "\<forall>i < length yss. bucket_ok m (n + i) (yss ! i)" for yss n
    using that
  proof (induction yss arbitrary: n)
    case (Cons ys yss)
    have ys: "bucket_ok m n ys" using Cons.prems by force
    have IH: "distinct (map (key_at ?h) (concat yss)) \<and>
        (\<forall>x \<in> set (concat yss). Suc n \<le> slot m (key_at ?h x))"
      using Cons.prems by (intro Cons.IH) force
    have "\<forall>x \<in> set ys. slot m (key_at ?h x) = n" using ys by (simp add: bucket_ok_def)
    moreover from this IH have "key_at ?h ` set ys \<inter> key_at ?h ` set (concat yss) = {}"
      by force
    ultimately show ?case using ys IH by (force simp: bucket_ok_def)
  qed simp
  show d: "distinct (map (key_at ?h) (concat xss))" using dis [of xss 0] ok by simp
  have mem: "x \<in> set (concat xss) \<and> key_at ?h x = k \<longleftrightarrow>
      x \<in> set (xss ! slot m k) \<and> key_at ?h x = k" for x
  proof
    assume x: "x \<in> set (concat xss) \<and> key_at ?h x = k"
    then obtain ys where "ys \<in> set xss" "x \<in> set ys" by auto
    then obtain i where i: "i < length xss" "x \<in> set (xss ! i)" by (metis in_set_conv_nth)
    then have "slot m (key_at ?h x) = i" using layoutD(4) [OF L i(1)] by (simp add: bucket_ok_def)
    then show "x \<in> set (xss ! slot m k) \<and> key_at ?h x = k" using x i by simp
  next
    assume "x \<in> set (xss ! slot m k) \<and> key_at ?h x = k"
    then show "x \<in> set (concat xss) \<and> key_at ?h x = k"
      using layout_slot(1) [OF L, of k] by auto
  qed
  have b: "distinct (map (key_at ?h) (xss ! slot m k))"
    using layout_slot(2) [OF L] by (simp add: bucket_ok_def)
  have keys: "map fst (map (entry ?h) xs) = map (key_at ?h) xs" for xs
    by (simp add: entry_def)
  have "map_of (map (entry ?h) (concat xss)) k = Some v \<longleftrightarrow>
      map_of (map (entry ?h) (xss ! slot m k)) k = Some v" for v
  proof -
    have "map_of (map (entry ?h) xs) k = Some v \<longleftrightarrow>
        (\<exists>x. (x \<in> set xs \<and> key_at ?h x = k) \<and> value_at ?h x = v)"
      if "distinct (map (key_at ?h) xs)" for xs
    proof -
      have "distinct (map fst (map (entry ?h) xs))" unfolding keys using that .
      then have "map_of (map (entry ?h) xs) k = Some v \<longleftrightarrow> (k, v) \<in> set (map (entry ?h) xs)"
        by simp
      then show ?thesis by (auto simp: entry_def)
    qed
    from this [OF d] this [OF b] show ?thesis unfolding mem by (simp only:)
  qed
  then show "map_of (map (entry ?h) (concat xss)) k = bucket_map ?h (xss ! slot m k) k"
    unfolding bucket_map_def by (metis not_Some_eq)
qed

section \<open>Properties\<close>

text \<open>Programs that use a map, run by the model and by a finite map.\<close>

datatype map_cmd = Map_set "u8 list" ptr | Map_get "u8 list" | Map_remove "u8 list"

fun map_exec :: "(node_heap \<Rightarrow> ptr) \<Rightarrow> TecMap \<Rightarrow> map_cmd \<Rightarrow> (ptr \<times> TecMap) outcome" where
  "map_exec malloc m (Map_set k v) = TecMap_set m k v (malloc (map_heap m))"
| "map_exec malloc m (Map_get k) = bind_outcome (TecMap_get m k) (\<lambda>v. Inr (v, m))"
| "map_exec malloc m (Map_remove k) = TecMap_remove m k"

fun map_run :: "(node_heap \<Rightarrow> ptr) \<Rightarrow> TecMap \<Rightarrow> map_cmd list \<Rightarrow> (ptr list \<times> TecMap) outcome" where
  "map_run malloc m [] = Inr ([], m)"
| "map_run malloc m (c # cs) =
     bind_outcome (map_exec malloc m c) (\<lambda>(v, m').
     bind_outcome (map_run malloc m' cs) (\<lambda>(vs, m''). Inr (v # vs, m'')))"

fun spec_exec :: "(u8 list \<Rightarrow> ptr option) \<Rightarrow> map_cmd \<Rightarrow> ptr \<times> (u8 list \<Rightarrow> ptr option)" where
  "spec_exec f (Map_set k v) = (value_of (f k), f(k \<mapsto> v))"
| "spec_exec f (Map_get k) = (value_of (f k), f)"
| "spec_exec f (Map_remove k) = (value_of (f k), f(k := None))"

fun spec_run :: "(u8 list \<Rightarrow> ptr option) \<Rightarrow> map_cmd list \<Rightarrow> ptr list \<times> (u8 list \<Rightarrow> ptr option)" where
  "spec_run f [] = ([], f)"
| "spec_run f (c # cs) =
     (let (v, f') = spec_exec f c; (vs, f'') = spec_run f' cs in (v # vs, f''))"

text \<open>An allocator that succeeds and returns memory that is not in use.\<close>

definition malloc_ok :: "(node_heap \<Rightarrow> ptr) \<Rightarrow> bool" where
  "malloc_ok malloc \<longleftrightarrow> (\<forall>h. finite (dom h) \<longrightarrow> malloc h \<noteq> NULL \<and> h (malloc h) = None)"

lemma represents_finite: "represents m f \<Longrightarrow> finite (dom (map_heap m))"
  by (auto simp: represents_def layoutD(5))

lemma malloc_fresh: "malloc_ok malloc \<Longrightarrow> represents m f \<Longrightarrow> fresh_node m (malloc (map_heap m))"
  using represents_finite [of m f] by (simp add: malloc_ok_def fresh_node_def)

lemma map_exec_spec:
  assumes "represents m f" and "malloc_ok malloc"
  shows "\<exists>m'. map_exec malloc m c = Inr (fst (spec_exec f c), m') \<and>
     represents m' (snd (spec_exec f c))"
proof (cases c)
  case (Map_set k v)
  then show ?thesis
    using tec_map.put_spec [OF assms(1) malloc_fresh [OF assms(2,1)], of k v] by simp
next
  case (Map_get k)
  then show ?thesis using tec_map.get_spec [OF assms(1), of k] assms(1) by simp
next
  case (Map_remove k)
  then show ?thesis using tec_map.del_spec [OF assms(1), of k] by simp
qed

definition first_free :: "node_heap \<Rightarrow> ptr" where
  "first_free h = Suc (Max (insert 0 (dom h)))"

lemma first_free_ok: "malloc_ok first_free"
proof -
  have "h (Suc (Max (insert 0 (dom h)))) = None" if "finite (dom h)" for h :: node_heap
  proof (rule ccontr)
    assume "h (Suc (Max (insert 0 (dom h)))) \<noteq> None"
    then have "Suc (Max (insert 0 (dom h))) \<le> Max (insert 0 (dom h))"
      using that by (intro Max_ge) auto
    then show False by simp
  qed
  then show ?thesis by (simp add: malloc_ok_def first_free_def)
qed

text \<open>
  C6: any sequence of insertions, lookups and removals on a hash table returns
  without a fault, gives the results the same sequence gives on a finite map (the previous
  value or \<open>NULL\<close>), and leaves a table that represents that map.
\<close>

theorem map_run_refines:
  assumes "represents m f" and "malloc_ok malloc"
  shows "\<exists>m'. map_run malloc m cs = Inr (fst (spec_run f cs), m') \<and>
     represents m' (snd (spec_run f cs))"
  using assms(1)
proof (induction cs arbitrary: m f)
  case (Cons c cs)
  obtain m1 where m1: "map_exec malloc m c = Inr (fst (spec_exec f c), m1)"
    "represents m1 (snd (spec_exec f c))"
    using map_exec_spec [OF Cons.prems assms(2)] by blast
  obtain m2 where "map_run malloc m1 cs = Inr (fst (spec_run (snd (spec_exec f c)) cs), m2)"
    "represents m2 (snd (spec_run (snd (spec_exec f c)) cs))"
    using Cons.IH [OF m1(2)] by blast
  then show ?case using m1(1) by (auto simp: split_beta Let_def)
qed simp

theorem map_run_refines_witness:
  "\<exists>m'. map_run first_free (empty_map 1)
      [Map_set [97] 5, Map_set [98] 6, Map_set [97] 7, Map_remove [98], Map_get [97], Map_get [98]]
     = Inr ([0, 0, 5, 6, 7, 0], m') \<and> represents m' [[97] \<mapsto> 7]"
  using map_run_refines [OF empty_map_represents [of 1] first_free_ok,
      of "[Map_set [97] 5, Map_set [98] 6, Map_set [97] 7, Map_remove [98], Map_get [97],
           Map_get [98]]"]
  by (auto simp: value_of_def Let_def fun_upd_twist)

text \<open>
  After an insertion a lookup of the key gives the inserted value and every
  other key keeps its value.
\<close>

theorem set_then_get:
  assumes "represents m f" and "fresh_node m p"
  shows "\<exists>old m'. TecMap_set m k v p = Inr (old, m') \<and> TecMap_get m' k = Inr v \<and>
     (\<forall>k'. k' \<noteq> k \<longrightarrow> TecMap_get m' k' = TecMap_get m k')"
  using assms by (rule tec_map.get_after_put)

theorem set_then_get_witness:
  "\<exists>m'. TecMap_set (empty_map 3) [97] 5 8 = Inr (0, m') \<and> TecMap_get m' [97] = Inr 5"
  using set_then_get [OF empty_map_represents [of 3], of 8 "[97]" 5]
    tec_map.put_spec [OF empty_map_represents [of 3], of 8 "[97]" 5]
  by (auto simp: fresh_node_def empty_map_def value_of_def)

text \<open>
  C37: the iterator returns a first entry and then, call by call, every other
  entry once, and then \<open>NULL\<close>: the entries visited are all the nodes in memory, have
  different keys, and form the finite map the table represents.
\<close>

theorem iterate_visits_all:
  assumes "represents m f" and "card (dom (map_heap m)) \<le> fuel"
  shows "\<exists>ps. iterate fuel m = Inr ps \<and> set ps = dom (map_heap m) \<and>
     distinct (map (key_at (map_heap m)) ps) \<and> map_of (map (entry (map_heap m)) ps) = f"
proof -
  obtain xss where L: "map_layout m xss"
    and f: "f = (\<lambda>k. bucket_map (map_heap m) (xss ! slot m k) k)"
    using assms(1) by (auto simp: represents_def)
  note e = layout_entries [OF L]
  have "distinct (concat xss)" using e(1) by (simp only: distinct_map)
  then have "length (concat xss) \<le> fuel"
    using assms(2) layoutD(5) [OF L] distinct_card by fastforce
  then have "iterate fuel m = Inr (concat xss)" by (rule iterate_layout [OF L])
  moreover have "map_of (map (entry (map_heap m)) (concat xss)) = f"
    using e(2) f by (simp only: fun_eq_iff) simp
  ultimately show ?thesis using e(1) layoutD(5) [OF L] by auto
qed

theorem iterate_visits_all_witness:
  "\<exists>m' ps. TecMap_set (empty_map 3) [97] 5 8 = Inr (0, m') \<and> iterate 1 m' = Inr ps \<and>
     map_of (map (entry (map_heap m')) ps) = [[97] \<mapsto> 5]"
proof -
  obtain m' where m': "TecMap_set (empty_map 3) [97] 5 8 = Inr (0, m')"
    "represents m' [[97] \<mapsto> 5]"
    using tec_map.put_spec [OF empty_map_represents [of 3], of 8 "[97]" 5]
    by (auto simp: fresh_node_def empty_map_def value_of_def)
  have "dom (map_heap m') \<subseteq> {8}"
    using m'(1) slot_bound [of "empty_map 3" "[97]"]
    by (auto simp: TecMap_set_def empty_map_def map_index_def find_node_def bucket_at_def
        new_node_def set_bucket_def slot_def bind_outcome_Inr_iff split: if_splits)
  then have "card (dom (map_heap m')) \<le> 1"
    using card_mono [of "{8}" "dom (map_heap m')"] by simp
  from iterate_visits_all [OF m'(2) this] m'(1) show ?thesis by auto
qed

text \<open>
  C#done_releases: \<open>TecMap_done\<close> returns every node and the bucket array to the allocator;
  a lookup after it divides by the capacity, which is then 0.
\<close>

theorem done_releases:
  assumes "represents m f"
  shows "\<exists>m'. TecMap_done m = Inr m' \<and> map_heap m' = Map.empty \<and> map_nodes m' = None \<and>
     map_size m' = 0 \<and> TecMap_get m' k = Inl Div_by_zero"
  using clear_result [OF assms]
  by (simp add: TecMap_done_def empty_map_def TecMap_get_def map_index_def)

theorem done_releases_witness:
  "\<exists>m'. TecMap_done (empty_map 117) = Inr m' \<and> map_heap m' = Map.empty \<and>
     TecMap_get m' [97] = Inl Div_by_zero"
  using done_releases [OF empty_map_represents [of 117]] by auto

end
