(* ===== verification/TecSignal.thy ===== *)
theory TecSignal
  imports TecThreads TecTime
begin

text \<open>
  Models \<open>tecc_signal.c\<close> and \<open>tecc_signal.h\<close> twice: call by call for one thread, with the
  results of the platform calls as arguments, and as a step relation on all the threads that
  set a signal or wait for it.
\<close>

section \<open>Model: one thread\<close>

record TecSignal =
  sig_value :: int
  sig_mtx :: TecMutex
  sig_cnd :: TecCV

text \<open>\<open>mrc\<close> and \<open>crc\<close> are the results of initialising the mutex and the variable.\<close>

definition TecSignal_init ::
  "TecSignal \<Rightarrow> int \<Rightarrow> int \<Rightarrow> (bool \<times> mon_call list \<times> TecSignal) outcome" where
  "TecSignal_init s mrc crc =
     (let s = s\<lparr>sig_value := 0, sig_mtx := TecMutex_init (sig_mtx s) mrc\<rparr>
      in bind_outcome (TecMutex_ok (sig_mtx s)) (\<lambda>ok.
         if \<not> ok then Inr (False, [], s)
         else
           let s = s\<lparr>sig_cnd := TecCV_init (sig_cnd s) crc\<rparr>
           in bind_outcome (TecCV_ok (sig_cnd s)) (\<lambda>ok.
              if \<not> ok
              then bind_outcome (TecMutex_destroy (sig_mtx s)) (\<lambda>cs. Inr (False, cs, s))
              else Inr (True, [], s))))"

definition TecSignal_done :: "TecSignal \<Rightarrow> int \<Rightarrow> (mon_call list \<times> TecSignal) outcome" where
  "TecSignal_done s rc =
     bind_outcome (TecCV_destroy (sig_cnd s) rc) (\<lambda>(cs, c).
     bind_outcome (TecMutex_destroy (sig_mtx s)) (\<lambda>cs'.
       Inr (cs @ cs', s\<lparr>sig_cnd := c\<rparr>)))"

text \<open>\<open>lrc\<close>, \<open>brc\<close>: what locking the mutex and the broadcast return.\<close>

definition TecSignal_set :: "TecSignal \<Rightarrow> int \<Rightarrow> int \<Rightarrow> int \<times> mon_call list \<times> TecSignal" where
  "TecSignal_set s lrc brc =
     (let s = s\<lparr>sig_value := 1\<rparr>
      in if lrc = 0 then (brc, [Lock lrc, Broadcast, Unlock], s)
         else (brc, [Lock lrc, Broadcast], s))"

text \<open>
  The loop \<open>while (value != 1) err = wait (...)\<close>: each element of \<open>evs\<close> is a value that a
  load of \<open>value\<close> sees and the result of the wait that follows it when it is not 1. The
  calls made and the last error are returned; when the events run out the thread still waits.
\<close>

fun wait_loop :: "(int \<times> int) list \<Rightarrow> int \<Rightarrow> (int \<times> mon_call list) option" where
  "wait_loop [] err = None"
| "wait_loop ((v, rc) # evs) err =
     (if v = 1 then Some (err, [])
      else if rc \<noteq> 0 then Some (rc, [Wait rc])
      else map_option (\<lambda>(e, cs). (e, Wait rc # cs)) (wait_loop evs rc))"

text \<open>\<open>v0\<close> is the value the first load sees. \<open>None\<close>: the call has not returned.\<close>

definition TecSignal_wait :: "int \<Rightarrow> int \<Rightarrow> (int \<times> int) list \<Rightarrow> (int \<times> mon_call list) option" where
  "TecSignal_wait v0 lrc evs =
     (if v0 = 1 then Some (0, [])
      else if lrc \<noteq> 0 then Some (lrc, [Lock lrc])
      else map_option (\<lambda>(e, cs). (e, Lock lrc # cs @ [Unlock])) (wait_loop evs lrc))"

definition EINVAL :: int where
  "EINVAL = 22"

text \<open>
  \<open>now\<close> is what \<open>timespec_get\<close> gave. The deadline is a signed sum; the wait is done with
  its \<open>timespec\<close>, which the results in \<open>evs\<close> depend on.
\<close>

definition TecSignal_wait_for ::
  "int \<Rightarrow> timespec option \<Rightarrow> TecTimePoint \<Rightarrow> int \<Rightarrow> (timespec \<Rightarrow> (int \<times> int) list)
   \<Rightarrow> (int \<times> mon_call list) option outcome" where
  "TecSignal_wait_for v0 now timeout lrc evs =
     (if v0 = 1 then Inr (Some (0, []))
      else
        bind_outcome (tec_tp_now now) (\<lambda>deadline.
        if deadline = 0 then Inr (Some (EINVAL, []))
        else
          bind_outcome (signed64 (deadline + timeout)) (\<lambda>deadline.
          let ts = tec_tp_to_ts deadline
          in if lrc \<noteq> 0 then Inr (Some (lrc, [Lock lrc, Unlock]))
             else Inr (map_option (\<lambda>(e, cs). (e, Lock lrc # cs @ [Unlock]))
                    (wait_loop (evs ts) lrc)))))"

section \<open>Model: all threads\<close>

text \<open>
  The places in the code where a thread can be: a setter before its store, its lock, its
  broadcast and its unlock; a waiter before its first load, its lock, its test, its wait,
  asleep in the wait, woken and about to take the lock again, before its unlock; a thread
  that has returned. Locks succeed in this model.
\<close>

datatype sig_pc =
    S_store | S_lock | S_broadcast | S_unlock
  | W_load | W_lock | W_test | W_wait | W_asleep | W_relock | W_unlock
  | Returned

record sig_state =
  ss_value :: int
  ss_owner :: "nat option"
  ss_pc :: "nat \<Rightarrow> sig_pc"

abbreviation goto :: "sig_state \<Rightarrow> nat \<Rightarrow> sig_pc \<Rightarrow> sig_state" where
  "goto s t p \<equiv> s\<lparr>ss_pc := (ss_pc s)(t := p)\<rparr>"

definition wake_all :: "(nat \<Rightarrow> sig_pc) \<Rightarrow> nat \<Rightarrow> sig_pc" where
  "wake_all pc t = (if pc t = W_asleep then W_relock else pc t)"

inductive sig_step :: "sig_state \<Rightarrow> sig_state \<Rightarrow> bool" where
  set_store: "ss_pc s t = S_store \<Longrightarrow> sig_step s ((goto s t S_lock)\<lparr>ss_value := 1\<rparr>)"
| set_lock: "ss_pc s t = S_lock \<Longrightarrow> ss_owner s = None \<Longrightarrow>
    sig_step s ((goto s t S_broadcast)\<lparr>ss_owner := Some t\<rparr>)"
| set_broadcast: "ss_pc s t = S_broadcast \<Longrightarrow>
    sig_step s (s\<lparr>ss_pc := (wake_all (ss_pc s))(t := S_unlock)\<rparr>)"
| set_unlock: "ss_pc s t = S_unlock \<Longrightarrow> sig_step s ((goto s t Returned)\<lparr>ss_owner := None\<rparr>)"
| wait_fast: "ss_pc s t = W_load \<Longrightarrow> ss_value s = 1 \<Longrightarrow> sig_step s (goto s t Returned)"
| wait_slow: "ss_pc s t = W_load \<Longrightarrow> ss_value s \<noteq> 1 \<Longrightarrow> sig_step s (goto s t W_lock)"
| wait_lock: "ss_pc s t = W_lock \<Longrightarrow> ss_owner s = None \<Longrightarrow>
    sig_step s ((goto s t W_test)\<lparr>ss_owner := Some t\<rparr>)"
| wait_again: "ss_pc s t = W_test \<Longrightarrow> ss_value s \<noteq> 1 \<Longrightarrow> sig_step s (goto s t W_wait)"
| wait_over: "ss_pc s t = W_test \<Longrightarrow> ss_value s = 1 \<Longrightarrow> sig_step s (goto s t W_unlock)"
| wait_sleep: "ss_pc s t = W_wait \<Longrightarrow> sig_step s ((goto s t W_asleep)\<lparr>ss_owner := None\<rparr>)"
| wait_relock: "ss_pc s t = W_relock \<Longrightarrow> ss_owner s = None \<Longrightarrow>
    sig_step s ((goto s t W_test)\<lparr>ss_owner := Some t\<rparr>)"
| wait_unlock: "ss_pc s t = W_unlock \<Longrightarrow> sig_step s ((goto s t Returned)\<lparr>ss_owner := None\<rparr>)"

text \<open>Any thread starts as a setter or a waiter; a sleeping thread may wake by itself.\<close>

inductive sig_reach :: "sig_state \<Rightarrow> bool" where
  start: "(\<And>t. pc t \<in> {S_store, W_load, Returned}) \<Longrightarrow>
    sig_reach \<lparr>ss_value = 0, ss_owner = None, ss_pc = pc\<rparr>"
| step: "sig_reach s \<Longrightarrow> sig_step s s' \<Longrightarrow> sig_reach s'"
| spurious: "sig_reach s \<Longrightarrow> ss_pc s t = W_asleep \<Longrightarrow> sig_reach (goto s t W_relock)"

section \<open>Invariants\<close>

definition holding :: "sig_pc set" where
  "holding = {S_broadcast, S_unlock, W_test, W_wait, W_unlock}"

text \<open>
  The mutex is held exactly by the thread between its lock and its unlock; a thread that is
  about to sleep, or asleep, although the value is 1 will still be woken.
\<close>

definition sig_inv :: "sig_state \<Rightarrow> bool" where
  "sig_inv s \<longleftrightarrow>
     (\<forall>t. ss_pc s t \<in> holding \<longleftrightarrow> ss_owner s = Some t) \<and>
     (ss_value s = 0 \<or> ss_value s = 1) \<and>
     (\<forall>t. ss_pc s t \<in> {S_lock, S_broadcast, S_unlock, W_unlock} \<longrightarrow> ss_value s = 1) \<and>
     (ss_value s = 1 \<longrightarrow> (\<exists>t. ss_pc s t \<in> {W_wait, W_asleep}) \<longrightarrow>
       (\<exists>u. ss_pc s u \<in> {S_lock, S_broadcast}))"

lemma holding_simps [simp]:
  "S_broadcast \<in> holding" "S_unlock \<in> holding" "W_test \<in> holding" "W_wait \<in> holding"
  "W_unlock \<in> holding" "S_store \<notin> holding" "S_lock \<notin> holding" "W_load \<notin> holding"
  "W_lock \<notin> holding" "W_asleep \<notin> holding" "W_relock \<notin> holding" "Returned \<notin> holding"
  by (simp_all add: holding_def)

lemma sig_invD:
  assumes "sig_inv s"
  shows "ss_pc s t \<in> holding \<longleftrightarrow> ss_owner s = Some t"
    and "ss_value s = 0 \<or> ss_value s = 1"
    and "ss_pc s t \<in> {S_lock, S_broadcast, S_unlock, W_unlock} \<Longrightarrow> ss_value s = 1"
    and "ss_value s = 1 \<Longrightarrow> ss_pc s t \<in> {W_wait, W_asleep} \<Longrightarrow>
      \<exists>u. ss_pc s u \<in> {S_lock, S_broadcast}"
  using assms unfolding sig_inv_def by blast+

lemma sig_invI:
  assumes "\<And>t. ss_pc s t \<in> holding \<longleftrightarrow> ss_owner s = Some t"
    and "ss_value s = 0 \<or> ss_value s = 1"
    and "\<And>t. ss_pc s t \<in> {S_lock, S_broadcast, S_unlock, W_unlock} \<Longrightarrow> ss_value s = 1"
    and "\<And>t. ss_value s = 1 \<Longrightarrow> ss_pc s t \<in> {W_wait, W_asleep} \<Longrightarrow>
      \<exists>u. ss_pc s u \<in> {S_lock, S_broadcast}"
  shows "sig_inv s"
  using assms unfolding sig_inv_def by blast

text \<open>A step of one thread that wakes nobody.\<close>

lemma sig_inv_move:
  assumes inv: "sig_inv s"
    and own: "p \<in> holding \<longleftrightarrow> w = Some t" "\<And>u. u \<noteq> t \<Longrightarrow> w = Some u \<longleftrightarrow> ss_owner s = Some u"
    and val: "v = ss_value s \<or> v = 1" "p \<in> {S_lock, S_broadcast, S_unlock, W_unlock} \<Longrightarrow> v = 1"
    and wake: "p \<in> {S_lock, S_broadcast} \<or>
      ss_pc s t \<notin> {S_lock, S_broadcast} \<and> v = ss_value s \<and>
      (p \<in> {W_wait, W_asleep} \<longrightarrow> ss_pc s t \<in> {W_wait, W_asleep} \<or> v \<noteq> 1)"
  shows "sig_inv \<lparr>ss_value = v, ss_owner = w, ss_pc = (ss_pc s)(t := p)\<rparr>"
proof -
  note i = sig_invD [OF inv]
  have 1: "((ss_pc s)(t := p)) u \<in> holding \<longleftrightarrow> w = Some u" for u
    using i(1) [of u] own by (cases "u = t") simp_all
  have 3: "((ss_pc s)(t := p)) u \<in> {S_lock, S_broadcast, S_unlock, W_unlock} \<Longrightarrow> v = 1" for u
    using i(3) [of u] val by (cases "u = t") auto
  have 4: "\<exists>u. ((ss_pc s)(t := p)) u \<in> {S_lock, S_broadcast}"
    if v: "v = 1" and u: "((ss_pc s)(t := p)) u \<in> {W_wait, W_asleep}" for u
  proof (cases "p \<in> {S_lock, S_broadcast}")
    case True
    then show ?thesis by (intro exI [of _ t]) simp
  next
    case False
    then have w: "ss_pc s t \<notin> {S_lock, S_broadcast}" "ss_value s = 1"
      "p \<in> {W_wait, W_asleep} \<longrightarrow> ss_pc s t \<in> {W_wait, W_asleep}"
      using wake v by auto
    then obtain u' where "ss_pc s u' \<in> {S_lock, S_broadcast}"
      using i(4) [of u] i(4) [of t] u by (cases "u = t") auto
    then show ?thesis using w(1) by (intro exI [of _ u']) auto
  qed
  show ?thesis by (rule sig_invI) (use 1 3 4 i(2) val(1) in auto)
qed

lemma sig_inv_broadcast:
  assumes inv: "sig_inv s" and pc: "ss_pc s t = S_broadcast"
  shows "sig_inv (s\<lparr>ss_pc := (wake_all (ss_pc s))(t := S_unlock)\<rparr>)"
proof -
  let ?pc = "(wake_all (ss_pc s))(t := S_unlock)"
  note i = sig_invD [OF inv]
  have t: "ss_owner s = Some t" using i(1) [of t] pc by simp
  have 1: "?pc u \<in> holding \<longleftrightarrow> ss_owner s = Some u" for u
    using i(1) [of u] t by (simp add: wake_all_def)
  have 3: "?pc u \<in> {S_lock, S_broadcast, S_unlock, W_unlock} \<Longrightarrow> ss_value s = 1" for u
    using i(3) [of u] i(3) [of t] pc by (auto simp: wake_all_def split: if_splits)
  have 4: "?pc u \<notin> {W_wait, W_asleep}" for u
    using i(1) [of u] t pc by (auto simp: wake_all_def)
  show ?thesis by (rule sig_invI) (use 1 3 4 i(2) in auto)
qed

lemma goto_eq:
  "goto s t p = \<lparr>ss_value = ss_value s, ss_owner = ss_owner s, ss_pc = (ss_pc s)(t := p)\<rparr>"
  by (cases s) simp

lemma sig_inv_step: "sig_step s s' \<Longrightarrow> sig_inv s \<Longrightarrow> sig_inv s'"
proof (induction rule: sig_step.induct)
  case (set_broadcast s t)
  then show ?case by (intro sig_inv_broadcast)
next
  case (set_store s t)
  then show ?case
    using sig_inv_move [of s S_lock "ss_owner s" t "1"] sig_invD(1,3) [of s t]
    by (simp add: goto_eq)
next
  case (set_lock s t)
  then show ?case
    using sig_inv_move [of s S_broadcast "Some t" t "ss_value s"] sig_invD(1,3) [of s t]
    by (simp add: goto_eq)
next
  case (set_unlock s t)
  then show ?case
    using sig_inv_move [of s Returned "None" t "ss_value s"] sig_invD(1,3) [of s t]
    by (simp add: goto_eq)
next
  case (wait_fast s t)
  then show ?case
    using sig_inv_move [of s Returned "ss_owner s" t "ss_value s"] sig_invD(1,3) [of s t]
    by (simp add: goto_eq)
next
  case (wait_slow s t)
  then show ?case
    using sig_inv_move [of s W_lock "ss_owner s" t "ss_value s"] sig_invD(1,3) [of s t]
    by (simp add: goto_eq)
next
  case (wait_lock s t)
  then show ?case
    using sig_inv_move [of s W_test "Some t" t "ss_value s"] sig_invD(1,3) [of s t]
    by (simp add: goto_eq)
next
  case (wait_again s t)
  then show ?case
    using sig_inv_move [of s W_wait "ss_owner s" t "ss_value s"] sig_invD(1,3) [of s t]
    by (simp add: goto_eq)
next
  case (wait_over s t)
  then show ?case
    using sig_inv_move [of s W_unlock "ss_owner s" t "ss_value s"] sig_invD(1,3) [of s t]
    by (simp add: goto_eq)
next
  case (wait_sleep s t)
  then show ?case
    using sig_inv_move [of s W_asleep "None" t "ss_value s"] sig_invD(1,3) [of s t]
    by (simp add: goto_eq)
next
  case (wait_relock s t)
  then show ?case
    using sig_inv_move [of s W_test "Some t" t "ss_value s"] sig_invD(1,3) [of s t]
    by (simp add: goto_eq)
next
  case (wait_unlock s t)
  then show ?case
    using sig_inv_move [of s Returned "None" t "ss_value s"] sig_invD(1,3) [of s t]
    by (simp add: goto_eq)
qed

lemma sig_reach_inv: "sig_reach s \<Longrightarrow> sig_inv s"
proof (induction rule: sig_reach.induct)
  case (start pc)
  have "pc t \<notin> holding" and "pc t \<notin> {S_lock, S_broadcast, S_unlock, W_unlock}"
    and "pc t \<notin> {W_wait, W_asleep}" for t
    using start [of t] by auto
  then show ?case by (intro sig_invI) simp_all
next
  case (step s s')
  then show ?case by (blast intro: sig_inv_step)
next
  case (spurious s t)
  then show ?case
    using sig_inv_move [of s W_relock "ss_owner s" t "ss_value s"] sig_invD(1) [of s t]
    by (simp add: goto_eq)
qed

section \<open>Properties\<close>

text \<open>
  C33: once the signal is set and no setter is before its broadcast, no
  thread is asleep in \<open>TecSignal_wait\<close> or about to fall asleep, whatever the interleaving.
\<close>

theorem signal_no_lost_wakeup:
  assumes "sig_reach s" and "ss_value s = 1" and "\<forall>u. ss_pc s u \<notin> {S_lock, S_broadcast}"
  shows "ss_pc s t \<notin> {W_wait, W_asleep}"
  using sig_invD(4) [OF sig_reach_inv [OF assms(1)] assms(2), of t] assms(3) by blast

lemma sig_set_end: "sig_reach \<lparr>ss_value = 1, ss_owner = None, ss_pc = (\<lambda>_. Returned)\<rparr>"
proof -
  let ?s = "\<lambda>v w p. \<lparr>ss_value = v, ss_owner = w, ss_pc = (\<lambda>t. if t = 0 then p else Returned)\<rparr>"
  have e: "goto (?s v w p) 0 p' = ?s v w p'" for v w p p' by (simp add: fun_eq_iff)
  have "sig_reach (?s 0 None S_store)" by (rule sig_reach.start) simp
  then have "sig_reach (?s 1 None S_lock)"
    using sig_reach.step [OF _ set_store [of "?s 0 None S_store" 0]] e [of 0 None S_store S_lock] by simp
  then have "sig_reach (?s 1 (Some 0) S_broadcast)"
    using sig_reach.step [OF _ set_lock [of "?s 1 None S_lock" 0]] e [of 1 None S_lock S_broadcast] by simp
  moreover have "(wake_all (ss_pc (?s 1 (Some 0) S_broadcast)))(0 := S_unlock)
      = (\<lambda>t. if t = 0 then S_unlock else Returned)"
    by (auto simp: wake_all_def fun_eq_iff)
  ultimately have "sig_reach (?s 1 (Some 0) S_unlock)"
    using sig_reach.step [OF _ set_broadcast [of "?s 1 (Some 0) S_broadcast" 0]] by simp
  then have "sig_reach (?s 1 None Returned)"
    using sig_reach.step [OF _ set_unlock [of "?s 1 (Some 0) S_unlock" 0]]
      e [of 1 "Some 0" S_unlock Returned] by simp
  then show ?thesis by simp
qed

theorem signal_no_lost_wakeup_witness:
  "ss_pc \<lparr>ss_value = 1, ss_owner = None, ss_pc = (\<lambda>_. Returned)\<rparr> 7 \<notin> {W_wait, W_asleep}"
  using signal_no_lost_wakeup [OF sig_set_end, of 7] by simp

text \<open>
  When some thread has set the signal and no thread can take a step,
  every thread that set it or waited for it has returned; spurious wake-ups are not needed
  for this.
\<close>

theorem signal_no_deadlock:
  assumes reach: "sig_reach s" and set: "ss_value s = 1" and stuck: "\<nexists>s'. sig_step s s'"
  shows "ss_pc s t = Returned"
proof -
  note inv = sig_reach_inv [OF reach]
  note i = sig_invD [OF inv]
  have no: "\<not> sig_step s s'" for s' using stuck by blast
  have free: "ss_owner s = None"
  proof (cases "ss_owner s")
    case (Some u)
    then have "ss_pc s u \<in> holding" using i(1) by simp
    then show ?thesis
      using no set_broadcast [of s u] set_unlock [of s u] wait_again [of s u] wait_over [of s u]
        wait_sleep [of s u] wait_unlock [of s u]
      by (auto simp: holding_def)
  qed
  have setters: "ss_pc s u \<notin> {S_lock, S_broadcast}" for u
    using no set_lock [of s u] set_broadcast [of s u] free by auto
  show ?thesis
  proof (cases "ss_pc s t")
    case W_asleep
    then show ?thesis using i(4) [OF set, of t] setters by blast
  next
    case W_wait
    then show ?thesis using i(4) [OF set, of t] setters by blast
  qed (use no free i(1) [of t] set_store [of s t] set_lock [of s t] wait_fast [of s t]
      wait_slow [of s t] wait_lock [of s t] wait_relock [of s t] in auto)
qed

theorem signal_no_deadlock_witness:
  "ss_pc \<lparr>ss_value = 1, ss_owner = None, ss_pc = (\<lambda>_. Returned)\<rparr> 3 = Returned"
proof (rule signal_no_deadlock [OF sig_set_end])
  show "\<nexists>s'. sig_step \<lparr>ss_value = 1, ss_owner = None, ss_pc = (\<lambda>_. Returned)\<rparr> s'"
    by (auto elim: sig_step.cases)
qed simp

lemma wait_loop_calls:
  "wait_loop evs err = Some (e, cs) \<Longrightarrow>
   mutex_safe True (cs @ [Unlock]) \<and> (e = 0 \<longrightarrow> 1 \<in> set (map fst evs))"
proof (induction evs err arbitrary: e cs rule: wait_loop.induct)
  case (2 v rc evs err)
  then show ?case by (auto split: if_splits)
qed simp

text \<open>
  Whenever \<open>TecSignal_wait\<close> returns, it has used the mutex correctly and
  holds it no longer, and it returns 0 only after it has seen the value 1.
\<close>

theorem wait_balanced:
  assumes "TecSignal_wait v0 lrc evs = Some (e, cs)"
  shows "mutex_safe False cs \<and> (e = 0 \<longrightarrow> v0 = 1 \<or> 1 \<in> set (map fst evs))"
  using assms wait_loop_calls [of evs lrc]
  by (auto simp: TecSignal_wait_def split: if_splits)

theorem wait_balanced_witness:
  "mutex_safe False [Lock 0, Wait 0, Wait 0, Unlock] \<and> 1 \<in> set (map fst [(0, 0), (0, 0), (1 :: int, 0 :: int)])"
proof -
  have "TecSignal_wait 0 0 [(0, 0), (0, 0), (1, 0)] = Some (0, [Lock 0, Wait 0, Wait 0, Unlock])"
    by (simp add: TecSignal_wait_def)
  from wait_balanced [OF this] show ?thesis by simp
qed

text \<open>
  When locking fails, \<open>TecSignal_wait_for\<close> unlocks a mutex it does
  not hold.
\<close>

theorem wait_for_lock_failure:
  assumes "v0 \<noteq> 1" and "tec_tp_now now = Inr t" and "t \<noteq> 0" and "in_s64 (t + timeout)" and "lrc \<noteq> 0"
  shows "\<exists>cs. TecSignal_wait_for v0 now timeout lrc evs = Inr (Some (lrc, cs)) \<and>
     \<not> mutex_safe False cs"
  using assms by (simp add: TecSignal_wait_for_def Let_def)

theorem wait_for_lock_failure_witness:
  "\<exists>cs. TecSignal_wait_for 0 (Some \<lparr>tv_sec = 1, tv_nsec = 5\<rparr>) 1000 22 (\<lambda>_. []) = Inr (Some (22, cs)) \<and>
     \<not> mutex_safe False cs"
  by (rule wait_for_lock_failure [where t = 1000000005])
    (simp_all add: tec_tp_now_def tec_ts_to_tp_def in_s64_def)

text \<open>
  A waiter that finds the value already 1 returns without the lock,
  while the setter has not taken the lock yet: a caller that destroys its signal after the
  wait destroys the mutex the setter is about to use (\<open>TecWorker_rpc_\<close> is such a caller).
\<close>

theorem waiter_outruns_setter:
  "\<exists>s s'. sig_reach s \<and> ss_pc s 0 = S_store \<and> ss_pc s 1 = W_load \<and> sig_step\<^sup>*\<^sup>* s s' \<and>
     ss_pc s' 0 = S_lock \<and> ss_pc s' 1 = Returned"
proof -
  let ?pc = "\<lambda>t :: nat. if t = 0 then S_store else if t = 1 then W_load else Returned"
  let ?s = "\<lparr>ss_value = 0, ss_owner = None, ss_pc = ?pc\<rparr>"
  let ?s1 = "(goto ?s 0 S_lock)\<lparr>ss_value := 1\<rparr>"
  have "sig_reach ?s" by (rule sig_reach.start) simp
  moreover have "sig_step ?s ?s1" by (rule sig_step.set_store) simp
  moreover have "sig_step ?s1 (goto ?s1 1 Returned)" by (rule sig_step.wait_fast) simp_all
  ultimately have "sig_reach ?s" "sig_step\<^sup>*\<^sup>* ?s (goto ?s1 1 Returned)" by auto
  then show ?thesis by (intro exI [of _ ?s] exI [of _ "goto ?s1 1 Returned"]) simp
qed

end
