(* ===== verification/TecQueue.thy ===== *)
theory TecQueue
  imports TecThreads
begin

text \<open>
  Models \<open>tecc_queue.c\<close> and \<open>tecc_queue.h\<close>: the linked list behind the queue, operation by
  operation, and the monitor around it as a step relation on producers and consumers.
\<close>

section \<open>Model: the list\<close>

record TecQueueNode =
  qn_obj :: ptr
  qn_next :: ptr

text \<open>\<open>q_heap\<close> is the memory that holds the nodes of this queue.\<close>

record TecQueue =
  q_head :: ptr
  q_tail :: ptr
  q_mtx :: TecMutex
  q_cv :: TecCV
  q_heap :: "ptr \<Rightarrow> TecQueueNode option"

text \<open>The results \<open>mrc\<close>, \<open>crc\<close> of initialising the mutex and the variable are not tested.\<close>

definition TecQueue_init :: "TecQueue \<Rightarrow> int \<Rightarrow> int \<Rightarrow> bool \<times> TecQueue" where
  "TecQueue_init q mrc crc =
     (True, q\<lparr>q_head := NULL, q_tail := NULL, q_mtx := TecMutex_init (q_mtx q) mrc,
             q_cv := TecCV_init (q_cv q) crc\<rparr>)"

definition qnode_at :: "(ptr \<Rightarrow> TecQueueNode option) \<Rightarrow> ptr \<Rightarrow> TecQueueNode outcome" where
  "qnode_at h p =
     (if p = NULL then Inl Null_deref
      else case h p of None \<Rightarrow> Inl Invalid_pointer | Some n \<Rightarrow> Inr n)"

partial_function (option) free_loop ::
  "(ptr \<Rightarrow> TecQueueNode option) \<Rightarrow> ptr \<Rightarrow> (ptr \<Rightarrow> TecQueueNode option) outcome option" where
  "free_loop h n =
     (if n = NULL then Some (Inr h)
      else case qnode_at h n of
        Inl f \<Rightarrow> Some (Inl f)
      | Inr x \<Rightarrow> free_loop (h(n := None)) (qn_next x))"

text \<open>\<open>head\<close> and \<open>tail\<close> keep their values. The calls on the monitor are returned.\<close>

definition TecQueue_done :: "TecQueue \<Rightarrow> int \<Rightarrow> (mon_call list \<times> TecQueue) outcome" where
  "TecQueue_done q rc =
     bind_outcome (case free_loop (q_heap q) (q_head q) of None \<Rightarrow> Inl No_return | Some r \<Rightarrow> r)
       (\<lambda>h.
     bind_outcome (TecMutex_destroy (q_mtx q)) (\<lambda>cs.
     bind_outcome (TecCV_destroy (q_cv q) rc) (\<lambda>(cs', c).
       Inr ([Lock 0, Unlock] @ cs @ cs', q\<lparr>q_heap := h, q_cv := c\<rparr>))))"

text \<open>\<open>p\<close> is what \<open>malloc\<close> returned; the code does not test it.\<close>

definition TecQueue_push :: "TecQueue \<Rightarrow> ptr \<Rightarrow> ptr \<Rightarrow> TecQueue outcome" where
  "TecQueue_push q obj p =
     (if p = NULL then Inl Null_deref
      else
        let h = (q_heap q)(p \<mapsto> \<lparr>qn_obj = obj, qn_next = NULL\<rparr>)
        in if q_tail q \<noteq> NULL
           then bind_outcome (qnode_at h (q_tail q)) (\<lambda>t.
                  Inr (q\<lparr>q_heap := h(q_tail q \<mapsto> t\<lparr>qn_next := p\<rparr>), q_tail := p\<rparr>))
           else Inr (q\<lparr>q_heap := h, q_head := p, q_tail := p\<rparr>))"

text \<open>\<open>None\<close>: the queue is empty and the caller waits.\<close>

definition TecQueue_pop :: "TecQueue \<Rightarrow> (ptr \<times> TecQueue) option outcome" where
  "TecQueue_pop q =
     (if q_head q = NULL then Inr None
      else bind_outcome (qnode_at (q_heap q) (q_head q)) (\<lambda>head.
             Inr (Some (qn_obj head,
               q\<lparr>q_head := qn_next head,
                 q_tail := (if qn_next head = NULL then NULL else q_tail q),
                 q_heap := (q_heap q)(q_head q := None)\<rparr>))))"

section \<open>Layout and contents\<close>

definition queue_layout :: "TecQueue \<Rightarrow> ptr list \<Rightarrow> bool" where
  "queue_layout q xs \<longleftrightarrow>
     chain (\<lambda>p. map_option qn_next (q_heap q p)) xs NULL \<and> distinct xs \<and>
     q_head q = first xs NULL \<and> q_tail q = last (NULL # xs) \<and> dom (q_heap q) = set xs"

definition obj_at :: "(ptr \<Rightarrow> TecQueueNode option) \<Rightarrow> ptr \<Rightarrow> ptr" where
  "obj_at h p = (case h p of None \<Rightarrow> NULL | Some n \<Rightarrow> qn_obj n)"

definition queue_holds :: "TecQueue \<Rightarrow> ptr list \<Rightarrow> bool" where
  "queue_holds q os \<longleftrightarrow> (\<exists>xs. queue_layout q xs \<and> os = map (obj_at (q_heap q)) xs)"

definition fresh_qnode :: "TecQueue \<Rightarrow> ptr \<Rightarrow> bool" where
  "fresh_qnode q p \<longleftrightarrow> p \<noteq> NULL \<and> q_heap q p = None"

lemma chain_dom:
  "chain (\<lambda>p. map_option f (h p)) xs q \<Longrightarrow> set xs \<subseteq> dom h"
  by (induction xs) auto

lemma push_layout:
  assumes L: "queue_layout q xs" and p: "fresh_qnode q p"
  obtains q' where "TecQueue_push q obj p = Inr q'" and "queue_layout q' (xs @ [p])"
    and "map (obj_at (q_heap q')) (xs @ [p]) = map (obj_at (q_heap q)) xs @ [obj]"
    and "q_mtx q' = q_mtx q" and "q_cv q' = q_cv q"
proof -
  let ?h = "(q_heap q)(p \<mapsto> \<lparr>qn_obj = obj, qn_next = NULL\<rparr>)"
  have c: "chain (\<lambda>p. map_option qn_next (q_heap q p)) xs NULL" and d: "distinct xs"
    and hd: "q_head q = first xs NULL" and tl: "q_tail q = last (NULL # xs)"
    and dom: "dom (q_heap q) = set xs"
    using L by (simp_all add: queue_layout_def)
  have pn: "p \<noteq> NULL" "p \<notin> set xs" using p dom by (auto simp: fresh_qnode_def)
  show thesis
  proof (cases xs rule: rev_cases)
    case Nil
    let ?q = "q\<lparr>q_heap := ?h, q_head := p, q_tail := p\<rparr>"
    have "TecQueue_push q obj p = Inr ?q" using pn tl Nil by (simp add: TecQueue_push_def)
    moreover have "queue_layout ?q (xs @ [p])" using Nil pn dom by (simp add: queue_layout_def)
    ultimately show thesis using that [of ?q] Nil by (simp add: obj_at_def)
  next
    case (snoc ys t)
    have nn: "NULL \<notin> set xs" using chain_not_NULL [OF c] .
    then have t: "t \<noteq> NULL" "t \<noteq> p" "q_tail q = t" using snoc tl pn by auto
    obtain n where n: "q_heap q t = Some n" using dom snoc by auto
    let ?h2 = "?h(t \<mapsto> n\<lparr>qn_next := p\<rparr>)"
    let ?q = "q\<lparr>q_heap := ?h2, q_tail := p\<rparr>"
    have run: "TecQueue_push q obj p = Inr ?q"
      using pn t n by (simp add: TecQueue_push_def qnode_at_def)
    have "chain (\<lambda>p. map_option qn_next (?h2 p)) ys t = chain (\<lambda>p. map_option qn_next (q_heap q p)) ys t"
      using pn d snoc by (intro chain_cong) auto
    then have "chain (\<lambda>p. map_option qn_next (?h2 p)) (xs @ [p]) NULL"
      using c snoc t pn by simp
    moreover have "dom ?h2 = set (xs @ [p])" using dom snoc by auto
    moreover have "first xs NULL = first (xs @ [p]) NULL" using snoc by (cases xs) simp_all
    ultimately have "queue_layout ?q (xs @ [p])"
      using hd d pn by (simp add: queue_layout_def)
    moreover have "map (obj_at ?h2) xs = map (obj_at (q_heap q)) xs"
      using pn n by (intro map_cong refl) (auto simp: obj_at_def)
    moreover have "obj_at ?h2 p = obj" using t by (simp add: obj_at_def)
    ultimately show thesis using that [of ?q] run by simp
  qed
qed

lemma pop_layout:
  assumes L: "queue_layout q (x # xs)"
  obtains q' where "TecQueue_pop q = Inr (Some (obj_at (q_heap q) x, q'))"
    and "queue_layout q' xs" and "map (obj_at (q_heap q')) xs = map (obj_at (q_heap q)) xs"
    and "q_mtx q' = q_mtx q" and "q_cv q' = q_cv q"
proof -
  have c: "chain (\<lambda>p. map_option qn_next (q_heap q p)) xs NULL" and d: "distinct (x # xs)"
    and hd: "q_head q = x" and tl: "q_tail q = last (NULL # x # xs)" and x: "x \<noteq> NULL"
    and dom: "dom (q_heap q) = set (x # xs)"
    using L by (simp_all add: queue_layout_def)
  obtain n where n: "q_heap q x = Some n" "qn_next n = first xs NULL"
    using L by (auto simp: queue_layout_def)
  let ?h = "(q_heap q)(x := None)"
  let ?q = "q\<lparr>q_head := first xs NULL,
      q_tail := (if first xs NULL = NULL then NULL else q_tail q), q_heap := ?h\<rparr>"
  have run: "TecQueue_pop q = Inr (Some (obj_at (q_heap q) x, ?q))"
    using hd x n by (simp add: TecQueue_pop_def qnode_at_def obj_at_def)
  have "chain (\<lambda>p. map_option qn_next (?h p)) xs NULL = chain (\<lambda>p. map_option qn_next (q_heap q p)) xs NULL"
    using d by (intro chain_cong) auto
  then have c': "chain (\<lambda>p. map_option qn_next (?h p)) xs NULL" using c by simp
  have "(if first xs NULL = NULL then NULL else q_tail q) = last (NULL # xs)"
    using tl first_NULL_iff [OF chain_not_NULL [OF c]] by simp
  then have "queue_layout ?q xs"
    using c' d dom by (auto simp: queue_layout_def)
  moreover have "map (obj_at ?h) xs = map (obj_at (q_heap q)) xs"
    using d by (intro map_cong refl) (auto simp: obj_at_def)
  ultimately show thesis using that [of ?q] run by simp
qed

lemma push_monitor: "TecQueue_push q x p = Inr q' \<Longrightarrow> q_mtx q' = q_mtx q \<and> q_cv q' = q_cv q"
  by (auto simp: TecQueue_push_def Let_def bind_outcome_Inr_iff split: if_splits)

lemma pop_monitor: "TecQueue_pop q = Inr (Some (x, q')) \<Longrightarrow> q_mtx q' = q_mtx q \<and> q_cv q' = q_cv q"
  by (auto simp: TecQueue_pop_def bind_outcome_Inr_iff split: if_splits)

section \<open>The interface: a FIFO queue\<close>

text \<open>
  What the worker and the thread pool rely on. \<open>put_ok q p\<close>: \<open>p\<close> can hold a new entry.
\<close>

locale fifo =
  fixes holds :: "'q \<Rightarrow> ptr list \<Rightarrow> bool"
    and put_ok :: "'q \<Rightarrow> ptr \<Rightarrow> bool"
    and enq :: "'q \<Rightarrow> ptr \<Rightarrow> ptr \<Rightarrow> 'q outcome"
    and deq :: "'q \<Rightarrow> (ptr \<times> 'q) option outcome"
  assumes enq_spec: "holds q os \<Longrightarrow> put_ok q p \<Longrightarrow> \<exists>q'. enq q x p = Inr q' \<and> holds q' (os @ [x])"
    and deq_empty: "holds q [] \<Longrightarrow> deq q = Inr None"
    and deq_spec: "holds q (x # os) \<Longrightarrow> \<exists>q'. deq q = Inr (Some (x, q')) \<and> holds q' os"
begin

lemma enq_deq_order:
  assumes "holds q (x # os)" and "put_ok q p"
  shows "\<exists>q1 q2. enq q y p = Inr q1 \<and> deq q1 = Inr (Some (x, q2)) \<and> holds q2 (os @ [y])"
proof -
  obtain q1 where q1: "enq q y p = Inr q1" "holds q1 (x # os @ [y])"
    using enq_spec [OF assms] by auto
  then show ?thesis using deq_spec [OF q1(2)] by blast
qed

end

interpretation tec_queue: fifo queue_holds fresh_qnode TecQueue_push TecQueue_pop
proof
  show "\<exists>q'. TecQueue_push q x p = Inr q' \<and> queue_holds q' (os @ [x])"
    if h: "queue_holds q os" and p: "fresh_qnode q p" for q os p x
  proof -
    obtain xs where xs: "queue_layout q xs" "os = map (obj_at (q_heap q)) xs"
      using h by (auto simp: queue_holds_def)
    obtain q' where "TecQueue_push q x p = Inr q'" "queue_layout q' (xs @ [p])"
      "map (obj_at (q_heap q')) (xs @ [p]) = map (obj_at (q_heap q)) xs @ [x]"
      using push_layout [OF xs(1) p] by blast
    then show ?thesis unfolding queue_holds_def xs(2) by metis
  qed
  show "TecQueue_pop q = Inr None" if "queue_holds q []" for q
    using that by (simp add: queue_holds_def queue_layout_def TecQueue_pop_def)
  show "\<exists>q'. TecQueue_pop q = Inr (Some (x, q')) \<and> queue_holds q' os"
    if h: "queue_holds q (x # os)" for q x os
  proof -
    obtain y ys where xs: "queue_layout q (y # ys)" "x = obj_at (q_heap q) y"
      "os = map (obj_at (q_heap q)) ys"
      using h by (auto simp: queue_holds_def Cons_eq_map_conv)
    show ?thesis using pop_layout [OF xs(1)] unfolding queue_holds_def xs(2,3) by metis
  qed
qed

lemma init_holds:
  assumes "q_heap q = Map.empty"
  shows "queue_holds (snd (TecQueue_init q mrc crc)) []"
  using assms by (simp add: queue_holds_def queue_layout_def TecQueue_init_def)

lemma free_loop_chain:
  "chain (\<lambda>p. map_option qn_next (h p)) xs NULL \<Longrightarrow> distinct xs \<Longrightarrow>
   free_loop h (first xs NULL) = Some (Inr (h |` (- set xs)))"
proof (induction xs arbitrary: h)
  case Nil
  have "h = h |` UNIV" by (simp add: restrict_map_def)
  then show ?case by (subst free_loop.simps) simp
next
  case (Cons x xs)
  then obtain n where n: "h x = Some n" "x \<noteq> NULL" "qn_next n = first xs NULL" by auto
  have c: "chain (\<lambda>p. map_option qn_next (h p)) xs NULL" using Cons.prems(1) by simp
  have "chain (\<lambda>p. map_option qn_next ((h(x := None)) p)) xs NULL
      = chain (\<lambda>p. map_option qn_next (h p)) xs NULL"
    using Cons.prems(2) by (intro chain_cong) auto
  with c have c': "chain (\<lambda>p. map_option qn_next ((h(x := None)) p)) xs NULL" by blast
  have "distinct xs" using Cons.prems(2) by simp
  with c' have "free_loop (h(x := None)) (first xs NULL) = Some (Inr ((h(x := None)) |` (- set xs)))"
    by (rule Cons.IH)
  moreover have "(h(x := None)) |` (- set xs) = h |` (- set (x # xs))"
    by (auto simp: restrict_map_def fun_eq_iff)
  ultimately show ?case using n by (subst free_loop.simps) (simp add: qnode_at_def)
qed

section \<open>Model: producers and consumers\<close>

text \<open>
  Where a thread can be: a producer before its lock, before linking the node, before the
  signal and the unlock; a consumer before its lock, before the test of \<open>head\<close> (and, when
  the queue is not empty, the removal), asleep, woken and about to take the lock again,
  before its unlock; a thread that has returned. The mutex makes each of these one step.
\<close>

datatype q_pc =
    P_lock ptr | P_link ptr | P_signal | P_unlock
  | C_lock | C_test | C_asleep | C_relock | C_unlock
  | Q_returned

text \<open>\<open>ms_in\<close> and \<open>ms_out\<close> record the objects pushed and popped, in order.\<close>

record mon_state =
  ms_queue :: TecQueue
  ms_owner :: "nat option"
  ms_pc :: "nat \<Rightarrow> q_pc"
  ms_in :: "ptr list"
  ms_out :: "ptr list"

abbreviation at_pc :: "mon_state \<Rightarrow> nat \<Rightarrow> q_pc \<Rightarrow> mon_state" where
  "at_pc s t p \<equiv> s\<lparr>ms_pc := (ms_pc s)(t := p)\<rparr>"

inductive queue_step :: "mon_state \<Rightarrow> mon_state \<Rightarrow> bool" where
  push_lock: "ms_pc s t = P_lock x \<Longrightarrow> ms_owner s = None \<Longrightarrow>
    queue_step s ((at_pc s t (P_link x))\<lparr>ms_owner := Some t\<rparr>)"
| push_link: "ms_pc s t = P_link x \<Longrightarrow> fresh_qnode (ms_queue s) p \<Longrightarrow>
    TecQueue_push (ms_queue s) x p = Inr q' \<Longrightarrow>
    queue_step s ((at_pc s t P_signal)\<lparr>ms_queue := q', ms_in := ms_in s @ [x]\<rparr>)"
| push_signal: "ms_pc s t = P_signal \<Longrightarrow> ms_pc s u = C_asleep \<Longrightarrow>
    queue_step s (s\<lparr>ms_pc := (ms_pc s)(u := C_relock, t := P_unlock)\<rparr>)"
| push_signal_nobody: "ms_pc s t = P_signal \<Longrightarrow> (\<And>u. ms_pc s u \<noteq> C_asleep) \<Longrightarrow>
    queue_step s (at_pc s t P_unlock)"
| push_unlock: "ms_pc s t = P_unlock \<Longrightarrow>
    queue_step s ((at_pc s t Q_returned)\<lparr>ms_owner := None\<rparr>)"
| pop_lock: "ms_pc s t = C_lock \<Longrightarrow> ms_owner s = None \<Longrightarrow>
    queue_step s ((at_pc s t C_test)\<lparr>ms_owner := Some t\<rparr>)"
| pop_wait: "ms_pc s t = C_test \<Longrightarrow> TecQueue_pop (ms_queue s) = Inr None \<Longrightarrow>
    queue_step s ((at_pc s t C_asleep)\<lparr>ms_owner := None\<rparr>)"
| pop_take: "ms_pc s t = C_test \<Longrightarrow> TecQueue_pop (ms_queue s) = Inr (Some (x, q')) \<Longrightarrow>
    queue_step s ((at_pc s t C_unlock)\<lparr>ms_queue := q', ms_out := ms_out s @ [x]\<rparr>)"
| pop_relock: "ms_pc s t = C_relock \<Longrightarrow> ms_owner s = None \<Longrightarrow>
    queue_step s ((at_pc s t C_test)\<lparr>ms_owner := Some t\<rparr>)"
| pop_unlock: "ms_pc s t = C_unlock \<Longrightarrow>
    queue_step s ((at_pc s t Q_returned)\<lparr>ms_owner := None\<rparr>)"

text \<open>
  Finitely many threads are inside the queue; from time to time one that has returned calls
  it again, and a sleeping one may wake by itself.
\<close>

inductive queue_reach :: "mon_state \<Rightarrow> bool" where
  q_start: "queue_holds q [] \<Longrightarrow>
    queue_reach \<lparr>ms_queue = q, ms_owner = None, ms_pc = (\<lambda>_. Q_returned), ms_in = [], ms_out = []\<rparr>"
| q_step: "queue_reach s \<Longrightarrow> queue_step s s' \<Longrightarrow> queue_reach s'"
| q_call: "queue_reach s \<Longrightarrow> ms_pc s t = Q_returned \<Longrightarrow> p = C_lock \<or> p = P_lock x \<Longrightarrow>
    queue_reach (at_pc s t p)"
| q_spurious: "queue_reach s \<Longrightarrow> ms_pc s t = C_asleep \<Longrightarrow> queue_reach (at_pc s t C_relock)"

section \<open>Invariant of the monitor\<close>

fun q_holding :: "q_pc \<Rightarrow> bool" where
  "q_holding (P_link x) \<longleftrightarrow> True"
| "q_holding P_signal \<longleftrightarrow> True"
| "q_holding P_unlock \<longleftrightarrow> True"
| "q_holding C_test \<longleftrightarrow> True"
| "q_holding C_unlock \<longleftrightarrow> True"
| "q_holding _ \<longleftrightarrow> False"

text \<open>The threads that will take an object or wake somebody who does.\<close>

definition serving :: "(nat \<Rightarrow> q_pc) \<Rightarrow> nat set" where
  "serving pc = {t. pc t \<in> {C_relock, C_test, P_signal}}"

definition queue_inv :: "mon_state \<Rightarrow> bool" where
  "queue_inv s \<longleftrightarrow>
     (\<forall>t. q_holding (ms_pc s t) \<longleftrightarrow> ms_owner s = Some t) \<and>
     finite (serving (ms_pc s)) \<and>
     (\<exists>os. queue_holds (ms_queue s) os \<and> ms_in s = ms_out s @ os \<and>
       ((\<forall>t. ms_pc s t \<noteq> C_asleep) \<or> length os \<le> card (serving (ms_pc s))))"

lemma serving_upd:
  "serving (pc(t := p)) =
     (if p \<in> {C_relock, C_test, P_signal} then insert t (serving pc) else serving pc - {t})"
  by (auto simp: serving_def)

lemma mem_serving: "t \<in> serving pc \<longleftrightarrow> pc t \<in> {C_relock, C_test, P_signal}"
  by (simp add: serving_def)

lemma queue_invE:
  assumes "queue_inv s"
  obtains os where "\<And>t. q_holding (ms_pc s t) \<longleftrightarrow> ms_owner s = Some t"
    and "finite (serving (ms_pc s))" and "queue_holds (ms_queue s) os"
    and "ms_in s = ms_out s @ os"
    and "(\<forall>t. ms_pc s t \<noteq> C_asleep) \<or> length os \<le> card (serving (ms_pc s))"
  using assms unfolding queue_inv_def by blast

text \<open>One thread moves to \<open>p\<close>; the contents change from \<open>os\<close> to \<open>os'\<close>.\<close>

lemma queue_inv_move:
  assumes own: "\<And>u. q_holding (ms_pc s u) \<longleftrightarrow> ms_owner s = Some u"
    and fin: "finite (serving (ms_pc s))"
    and cnt: "(\<forall>u. ms_pc s u \<noteq> C_asleep) \<or> length os \<le> card (serving (ms_pc s))"
    and w: "q_holding p \<longleftrightarrow> w = Some t" "\<And>u. u \<noteq> t \<Longrightarrow> w = Some u \<longleftrightarrow> ms_owner s = Some u"
    and q: "queue_holds q os'" "i = out @ os'"
    and le: "p \<noteq> C_asleep \<or> length os' \<le> card (serving ((ms_pc s)(t := p)))"
      "length os \<le> card (serving (ms_pc s)) \<Longrightarrow>
        length os' \<le> card (serving ((ms_pc s)(t := p)))"
  shows "queue_inv \<lparr>ms_queue = q, ms_owner = w, ms_pc = (ms_pc s)(t := p), ms_in = i, ms_out = out\<rparr>"
proof -
  have "q_holding (((ms_pc s)(t := p)) u) \<longleftrightarrow> w = Some u" for u
    using own [of u] w by (cases "u = t") simp_all
  moreover have "finite (serving ((ms_pc s)(t := p)))" using fin by (simp add: serving_upd)
  moreover have "(\<forall>u. ((ms_pc s)(t := p)) u \<noteq> C_asleep) \<or>
      length os' \<le> card (serving ((ms_pc s)(t := p)))"
    using cnt le by (cases "p = C_asleep") auto
  ultimately show ?thesis using q unfolding queue_inv_def by auto
qed

lemma at_pc_eq:
  "at_pc s t p = \<lparr>ms_queue = ms_queue s, ms_owner = ms_owner s, ms_pc = (ms_pc s)(t := p),
     ms_in = ms_in s, ms_out = ms_out s\<rparr>"
  by (cases s) simp

lemma queue_inv_signal:
  assumes inv: "queue_inv s" and t: "ms_pc s t = P_signal" and u: "ms_pc s u = C_asleep"
  shows "queue_inv (s\<lparr>ms_pc := (ms_pc s)(u := C_relock, t := P_unlock)\<rparr>)"
proof -
  from inv obtain os where own: "\<And>t. q_holding (ms_pc s t) \<longleftrightarrow> ms_owner s = Some t"
    and fin: "finite (serving (ms_pc s))" and q: "queue_holds (ms_queue s) os"
    and io: "ms_in s = ms_out s @ os"
    and cnt: "(\<forall>t. ms_pc s t \<noteq> C_asleep) \<or> length os \<le> card (serving (ms_pc s))"
    using queue_invE by metis
  have tu: "t \<noteq> u" using t u by auto
  have "t \<in> serving (ms_pc s)" "u \<notin> serving (ms_pc s)" using t u by (simp_all add: mem_serving)
  moreover have "serving ((ms_pc s)(u := C_relock, t := P_unlock)) = insert u (serving (ms_pc s)) - {t}"
    by (simp add: serving_upd)
  ultimately have "card (serving ((ms_pc s)(u := C_relock, t := P_unlock))) = card (serving (ms_pc s))"
    using fin tu by (simp add: card_insert_if card_Diff_singleton)
  moreover have "length os \<le> card (serving (ms_pc s))" using cnt u by blast
  moreover have "q_holding (((ms_pc s)(u := C_relock, t := P_unlock)) v) \<longleftrightarrow> ms_owner s = Some v" for v
    using own [of v] own [of t] own [of u] t u tu by auto
  moreover have "finite (serving ((ms_pc s)(u := C_relock, t := P_unlock)))"
    using fin by (simp add: serving_upd)
  ultimately show ?thesis using q io unfolding queue_inv_def by auto
qed

lemma queue_inv_step:
  assumes "queue_step s s'" and inv: "queue_inv s"
  shows "queue_inv s'"
proof -
  from inv obtain os where own: "\<And>t. q_holding (ms_pc s t) \<longleftrightarrow> ms_owner s = Some t"
    and fin: "finite (serving (ms_pc s))" and q: "queue_holds (ms_queue s) os"
    and io: "ms_in s = ms_out s @ os"
    and cnt: "(\<forall>t. ms_pc s t \<noteq> C_asleep) \<or> length os \<le> card (serving (ms_pc s))"
    using queue_invE by metis
  note move = queue_inv_move [OF own fin cnt]
  note sv = serving_upd mem_serving [symmetric]
  from assms(1) show ?thesis
  proof cases
    case (push_lock t x)
    then show ?thesis
      using move [of "P_link x" "Some t" t] q io own [of t]
      by (simp add: at_pc_eq serving_upd mem_serving)
  next
    case (push_link t x p q')
    obtain q2 where "TecQueue_push (ms_queue s) x p = Inr q2" "queue_holds q2 (os @ [x])"
      using tec_queue.enq_spec [OF q push_link(3)] by blast
    then have q': "queue_holds q' (os @ [x])" using push_link(4) by simp
    have "t \<notin> serving (ms_pc s)" using push_link(2) by (simp add: mem_serving)
    then show ?thesis
      using move [of P_signal "ms_owner s" t q' "os @ [x]" "ms_in s @ [x]" "ms_out s"] q' io
        own [of t] push_link fin
      by (simp add: at_pc_eq serving_upd)
  next
    case (push_signal t u)
    then show ?thesis using queue_inv_signal [OF inv] by simp
  next
    case (push_signal_nobody t)
    then have "queue_inv (at_pc s t P_unlock)"
      using own [of t] own fin q io unfolding queue_inv_def
      by (auto simp: serving_upd)
    then show ?thesis using push_signal_nobody by simp
  next
    case (push_unlock t)
    then have "t \<notin> serving (ms_pc s)" by (simp add: mem_serving)
    then show ?thesis
      using push_unlock move [of Q_returned None t] q io own [of t]
      by (simp add: at_pc_eq serving_upd)
  next
    case (pop_lock t)
    then have "t \<notin> serving (ms_pc s)" by (simp add: mem_serving)
    then show ?thesis
      using pop_lock move [of C_test "Some t" t] q io own [of t] fin
      by (simp add: at_pc_eq serving_upd)
  next
    case (pop_wait t)
    have os: "os = []"
      using tec_queue.deq_spec q pop_wait(3) by (cases os) fastforce+
    then show ?thesis
      using pop_wait move [of C_asleep None t "ms_queue s" "[]" "ms_in s" "ms_out s"] q io own [of t]
      by (simp add: at_pc_eq)
  next
    case (pop_take t x q')
    obtain os' where os: "os = x # os'" "queue_holds q' os'"
    proof (cases os)
      case Nil
      then show thesis using tec_queue.deq_empty q pop_take(3) by simp
    next
      case (Cons y ys)
      then show thesis using tec_queue.deq_spec [of "ms_queue s" y ys] q pop_take(3) that by auto
    qed
    have "t \<in> serving (ms_pc s)" using pop_take(2) by (simp add: mem_serving)
    then have "card (serving (ms_pc s) - {t}) = card (serving (ms_pc s)) - 1"
      using fin by (simp add: card_Diff_singleton)
    then show ?thesis
      using pop_take move [of C_unlock "ms_owner s" t q' os' "ms_in s" "ms_out s @ [x]"] os io
        own [of t]
      by (simp add: at_pc_eq serving_upd)
  next
    case (pop_relock t)
    then have "insert t (serving (ms_pc s)) = serving (ms_pc s)" by (auto simp: mem_serving)
    then show ?thesis
      using pop_relock move [of C_test "Some t" t] q io own [of t]
      by (simp add: at_pc_eq serving_upd)
  next
    case (pop_unlock t)
    then have "t \<notin> serving (ms_pc s)" by (simp add: mem_serving)
    then show ?thesis
      using pop_unlock move [of Q_returned None t] q io own [of t]
      by (simp add: at_pc_eq serving_upd)
  qed
qed

text \<open>A thread that has returned calls the queue again; one that sleeps wakes by itself.\<close>

lemma queue_inv_call:
  assumes "queue_inv s" and "ms_pc s t = Q_returned" and "p = C_lock \<or> p = P_lock x"
  shows "queue_inv (at_pc s t p)"
proof -
  obtain os where os: "\<And>t. q_holding (ms_pc s t) \<longleftrightarrow> ms_owner s = Some t" "finite (serving (ms_pc s))"
    "queue_holds (ms_queue s) os" "ms_in s = ms_out s @ os"
    "(\<forall>t. ms_pc s t \<noteq> C_asleep) \<or> length os \<le> card (serving (ms_pc s))"
    using queue_invE [OF assms(1)] by metis
  have "t \<notin> serving (ms_pc s)" using assms(2) by (simp add: mem_serving)
  then show ?thesis
    using queue_inv_move [OF os(1,2,5), of p "ms_owner s" t "ms_queue s" os "ms_in s" "ms_out s"]
      os(3,4) os(1) [of t] assms(2,3)
    by (auto simp: at_pc_eq serving_upd)
qed

lemma queue_inv_wake:
  assumes "queue_inv s" and "ms_pc s t = C_asleep"
  shows "queue_inv (at_pc s t C_relock)"
proof -
  obtain os where os: "\<And>t. q_holding (ms_pc s t) \<longleftrightarrow> ms_owner s = Some t" "finite (serving (ms_pc s))"
    "queue_holds (ms_queue s) os" "ms_in s = ms_out s @ os"
    "(\<forall>t. ms_pc s t \<noteq> C_asleep) \<or> length os \<le> card (serving (ms_pc s))"
    using queue_invE [OF assms(1)] by metis
  have "t \<notin> serving (ms_pc s)" using assms(2) by (simp add: mem_serving)
  then show ?thesis
    using queue_inv_move [OF os(1,2,5), of C_relock "ms_owner s" t "ms_queue s" os "ms_in s" "ms_out s"]
      os(2,3,4) os(1) [of t] assms(2)
    by (simp add: at_pc_eq serving_upd)
qed

lemma queue_reach_inv: "queue_reach s \<Longrightarrow> queue_inv s"
proof (induction rule: queue_reach.induct)
  case (q_start q)
  then show ?case by (simp add: queue_inv_def serving_def)
qed (blast intro: queue_inv_step queue_inv_call queue_inv_wake)+

section \<open>Properties\<close>

definition empty_queue :: TecQueue where
  "empty_queue = \<lparr>q_head = NULL, q_tail = NULL, q_mtx = \<lparr>mtx_result = Some 0\<rparr>,
     q_cv = \<lparr>cv_result = Some 0\<rparr>, q_heap = Map.empty\<rparr>"

lemma empty_queue_holds: "queue_holds empty_queue []"
  by (simp add: queue_holds_def queue_layout_def empty_queue_def)

text \<open>The state after one producer has pushed one object and returned.\<close>

definition one_node_queue :: "ptr \<Rightarrow> TecQueue" where
  "one_node_queue x = empty_queue\<lparr>q_head := 8, q_tail := 8,
     q_heap := [8 \<mapsto> \<lparr>qn_obj = x, qn_next = NULL\<rparr>]\<rparr>"

definition quiet :: "TecQueue \<Rightarrow> nat option \<Rightarrow> q_pc \<Rightarrow> ptr list \<Rightarrow> ptr list \<Rightarrow> mon_state" where
  "quiet q w p i out = \<lparr>ms_queue = q, ms_owner = w,
     ms_pc = (\<lambda>t. if t = 0 then p else Q_returned), ms_in = i, ms_out = out\<rparr>"

lemma quiet_at [simp]: "at_pc (quiet q w p i out) 0 p' = quiet q w p' i out"
  by (simp add: quiet_def fun_eq_iff)

lemma quiet_fields [simp]:
  "ms_queue (quiet q w p i out) = q" "ms_owner (quiet q w p i out) = w"
  "ms_pc (quiet q w p i out) t = (if t = 0 then p else Q_returned)"
  "ms_in (quiet q w p i out) = i" "ms_out (quiet q w p i out) = out"
  "(quiet q w p i out)\<lparr>ms_owner := w'\<rparr> = quiet q w' p i out"
  "(quiet q w p i out)\<lparr>ms_queue := q', ms_in := i'\<rparr> = quiet q' w p i' out"
  "(quiet q w p i out)\<lparr>ms_queue := q', ms_out := out'\<rparr> = quiet q' w p i out'"
  by (simp_all add: quiet_def)

lemma quiet_pushed: "queue_reach (quiet (one_node_queue x) None Q_returned [x] [])"
proof -
  have "queue_reach (quiet empty_queue None Q_returned [] [])"
    using q_start [OF empty_queue_holds] by (simp add: quiet_def)
  then have "queue_reach (quiet empty_queue None (P_lock x) [] [])"
    using q_call [of "quiet empty_queue None Q_returned [] []" 0 "P_lock x" x] by simp
  then have "queue_reach (quiet empty_queue (Some 0) (P_link x) [] [])"
    using q_step [OF _ push_lock [of "quiet empty_queue None (P_lock x) [] []" 0 x]] by simp
  moreover have "TecQueue_push empty_queue x 8 = Inr (one_node_queue x)"
    by (simp add: TecQueue_push_def one_node_queue_def empty_queue_def)
  moreover have "fresh_qnode empty_queue 8" by (simp add: fresh_qnode_def empty_queue_def)
  ultimately have "queue_reach (quiet (one_node_queue x) (Some 0) P_signal [x] [])"
    using q_step [OF _ push_link [of "quiet empty_queue (Some 0) (P_link x) [] []" 0 x 8]] by simp
  then have "queue_reach (quiet (one_node_queue x) (Some 0) P_unlock [x] [])"
    using q_step [OF _ push_signal_nobody
        [of "quiet (one_node_queue x) (Some 0) P_signal [x] []" 0]] by simp
  then show ?thesis
    using q_step [OF _ push_unlock [of "quiet (one_node_queue x) (Some 0) P_unlock [x] []" 0]]
    by simp
qed

text \<open>
  C7: whatever the interleaving of producers and consumers, the objects popped so
  far followed by the objects in the queue are the objects pushed, in order: none is lost,
  duplicated or overtaken.
\<close>

theorem queue_fifo:
  assumes "queue_reach s"
  shows "\<exists>os. queue_holds (ms_queue s) os \<and> ms_in s = ms_out s @ os"
  using queue_reach_inv [OF assms] unfolding queue_inv_def by blast

theorem queue_fifo_witness:
  "\<exists>os. queue_holds (one_node_queue 5) os \<and> [5] = [] @ os"
  using queue_fifo [OF quiet_pushed [of 5]] by simp

text \<open>Threads inside the queue are never stuck, unless they wait for an object.\<close>

lemma queue_stuck:
  assumes inv: "queue_inv s" and stuck: "\<nexists>s'. queue_step s s'"
  shows "ms_pc s t \<in> {Q_returned, C_asleep} \<and>
     (ms_pc s t = C_asleep \<longrightarrow> queue_holds (ms_queue s) [])"
proof -
  from inv obtain os
    where own: "\<And>t. q_holding (ms_pc s t) \<longleftrightarrow> ms_owner s = Some t"
      and q: "queue_holds (ms_queue s) os"
      and cnt: "(\<forall>t. ms_pc s t \<noteq> C_asleep) \<or> length os \<le> card (serving (ms_pc s))"
    using queue_invE by metis
  have no: "\<not> queue_step s s'" for s' using stuck by blast
  have "ms_pc s u \<noteq> P_link x" for u x
  proof
    assume u: "ms_pc s u = P_link x"
    have "finite (dom (q_heap (ms_queue s)))"
      using q by (auto simp: queue_holds_def queue_layout_def)
    then have "finite (insert NULL (dom (q_heap (ms_queue s))))" by simp
    then obtain p where "p \<notin> insert NULL (dom (q_heap (ms_queue s)))"
      using ex_new_if_finite infinite_UNIV_nat by blast
    then have p: "fresh_qnode (ms_queue s) p" by (auto simp: fresh_qnode_def)
    then obtain q' where "TecQueue_push (ms_queue s) x p = Inr q'"
      using tec_queue.enq_spec [OF q p] by blast
    then show False using push_link [OF u p] no by blast
  qed
  moreover have "ms_pc s u \<noteq> P_signal" for u
    using push_signal [of s u] push_signal_nobody [of s u] no by metis
  moreover have "ms_pc s u \<noteq> P_unlock" "ms_pc s u \<noteq> C_unlock" for u
    using push_unlock [of s u] pop_unlock [of s u] no by blast+
  moreover have "ms_pc s u \<noteq> C_test" for u
  proof
    assume u: "ms_pc s u = C_test"
    show False
    proof (cases os)
      case Nil
      then have "TecQueue_pop (ms_queue s) = Inr None" using tec_queue.deq_empty q by simp
      then show False using pop_wait [OF u] no by blast
    next
      case (Cons y ys)
      then obtain q' where "TecQueue_pop (ms_queue s) = Inr (Some (y, q'))"
        using tec_queue.deq_spec q by blast
      then show False using pop_take [OF u] no by blast
    qed
  qed
  ultimately have nohold: "\<not> q_holding (ms_pc s u)" for u
    by (cases "ms_pc s u") auto
  have free: "ms_owner s = None"
    using own nohold by (cases "ms_owner s") auto
  have idle: "ms_pc s u \<in> {Q_returned, C_asleep}" for u
    using nohold [of u] push_lock [of s u] pop_lock [of s u] pop_relock [of s u] free no
    by (cases "ms_pc s u") auto
  have "u \<notin> serving (ms_pc s)" for u
    using idle [of u] by (auto simp: mem_serving)
  then have "serving (ms_pc s) = {}" by blast
  moreover have "ms_pc s t = C_asleep \<Longrightarrow> length os \<le> card (serving (ms_pc s))"
    using cnt by blast
  ultimately have "ms_pc s t = C_asleep \<Longrightarrow> os = []" by simp
  then show ?thesis using idle [of t] q by auto
qed

text \<open>
  C34: when no thread inside the queue can take a step, every one has returned
  or is asleep in \<open>TecQueue_pop\<close>, and if any is asleep the queue is empty.
\<close>

theorem queue_no_deadlock:
  assumes reach: "queue_reach s" and stuck: "\<nexists>s'. queue_step s s'"
  shows "ms_pc s t \<in> {Q_returned, C_asleep} \<and>
     (ms_pc s t = C_asleep \<longrightarrow> queue_holds (ms_queue s) [])"
  using queue_reach_inv [OF reach] stuck by (rule queue_stuck)

theorem queue_no_deadlock_witness:
  "ms_pc (quiet (one_node_queue 5) None Q_returned [5] []) 3 \<in> {Q_returned, C_asleep}"
proof -
  have "\<nexists>s'. queue_step (quiet (one_node_queue 5) None Q_returned [5] []) s'"
    by (auto elim!: queue_step.cases split: if_splits)
  from queue_no_deadlock [OF quiet_pushed this, of 3] show ?thesis by simp
qed

text \<open>
  Pushing an object onto a queue that is not empty and popping gives the
  oldest object, and leaves the new one behind the others.
\<close>

theorem push_then_pop:
  assumes "queue_holds q (x # os)" and "fresh_qnode q p"
  shows "\<exists>q1 q2. TecQueue_push q y p = Inr q1 \<and> TecQueue_pop q1 = Inr (Some (x, q2)) \<and>
     queue_holds q2 (os @ [y])"
  using assms by (rule tec_queue.enq_deq_order)

theorem push_then_pop_witness:
  "\<exists>q1 q2. TecQueue_push (one_node_queue 5) 6 16 = Inr q1 \<and>
     TecQueue_pop q1 = Inr (Some (5, q2)) \<and> queue_holds q2 [6]"
proof -
  have "queue_layout (one_node_queue 5) [8]"
    by (simp add: queue_layout_def one_node_queue_def)
  then have "queue_holds (one_node_queue 5) [5]"
    unfolding queue_holds_def
    by (intro exI [of _ "[8]"]) (simp add: one_node_queue_def obj_at_def)
  then show ?thesis
    using push_then_pop [of "one_node_queue 5" 5 "[]" 16 6]
    by (simp add: fresh_qnode_def one_node_queue_def)
qed

lemma done_empties:
  assumes "queue_holds q os" and "mtx_result (q_mtx q) = Some 0" and "cv_result (q_cv q) = Some 0"
  shows "\<exists>q'. TecQueue_done q rc = Inr ([Lock 0, Unlock, Destroy_mutex, Destroy_cv], q') \<and>
     q_heap q' = Map.empty"
proof -
  obtain xs where xs: "queue_layout q xs" using assms(1) by (auto simp: queue_holds_def)
  have "q_heap q |` (- set xs) = Map.empty"
    using xs by (auto simp: queue_layout_def restrict_map_def fun_eq_iff)
  then have "free_loop (q_heap q) (q_head q) = Some (Inr Map.empty)"
    using xs free_loop_chain [of "q_heap q" xs] by (simp add: queue_layout_def)
  then show ?thesis
    using assms(2,3)
    by (simp add: TecQueue_done_def TecMutex_destroy_def TecCV_destroy_def TecMutex_ok_def
        TecCV_ok_def read_field_def)
qed

text \<open>
  C#queue_done_frees: \<open>TecQueue_done\<close> frees every node, whatever the queue holds (not the
  objects), and destroys the monitor after its last use.
\<close>

theorem queue_done_frees:
  assumes "queue_holds q os" and "mtx_result (q_mtx q) = Some 0" and "cv_result (q_cv q) = Some 0"
  shows "\<exists>q' cs. TecQueue_done q rc = Inr (cs, q') \<and> q_heap q' = Map.empty \<and>
     mutex_safe False cs \<and> Destroy_mutex \<in> set cs \<and> Destroy_cv \<in> set cs"
  using done_empties [OF assms, of rc] by auto

theorem queue_done_frees_witness:
  "\<exists>q' cs. TecQueue_done empty_queue 0 = Inr (cs, q') \<and> q_heap q' = Map.empty"
  using queue_done_frees [OF empty_queue_holds, of 0] by (auto simp: empty_queue_def)

end
