(* ===== verification/TecArena.thy ===== *)
theory TecArena
  imports TecThreads
begin

text \<open>
  Models \<open>tecc_arena.c\<close> and \<open>tecc_arena.h\<close>: objects of one size from a preallocated block,
  with a free list threaded through the released objects, and the heap when the block is
  used up. Memory is modelled byte by byte, because a released object's first word is
  first its flags and then a pointer.
\<close>

section \<open>Memory\<close>

text \<open>\<open>mem_blocks\<close> gives the sizes of the allocated blocks by their start addresses.\<close>

record memory =
  mem_bytes :: "ptr \<Rightarrow> u8"
  mem_blocks :: "ptr \<Rightarrow> nat option"

definition accessible :: "memory \<Rightarrow> ptr \<Rightarrow> nat \<Rightarrow> bool" where
  "accessible M p n \<longleftrightarrow> (\<exists>b s. mem_blocks M b = Some s \<and> b \<le> p \<and> p + n \<le> b + s)"

text \<open>Little-endian numbers of \<open>n\<close> bytes.\<close>

fun read_le :: "nat \<Rightarrow> (ptr \<Rightarrow> u8) \<Rightarrow> ptr \<Rightarrow> nat" where
  "read_le 0 m p = 0"
| "read_le (Suc n) m p = unat (m p) + 256 * read_le n m (Suc p)"

fun write_le :: "nat \<Rightarrow> (ptr \<Rightarrow> u8) \<Rightarrow> ptr \<Rightarrow> nat \<Rightarrow> ptr \<Rightarrow> u8" where
  "write_le 0 m p v = m"
| "write_le (Suc n) m p v = write_le n (m(p := word_of_nat (v mod 256))) (Suc p) (v div 256)"

definition load :: "nat \<Rightarrow> memory \<Rightarrow> ptr \<Rightarrow> nat outcome" where
  "load n M p =
     (if p = NULL then Inl Null_deref
      else if accessible M p n then Inr (read_le n (mem_bytes M) p) else Inl Invalid_pointer)"

definition store :: "nat \<Rightarrow> memory \<Rightarrow> ptr \<Rightarrow> nat \<Rightarrow> memory outcome" where
  "store n M p v =
     (if p = NULL then Inl Null_deref
      else if accessible M p n then Inr (M\<lparr>mem_bytes := write_le n (mem_bytes M) p v\<rparr>)
      else Inl Invalid_pointer)"

text \<open>\<open>calloc\<close>: \<open>p\<close> is the address of the new block, 0 when it fails.\<close>

definition calloc :: "memory \<Rightarrow> ptr \<Rightarrow> nat \<Rightarrow> memory" where
  "calloc M p n =
     (if p = NULL then M
      else M\<lparr>mem_bytes := (\<lambda>a. if p \<le> a \<and> a < p + n then 0 else mem_bytes M a),
             mem_blocks := (mem_blocks M)(p \<mapsto> n)\<rparr>)"

definition free :: "memory \<Rightarrow> ptr \<Rightarrow> memory outcome" where
  "free M p =
     (if p = NULL then Inr M
      else if mem_blocks M p = None then Inl Invalid_pointer
      else Inr (M\<lparr>mem_blocks := (mem_blocks M)(p := None)\<rparr>))"

section \<open>Model\<close>

record TecArena =
  ar_buf :: ptr
  ar_elem_size :: u64
  ar_capacity :: u64
  ar_allocated :: u64
  ar_free_list :: ptr
  ar_lock :: TecMutex

definition TECC_ARENA_ALLOCATED :: nat where
  "TECC_ARENA_ALLOCATED = 1"

text \<open>\<open>mrc\<close> is the result of initialising the mutex, \<open>p\<close> that of \<open>calloc\<close>.\<close>

definition TecArena_init ::
  "TecArena \<Rightarrow> memory \<Rightarrow> u64 \<Rightarrow> u64 \<Rightarrow> int \<Rightarrow> ptr \<Rightarrow> (bool \<times> TecArena \<times> memory) outcome" where
  "TecArena_init a M nelems elem_size mrc p =
     (let a = a\<lparr>ar_elem_size := elem_size, ar_capacity := nelems, ar_allocated := 0, ar_buf := NULL,
               ar_free_list := NULL, ar_lock := TecMutex_init (ar_lock a) mrc\<rparr>
      in bind_outcome (TecMutex_ok (ar_lock a)) (\<lambda>ok.
         if ok
         then if nelems \<noteq> 0
              then Inr (True, a\<lparr>ar_buf := p\<rparr>, calloc M p (unat nelems * unat elem_size))
              else Inr (True, a, M)
         else Inr (False, a, M)))"

text \<open>\<open>p\<close> is what \<open>calloc\<close> would return. The lock makes the body one step.\<close>

definition TecArena_allocate ::
  "TecArena \<Rightarrow> memory \<Rightarrow> ptr \<Rightarrow> (ptr \<times> TecArena \<times> memory) outcome" where
  "TecArena_allocate a M p =
     bind_outcome
       (if ar_free_list a \<noteq> NULL
        then bind_outcome (load 8 M (ar_free_list a)) (\<lambda>next.
               Inr (ar_free_list a, a\<lparr>ar_free_list := next\<rparr>))
        else
          let used = ar_allocated a
          in Inr (if used < ar_capacity a then ar_buf a + unat (used * ar_elem_size a) else NULL, a))
       (\<lambda>(ptr, a).
          if ptr \<noteq> NULL
          then bind_outcome (store 4 M ptr TECC_ARENA_ALLOCATED) (\<lambda>M.
                 Inr (ptr, a\<lparr>ar_allocated := ar_allocated a + 1\<rparr>, M))
          else Inr (p, a, calloc M p (unat (ar_elem_size a))))"

definition TecArena_release :: "TecArena \<Rightarrow> memory \<Rightarrow> ptr \<Rightarrow> (TecArena \<times> memory) outcome" where
  "TecArena_release a M ptr =
     (if ptr = NULL then Inr (a, M)
      else
        bind_outcome (load 4 M ptr) (\<lambda>flags.
        if flags AND TECC_ARENA_ALLOCATED \<noteq> 0
        then bind_outcome (store 8 M ptr (ar_free_list a)) (\<lambda>M.
               let new_count = ar_allocated a - 1
               in Inr (a\<lparr>ar_free_list := (if new_count = 0 then NULL else ptr),
                        ar_allocated := new_count\<rparr>, M))
        else bind_outcome (free M ptr) (\<lambda>M. Inr (a, M))))"

definition TecArena_done :: "TecArena \<Rightarrow> memory \<Rightarrow> (mon_call list \<times> TecArena \<times> memory) outcome" where
  "TecArena_done a M =
     bind_outcome (if ar_buf a \<noteq> NULL then free M (ar_buf a) else Inr M) (\<lambda>M.
     bind_outcome (TecMutex_destroy (ar_lock a)) (\<lambda>cs.
       Inr (cs, a\<lparr>ar_buf := NULL\<rparr>, M)))"

section \<open>Bytes\<close>

lemma read_le_cong: "(\<And>a. p \<le> a \<Longrightarrow> a < p + n \<Longrightarrow> m a = m' a) \<Longrightarrow> read_le n m p = read_le n m' p"
  by (induction n arbitrary: p) simp_all

lemma write_le_other: "a < p \<or> p + n \<le> a \<Longrightarrow> write_le n m p v a = m a"
  by (induction n arbitrary: m p v) auto

lemma read_write_le: "v < 256 ^ n \<Longrightarrow> read_le n (write_le n m p v) p = v"
proof (induction n arbitrary: m p v)
  case (Suc n)
  have "write_le n (m(p := word_of_nat (v mod 256))) (Suc p) (v div 256) p = word_of_nat (v mod 256)"
    using write_le_other [of p "Suc p" n] by simp
  moreover have "v div 256 < 256 ^ n" using Suc.prems by (intro less_mult_imp_div_less) simp
  moreover have "unat (word_of_nat (v mod 256) :: u8) = v mod 256"
    by (simp add: unat_of_nat)
  ultimately show ?case using Suc.IH by simp
qed simp

lemma write_le_first: "0 < n \<Longrightarrow> write_le n m p v p = word_of_nat (v mod 256)"
  by (cases n) (simp_all add: write_le_other)

lemma read_le_odd: "0 < n \<Longrightarrow> odd (read_le n m p) \<longleftrightarrow> odd (unat (m p))"
  by (cases n) simp_all

lemma and_one_odd: "(n :: nat) AND 1 \<noteq> 0 \<longleftrightarrow> odd n"
  by (simp add: and_one_eq odd_iff_mod_2_eq_one)

lemma read_le_bound: "read_le n m p < 256 ^ n"
proof (induction n arbitrary: p)
  case (Suc n)
  have "unat (m p) < 256" using unsigned_less [where 'a = nat, of "m p"] by simp
  then show ?case using Suc.IH [of "Suc p"] by simp
qed simp

section \<open>Layout\<close>

abbreviation esize :: "TecArena \<Rightarrow> nat" where
  "esize a \<equiv> unat (ar_elem_size a)"

definition slots :: "TecArena \<Rightarrow> nat \<Rightarrow> ptr set" where
  "slots a H = (\<lambda>i. ar_buf a + i * esize a) ` {..<H}"

text \<open>
  \<open>L\<close>: the live objects in the block, \<open>HL\<close>: the live objects on the heap, \<open>fs\<close>: the free
  list. The slots used so far, a prefix of the block, are the live ones and the free ones.
\<close>

definition block_ok :: "TecArena \<Rightarrow> memory \<Rightarrow> bool" where
  "block_ok a M \<longleftrightarrow>
     8 \<le> esize a \<and> unat (ar_capacity a) * esize a < 2 ^ 64 \<and>
     (ar_buf a \<noteq> NULL \<longrightarrow>
        mem_blocks M (ar_buf a) = Some (unat (ar_capacity a) * esize a) \<and>
        ar_buf a + unat (ar_capacity a) * esize a < 2 ^ 64)"

definition arena_part :: "TecArena \<Rightarrow> (ptr \<Rightarrow> u8) \<Rightarrow> ptr set \<Rightarrow> nat \<Rightarrow> ptr list \<Rightarrow> bool" where
  "arena_part a m L H fs \<longleftrightarrow>
     H \<le> unat (ar_capacity a) \<and> (ar_buf a = NULL \<longrightarrow> H = 0) \<and>
     chain (\<lambda>p. Some (read_le 8 m p)) fs NULL \<and> distinct fs \<and> ar_free_list a = first fs NULL \<and>
     set fs \<inter> L = {} \<and> set fs \<union> L = slots a H \<and> unat (ar_allocated a) = card L \<and>
     (\<forall>p \<in> L. odd (unat (m p)))"

definition heap_part :: "TecArena \<Rightarrow> memory \<Rightarrow> ptr set \<Rightarrow> bool" where
  "heap_part a M HL \<longleftrightarrow>
     (\<forall>p \<in> HL. p \<noteq> NULL \<and> mem_blocks M p = Some (esize a) \<and> even (unat (mem_bytes M p)) \<and>
        (ar_buf a \<noteq> NULL \<longrightarrow>
           p + esize a \<le> ar_buf a \<or> ar_buf a + unat (ar_capacity a) * esize a \<le> p)) \<and>
     (\<forall>p \<in> HL. \<forall>q \<in> HL. p \<noteq> q \<longrightarrow> p + esize a \<le> q \<or> q + esize a \<le> p)"

definition arena_ok :: "TecArena \<Rightarrow> memory \<Rightarrow> ptr set \<Rightarrow> ptr set \<Rightarrow> bool" where
  "arena_ok a M L HL \<longleftrightarrow>
     block_ok a M \<and> heap_part a M HL \<and> (\<exists>H fs. arena_part a (mem_bytes M) L H fs)"

lemma arena_okI:
  "block_ok a M \<Longrightarrow> heap_part a M HL \<Longrightarrow> arena_part a m L H fs \<Longrightarrow> mem_bytes M = m \<Longrightarrow>
   arena_ok a M L HL"
  unfolding arena_ok_def by blast

text \<open>What \<open>calloc\<close> returns: \<open>NULL\<close>, or a block outside all the others.\<close>

definition calloc_fresh :: "memory \<Rightarrow> ptr \<Rightarrow> nat \<Rightarrow> bool" where
  "calloc_fresh M p n \<longleftrightarrow>
     p = NULL \<or>
     mem_blocks M p = None \<and> p + n < 2 ^ 64 \<and>
     (\<forall>b s. mem_blocks M b = Some s \<longrightarrow> p + n \<le> b \<or> b + s \<le> p)"

lemma slot_apart:
  assumes "x \<in> slots a H" and "y \<in> slots a H" and "x \<noteq> y"
  shows "x + esize a \<le> y \<or> y + esize a \<le> x"
proof -
  obtain i j where i: "x = ar_buf a + i * esize a" and j: "y = ar_buf a + j * esize a"
    using assms by (auto simp: slots_def)
  then have "i \<noteq> j" using assms(3) by auto
  then consider "Suc i \<le> j" | "Suc j \<le> i" by linarith
  then show ?thesis
  proof cases
    case 1
    then have "Suc i * esize a \<le> j * esize a" by (rule mult_le_mono1)
    then show ?thesis using i j by simp
  next
    case 2
    then have "Suc j * esize a \<le> i * esize a" by (rule mult_le_mono1)
    then show ?thesis using i j by simp
  qed
qed

lemma slot_in_block:
  assumes "x \<in> slots a H" and "H \<le> unat (ar_capacity a)"
  shows "ar_buf a \<le> x" and "x + esize a \<le> ar_buf a + unat (ar_capacity a) * esize a"
proof -
  obtain i where i: "x = ar_buf a + i * esize a" "i < H" using assms(1) by (auto simp: slots_def)
  then have "Suc i * esize a \<le> unat (ar_capacity a) * esize a"
    using assms(2) by (intro mult_le_mono1) simp
  then show "ar_buf a \<le> x" "x + esize a \<le> ar_buf a + unat (ar_capacity a) * esize a"
    using i by simp_all
qed

lemma slot_access:
  assumes B: "block_ok a M" and x: "x \<in> slots a H" and H: "H \<le> unat (ar_capacity a)"
    and buf: "ar_buf a \<noteq> NULL" and n: "n \<le> 8"
  shows "accessible M x n" and "x \<noteq> NULL" and "x < 2 ^ 64"
proof -
  note b = slot_in_block [OF x H]
  have "x + n \<le> ar_buf a + unat (ar_capacity a) * esize a"
    using b(2) B n by (simp add: block_ok_def)
  then show "accessible M x n"
    using b(1) B buf unfolding accessible_def block_ok_def by blast
  show "x \<noteq> NULL" using b(1) buf by simp
  show "x < 2 ^ 64" using b(2) B buf by (simp add: block_ok_def)
qed

lemma card_slots: "8 \<le> esize a \<Longrightarrow> card (slots a H) = H"
proof -
  assume e: "8 \<le> esize a"
  have "inj_on (\<lambda>i. ar_buf a + i * esize a) {..<H}"
    using e by (auto simp: inj_on_def)
  then show ?thesis by (simp add: slots_def card_image)
qed

lemma heap_bytes:
  assumes "heap_part a M HL" and "\<And>p. p \<in> HL \<Longrightarrow> m' p = mem_bytes M p"
    and "ar_buf a' = ar_buf a" "ar_elem_size a' = ar_elem_size a" "ar_capacity a' = ar_capacity a"
  shows "heap_part a' (M\<lparr>mem_bytes := m'\<rparr>) HL"
  using assms by (simp add: heap_part_def)

lemma heap_outside:
  assumes P: "heap_part a M HL" and p: "p \<in> HL" and x: "x \<in> slots a H"
    and H: "H \<le> unat (ar_capacity a)" and buf: "ar_buf a \<noteq> NULL" and e: "8 \<le> esize a"
  shows "p < x \<or> x + 8 \<le> p"
proof -
  have "p + esize a \<le> ar_buf a \<or> ar_buf a + unat (ar_capacity a) * esize a \<le> p"
    using P p buf by (simp add: heap_part_def)
  then show ?thesis using slot_in_block [OF x H] e by linarith
qed

text \<open>Writing at most 8 bytes at one slot leaves the other slots alone.\<close>

lemma write_other_slot:
  assumes "x \<in> slots a H" and "y \<in> slots a H" and "x \<noteq> y" and "8 \<le> esize a" and "n \<le> 8"
  shows "read_le 8 (write_le n m x v) y = read_le 8 m y" and "write_le n m x v y = m y"
proof -
  have apart: "x + n \<le> y \<or> y + 8 \<le> x"
    using slot_apart [OF assms(1-3)] assms(4,5) by linarith
  show "read_le 8 (write_le n m x v) y = read_le 8 m y"
  proof (rule read_le_cong)
    fix b assume "y \<le> b" "b < y + 8"
    then show "write_le n m x v b = m b" using apart by (intro write_le_other) linarith
  qed
  show "write_le n m x v y = m y" using apart by (intro write_le_other) linarith
qed

section \<open>Allocation\<close>

lemma arena_slot_taken:
  assumes B: "block_ok a M" and P: "heap_part a M HL" and buf: "ar_buf a \<noteq> NULL"
    and H: "H \<le> unat (ar_capacity a)" and sub: "set fs \<union> L \<subseteq> slots a H" "x \<in> slots a H"
    and ch: "chain (\<lambda>p. Some (read_le 8 (mem_bytes M) p)) fs NULL" "distinct fs"
    and x: "x \<notin> set fs" "x \<notin> L" and odds: "\<forall>p \<in> L. odd (unat (mem_bytes M p))"
    and all: "insert x (set fs \<union> L) = slots a H" and dis: "set fs \<inter> L = {}"
    and cnt: "unat (ar_allocated a) = card L"
  shows "\<exists>M'. store 4 M x TECC_ARENA_ALLOCATED = Inr M' \<and>
     arena_ok (a\<lparr>ar_free_list := first fs NULL, ar_allocated := ar_allocated a + 1\<rparr>) M'
       (insert x L) HL"
proof -
  let ?m = "write_le 4 (mem_bytes M) x TECC_ARENA_ALLOCATED"
  let ?a = "a\<lparr>ar_free_list := first fs NULL, ar_allocated := ar_allocated a + 1\<rparr>"
  have e: "8 \<le> esize a" using B by (simp add: block_ok_def)
  have st: "store 4 M x TECC_ARENA_ALLOCATED = Inr (M\<lparr>mem_bytes := ?m\<rparr>)"
    using slot_access [OF B sub(2) H buf, of 4] by (simp add: store_def)
  have fin: "finite L"
    using sub(1) finite_subset [of L "slots a H"] by (auto simp: slots_def)
  have "card (insert x L) \<le> card (slots a H)"
    using all by (intro card_mono) (auto simp: slots_def)
  then have "Suc (card L) \<le> H" using fin x(2) card_slots [OF e] by simp
  moreover have "unat (ar_capacity a) < 2 ^ 64" by (rule u64_lt)
  ultimately have cnt': "unat (ar_allocated a + 1) = card (insert x L)"
    using cnt fin x(2) H by (simp add: u64_add)
  have "chain (\<lambda>p. Some (read_le 8 ?m p)) fs NULL"
  proof -
    have "read_le 8 ?m y = read_le 8 (mem_bytes M) y" if "y \<in> set fs" for y
    proof -
      have "y \<in> slots a H" "x \<noteq> y" using that sub(1) x(1) by auto
      then show ?thesis by (intro write_other_slot(1) [OF sub(2)]) (use e in simp_all)
    qed
    then show ?thesis using ch(1) chain_cong [of fs "\<lambda>p. Some (read_le 8 ?m p)"] by metis
  qed
  moreover have "odd (unat (?m y))" if "y \<in> insert x L" for y
  proof (cases "y = x")
    case True
    then show ?thesis by (simp add: write_le_first TECC_ARENA_ALLOCATED_def)
  next
    case False
    then have "y \<in> slots a H" using that sub(1) by auto
    then have "?m y = mem_bytes M y"
      using False e by (intro write_other_slot(2) [OF sub(2)]) simp_all
    then show ?thesis using False that odds by simp
  qed
  moreover have "slots ?a H = slots a H" by (simp add: slots_def)
  ultimately have "arena_part ?a ?m (insert x L) H fs"
    using H buf ch(2) x all dis cnt' by (auto simp: arena_part_def)
  moreover have "heap_part ?a (M\<lparr>mem_bytes := ?m\<rparr>) HL"
  proof (rule heap_bytes [OF P])
    show "?m p = mem_bytes M p" if "p \<in> HL" for p
      using heap_outside [OF P that sub(2) H buf e] by (intro write_le_other) linarith
  qed simp_all
  moreover have "block_ok ?a (M\<lparr>mem_bytes := ?m\<rparr>)" using B by (simp add: block_ok_def)
  ultimately have "arena_ok ?a (M\<lparr>mem_bytes := ?m\<rparr>) (insert x L) HL"
    by (intro arena_okI [of _ _ _ ?m]) simp_all
  then show ?thesis using st by blast
qed

lemma arena_heap_taken:
  assumes B: "block_ok a M" and P: "heap_part a M HL" and A: "arena_part a (mem_bytes M) L H fs"
    and p: "calloc_fresh M p (esize a)" "p \<noteq> NULL"
  shows "arena_ok a (calloc M p (esize a)) L (insert p HL)"
proof -
  let ?M = "calloc M p (esize a)"
  have e: "8 \<le> esize a" using B by (simp add: block_ok_def)
  have fr: "mem_blocks M p = None"
    "\<And>b s. mem_blocks M b = Some s \<Longrightarrow> p + esize a \<le> b \<or> b + s \<le> p"
    using p by (auto simp: calloc_fresh_def)
  have bytes: "mem_bytes ?M y = mem_bytes M y"
    if "mem_blocks M b = Some s" "b \<le> y" "y < b + s" for y b s
    using fr(2) [OF that(1)] that(2,3) p(2) by (auto simp: calloc_def)
  have B': "block_ok a ?M"
    using B fr(1) p(2) by (auto simp: block_ok_def calloc_def)
  have blocks: "mem_blocks ?M b = Some s" if "mem_blocks M b = Some s" for b s
    using that fr(1) p(2) by (auto simp: calloc_def)
  have same: "mem_bytes ?M y = mem_bytes M y" if "x \<in> slots a H" "x \<le> y" "y < x + 8" for x y
  proof -
    have H: "H \<le> unat (ar_capacity a)" and "ar_buf a \<noteq> NULL"
      using A that(1) by (auto simp: arena_part_def slots_def)
    then have blk: "mem_blocks M (ar_buf a) = Some (unat (ar_capacity a) * esize a)"
      using B by (simp add: block_ok_def)
    show ?thesis
      using slot_in_block [OF that(1) H] that(2,3) e by (intro bytes [OF blk]) linarith+
  qed
  have sub: "set fs \<union> L = slots a H" using A by (simp add: arena_part_def)
  have "chain (\<lambda>p. Some (read_le 8 (mem_bytes ?M) p)) fs NULL"
  proof -
    have "read_le 8 (mem_bytes ?M) y = read_le 8 (mem_bytes M) y" if "y \<in> set fs" for y
      using that sub by (intro read_le_cong same [of y]) auto
    then have "chain (\<lambda>p. Some (read_le 8 (mem_bytes ?M) p)) fs NULL
        = chain (\<lambda>p. Some (read_le 8 (mem_bytes M) p)) fs NULL"
      by (intro chain_cong) simp
    then show ?thesis using A by (simp add: arena_part_def)
  qed
  moreover have "odd (unat (mem_bytes ?M y))" if "y \<in> L" for y
    using that sub A same [of y y] by (auto simp: arena_part_def)
  ultimately have "arena_part a (mem_bytes ?M) L H fs" using A by (simp add: arena_part_def)
  moreover have "heap_part a ?M (insert p HL)"
  proof -
    have hl: "q \<noteq> NULL \<and> mem_blocks M q = Some (esize a) \<and> even (unat (mem_bytes M q)) \<and>
        (ar_buf a \<noteq> NULL \<longrightarrow>
           q + esize a \<le> ar_buf a \<or> ar_buf a + unat (ar_capacity a) * esize a \<le> q)"
      if "q \<in> HL" for q using P that by (simp add: heap_part_def)
    have ap: "p + esize a \<le> q \<or> q + esize a \<le> p" if "q \<in> HL" for q
      using fr(2) hl [OF that] by blast
    have old: "mem_blocks ?M q = Some (esize a) \<and> mem_bytes ?M q = mem_bytes M q" if "q \<in> HL" for q
      using hl [OF that] blocks bytes [of q "esize a" q] e by auto
    have new: "mem_blocks ?M p = Some (esize a)" "mem_bytes ?M p = 0"
      using p(2) e by (simp_all add: calloc_def)
    have out: "ar_buf a \<noteq> NULL \<Longrightarrow>
        p + esize a \<le> ar_buf a \<or> ar_buf a + unat (ar_capacity a) * esize a \<le> p"
      using fr(2) B by (simp add: block_ok_def)
    show ?thesis
      unfolding heap_part_def
    proof (intro conjI ballI impI)
      fix q assume q: "q \<in> insert p HL"
      show "q \<noteq> NULL" using q hl p(2) by auto
      show "mem_blocks ?M q = Some (esize a)" using q old new by auto
      show "even (unat (mem_bytes ?M q))" using q old new hl by auto
      show "q + esize a \<le> ar_buf a \<or> ar_buf a + unat (ar_capacity a) * esize a \<le> q"
        if "ar_buf a \<noteq> NULL" using q hl out that by auto
      show "q + esize a \<le> r \<or> r + esize a \<le> q" if "r \<in> insert p HL" "q \<noteq> r" for r
      proof -
        have "q \<in> HL \<Longrightarrow> r \<in> HL \<Longrightarrow> q + esize a \<le> r \<or> r + esize a \<le> q"
          using P that(2) by (simp add: heap_part_def)
        then show ?thesis using q that ap by auto
      qed
    qed
  qed
  ultimately show ?thesis using B' unfolding arena_ok_def by blast
qed

text \<open>The object handed out is in the block as long as the block has room.\<close>

lemma allocate_ok:
  assumes ok: "arena_ok a M L HL" and p: "calloc_fresh M p (esize a)"
  obtains r a' M' where "TecArena_allocate a M p = Inr (r, a', M')"
    and "ar_buf a' = ar_buf a" and "ar_elem_size a' = ar_elem_size a"
    and "ar_capacity a' = ar_capacity a"
    and "if ar_buf a \<noteq> NULL \<and> card L < unat (ar_capacity a)
         then r \<noteq> NULL \<and> r \<notin> L \<and> r \<in> slots a (unat (ar_capacity a)) \<and> arena_ok a' M' (insert r L) HL
         else r = p \<and> arena_ok a' M' L (if p = NULL then HL else insert p HL)"
proof -
  obtain H fs where B: "block_ok a M" and P: "heap_part a M HL"
    and A: "arena_part a (mem_bytes M) L H fs"
    using ok by (auto simp: arena_ok_def)
  have e: "8 \<le> esize a" using B by (simp add: block_ok_def)
  have H: "H \<le> unat (ar_capacity a)" and sub: "set fs \<union> L = slots a H"
    and ch: "chain (\<lambda>p. Some (read_le 8 (mem_bytes M) p)) fs NULL" "distinct fs"
    and fl: "ar_free_list a = first fs NULL" and dis: "set fs \<inter> L = {}"
    and cnt: "unat (ar_allocated a) = card L" and odds: "\<forall>p \<in> L. odd (unat (mem_bytes M p))"
    and b0: "ar_buf a = NULL \<Longrightarrow> H = 0"
    using A by (auto simp: arena_part_def)
  have mono: "slots a H \<subseteq> slots a (unat (ar_capacity a))" using H by (auto simp: slots_def)
  show thesis
  proof (cases fs)
    case (Cons f gs)
    have f: "f \<in> slots a H" "f \<noteq> NULL" using sub Cons ch(1) by auto
    have buf: "ar_buf a \<noteq> NULL" using b0 f(1) by (auto simp: slots_def)
    have "card L < card (slots a H)"
    proof (rule psubset_card_mono)
      show "finite (slots a H)" by (simp add: slots_def)
      show "L \<subset> slots a H" using sub dis Cons by auto
    qed
    then have room: "card L < unat (ar_capacity a)" using card_slots [OF e] H by simp
    have ld: "load 8 M f = Inr (first gs NULL)"
      using slot_access [OF B f(1) H buf, of 8] ch(1) Cons by (simp add: load_def)
    have fin: "f \<notin> set gs" "f \<notin> L" using ch(2) dis Cons by auto
    have "\<exists>M'. store 4 M f TECC_ARENA_ALLOCATED = Inr M' \<and>
        arena_ok (a\<lparr>ar_free_list := first gs NULL, ar_allocated := ar_allocated a + 1\<rparr>) M'
          (insert f L) HL"
      using sub ch Cons fin dis cnt odds
      by (intro arena_slot_taken [OF B P buf H _ f(1)]) auto
    then obtain M' where M': "store 4 M f TECC_ARENA_ALLOCATED = Inr M'"
      "arena_ok (a\<lparr>ar_free_list := first gs NULL, ar_allocated := ar_allocated a + 1\<rparr>) M'
        (insert f L) HL" by blast
    have "TecArena_allocate a M p =
        Inr (f, a\<lparr>ar_free_list := first gs NULL, ar_allocated := ar_allocated a + 1\<rparr>, M')"
      using fl Cons f(2) ld M'(1) by (simp add: TecArena_allocate_def)
    then show thesis
    proof (rule that)
      show "if ar_buf a \<noteq> NULL \<and> card L < unat (ar_capacity a)
         then f \<noteq> NULL \<and> f \<notin> L \<and> f \<in> slots a (unat (ar_capacity a)) \<and>
           arena_ok (a\<lparr>ar_free_list := first gs NULL, ar_allocated := ar_allocated a + 1\<rparr>) M'
             (insert f L) HL
         else f = p \<and> arena_ok (a\<lparr>ar_free_list := first gs NULL, ar_allocated := ar_allocated a + 1\<rparr>)
             M' L (if p = NULL then HL else insert p HL)"
        using M'(2) buf room fin(2) f mono by auto
    qed simp_all
  next
    case Nil
    have L: "L = slots a H" using sub Nil by simp
    then have cH: "card L = H" using card_slots [OF e] by simp

    have mul: "unat (ar_allocated a * ar_elem_size a) = H * esize a"
    proof -
      have "H * esize a \<le> unat (ar_capacity a) * esize a" using H by (rule mult_le_mono1)
      then have "H * esize a < 2 ^ 64" using B unfolding block_ok_def by linarith
      then show ?thesis using cnt cH by (subst u64_mult) simp_all
    qed
    have lt: "ar_allocated a < ar_capacity a \<longleftrightarrow> H < unat (ar_capacity a)"
      using cnt cH by (simp add: word_less_nat_alt)
    show thesis
    proof (cases "ar_buf a \<noteq> NULL \<and> H < unat (ar_capacity a)")
      case True
      let ?x = "ar_buf a + H * esize a"
      have x: "?x \<in> slots a (Suc H)" "?x \<noteq> NULL" using True by (auto simp: slots_def)
      have H': "Suc H \<le> unat (ar_capacity a)" using True by simp
      have xL: "?x \<notin> L" using L e by (auto simp: slots_def)
      have ins: "insert ?x L = slots a (Suc H)" using L by (auto simp: slots_def lessThan_Suc)
      have "\<exists>M'. store 4 M ?x TECC_ARENA_ALLOCATED = Inr M' \<and>
          arena_ok (a\<lparr>ar_free_list := first [] NULL, ar_allocated := ar_allocated a + 1\<rparr>) M'
            (insert ?x L) HL"
        using xL ins cnt odds True
        by (intro arena_slot_taken [OF B P _ H' _ x(1)]) auto
      then obtain M' where M': "store 4 M ?x TECC_ARENA_ALLOCATED = Inr M'"
        "arena_ok (a\<lparr>ar_free_list := NULL, ar_allocated := ar_allocated a + 1\<rparr>) M' (insert ?x L) HL"
        by auto
      have fn: "ar_free_list a = NULL" using fl Nil by simp
      have eq: "a\<lparr>ar_free_list := NULL, ar_allocated := ar_allocated a + 1\<rparr>
          = a\<lparr>ar_allocated := ar_allocated a + 1\<rparr>"
        using fn by simp
      have "TecArena_allocate a M p = Inr (?x, a\<lparr>ar_allocated := ar_allocated a + 1\<rparr>, M')"
        using fn True lt mul x(2) M'(1) by (simp add: TecArena_allocate_def Let_def)
      moreover have "?x \<in> slots a (unat (ar_capacity a))" using H' x(1) by (auto simp: slots_def)
      ultimately show thesis
        using that M'(2) True xL x(2) cH unfolding eq by (simp (no_asm_simp))
    next
      case False
      have "(if ar_allocated a < ar_capacity a
          then ar_buf a + unat (ar_allocated a * ar_elem_size a) else NULL) = NULL"
        using False b0 lt mul by auto
      then have run: "TecArena_allocate a M p = Inr (p, a, calloc M p (esize a))"
        using fl Nil by (simp add: TecArena_allocate_def Let_def)
      have okk: "arena_ok a (calloc M p (esize a)) L (if p = NULL then HL else insert p HL)"
        using ok arena_heap_taken [OF B P A p] by (simp add: calloc_def)
      show thesis by (rule that [OF run refl refl refl]) (use False cH okk in auto)
    qed
  qed
qed

section \<open>Release\<close>

lemma release_slot:
  assumes ok: "arena_ok a M L HL" and p: "p \<in> L"
  obtains a' M' where "TecArena_release a M p = Inr (a', M')" and "arena_ok a' M' (L - {p}) HL"
    and "ar_buf a' = ar_buf a" and "ar_elem_size a' = ar_elem_size a"
    and "ar_capacity a' = ar_capacity a"
    and "L = {p} \<Longrightarrow> ar_free_list a' = NULL \<and> ar_allocated a' = 0"
proof -
  obtain H fs where B: "block_ok a M" and P: "heap_part a M HL"
    and A: "arena_part a (mem_bytes M) L H fs"
    using ok by (auto simp: arena_ok_def)
  have e: "8 \<le> esize a" using B by (simp add: block_ok_def)
  have H: "H \<le> unat (ar_capacity a)" and sub: "set fs \<union> L = slots a H"
    and ch: "chain (\<lambda>p. Some (read_le 8 (mem_bytes M) p)) fs NULL" "distinct fs"
    and fl: "ar_free_list a = first fs NULL" and dis: "set fs \<inter> L = {}"
    and cnt: "unat (ar_allocated a) = card L" and odds: "\<forall>p \<in> L. odd (unat (mem_bytes M p))"
    and b0: "ar_buf a = NULL \<Longrightarrow> H = 0"
    using A by (auto simp: arena_part_def)
  have ps: "p \<in> slots a H" using sub p by auto
  have buf: "ar_buf a \<noteq> NULL" using b0 ps by (auto simp: slots_def)
  have fin: "finite L" using sub by (metis finite_UnI finite_Un finite_imageI finite_lessThan slots_def)
  have "card L \<noteq> 0" using fin p by auto
  then have al: "1 \<le> ar_allocated a" using cnt by (simp add: word_le_nat_alt)
  have acc: "accessible M p 4" "accessible M p 8" "p \<noteq> NULL"
    using slot_access [OF B ps H buf, of 4] slot_access [OF B ps H buf, of 8] by simp_all
  have "odd (read_le 4 (mem_bytes M) p)" using odds p by (simp add: read_le_odd)
  then have flag: "read_le 4 (mem_bytes M) p AND TECC_ARENA_ALLOCATED \<noteq> 0"
    unfolding TECC_ARENA_ALLOCATED_def and_one_odd .
  let ?m = "write_le 8 (mem_bytes M) p (first fs NULL)"
  let ?M = "M\<lparr>mem_bytes := ?m\<rparr>"
  define n where "n = ar_allocated a - 1"
  have n: "unat n = card (L - {p})"
    using al cnt fin p by (simp add: n_def u64_sub card_Diff_singleton)
  define a' where "a' = a\<lparr>ar_free_list := (if n = 0 then NULL else p), ar_allocated := n\<rparr>"
  have run: "TecArena_release a M p = Inr (a', ?M)"
    using acc flag fl by (simp add: TecArena_release_def load_def store_def a'_def n_def Let_def)
  have B': "block_ok a' ?M" using B by (simp add: block_ok_def a'_def)
  have P': "heap_part a' ?M HL"
  proof (rule heap_bytes [OF P])
    show "?m q = mem_bytes M q" if "q \<in> HL" for q
      using heap_outside [OF P that ps H buf e] by (intro write_le_other) linarith
  qed (simp_all add: a'_def)
  have sl: "slots a' k = slots a k" for k by (simp add: slots_def a'_def)
  have odds': "odd (unat (?m q))" if "q \<in> L - {p}" for q
  proof -
    have "q \<in> slots a H" "p \<noteq> q" using that sub by auto
    then have "?m q = mem_bytes M q" using e by (intro write_other_slot(2) [OF ps]) simp_all
    then show ?thesis using odds that by simp
  qed
  have A': "\<exists>H fs. arena_part a' ?m (L - {p}) H fs"
  proof (cases "n = 0")
    case True
    then have none: "L - {p} = {}" using n fin by simp
    have "arena_part a' ?m {} 0 []"
      using True by (simp add: arena_part_def a'_def slots_def)
    then show ?thesis unfolding none by blast
  next
    case False
    have "first fs NULL < 256 ^ 8"
    proof (cases fs)
      case (Cons f gs)
      then have "f \<in> slots a H" using sub by auto
      then show ?thesis using slot_access(3) [OF B _ H buf, of f 8] Cons by simp
    qed simp
    then have rd: "read_le 8 ?m p = first fs NULL" by (rule read_write_le)
    have "read_le 8 ?m y = read_le 8 (mem_bytes M) y" if "y \<in> set fs" for y
    proof -
      have "y \<in> slots a H" "p \<noteq> y" using that sub dis p by auto
      then show ?thesis using e by (intro write_other_slot(1) [OF ps]) simp_all
    qed
    then have "chain (\<lambda>p. Some (read_le 8 ?m p)) fs NULL"
      using ch(1) chain_cong [of fs "\<lambda>p. Some (read_le 8 ?m p)"] by metis
    then have "chain (\<lambda>p. Some (read_le 8 ?m p)) (p # fs) NULL" using rd acc(3) by simp
    moreover have "distinct (p # fs)" using ch(2) dis p by auto
    moreover have "set (p # fs) \<union> (L - {p}) = slots a H" using sub p by auto
    moreover have "set (p # fs) \<inter> (L - {p}) = {}" using dis by auto
    ultimately have "arena_part a' ?m (L - {p}) H (p # fs)"
      using False H buf n odds' sl unfolding arena_part_def by (simp add: a'_def)
    then show ?thesis by blast
  qed
  then have ok': "arena_ok a' ?M (L - {p}) HL"
    using B' P' arena_okI by (metis memory.select_convs(1) memory.surjective memory.update_convs(1))
  have "L = {p} \<Longrightarrow> n = 0" using n by (simp add: u64_eq_0)
  then show thesis using that [OF run ok'] by (simp add: a'_def)
qed

lemma release_heap:
  assumes ok: "arena_ok a M L HL" and p: "p \<in> HL"
  obtains M' where "TecArena_release a M p = Inr (a, M')" and "arena_ok a M' L (HL - {p})"
    and "mem_blocks M' p = None"
proof -
  obtain H fs where B: "block_ok a M" and P: "heap_part a M HL"
    and A: "arena_part a (mem_bytes M) L H fs"
    using ok by (auto simp: arena_ok_def)
  have e: "8 \<le> esize a" using B by (simp add: block_ok_def)
  have h: "p \<noteq> NULL" "mem_blocks M p = Some (esize a)" "even (unat (mem_bytes M p))"
    and out: "ar_buf a \<noteq> NULL \<Longrightarrow>
      p + esize a \<le> ar_buf a \<or> ar_buf a + unat (ar_capacity a) * esize a \<le> p"
    using P p by (auto simp: heap_part_def)
  have acc: "accessible M p 4"
    unfolding accessible_def using h(2) e
    by (intro exI [of _ p] exI [of _ "esize a"]) simp
  have "\<not> odd (read_le 4 (mem_bytes M) p)" using h(3) by (simp add: read_le_odd)
  then have flag: "read_le 4 (mem_bytes M) p AND TECC_ARENA_ALLOCATED = 0"
    unfolding TECC_ARENA_ALLOCATED_def using and_one_odd by metis
  let ?M = "M\<lparr>mem_blocks := (mem_blocks M)(p := None)\<rparr>"
  have run: "TecArena_release a M p = Inr (a, ?M)"
    using h acc flag by (simp add: TecArena_release_def load_def free_def)
  have "block_ok a ?M"
  proof -
    have "ar_buf a \<noteq> NULL \<Longrightarrow> ar_buf a \<noteq> p \<or> unat (ar_capacity a) * esize a = 0"
      using out e by auto
    have "p \<noteq> ar_buf a" if "ar_buf a \<noteq> NULL" "unat (ar_capacity a) * esize a \<noteq> esize a"
      using h(2) B that by (auto simp: block_ok_def)
    moreover have "p \<noteq> ar_buf a" if "ar_buf a \<noteq> NULL" "unat (ar_capacity a) * esize a = esize a"
      using out [OF that(1)] that(2) e by auto
    ultimately show ?thesis using B by (auto simp: block_ok_def)
  qed
  moreover have "heap_part a ?M (HL - {p})" using P by (auto simp: heap_part_def)
  ultimately have "arena_ok a ?M L (HL - {p})" using A by (intro arena_okI [of _ _ _ "mem_bytes M"]) simp_all
  then show thesis using that [OF run] by simp
qed

section \<open>The interface: a pool of objects\<close>

text \<open>
  What a client relies on: an object handed out is not one it already has, and an object it
  has can be given back. \<open>avail s p\<close>: \<open>p\<close> is what the heap can provide.
\<close>

locale object_pool =
  fixes live :: "'s \<Rightarrow> ptr set \<Rightarrow> bool"
    and avail :: "'s \<Rightarrow> ptr \<Rightarrow> bool"
    and take_obj :: "'s \<Rightarrow> ptr \<Rightarrow> (ptr \<times> 's) outcome"
    and give_obj :: "'s \<Rightarrow> ptr \<Rightarrow> 's outcome"
  assumes take_spec: "live s X \<Longrightarrow> avail s p \<Longrightarrow>
      \<exists>r s'. take_obj s p = Inr (r, s') \<and> r \<notin> X \<and> live s' (if r = NULL then X else insert r X)"
    and give_spec: "live s X \<Longrightarrow> r \<in> X \<Longrightarrow> \<exists>s'. give_obj s r = Inr s' \<and> live s' (X - {r})"
    and live_not_NULL: "live s X \<Longrightarrow> NULL \<notin> X"
begin

lemma take_give:
  assumes "live s X" and "avail s p"
  shows "\<exists>r s'. take_obj s p = Inr (r, s') \<and>
     (r = NULL \<or> r \<notin> X \<and> (\<exists>s''. give_obj s' r = Inr s'' \<and> live s'' X))"
proof -
  obtain r s' where r: "take_obj s p = Inr (r, s')" "r \<notin> X"
    "live s' (if r = NULL then X else insert r X)"
    using take_spec [OF assms] by blast
  then show ?thesis
    using give_spec [of s' "insert r X" r] by (cases "r = NULL") auto
qed

end

definition arena_live :: "TecArena \<times> memory \<Rightarrow> ptr set \<Rightarrow> bool" where
  "arena_live s X \<longleftrightarrow> (\<exists>L HL. X = L \<union> HL \<and> arena_ok (fst s) (snd s) L HL)"

definition arena_avail :: "TecArena \<times> memory \<Rightarrow> ptr \<Rightarrow> bool" where
  "arena_avail s p \<longleftrightarrow> calloc_fresh (snd s) p (esize (fst s))"

definition arena_take :: "TecArena \<times> memory \<Rightarrow> ptr \<Rightarrow> (ptr \<times> TecArena \<times> memory) outcome" where
  "arena_take s p = TecArena_allocate (fst s) (snd s) p"

definition arena_give :: "TecArena \<times> memory \<Rightarrow> ptr \<Rightarrow> (TecArena \<times> memory) outcome" where
  "arena_give s r = TecArena_release (fst s) (snd s) r"

lemma arena_liveI: "arena_ok a M L HL \<Longrightarrow> X = L \<union> HL \<Longrightarrow> arena_live (a, M) X"
  unfolding arena_live_def fst_conv snd_conv by blast

lemma arena_liveD:
  assumes "arena_ok a M L HL"
  shows "NULL \<notin> L \<union> HL" and "L \<inter> HL = {}"
    and "L \<subseteq> slots a (unat (ar_capacity a))" and "ar_buf a = NULL \<Longrightarrow> L = {}"
    and "p \<in> HL \<Longrightarrow> p \<notin> slots a (unat (ar_capacity a)) \<or> ar_buf a = NULL"
proof -
  obtain H fs where B: "block_ok a M" and P: "heap_part a M HL"
    and A: "arena_part a (mem_bytes M) L H fs"
    using assms by (auto simp: arena_ok_def)
  have e: "8 \<le> esize a" using B by (simp add: block_ok_def)
  have H: "H \<le> unat (ar_capacity a)" and sub: "L \<subseteq> slots a H"
    and b0: "ar_buf a = NULL \<Longrightarrow> H = 0"
    using A by (auto simp: arena_part_def)
  have "slots a H \<subseteq> slots a (unat (ar_capacity a))" using H by (auto simp: slots_def)
  then show s: "L \<subseteq> slots a (unat (ar_capacity a))" using sub by (rule subset_trans [rotated])
  show l0: "ar_buf a = NULL \<Longrightarrow> L = {}" using sub b0 by (auto simp: slots_def)
  show out: "p \<notin> slots a (unat (ar_capacity a)) \<or> ar_buf a = NULL" if "p \<in> HL" for p
  proof (rule disjCI)
    assume buf: "ar_buf a \<noteq> NULL"
    show "p \<notin> slots a (unat (ar_capacity a))"
    proof
      assume "p \<in> slots a (unat (ar_capacity a))"
      from heap_outside [OF P that this order.refl buf e] show False by simp
    qed
  qed
  show "L \<inter> HL = {}"
  proof (rule Int_emptyI)
    fix x assume "x \<in> L" "x \<in> HL"
    then show False using out [of x] s l0 by auto
  qed
  have "NULL \<notin> L"
  proof
    assume "NULL \<in> L"
    then have "ar_buf a \<noteq> NULL" "NULL \<in> slots a H" using l0 sub by auto
    then show False using slot_in_block(1) [OF _ H, of NULL] by simp
  qed
  then show "NULL \<notin> L \<union> HL" using P by (auto simp: heap_part_def)
qed

interpretation tec_arena: object_pool arena_live arena_avail arena_take arena_give
proof
  show "\<exists>r s'. arena_take s p = Inr (r, s') \<and> r \<notin> X \<and> arena_live s' (if r = NULL then X else insert r X)"
    if live: "arena_live s X" and sup: "arena_avail s p" for s X p
  proof -
    obtain a M where s: "s = (a, M)" by (cases s)
    obtain L HL where X: "X = L \<union> HL" and ok: "arena_ok a M L HL"
      using live s by (auto simp: arena_live_def)
    have fr: "calloc_fresh M p (esize a)" using sup s by (simp add: arena_avail_def)
    note d = arena_liveD [OF ok]
    have e: "8 \<le> esize a" using ok by (simp add: arena_ok_def block_ok_def)
    from allocate_ok [OF ok fr] obtain r a' M' where run: "TecArena_allocate a M p = Inr (r, a', M')"
      and res: "if ar_buf a \<noteq> NULL \<and> card L < unat (ar_capacity a)
         then r \<noteq> NULL \<and> r \<notin> L \<and> r \<in> slots a (unat (ar_capacity a)) \<and> arena_ok a' M' (insert r L) HL
         else r = p \<and> arena_ok a' M' L (if p = NULL then HL else insert p HL)"
      by metis
    show ?thesis
    proof (cases "ar_buf a \<noteq> NULL \<and> card L < unat (ar_capacity a)")
      case True
      then have r: "r \<noteq> NULL" "r \<notin> L" "r \<in> slots a (unat (ar_capacity a))"
        "arena_ok a' M' (insert r L) HL"
        using res by simp_all
      have "r \<notin> X" using r(2,3) d(5) [of r] True X by auto
      moreover have "arena_live (a', M') (insert r X)"
        using r(4) unfolding X by (intro arena_liveI [of _ _ "insert r L" HL]) simp_all
      ultimately show ?thesis using run r(1) s by (auto simp: arena_take_def)
    next
      case False
      then have r: "r = p" "arena_ok a' M' L (if p = NULL then HL else insert p HL)"
        using res by auto
      have "p \<notin> X"
      proof (cases "p = NULL")
        case True
        then show ?thesis using d(1) X by simp
      next
        case False
        then have "p \<notin> HL" using ok fr by (auto simp: arena_ok_def heap_part_def calloc_fresh_def)
        moreover have "p \<notin> L"
          using arena_liveD(2) [OF r(2)] False by auto
        ultimately show ?thesis using X by simp
      qed
      moreover have "arena_live (a', M') (if p = NULL then X else insert p X)"
      proof -
        have "(if p = NULL then X else insert p X) = L \<union> (if p = NULL then HL else insert p HL)"
          using X by auto
        then show ?thesis using r(2) by (intro arena_liveI)
      qed
      ultimately show ?thesis using run r(1) s by (auto simp: arena_take_def)
    qed
  qed
  show "\<exists>s'. arena_give s r = Inr s' \<and> arena_live s' (X - {r})"
    if live: "arena_live s X" and r: "r \<in> X" for s X r
  proof -
    obtain a M where s: "s = (a, M)" by (cases s)
    obtain L HL where X: "X = L \<union> HL" and ok: "arena_ok a M L HL"
      using live s by (auto simp: arena_live_def)
    have dis: "L \<inter> HL = {}" by (rule arena_liveD(2) [OF ok])
    show ?thesis
    proof (cases "r \<in> L")
      case True
      then obtain a' M' where "TecArena_release a M r = Inr (a', M')" "arena_ok a' M' (L - {r}) HL"
        using release_slot [OF ok] by metis
      moreover have "X - {r} = (L - {r}) \<union> HL" using X dis True by auto
      ultimately show ?thesis using arena_liveI by (auto simp: s arena_give_def)
    next
      case False
      then obtain M' where "TecArena_release a M r = Inr (a, M')" "arena_ok a M' L (HL - {r})"
        using release_heap [OF ok, of r] r X by blast
      moreover have "X - {r} = L \<union> (HL - {r})" using X False by auto
      ultimately show ?thesis using arena_liveI by (auto simp: s arena_give_def)
    qed
  qed
  show "NULL \<notin> X" if live: "arena_live s X" for s X
    using live arena_liveD(1) by (auto simp: arena_live_def)
qed

section \<open>Properties\<close>

lemma init_ok:
  assumes "8 \<le> unat n" and "unat k * unat n < 2 ^ 64"
    and "calloc_fresh M p (unat k * unat n)" and "k \<noteq> 0"
  shows "\<exists>a' M'. TecArena_init a M k n 0 p = Inr (True, a', M') \<and> arena_ok a' M' {} {} \<and>
     ar_buf a' = p \<and> ar_capacity a' = k \<and> ar_elem_size a' = n \<and> ar_free_list a' = NULL \<and>
     M' = calloc M p (unat k * unat n)"
proof -
  define a' where "a' = a\<lparr>ar_elem_size := n, ar_capacity := k, ar_allocated := 0, ar_buf := p,
      ar_free_list := NULL, ar_lock := TecMutex_init (ar_lock a) 0\<rparr>"
  define M' where "M' = calloc M p (unat k * unat n)"
  have "TecArena_init a M k n 0 p = Inr (True, a', M')"
    using assms(4)
    by (simp add: TecArena_init_def TecMutex_ok_def TecMutex_init_def read_field_def a'_def M'_def
        Let_def)
  moreover have "block_ok a' M'"
    using assms by (auto simp: block_ok_def a'_def M'_def calloc_def calloc_fresh_def)
  moreover have "heap_part a' M' {}" by (simp add: heap_part_def)
  moreover have "arena_part a' (mem_bytes M') {} 0 []"
    by (simp add: arena_part_def a'_def slots_def)
  ultimately show ?thesis
    using arena_okI [of a' M' "{}" "mem_bytes M'" "{}" 0 "[]"] by (auto simp: a'_def M'_def)
qed

text \<open>An arena of two 16-byte objects, its block at address 4096, nothing else allocated.\<close>

definition blank_arena :: TecArena where
  "blank_arena = \<lparr>ar_buf = NULL, ar_elem_size = 0, ar_capacity = 0, ar_allocated = 0,
     ar_free_list = NULL, ar_lock = \<lparr>mtx_result = None\<rparr>\<rparr>"

definition blank_memory :: memory where
  "blank_memory = \<lparr>mem_bytes = (\<lambda>_. 0), mem_blocks = Map.empty\<rparr>"

lemma two_slot_arena:
  "\<exists>a M. TecArena_init blank_arena blank_memory 2 16 0 4096 = Inr (True, a, M) \<and>
     arena_ok a M {} {} \<and> ar_buf a = 4096 \<and> ar_capacity a = 2 \<and> ar_elem_size a = 16 \<and>
     ar_free_list a = NULL \<and> M = calloc blank_memory 4096 32"
  using init_ok [of 16 2 blank_memory 4096 blank_arena]
  by (simp add: calloc_fresh_def blank_memory_def)

text \<open>
  C#arena_init_ok: \<open>TecArena_init\<close> gives an arena with no live object whose capacity and
  object size are the requested ones, for objects that can hold a pointer.
\<close>

theorem arena_init_ok:
  assumes "8 \<le> unat n" and "unat k * unat n < 2 ^ 64"
    and "calloc_fresh M p (unat k * unat n)" and "k \<noteq> 0"
  shows "\<exists>a' M'. TecArena_init a M k n 0 p = Inr (True, a', M') \<and> arena_live (a', M') {} \<and>
     ar_capacity a' = k \<and> ar_elem_size a' = n"
proof -
  obtain a' M' where "TecArena_init a M k n 0 p = Inr (True, a', M')" "arena_ok a' M' {} {}"
    "ar_capacity a' = k" "ar_elem_size a' = n"
    using init_ok [OF assms, of a] by blast
  then show ?thesis unfolding arena_live_def fst_conv snd_conv by blast
qed

theorem arena_init_ok_witness:
  "\<exists>a M. TecArena_init blank_arena blank_memory 2 16 0 4096 = Inr (True, a, M) \<and>
     arena_live (a, M) {}"
  using arena_init_ok [of 16 2 blank_memory 4096 blank_arena]
  by (auto simp: calloc_fresh_def blank_memory_def)



text \<open>
  An object comes from the block as long as fewer objects than the
  capacity are in use there, whatever has been released before, and from the heap exactly
  when the block is full (or was never allocated).
\<close>

theorem allocate_block_first:
  assumes "arena_ok a M L HL" and "calloc_fresh M p (esize a)"
  shows "\<exists>r a' M'. TecArena_allocate a M p = Inr (r, a', M') \<and>
     (if ar_buf a \<noteq> NULL \<and> card L < unat (ar_capacity a)
      then r \<in> slots a (unat (ar_capacity a)) - L \<and> arena_ok a' M' (insert r L) HL
      else r = p \<and> arena_ok a' M' L (if p = NULL then HL else insert p HL))"
proof -
  obtain r a' M' where run: "TecArena_allocate a M p = Inr (r, a', M')"
    and res: "if ar_buf a \<noteq> NULL \<and> card L < unat (ar_capacity a)
         then r \<noteq> NULL \<and> r \<notin> L \<and> r \<in> slots a (unat (ar_capacity a)) \<and> arena_ok a' M' (insert r L) HL
         else r = p \<and> arena_ok a' M' L (if p = NULL then HL else insert p HL)"
    using allocate_ok [OF assms] by metis
  then show ?thesis by (cases "ar_buf a \<noteq> NULL \<and> card L < unat (ar_capacity a)") auto
qed

theorem allocate_block_first_witness:
  "\<exists>a M r s. TecArena_init blank_arena blank_memory 2 16 0 4096 = Inr (True, a, M) \<and>
     TecArena_allocate a M NULL = Inr (r, s) \<and> r \<in> slots a 2"
proof -
  obtain a M where a: "TecArena_init blank_arena blank_memory 2 16 0 4096 = Inr (True, a, M)"
    "arena_ok a M {} {}" "ar_buf a = 4096" "ar_capacity a = 2" using two_slot_arena by blast
  from allocate_block_first [OF a(2), of NULL] a show ?thesis
    by (auto simp: calloc_fresh_def)
qed

text \<open>
  Releasing the first object of the block a second time, while the free list
  was empty and other objects are in use, finds the null link of the free list where the
  flag was and frees the whole block.
\<close>

theorem double_release:
  assumes ok: "arena_ok a M L HL" and first: "ar_buf a \<in> L" "L \<noteq> {ar_buf a}"
    and fl: "ar_free_list a = NULL"
  shows "\<exists>a1 M1 a2 M2. TecArena_release a M (ar_buf a) = Inr (a1, M1) \<and>
     TecArena_release a1 M1 (ar_buf a) = Inr (a2, M2) \<and> mem_blocks M2 (ar_buf a) = None"
proof -
  obtain H fs where B: "block_ok a M" and A: "arena_part a (mem_bytes M) L H fs"
    using ok by (auto simp: arena_ok_def)
  have H: "H \<le> unat (ar_capacity a)" and sub: "L \<subseteq> slots a H"
    and odds: "\<forall>p \<in> L. odd (unat (mem_bytes M p))"
    using A by (auto simp: arena_part_def)
  have buf: "ar_buf a \<noteq> NULL" using arena_liveD(1) [OF ok] first(1) by (metis UnI1)
  have acc: "accessible M (ar_buf a) 4" "accessible M (ar_buf a) 8"
    using slot_access(1) [OF B _ H buf, of "ar_buf a"] first(1) sub by auto
  have flag: "read_le 4 (mem_bytes M) (ar_buf a) AND TECC_ARENA_ALLOCATED \<noteq> 0"
    unfolding TECC_ARENA_ALLOCATED_def and_one_odd using odds first(1) by (simp add: read_le_odd)
  let ?m = "write_le 8 (mem_bytes M) (ar_buf a) 0"
  have "\<not> odd (read_le 4 ?m (ar_buf a))" by (simp add: read_le_odd write_le_first)
  then have flag': "read_le 4 ?m (ar_buf a) AND TECC_ARENA_ALLOCATED = 0"
    unfolding TECC_ARENA_ALLOCATED_def using and_one_odd by metis
  have blk: "mem_blocks M (ar_buf a) \<noteq> None" using B buf by (simp add: block_ok_def)
  have acc': "accessible (M\<lparr>mem_bytes := ?m\<rparr>) (ar_buf a) 4"
    using acc(1) by (simp add: accessible_def)
  show ?thesis
    using buf acc acc' flag flag' fl blk
    by (auto simp: TecArena_release_def load_def store_def free_def Let_def)
qed

theorem double_release_witness:
  "\<exists>a M a1 M1 a2 M2. arena_ok a M {4096, 4112} {} \<and> ar_buf a = 4096 \<and>
     TecArena_release a M 4096 = Inr (a1, M1) \<and> TecArena_release a1 M1 4096 = Inr (a2, M2) \<and>
     mem_blocks M2 4096 = None"
proof -
  let ?a = "\<lparr>ar_buf = 4096, ar_elem_size = 16, ar_capacity = 2, ar_allocated = 2,
     ar_free_list = NULL, ar_lock = \<lparr>mtx_result = Some 0\<rparr>\<rparr>"
  let ?M = "\<lparr>mem_bytes = (\<lambda>_. 1), mem_blocks = [4096 \<mapsto> 32]\<rparr>"
  have two: "{..<2 :: nat} = {0, 1}" by auto
  have "arena_part ?a (\<lambda>_. 1) {4096, 4112} 2 []"
    by (auto simp: arena_part_def slots_def two)
  moreover have "block_ok ?a ?M" by (simp add: block_ok_def)
  moreover have "heap_part ?a ?M {}" by (simp add: heap_part_def)
  ultimately have ok: "arena_ok ?a ?M {4096, 4112} {}"
    by (intro arena_okI [of _ _ _ "\<lambda>_. 1"]) simp_all
  have "\<exists>a1 M1 a2 M2. TecArena_release ?a ?M 4096 = Inr (a1, M1) \<and>
      TecArena_release a1 M1 4096 = Inr (a2, M2) \<and> mem_blocks M2 4096 = None"
    using double_release [OF ok] by simp
  moreover have "ar_buf ?a = 4096" by simp
  ultimately show ?thesis using ok by blast
qed

end
