(* ===== verification/TecThrPool.thy ===== *)
theory TecThrPool
  imports TecArena TecQueue TecSignal TecBuffer
begin

text \<open>
  Models \<open>tecc_thread_pool.c\<close> and \<open>tecc_thread_pool.h\<close>: nodes, each a thread with its own
  queue and task arena, and the round-robin distribution of tasks to them.
\<close>

section \<open>Model\<close>

text \<open>
  A task: \<open>task_buffer\<close> and \<open>task_payload\<close> are offsets into the arenas of the pool, \<open>None\<close>
  for \<open>NULL\<close>. Its header lies in the memory of the node's arena.
\<close>

record TecTask =
  task_buffer :: "nat option"
  task_buffer_size :: u64
  task_payload :: "nat option"
  task_args :: ptr
  task_func :: ptr

text \<open>
  A node. \<open>tn_mem\<close> is the part of memory that holds the arena's block and the tasks it took
  from the heap; \<open>tn_tasks\<close> gives the fields of the task at an address.
\<close>

record TecTaskNode =
  tn_thr :: TecThread
  tn_q :: TecQueue
  tn_arena :: TecArena
  tn_sig_terminated :: TecSignal
  tn_mem :: memory
  tn_tasks :: "ptr \<Rightarrow> TecTask option"

record TecThrPool =
  tp_nthreads :: u64
  tp_nodes :: "TecTaskNode list"
  tp_next_thread_index :: u32
  tp_buffer_size :: u64
  tp_buffer_arena :: "u8 list option"
  tp_payload_size :: u64
  tp_payload_arena :: "u8 list option"

definition sizeof_TecTask :: u64 where
  "sizeof_TecTask = 48"

text \<open>A call of a task function: the function, payload bytes, buffer and arguments it gets.\<close>

record task_call =
  call_func :: ptr
  call_payload :: "u8 list option"
  call_buf :: TecBuffer
  call_args :: ptr

subsection \<open>Nodes\<close>

text \<open>
  \<open>rc\<close> gives the results of the platform's initialisation calls, \<open>p\<close> that of \<open>calloc\<close>; the
  results of the library's own \<open>init\<close> functions are dropped.
\<close>

definition TecTaskNode_init ::
  "TecTaskNode \<Rightarrow> u64 \<Rightarrow> (nat \<Rightarrow> int) \<Rightarrow> ptr \<Rightarrow> TecTaskNode outcome" where
  "TecTaskNode_init node arena_nelems rc p =
     bind_outcome (TecArena_init (tn_arena node) (tn_mem node) arena_nelems sizeof_TecTask (rc 2) p)
       (\<lambda>(ok, a, M).
     bind_outcome (TecSignal_init (tn_sig_terminated node) (rc 3) (rc 4)) (\<lambda>(ok, cs, s).
       Inr (node\<lparr>tn_thr := TecThread_init (tn_thr node),
                 tn_q := snd (TecQueue_init (tn_q node) (rc 0) (rc 1)),
                 tn_arena := a, tn_mem := M, tn_sig_terminated := s\<rparr>)))"

definition TecTaskNode_run :: "TecTaskNode \<Rightarrow> int \<Rightarrow> nat \<Rightarrow> (bool \<times> TecTaskNode) outcome" where
  "TecTaskNode_run node rc h =
     (let node = node\<lparr>tn_thr := TecThread_create (tn_thr node) rc h\<rparr>
      in bind_outcome (TecThread_ok (tn_thr node)) (\<lambda>ok. Inr (ok, node)))"

definition TecTaskNode_allocate_task :: "TecTaskNode \<Rightarrow> ptr \<Rightarrow> (ptr \<times> TecTaskNode) outcome" where
  "TecTaskNode_allocate_task node p =
     bind_outcome (TecArena_allocate (tn_arena node) (tn_mem node) p) (\<lambda>(task, a, M).
       Inr (task, node\<lparr>tn_arena := a, tn_mem := M\<rparr>))"

definition TecTaskNode_enqueue_task :: "TecTaskNode \<Rightarrow> ptr \<Rightarrow> ptr \<Rightarrow> TecTaskNode outcome" where
  "TecTaskNode_enqueue_task node task p =
     bind_outcome (TecQueue_push (tn_q node) task p) (\<lambda>q. Inr (node\<lparr>tn_q := q\<rparr>))"

definition slice :: "u8 list option \<Rightarrow> nat option \<Rightarrow> u64 \<Rightarrow> u8 list option outcome" where
  "slice arena off n =
     (case off of
        None \<Rightarrow> Inr None
      | Some i \<Rightarrow> bind_outcome (mem_read arena (int i) (unat n)) (\<lambda>bs. Inr (Some bs)))"

text \<open>The call a task stands for; \<open>buf\<close> is a zeroed \<open>TecBuffer\<close> with three fields set.\<close>

definition call_of :: "TecThrPool \<Rightarrow> TecTask \<Rightarrow> task_call outcome" where
  "call_of pool t =
     bind_outcome (slice (tp_buffer_arena pool) (task_buffer t) (task_buffer_size t)) (\<lambda>bytes.
     bind_outcome (slice (tp_payload_arena pool) (task_payload t) (tp_payload_size pool)) (\<lambda>payload.
       Inr \<lparr>call_func = task_func t, call_payload = payload,
            call_buf = \<lparr>buf_data = bytes, buf_pos = 0, buf_size = task_buffer_size t,
                        buf_capacity = task_buffer_size t, buf_block_size = 0\<rparr>,
            call_args = task_args t\<rparr>))"

text \<open>
  One pass of the loop in \<open>task_func\<close>, for the node \<open>n\<close>: it waits for a task, leaves the
  loop at the \<open>NULL\<close> task, or calls the task's function (unless it is \<open>NULL\<close>) and gives
  the task back to the arena.
\<close>

datatype node_event = Waiting | Left_loop | Executed "task_call option"

definition task_func_pass :: "TecThrPool \<Rightarrow> TecTaskNode \<Rightarrow> (node_event \<times> TecTaskNode) outcome" where
  "task_func_pass pool node =
     bind_outcome (TecQueue_pop (tn_q node)) (\<lambda>r.
       case r of
         None \<Rightarrow> Inr (Waiting, node)
       | Some (task, q) \<Rightarrow>
           let node = node\<lparr>tn_q := q\<rparr>
           in if task = NULL then Inr (Left_loop, node)
              else case tn_tasks node task of
                None \<Rightarrow> Inl Invalid_pointer
              | Some t \<Rightarrow>
                  bind_outcome
                    (if task_func t \<noteq> NULL
                     then bind_outcome (call_of pool t) (\<lambda>c. Inr (Some c)) else Inr None)
                    (\<lambda>call.
                  bind_outcome (TecArena_release (tn_arena node) (tn_mem node) task) (\<lambda>(a, M).
                    Inr (Executed call,
                         node\<lparr>tn_arena := a, tn_mem := M, tn_tasks := (tn_tasks node)(task := None)\<rparr>))))"

text \<open>The whole function, \<open>None\<close> when it never leaves the loop: the calls it makes, in order.\<close>

partial_function (option) task_func_loop ::
  "TecThrPool \<Rightarrow> TecTaskNode \<Rightarrow> task_call list \<Rightarrow> (task_call list \<times> TecTaskNode) outcome option" where
  "task_func_loop pool node calls =
     (case task_func_pass pool node of
        Inl f \<Rightarrow> Some (Inl f)
      | Inr (Waiting, node') \<Rightarrow> None
      | Inr (Left_loop, node') \<Rightarrow>
          Some (Inr (calls, node'\<lparr>tn_sig_terminated :=
             snd (snd (TecSignal_set (tn_sig_terminated node') 0 0))\<rparr>))
      | Inr (Executed c, node') \<Rightarrow>
          task_func_loop pool node' (calls @ (case c of None \<Rightarrow> [] | Some c \<Rightarrow> [c])))"

text \<open>
  \<open>TecTaskNode_done\<close>: the thread, if there is one, gets the \<open>NULL\<close> task and runs until it
  has left its loop; \<open>p\<close> is the queue node for \<open>NULL\<close>.
\<close>

definition TecTaskNode_done ::
  "TecThrPool \<Rightarrow> TecTaskNode \<Rightarrow> ptr \<Rightarrow> (task_call list \<times> nat list \<times> TecTaskNode) outcome" where
  "TecTaskNode_done pool node p =
     bind_outcome (TecThread_ok (tn_thr node)) (\<lambda>ok.
     bind_outcome
       (if ok then
          bind_outcome (TecTaskNode_enqueue_task node NULL p) (\<lambda>node.
          bind_outcome (case task_func_loop pool node [] of None \<Rightarrow> Inl No_return | Some r \<Rightarrow> r)
            (\<lambda>(calls, node).
          if TecSignal_wait (sig_value (tn_sig_terminated node)) 0 [] = None then Inl No_return
          else bind_outcome (TecThread_join (tn_thr node)) (\<lambda>(hs, t).
            Inr (calls, hs, node\<lparr>tn_thr := t\<rparr>))))
        else Inr ([], [], node))
       (\<lambda>(calls, hs, node).
     bind_outcome (TecQueue_done (tn_q node) 0) (\<lambda>(cs, q).
     bind_outcome (TecArena_done (tn_arena node) (tn_mem node)) (\<lambda>(cs', a, M).
     bind_outcome (TecSignal_done (tn_sig_terminated node) 0) (\<lambda>(cs'', s).
       Inr (calls, hs, node\<lparr>tn_q := q, tn_arena := a, tn_mem := M, tn_sig_terminated := s\<rparr>))))))"

subsection \<open>The pool\<close>

text \<open>A node in memory from \<open>calloc\<close>.\<close>

definition zero_node :: TecTaskNode where
  "zero_node =
     \<lparr>tn_thr = \<lparr>thr_result = Some 0, thr_t = 0\<rparr>,
      tn_q = \<lparr>q_head = NULL, q_tail = NULL, q_mtx = \<lparr>mtx_result = Some 0\<rparr>,
              q_cv = \<lparr>cv_result = Some 0\<rparr>, q_heap = Map.empty\<rparr>,
      tn_arena = \<lparr>ar_buf = NULL, ar_elem_size = 0, ar_capacity = 0, ar_allocated = 0,
                  ar_free_list = NULL, ar_lock = \<lparr>mtx_result = Some 0\<rparr>\<rparr>,
      tn_sig_terminated = \<lparr>sig_value = 0, sig_mtx = \<lparr>mtx_result = Some 0\<rparr>,
                           sig_cnd = \<lparr>cv_result = Some 0\<rparr>\<rparr>,
      tn_mem = \<lparr>mem_bytes = (\<lambda>_. 0), mem_blocks = Map.empty\<rparr>,
      tn_tasks = Map.empty\<rparr>"

text \<open>
  \<open>rc n\<close> and \<open>p n\<close> are the results of the platform calls for node \<open>n\<close>; \<open>oks\<close> tells which of
  the three allocations succeed: buffers, payloads, nodes (not tested by the code).
\<close>

fun init_nodes ::
  "u64 \<Rightarrow> (nat \<Rightarrow> nat \<Rightarrow> int) \<Rightarrow> (nat \<Rightarrow> ptr) \<Rightarrow> nat list \<Rightarrow> TecTaskNode list outcome" where
  "init_nodes nelems rc p [] = Inr []"
| "init_nodes nelems rc p (n # ns) =
     bind_outcome (TecTaskNode_init zero_node nelems (rc n) (p n)) (\<lambda>node.
     bind_outcome (init_nodes nelems rc p ns) (\<lambda>nodes. Inr (node # nodes)))"

definition TecThrPool_init ::
  "u64 \<Rightarrow> u64 \<Rightarrow> u64 \<Rightarrow> u64 \<Rightarrow> bool \<times> bool \<times> bool \<Rightarrow> (nat \<Rightarrow> nat \<Rightarrow> int) \<Rightarrow> (nat \<Rightarrow> ptr)
   \<Rightarrow> TecThrPool outcome" where
  "TecThrPool_init nthreads buffer_size payload_size nelems oks rc p =
     (let (buffer_ok, payload_ok, nodes_ok) = oks;
          buffers = (if buffer_size \<noteq> 0 \<and> buffer_ok
            then Some (replicate (unat nthreads * unat buffer_size) 0) else None);
          payloads = (if payload_size \<noteq> 0 \<and> payload_ok
            then Some (replicate (unat nthreads * unat payload_size) 0) else None)
      in if \<not> nodes_ok \<and> nthreads \<noteq> 0 then Inl Null_deref
         else bind_outcome (init_nodes nelems rc p [0 ..< unat nthreads]) (\<lambda>nodes.
           Inr \<lparr>tp_nthreads = nthreads, tp_nodes = nodes, tp_next_thread_index = 0,
                tp_buffer_size = buffer_size, tp_buffer_arena = buffers,
                tp_payload_size = payload_size, tp_payload_arena = payloads\<rparr>))"

text \<open>\<open>rcs\<close>: the results of \<open>pthread_create\<close> and the handles; stops at the first failure.\<close>

fun run_nodes :: "(int \<times> nat) list \<Rightarrow> TecTaskNode list \<Rightarrow> (bool \<times> TecTaskNode list) outcome" where
  "run_nodes ((rc, h) # rcs) (node # nodes) =
     bind_outcome (TecTaskNode_run node rc h) (\<lambda>(ok, node).
       if ok then bind_outcome (run_nodes rcs nodes) (\<lambda>(ok, nodes). Inr (ok, node # nodes))
       else Inr (False, node # nodes))"
| "run_nodes _ nodes = Inr (True, nodes)"

definition TecThrPool_run :: "TecThrPool \<Rightarrow> (int \<times> nat) list \<Rightarrow> (bool \<times> TecThrPool) outcome" where
  "TecThrPool_run pool rcs =
     bind_outcome (run_nodes rcs (tp_nodes pool)) (\<lambda>(ok, nodes). Inr (ok, pool\<lparr>tp_nodes := nodes\<rparr>))"

text \<open>\<open>ps\<close>: the queue node for the \<open>NULL\<close> task of each node. The calls are in node order.\<close>

fun done_nodes ::
  "TecThrPool \<Rightarrow> ptr list \<Rightarrow> TecTaskNode list \<Rightarrow> (task_call list list \<times> nat list) outcome" where
  "done_nodes pool (p # ps) (node # nodes) =
     bind_outcome (TecTaskNode_done pool node p) (\<lambda>(calls, hs, node).
     bind_outcome (done_nodes pool ps nodes) (\<lambda>(callss, hs'). Inr (calls # callss, hs @ hs')))"
| "done_nodes pool _ nodes = Inr ([], [])"

definition TecThrPool_done :: "TecThrPool \<Rightarrow> ptr list \<Rightarrow> (task_call list list \<times> nat list) outcome" where
  "TecThrPool_done pool ps = done_nodes pool ps (tp_nodes pool)"

text \<open>
  The index: \<open>atomic_fetch_add\<close> gives the \<open>int\<close> before the addition, which becomes a \<open>size_t\<close>
  by sign extension.
\<close>

definition next_index :: "TecThrPool \<Rightarrow> nat outcome" where
  "next_index pool =
     (if tp_nthreads pool = 0 then Inl Div_by_zero
      else Inr (unat ((scast (tp_next_thread_index pool) :: u64) mod tp_nthreads pool)))"

text \<open>The fields of a task for the node \<open>ndx\<close>: its slices of the two arenas.\<close>

definition task_for :: "TecThrPool \<Rightarrow> nat \<Rightarrow> ptr \<Rightarrow> ptr \<Rightarrow> TecTask" where
  "task_for pool ndx func args =
     \<lparr>task_buffer = (if tp_buffer_arena pool \<noteq> None
        then Some (ndx * unat (tp_buffer_size pool)) else None),
      task_buffer_size = (if tp_buffer_arena pool \<noteq> None then tp_buffer_size pool else 0),
      task_payload = (if tp_payload_arena pool \<noteq> None
        then Some (ndx * unat (tp_payload_size pool)) else None),
      task_args = args, task_func = func\<rparr>"

text \<open>The payload arena after \<open>memcpy\<close>, when there is a payload and a place for it.\<close>

definition copy_payload :: "TecThrPool \<Rightarrow> TecTask \<Rightarrow> u8 list option \<Rightarrow> u8 list option outcome" where
  "copy_payload pool t payload =
     (case (payload, task_payload t) of
        (Some src, Some off) \<Rightarrow>
          bind_outcome (mem_read (Some src) 0 (unat (tp_payload_size pool)))
            (mem_write (tp_payload_arena pool) (int off))
      | _ \<Rightarrow> Inr (tp_payload_arena pool))"

text \<open>
  \<open>payload\<close> is the block the caller's pointer reaches; \<open>pt\<close> and \<open>pq\<close> are what the allocator
  would give for the task and for the queue node.
\<close>

definition TecThrPool_enqueue ::
  "TecThrPool \<Rightarrow> ptr \<Rightarrow> u8 list option \<Rightarrow> ptr \<Rightarrow> ptr \<Rightarrow> ptr \<Rightarrow> TecThrPool outcome" where
  "TecThrPool_enqueue pool func payload args pt pq =
     bind_outcome (next_index pool) (\<lambda>ndx.
     let pool = pool\<lparr>tp_next_thread_index := tp_next_thread_index pool + 1\<rparr>
     in if length (tp_nodes pool) \<le> ndx then Inl Out_of_bounds
        else
          bind_outcome (TecTaskNode_allocate_task (tp_nodes pool ! ndx) pt) (\<lambda>(task, node).
          if task = NULL then Inl Null_deref
          else
            let t = task_for pool ndx func args
            in bind_outcome (copy_payload pool t payload) (\<lambda>payloads.
               bind_outcome (TecTaskNode_enqueue_task
                   (node\<lparr>tn_tasks := (tn_tasks node)(task \<mapsto> t)\<rparr>) task pq) (\<lambda>node.
                 Inr (pool\<lparr>tp_payload_arena := payloads, tp_nodes := (tp_nodes pool)[ndx := node]\<rparr>)))))"

section \<open>Nodes: invariant\<close>

text \<open>
  The tasks \<open>ts\<close> are queued at the node, oldest first, and are exactly the objects its arena
  has handed out. \<open>tail\<close> is what follows them in the queue: nothing, or the \<open>NULL\<close> task.
\<close>

definition node_queue :: "TecTaskNode \<Rightarrow> TecTask list \<Rightarrow> ptr list \<Rightarrow> bool" where
  "node_queue node ts rest \<longleftrightarrow>
     (\<exists>os. queue_holds (tn_q node) (os @ rest) \<and> distinct os \<and>
        arena_live (tn_arena node, tn_mem node) (set os) \<and>
        map (tn_tasks node) os = map Some ts)"

abbreviation node_ok :: "TecTaskNode \<Rightarrow> TecTask list \<Rightarrow> bool" where
  "node_ok node ts \<equiv> node_queue node ts []"

lemma node_take:
  assumes ok: "node_ok node ts" and pt: "arena_avail (tn_arena node, tn_mem node) pt"
  obtains task node' where "TecTaskNode_allocate_task node pt = Inr (task, node')"
    and "tn_q node' = tn_q node" and "tn_thr node' = tn_thr node"
    and "tn_sig_terminated node' = tn_sig_terminated node"
    and "task = NULL \<Longrightarrow> node_ok node' ts"
    and "\<And>t pq. task \<noteq> NULL \<Longrightarrow> fresh_qnode (tn_q node) pq \<Longrightarrow>
      \<exists>node''. TecTaskNode_enqueue_task (node'\<lparr>tn_tasks := (tn_tasks node')(task \<mapsto> t)\<rparr>) task pq
        = Inr node'' \<and> node_ok node'' (ts @ [t])"
proof -
  obtain os where q: "queue_holds (tn_q node) os" and d: "distinct os"
    and live: "arena_live (tn_arena node, tn_mem node) (set os)"
    and ts: "map (tn_tasks node) os = map Some ts"
    using ok by (auto simp: node_queue_def)
  obtain task a M where run: "TecArena_allocate (tn_arena node) (tn_mem node) pt = Inr (task, a, M)"
    and new: "task \<notin> set os"
    and live': "arena_live (a, M) (if task = NULL then set os else insert task (set os))"
    using tec_arena.take_spec [OF live pt] by (auto simp: arena_take_def)
  let ?n = "node\<lparr>tn_arena := a, tn_mem := M\<rparr>"
  have alloc: "TecTaskNode_allocate_task node pt = Inr (task, ?n)"
    using run by (simp add: TecTaskNode_allocate_task_def)
  have null: "node_ok ?n ts" if "task = NULL"
    using q d live' ts that unfolding node_queue_def by (intro exI [of _ os]) simp
  have enq: "\<exists>node''. TecTaskNode_enqueue_task (?n\<lparr>tn_tasks := (tn_tasks ?n)(task \<mapsto> t)\<rparr>) task pq
        = Inr node'' \<and> node_ok node'' (ts @ [t])"
    if nz: "task \<noteq> NULL" and pq: "fresh_qnode (tn_q node) pq" for t pq
  proof -
    obtain q' where q': "TecQueue_push (tn_q node) task pq = Inr q'" "queue_holds q' (os @ [task])"
      using tec_queue.enq_spec [OF q pq] by blast
    let ?m = "?n\<lparr>tn_tasks := (tn_tasks ?n)(task \<mapsto> t), tn_q := q'\<rparr>"
    have "map ((tn_tasks node)(task \<mapsto> t)) os = map (tn_tasks node) os"
      using new by (intro map_cong refl) auto
    then have "map (tn_tasks ?m) (os @ [task]) = map Some (ts @ [t])" using ts by simp
    moreover have "set (os @ [task]) = insert task (set os)" by simp
    ultimately have "node_ok ?m (ts @ [t])"
      using q'(2) d new live' nz unfolding node_queue_def
      by (intro exI [of _ "os @ [task]"]) simp
    then show ?thesis using q'(1) by (simp add: TecTaskNode_enqueue_task_def)
  qed
  show thesis by (rule that [OF alloc]) (use null enq in simp_all)
qed

lemma release_lock: "TecArena_release a M x = Inr (a', M') \<Longrightarrow> ar_lock a' = ar_lock a"
  by (auto simp: TecArena_release_def bind_outcome_Inr_iff Let_def split: if_splits)

text \<open>What a pass of the loop does with the oldest task.\<close>

definition runs :: "TecThrPool \<Rightarrow> TecTask \<Rightarrow> task_call option \<Rightarrow> bool" where
  "runs pool t c \<longleftrightarrow>
     (if task_func t = NULL then c = None else \<exists>x. call_of pool t = Inr x \<and> c = Some x)"

lemma pass_runs:
  assumes n: "node_queue node (t # ts) rest" and c: "runs pool t c"
  obtains node' where "task_func_pass pool node = Inr (Executed c, node')"
    and "node_queue node' ts rest" and "tn_thr node' = tn_thr node"
    and "tn_sig_terminated node' = tn_sig_terminated node"
    and "q_mtx (tn_q node') = q_mtx (tn_q node)" and "q_cv (tn_q node') = q_cv (tn_q node)"
    and "ar_lock (tn_arena node') = ar_lock (tn_arena node)"
proof -
  obtain os where q: "queue_holds (tn_q node) (os @ rest)" and d: "distinct os"
    and live: "arena_live (tn_arena node, tn_mem node) (set os)"
    and ts: "map (tn_tasks node) os = map Some (t # ts)"
    using n unfolding node_queue_def by blast
  obtain x os' where os: "os = x # os'" using ts by (cases os) simp_all
  have tx: "tn_tasks node x = Some t" and ts': "map (tn_tasks node) os' = map Some ts"
    using ts os by simp_all
  have xn: "x \<noteq> NULL" using tec_arena.live_not_NULL [OF live] os by auto
  obtain y ys where lay: "queue_layout (tn_q node) (y # ys)" "x = obj_at (q_heap (tn_q node)) y"
    "os' @ rest = map (obj_at (q_heap (tn_q node))) ys"
    using q os by (auto simp: queue_holds_def Cons_eq_map_conv)
  obtain q' where pop: "TecQueue_pop (tn_q node) = Inr (Some (x, q'))"
    and q': "queue_holds q' (os' @ rest)"
    and mc: "q_mtx q' = q_mtx (tn_q node)" "q_cv q' = q_cv (tn_q node)"
    using pop_layout [OF lay(1)] unfolding queue_holds_def lay(2,3) by metis
  obtain a M where rel: "TecArena_release (tn_arena node) (tn_mem node) x = Inr (a, M)"
    and live': "arena_live (a, M) (set os - {x})"
    using tec_arena.give_spec [OF live, of x] os by (auto simp: arena_give_def)
  let ?n = "node\<lparr>tn_q := q', tn_arena := a, tn_mem := M, tn_tasks := (tn_tasks node)(x := None)\<rparr>"
  have run: "task_func_pass pool node = Inr (Executed c, ?n)"
  proof (cases "task_func t = NULL")
    case True
    then show ?thesis using c xn tx rel by (simp add: task_func_pass_def pop runs_def)
  next
    case False
    then obtain call where "call_of pool t = Inr call" "c = Some call"
      using c by (auto simp: runs_def)
    then show ?thesis using False xn tx rel by (simp add: task_func_pass_def pop)
  qed
  have xd: "x \<notin> set os'" using d os by simp
  then have "map ((tn_tasks node)(x := None)) os' = map (tn_tasks node) os'"
    by (intro map_cong refl) auto
  moreover have "set os - {x} = set os'" using os xd by auto
  ultimately have "node_queue ?n ts rest"
    using q' d os live' ts' unfolding node_queue_def by (intro exI [of _ os']) simp
  moreover have "ar_lock a = ar_lock (tn_arena node)" using rel by (rule release_lock)
  ultimately show thesis using that [OF run] mc by simp
qed

lemma loop_runs:
  assumes "node_queue node ts [NULL]" and "list_all2 (runs pool) ts cs"
  obtains node' where "task_func_loop pool node acc
      = Some (Inr (acc @ concat (map (\<lambda>c. case c of None \<Rightarrow> [] | Some c \<Rightarrow> [c]) cs), node'))"
    and "node_queue node' [] []" and "tn_thr node' = tn_thr node"
    and "sig_value (tn_sig_terminated node') = 1"
    and "sig_mtx (tn_sig_terminated node') = sig_mtx (tn_sig_terminated node)"
    and "sig_cnd (tn_sig_terminated node') = sig_cnd (tn_sig_terminated node)"
    and "q_mtx (tn_q node') = q_mtx (tn_q node)" and "q_cv (tn_q node') = q_cv (tn_q node)"
    and "ar_lock (tn_arena node') = ar_lock (tn_arena node)"
  using assms
proof (induction ts arbitrary: node cs acc thesis)
  case Nil
  obtain os where q: "queue_holds (tn_q node) [NULL]" and os: "os = []"
    and live: "arena_live (tn_arena node, tn_mem node) (set os)"
    using Nil.prems(2) by (auto simp: node_queue_def)
  obtain y ys where lay: "queue_layout (tn_q node) (y # ys)" "NULL = obj_at (q_heap (tn_q node)) y"
    "[] = map (obj_at (q_heap (tn_q node))) ys"
    using q by (auto simp: queue_holds_def Cons_eq_map_conv)
  obtain q' where pop: "TecQueue_pop (tn_q node) = Inr (Some (NULL, q'))"
    and q': "queue_holds q' []"
    and mc: "q_mtx q' = q_mtx (tn_q node)" "q_cv q' = q_cv (tn_q node)"
    using pop_layout [OF lay(1)] unfolding queue_holds_def lay(2,3) by metis
  let ?n = "node\<lparr>tn_q := q', tn_sig_terminated := (tn_sig_terminated node)\<lparr>sig_value := 1\<rparr>\<rparr>"
  have pass: "task_func_pass pool node = Inr (Left_loop, node\<lparr>tn_q := q'\<rparr>)"
    using pop by (simp add: task_func_pass_def)
  have run: "task_func_loop pool node acc = Some (Inr (acc, ?n))"
    by (subst task_func_loop.simps) (simp add: pass TecSignal_set_def Let_def)
  have "node_queue ?n [] []" using q' live os unfolding node_queue_def by simp
  then show ?case using Nil.prems(1) [of ?n] Nil.prems(3) run mc by simp
next
  case (Cons t ts)
  obtain c cs' where cs: "cs = c # cs'" "runs pool t c" "list_all2 (runs pool) ts cs'"
    using Cons.prems(3) by (cases cs) auto
  obtain node1 where n1: "task_func_pass pool node = Inr (Executed c, node1)"
    "node_queue node1 ts [NULL]" "tn_thr node1 = tn_thr node"
    "tn_sig_terminated node1 = tn_sig_terminated node"
    "q_mtx (tn_q node1) = q_mtx (tn_q node)" "q_cv (tn_q node1) = q_cv (tn_q node)"
    "ar_lock (tn_arena node1) = ar_lock (tn_arena node)"
    using pass_runs [OF Cons.prems(2) cs(2)] by metis
  have loop: "task_func_loop pool node acc
      = task_func_loop pool node1 (acc @ (case c of None \<Rightarrow> [] | Some c \<Rightarrow> [c]))"
    by (subst task_func_loop.simps) (simp add: n1(1))
  obtain node2 where n2: "task_func_loop pool node1 (acc @ (case c of None \<Rightarrow> [] | Some c \<Rightarrow> [c]))
      = Some (Inr ((acc @ (case c of None \<Rightarrow> [] | Some c \<Rightarrow> [c]))
          @ concat (map (\<lambda>c. case c of None \<Rightarrow> [] | Some c \<Rightarrow> [c]) cs'), node2))"
    "node_queue node2 [] []" "tn_thr node2 = tn_thr node1"
    "sig_value (tn_sig_terminated node2) = 1"
    "sig_mtx (tn_sig_terminated node2) = sig_mtx (tn_sig_terminated node1)"
    "sig_cnd (tn_sig_terminated node2) = sig_cnd (tn_sig_terminated node1)"
    "q_mtx (tn_q node2) = q_mtx (tn_q node1)" "q_cv (tn_q node2) = q_cv (tn_q node1)"
    "ar_lock (tn_arena node2) = ar_lock (tn_arena node1)"
    by (rule Cons.IH [OF _ n1(2) cs(3)])
  show ?case
    by (rule Cons.prems(1) [of node2]) (use n2 n1 loop cs(1) in simp_all)
qed

section \<open>The pool: invariant\<close>

definition pool_ok :: "TecThrPool \<Rightarrow> TecTask list list \<Rightarrow> bool" where
  "pool_ok pool tss \<longleftrightarrow>
     length (tp_nodes pool) = unat (tp_nthreads pool) \<and> length tss = unat (tp_nthreads pool) \<and>
     (\<forall>i < unat (tp_nthreads pool). node_ok (tp_nodes pool ! i) (tss ! i)) \<and>
     (\<forall>b. tp_buffer_arena pool = Some b \<longrightarrow>
        length b = unat (tp_nthreads pool) * unat (tp_buffer_size pool)) \<and>
     (\<forall>b. tp_payload_arena pool = Some b \<longrightarrow>
        length b = unat (tp_nthreads pool) * unat (tp_payload_size pool))"

lemma next_index_bound:
  "tp_nthreads pool \<noteq> 0 \<Longrightarrow> next_index pool = Inr i \<Longrightarrow> i < unat (tp_nthreads pool)"
  by (auto simp: next_index_def u64_mod u64_eq_0)

lemma slice_fits:
  fixes i n s :: nat
  assumes "i < n"
  shows "i * s + s \<le> n * s"
proof -
  have "Suc i * s \<le> n * s" using assms by (intro mult_le_mono1) simp
  then show ?thesis by simp
qed

text \<open>The payload arena after a copy for the node \<open>i\<close>.\<close>

definition copied :: "TecThrPool \<Rightarrow> nat \<Rightarrow> u8 list option \<Rightarrow> u8 list option" where
  "copied pool i payload =
     (let n = unat (tp_payload_size pool)
      in case (payload, tp_payload_arena pool) of
           (Some s, Some d) \<Rightarrow> Some (overlay d (i * n) (take n s)) | _ \<Rightarrow> tp_payload_arena pool)"

lemma copied_None: "copied pool i payload = None \<longleftrightarrow> tp_payload_arena pool = None"
  by (auto simp: copied_def Let_def split: option.splits)

lemma copy_payload_ok:
  assumes i: "i < unat (tp_nthreads pool)"
    and pay: "\<forall>b. tp_payload_arena pool = Some b \<longrightarrow>
        length b = unat (tp_nthreads pool) * unat (tp_payload_size pool)"
    and src: "\<forall>s. payload = Some s \<longrightarrow> unat (tp_payload_size pool) \<le> length s"
  shows "copy_payload pool (task_for pool i func args) payload = Inr (copied pool i payload)"
    and "copied pool i payload = Some b \<Longrightarrow> length b = unat (tp_nthreads pool) * unat (tp_payload_size pool)"
proof -
  let ?n = "unat (tp_payload_size pool)"
  show "copy_payload pool (task_for pool i func args) payload = Inr (copied pool i payload)"
  proof (cases "payload = None \<or> tp_payload_arena pool = None")
    case True
    then show ?thesis by (auto simp: copy_payload_def copied_def task_for_def Let_def split: option.splits)
  next
    case False
    then obtain s d where s: "payload = Some s" and d: "tp_payload_arena pool = Some d" by auto
    have "mem_read (Some s) 0 ?n = Inr (take ?n s)" using src s by (simp add: mem_read_def)
    moreover have "i * ?n + ?n \<le> length d" using pay d slice_fits [OF i, of ?n] by simp
    then have "mem_write (Some d) (int (i * ?n)) (take ?n s) = Inr (Some (overlay d (i * ?n) (take ?n s)))"
      using src s by (subst mem_write_ok) (simp_all del: of_nat_mult)
    ultimately show ?thesis using s d by (simp add: copy_payload_def copied_def task_for_def Let_def)
  qed
  show "length b = unat (tp_nthreads pool) * ?n" if "copied pool i payload = Some b"
  proof (cases "payload = None \<or> tp_payload_arena pool = None")
    case True
    then show ?thesis using that pay by (auto simp: copied_def Let_def split: option.splits)
  next
    case False
    then obtain s d where s: "payload = Some s" and d: "tp_payload_arena pool = Some d" by auto
    have "i * ?n + ?n \<le> length d" using pay d slice_fits [OF i, of ?n] by simp
    then have "length (overlay d (i * ?n) (take ?n s)) = length d"
      using src s by (intro length_overlay) simp
    then show ?thesis using that s d pay by (simp add: copied_def Let_def)
  qed
qed

lemma allocate_NULL: "TecArena_allocate a M p = Inr (NULL, a', M') \<Longrightarrow> p = NULL"
  by (auto simp: TecArena_allocate_def bind_outcome_Inr_iff split: if_splits)

lemma enqueue_ok:
  assumes ok: "pool_ok pool tss" and idx: "next_index pool = Inr i" and nt: "tp_nthreads pool \<noteq> 0"
    and pt: "pt \<noteq> NULL" "arena_avail (tn_arena (tp_nodes pool ! i), tn_mem (tp_nodes pool ! i)) pt"
    and pq: "fresh_qnode (tn_q (tp_nodes pool ! i)) pq"
    and src: "\<forall>s. payload = Some s \<longrightarrow> unat (tp_payload_size pool) \<le> length s"
  defines "n \<equiv> unat (tp_payload_size pool)"
  obtains pool' where "TecThrPool_enqueue pool func payload args pt pq = Inr pool'"
    and "pool_ok pool' (tss[i := tss ! i @ [task_for pool i func args]])"
    and "tp_nthreads pool' = tp_nthreads pool" and "tp_payload_size pool' = tp_payload_size pool"
    and "tp_buffer_size pool' = tp_buffer_size pool" and "tp_buffer_arena pool' = tp_buffer_arena pool"
    and "tp_next_thread_index pool' = tp_next_thread_index pool + 1"
    and "tp_payload_arena pool' = (case (payload, tp_payload_arena pool) of
        (Some s, Some d) \<Rightarrow> Some (overlay d (i * n) (take n s)) | _ \<Rightarrow> tp_payload_arena pool)"
    and "\<And>j. j \<noteq> i \<Longrightarrow> tp_nodes pool' ! j = tp_nodes pool ! j"
proof -
  let ?node = "tp_nodes pool ! i"
  define t where "t = task_for pool i func args"
  have i: "i < unat (tp_nthreads pool)" using next_index_bound [OF nt idx] .
  have len: "length (tp_nodes pool) = unat (tp_nthreads pool)" "length tss = unat (tp_nthreads pool)"
    and nodes: "\<And>j. j < unat (tp_nthreads pool) \<Longrightarrow> node_ok (tp_nodes pool ! j) (tss ! j)"
    and pay: "\<And>b. tp_payload_arena pool = Some b \<Longrightarrow> length b = unat (tp_nthreads pool) * n"
    using ok by (simp_all add: pool_ok_def n_def)
  obtain task node1 where alloc: "TecTaskNode_allocate_task ?node pt = Inr (task, node1)"
    and q1: "tn_q node1 = tn_q ?node"
    and enq: "\<And>t pq. task \<noteq> NULL \<Longrightarrow> fresh_qnode (tn_q ?node) pq \<Longrightarrow>
      \<exists>node2. TecTaskNode_enqueue_task (node1\<lparr>tn_tasks := (tn_tasks node1)(task \<mapsto> t)\<rparr>) task pq
        = Inr node2 \<and> node_ok node2 (tss ! i @ [t])"
    using node_take [OF nodes [OF i] pt(2)] by metis
  have task: "task \<noteq> NULL"
  proof
    assume "task = NULL"
    then show False using alloc pt(1)
      by (auto simp: TecTaskNode_allocate_task_def bind_outcome_Inr_iff dest: allocate_NULL)
  qed
  obtain node2 where n2: "TecTaskNode_enqueue_task (node1\<lparr>tn_tasks := (tn_tasks node1)(task \<mapsto> t)\<rparr>)
      task pq = Inr node2" "node_ok node2 (tss ! i @ [t])"
    using enq [OF task pq] by blast
  define pays where "pays = (case (payload, tp_payload_arena pool) of
        (Some s, Some d) \<Rightarrow> Some (overlay d (i * n) (take n s)) | _ \<Rightarrow> tp_payload_arena pool)"
  then have pays: "pays = copied pool i payload" unfolding copied_def n_def Let_def .
  have "copy_payload pool t payload = Inr pays"
    using copy_payload_ok(1) [OF i] pay src by (simp add: t_def pays n_def)
  then have copy: "copy_payload (pool\<lparr>tp_next_thread_index := k\<rparr>) t payload = Inr pays" for k
    by (cases payload; cases "task_payload t") (simp_all add: copy_payload_def)
  let ?pool = "pool\<lparr>tp_next_thread_index := tp_next_thread_index pool + 1,
      tp_payload_arena := pays, tp_nodes := (tp_nodes pool)[i := node2]\<rparr>"
  have lt: "\<not> length (tp_nodes pool) \<le> i" using i len by simp
  have t: "task_for (pool\<lparr>tp_next_thread_index := k\<rparr>) i func args = t" for k
    by (simp add: t_def task_for_def)
  have run: "TecThrPool_enqueue pool func payload args pt pq = Inr ?pool"
    using lt task by (simp add: TecThrPool_enqueue_def idx Let_def alloc t copy n2(1))
  have "length b = unat (tp_nthreads pool) * n" if "pays = Some b" for b
    using copy_payload_ok(2) [OF i _ src, of b] pay that by (simp add: pays n_def)
  then have "pool_ok ?pool (tss[i := tss ! i @ [t]])"
    using ok nodes n2(2) i len by (auto simp: pool_ok_def n_def nth_list_update)
  then show thesis using that [OF run] by (simp add: pays_def t_def)
qed

section \<open>Creation\<close>

lemma node_init_ok:
  assumes nelems: "nelems \<noteq> 0" "unat nelems * 48 < 2 ^ 64" and rc: "rc = (\<lambda>_. 0)"
    and p: "calloc_fresh (tn_mem zero_node) p (unat nelems * 48)"
  obtains node where "TecTaskNode_init zero_node nelems rc p = Inr node" and "node_ok node []"
    and "thr_result (tn_thr node) = Some 22" and "tn_mem node = calloc (tn_mem zero_node) p (unat nelems * 48)"
    and "q_heap (tn_q node) = Map.empty" and "ar_elem_size (tn_arena node) = 48"
    and "mtx_result (q_mtx (tn_q node)) = Some 0" and "cv_result (q_cv (tn_q node)) = Some 0"
    and "mtx_result (sig_mtx (tn_sig_terminated node)) = Some 0"
    and "cv_result (sig_cnd (tn_sig_terminated node)) = Some 0"
    and "mtx_result (ar_lock (tn_arena node)) \<noteq> None"
proof -
  have u48: "unat sizeof_TecTask = 48" by (simp add: sizeof_TecTask_def)
  have "8 \<le> unat sizeof_TecTask" "unat nelems * unat sizeof_TecTask < 2 ^ 64"
    "calloc_fresh (tn_mem zero_node) p (unat nelems * unat sizeof_TecTask)"
    using nelems p unfolding u48 by simp_all
  from init_ok [OF this nelems(1), of "tn_arena zero_node"] obtain a M where
    a: "TecArena_init (tn_arena zero_node) (tn_mem zero_node) nelems sizeof_TecTask 0 p
      = Inr (True, a, M)" "arena_ok a M {} {}" "M = calloc (tn_mem zero_node) p (unat nelems * 48)"
      "ar_elem_size a = 48"
    unfolding u48 by (metis sizeof_TecTask_def)
  have lock: "mtx_result (ar_lock a) \<noteq> None"
    using a(1) nelems(1)
    by (auto simp: TecArena_init_def TecMutex_init_def TecMutex_ok_def read_field_def Let_def)
  let ?s = "(tn_sig_terminated zero_node)\<lparr>sig_value := 0, sig_mtx := \<lparr>mtx_result = Some 0\<rparr>,
      sig_cnd := \<lparr>cv_result = Some 0\<rparr>\<rparr>"
  let ?n = "zero_node\<lparr>tn_thr := TecThread_init (tn_thr zero_node),
      tn_q := snd (TecQueue_init (tn_q zero_node) 0 0), tn_arena := a, tn_mem := M,
      tn_sig_terminated := ?s\<rparr>"
  have sig: "TecSignal_init (tn_sig_terminated zero_node) 0 0 = Inr (True, [], ?s)"
    by (simp add: TecSignal_init_def TecMutex_init_def TecMutex_ok_def TecCV_init_def TecCV_ok_def
        read_field_def Let_def zero_node_def)
  have run: "TecTaskNode_init zero_node nelems rc p = Inr ?n"
    using a(1) sig by (simp add: TecTaskNode_init_def rc)
  have "queue_holds (tn_q ?n) []"
    using init_holds [of "tn_q zero_node" 0 0] by (simp add: zero_node_def)
  moreover have "arena_live (a, M) {}" using a(2) by (intro arena_liveI) simp_all
  ultimately have "node_ok ?n []" unfolding node_queue_def by simp
  then show thesis
    by (rule that [OF run])
      (use a lock in \<open>simp_all add: TecThread_init_def TecQueue_init_def TecMutex_init_def
        TecCV_init_def zero_node_def\<close>)
qed

lemma init_nodes_ok:
  assumes "nelems \<noteq> 0" "unat nelems * 48 < 2 ^ 64"
    and "\<forall>n \<in> set ns. calloc_fresh (tn_mem zero_node) (p n) (unat nelems * 48)"
  shows "\<exists>nodes. init_nodes nelems (\<lambda>_ _. 0) p ns = Inr nodes \<and> length nodes = length ns \<and>
     (\<forall>node \<in> set nodes. node_ok node [])"
  using assms(3)
proof (induction ns)
  case (Cons n ns)
  obtain node where "TecTaskNode_init zero_node nelems (\<lambda>_. 0) (p n) = Inr node" "node_ok node []"
    using node_init_ok [OF assms(1,2) refl, of "p n"] Cons.prems by auto
  moreover obtain nodes where "init_nodes nelems (\<lambda>_ _. 0) p ns = Inr nodes"
    "length nodes = length ns" "\<forall>node \<in> set nodes. node_ok node []"
    using Cons by auto
  ultimately show ?case by auto
qed simp

text \<open>
  When the platform's calls succeed, \<open>TecThrPool_init\<close> gives a pool whose
  nodes have no task, with one buffer and one payload slice per thread.
\<close>

theorem pool_init_ok:
  assumes "nelems \<noteq> 0" and "unat nelems * 48 < 2 ^ 64"
    and "\<forall>n < unat nthreads. calloc_fresh (tn_mem zero_node) (p n) (unat nelems * 48)"
  shows "\<exists>pool. TecThrPool_init nthreads bsize psize nelems (True, True, True) (\<lambda>_ _. 0) p = Inr pool \<and>
     pool_ok pool (replicate (unat nthreads) []) \<and> tp_next_thread_index pool = 0"
proof -
  obtain nodes where n: "init_nodes nelems (\<lambda>_ _. 0) p [0 ..< unat nthreads] = Inr nodes"
    "length nodes = unat nthreads" "\<forall>node \<in> set nodes. node_ok node []"
    using init_nodes_ok [OF assms(1,2), of "[0 ..< unat nthreads]" p] assms(3) by auto
  then show ?thesis by (auto simp: TecThrPool_init_def pool_ok_def Let_def)
qed

theorem pool_init_ok_witness:
  "\<exists>pool. TecThrPool_init 2 8 4 4 (True, True, True) (\<lambda>_ _. 0) (\<lambda>n. 4096 * Suc n) = Inr pool \<and>
     pool_ok pool [[], []] \<and> tp_next_thread_index pool = 0"
  using pool_init_ok [of 4 2 "\<lambda>n. 4096 * Suc n" 8 4]
  by (simp add: zero_node_def calloc_fresh_def replicate_2)

section \<open>Properties\<close>

text \<open>
  On a pool whose allocations succeed, \<open>TecThrPool_enqueue\<close> puts one task
  with the given function and arguments at the end of the queue of one node, the node the
  index names, and leaves the tasks of all other nodes alone.
\<close>

theorem enqueue_appends:
  assumes "pool_ok pool tss" and "next_index pool = Inr i" and "tp_nthreads pool \<noteq> 0"
    and "pt \<noteq> NULL" and "arena_avail (tn_arena (tp_nodes pool ! i), tn_mem (tp_nodes pool ! i)) pt"
    and "fresh_qnode (tn_q (tp_nodes pool ! i)) pq"
    and "\<forall>s. payload = Some s \<longrightarrow> unat (tp_payload_size pool) \<le> length s"
  shows "\<exists>pool' t. TecThrPool_enqueue pool func payload args pt pq = Inr pool' \<and>
     pool_ok pool' (tss[i := tss ! i @ [t]]) \<and> task_func t = func \<and> task_args t = args \<and>
     tp_next_thread_index pool' = tp_next_thread_index pool + 1"
proof -
  obtain pool' where "TecThrPool_enqueue pool func payload args pt pq = Inr pool'"
    "pool_ok pool' (tss[i := tss ! i @ [task_for pool i func args]])"
    "tp_next_thread_index pool' = tp_next_thread_index pool + 1"
    using enqueue_ok [OF assms] by metis
  then show ?thesis
    by (intro exI [of _ pool'] exI [of _ "task_for pool i func args"]) (simp add: task_for_def)
qed

text \<open>A pool of one thread, with a 2-byte payload slice and an 8-byte buffer.\<close>

definition one_thread_pool :: "TecThrPool \<Rightarrow> bool" where
  "one_thread_pool pool \<longleftrightarrow> pool_ok pool [[]] \<and> tp_nthreads pool = 1 \<and>
     tp_payload_size pool = 2 \<and> tp_payload_arena pool = Some [0, 0] \<and>
     tp_buffer_size pool = 8 \<and> tp_buffer_arena pool = Some (replicate 8 0) \<and>
     tp_next_thread_index pool = 0 \<and> length (tp_nodes pool) = 1 \<and>
     q_heap (tn_q (tp_nodes pool ! 0)) = Map.empty \<and>
     mem_blocks (tn_mem (tp_nodes pool ! 0)) = [4096 \<mapsto> 192] \<and>
     ar_elem_size (tn_arena (tp_nodes pool ! 0)) = 48 \<and>
     next_index pool = Inr 0"

lemma one_thread_pool_exists:
  "\<exists>pool. TecThrPool_init 1 8 2 4 (True, True, True) (\<lambda>_ _. 0) (\<lambda>n. 4096) = Inr pool \<and>
     one_thread_pool pool"
proof -
  obtain node where n: "TecTaskNode_init zero_node 4 (\<lambda>_. 0) 4096 = Inr node" "node_ok node []"
    "tn_mem node = calloc (tn_mem zero_node) 4096 (unat (4 :: u64) * 48)"
    "q_heap (tn_q node) = Map.empty" "ar_elem_size (tn_arena node) = 48"
    using node_init_ok [of 4 "\<lambda>_. 0" 4096] by (auto simp: zero_node_def calloc_fresh_def)
  have "[0 ..< unat (1 :: u64)] = [0]" by simp
  then show ?thesis
    using n
    by (auto simp: TecThrPool_init_def one_thread_pool_def pool_ok_def next_index_def calloc_def
        zero_node_def Let_def replicate_2)
qed

lemma one_thread_enqueue:
  assumes "one_thread_pool pool"
  shows "pool_ok pool [[]]" "next_index pool = Inr 0" "tp_nthreads pool \<noteq> 0" "(65536 :: ptr) \<noteq> NULL"
    "arena_avail (tn_arena (tp_nodes pool ! 0), tn_mem (tp_nodes pool ! 0)) 65536"
    "fresh_qnode (tn_q (tp_nodes pool ! 0)) 8"
  using assms
  by (simp_all add: one_thread_pool_def arena_avail_def calloc_fresh_def fresh_qnode_def)

theorem enqueue_appends_witness:
  "\<exists>pool pool' t. TecThrPool_init 1 8 2 4 (True, True, True) (\<lambda>_ _. 0) (\<lambda>n. 4096) = Inr pool \<and>
     TecThrPool_enqueue pool 7 (Some [65, 66]) 9 65536 8 = Inr pool' \<and>
     pool_ok pool' [[t]] \<and> task_func t = 7 \<and> task_args t = 9"
proof -
  obtain pool where p: "TecThrPool_init 1 8 2 4 (True, True, True) (\<lambda>_ _. 0) (\<lambda>n. 4096) = Inr pool"
    "one_thread_pool pool" using one_thread_pool_exists by blast
  have "\<forall>s. Some [65, 66 :: u8] = Some s \<longrightarrow> unat (tp_payload_size pool) \<le> length s"
    using p(2) by (simp add: one_thread_pool_def)
  from enqueue_appends [OF one_thread_enqueue [OF p(2)] this, of 7 9] p(1)
  show ?thesis by auto
qed

lemma next_index_rotates:
  assumes "tp_nthreads pool \<noteq> 0"
  shows "\<exists>i. next_index pool = Inr i \<and> i < unat (tp_nthreads pool) \<and>
     (unat (tp_next_thread_index pool) < 2 ^ 31 \<longrightarrow>
       i = unat (tp_next_thread_index pool) mod unat (tp_nthreads pool))"
proof -
  define c where "c = (scast (tp_next_thread_index pool) :: u64)"
  have eq: "next_index pool = Inr (unat (c mod tp_nthreads pool))"
    using assms by (simp add: next_index_def c_def)
  moreover have "unat (c mod tp_nthreads pool) < unat (tp_nthreads pool)"
    by (rule next_index_bound [OF assms eq])
  moreover have "unat (c mod tp_nthreads pool) = unat c mod unat (tp_nthreads pool)"
    by (rule u64_mod)
  moreover have "unat (tp_next_thread_index pool) < 2 ^ 31 \<Longrightarrow>
      unat c = unat (tp_next_thread_index pool)"
    unfolding c_def by (rule scast_nonneg)
  ultimately show ?thesis by metis
qed



text \<open>The monitors of a node are initialised.\<close>

definition node_made :: "TecTaskNode \<Rightarrow> bool" where
  "node_made node \<longleftrightarrow>
     mtx_result (q_mtx (tn_q node)) = Some 0 \<and> cv_result (q_cv (tn_q node)) = Some 0 \<and>
     mtx_result (sig_mtx (tn_sig_terminated node)) = Some 0 \<and>
     cv_result (sig_cnd (tn_sig_terminated node)) = Some 0 \<and>
     mtx_result (ar_lock (tn_arena node)) \<noteq> None"

lemma node_freed:
  assumes q: "queue_holds (tn_q node) os" and al: "arena_live (tn_arena node, tn_mem node) X"
    and made: "node_made node"
  shows "\<exists>qcs q acs M scs sg. TecQueue_done (tn_q node) 0 = Inr (qcs, q) \<and> q_heap q = Map.empty \<and>
     TecArena_done (tn_arena node) (tn_mem node) = Inr (acs, (tn_arena node)\<lparr>ar_buf := NULL\<rparr>, M) \<and>
     TecSignal_done (tn_sig_terminated node) 0 = Inr (scs, sg)"
proof -
  obtain qd where "TecQueue_done (tn_q node) 0 = Inr ([Lock 0, Unlock, Destroy_mutex, Destroy_cv], qd)"
    "q_heap qd = Map.empty"
    using done_empties [OF q] made by (auto simp: node_made_def)
  moreover obtain L HL where "arena_ok (tn_arena node) (tn_mem node) L HL"
    using al by (auto simp: arena_live_def)
  then have "ar_buf (tn_arena node) \<noteq> NULL \<Longrightarrow> mem_blocks (tn_mem node) (ar_buf (tn_arena node)) \<noteq> None"
    by (auto simp: arena_ok_def block_ok_def)
  then have "\<exists>M. (if ar_buf (tn_arena node) \<noteq> NULL then free (tn_mem node) (ar_buf (tn_arena node))
      else Inr (tn_mem node)) = Inr M"
    by (cases "ar_buf (tn_arena node) = NULL") (auto simp: free_def)
  moreover have "\<exists>csa. TecMutex_destroy (ar_lock (tn_arena node)) = Inr csa"
    using made by (auto simp: node_made_def TecMutex_destroy_def TecMutex_ok_def read_field_def)
  ultimately show ?thesis
    using made
    by (force simp: node_made_def TecArena_done_def TecSignal_done_def TecCV_destroy_def TecCV_ok_def
        TecMutex_destroy_def TecMutex_ok_def read_field_def)
qed

lemma node_done_runs:
  assumes ok: "node_ok node ts" and runs: "list_all2 (runs pool) ts cs"
    and thr: "thr_result (tn_thr node) = Some 0"
    and p: "fresh_qnode (tn_q node) p" and made: "node_made node"
  shows "\<exists>node'. TecTaskNode_done pool node p
      = Inr (concat (map (\<lambda>c. case c of None \<Rightarrow> [] | Some c \<Rightarrow> [c]) cs), [thr_t (tn_thr node)], node') \<and>
     q_heap (tn_q node') = Map.empty \<and> ar_buf (tn_arena node') = NULL"
proof -
  obtain os where os: "queue_holds (tn_q node) os" "distinct os"
    "arena_live (tn_arena node, tn_mem node) (set os)" "map (tn_tasks node) os = map Some ts"
    using ok by (auto simp: node_queue_def)
  obtain q' where q': "TecQueue_push (tn_q node) NULL p = Inr q'" "queue_holds q' (os @ [NULL])"
    using tec_queue.enq_spec [OF os(1) p] by blast
  have qm: "q_mtx q' = q_mtx (tn_q node)" "q_cv q' = q_cv (tn_q node)"
    using push_monitor [OF q'(1)] by simp_all
  let ?n1 = "node\<lparr>tn_q := q'\<rparr>"
  have "node_queue ?n1 ts [NULL]" using os(2-4) q'(2) unfolding node_queue_def by auto
  from loop_runs [OF this runs, of "[]"] obtain n2 where
    loop: "task_func_loop pool ?n1 []
      = Some (Inr (concat (map (\<lambda>c. case c of None \<Rightarrow> [] | Some c \<Rightarrow> [c]) cs), n2))"
    and n2: "node_queue n2 [] []" "tn_thr n2 = tn_thr node"
      "sig_mtx (tn_sig_terminated n2) = sig_mtx (tn_sig_terminated node)"
      "sig_cnd (tn_sig_terminated n2) = sig_cnd (tn_sig_terminated node)"
      "q_mtx (tn_q n2) = q_mtx q'" "q_cv (tn_q n2) = q_cv q'"
      "ar_lock (tn_arena n2) = ar_lock (tn_arena node)"
    and n2v: "sig_value (tn_sig_terminated n2) = 1"
    by auto
  have qh: "queue_holds (tn_q n2) []" and al: "arena_live (tn_arena n2, tn_mem n2) {}"
    using n2(1) by (auto simp: node_queue_def)
  have "node_made n2" using made n2(3-7) qm by (simp add: node_made_def)
  from node_freed [OF qh al this] obtain qcs qd acs M scs sg where
    qd: "TecQueue_done (tn_q n2) 0 = Inr (qcs, qd)" "q_heap qd = Map.empty"
    and ad: "TecArena_done (tn_arena n2) (tn_mem n2) = Inr (acs, (tn_arena n2)\<lparr>ar_buf := NULL\<rparr>, M)"
    and sd: "TecSignal_done (tn_sig_terminated n2) 0 = Inr (scs, sg)" by blast
  have join: "TecThread_join (tn_thr node)
      = Inr ([thr_t (tn_thr node)], (tn_thr node)\<lparr>thr_result := Some 22\<rparr>)"
    using thr by (simp add: TecThread_join_def TecThread_ok_def read_field_def)
  show ?thesis
    using thr q'(1) loop n2(2) n2v join qd ad sd
    by (simp add: TecTaskNode_done_def TecThread_ok_def read_field_def TecTaskNode_enqueue_task_def
        TecSignal_wait_def)
qed

text \<open>
  C#done_runs_all_tasks: \<open>TecTaskNode_done\<close> lets the thread run every task queued at its node,
  in the order they were queued, before it joins the thread (once) and frees the queue and
  the arena.
\<close>

theorem done_runs_all_tasks:
  assumes ok: "node_ok node ts" and runs: "list_all2 (runs pool) ts cs"
    and thr: "thr_result (tn_thr node) = Some 0"
    and p: "fresh_qnode (tn_q node) p"
    and q: "mtx_result (q_mtx (tn_q node)) = Some 0" "cv_result (q_cv (tn_q node)) = Some 0"
    and s: "mtx_result (sig_mtx (tn_sig_terminated node)) = Some 0"
      "cv_result (sig_cnd (tn_sig_terminated node)) = Some 0"
    and a: "mtx_result (ar_lock (tn_arena node)) \<noteq> None"
  shows "\<exists>node'. TecTaskNode_done pool node p
      = Inr (concat (map (\<lambda>c. case c of None \<Rightarrow> [] | Some c \<Rightarrow> [c]) cs), [thr_t (tn_thr node)], node') \<and>
     q_heap (tn_q node') = Map.empty \<and> ar_buf (tn_arena node') = NULL"
  using ok runs thr p q s a by (intro node_done_runs) (simp_all add: node_made_def)

definition idle_pool :: TecThrPool where
  "idle_pool = \<lparr>tp_nthreads = 1, tp_nodes = [], tp_next_thread_index = 0, tp_buffer_size = 0,
     tp_buffer_arena = None, tp_payload_size = 0, tp_payload_arena = None\<rparr>"

definition plain_task :: TecTask where
  "plain_task = \<lparr>task_buffer = None, task_buffer_size = 0, task_payload = None, task_args = 9,
     task_func = 7\<rparr>"

definition plain_call :: task_call where
  "plain_call = \<lparr>call_func = 7, call_payload = None,
     call_buf = \<lparr>buf_data = None, buf_pos = 0, buf_size = 0, buf_capacity = 0, buf_block_size = 0\<rparr>,
     call_args = 9\<rparr>"

theorem done_runs_all_tasks_witness:
  "\<exists>node0 node task node1 node2. TecTaskNode_init zero_node 4 (\<lambda>_. 0) 4096 = Inr node0 \<and>
     TecTaskNode_run node0 0 77 = Inr (True, node) \<and>
     TecTaskNode_allocate_task node 65536 = Inr (task, node1) \<and>
     TecTaskNode_enqueue_task (node1\<lparr>tn_tasks := (tn_tasks node1)(task \<mapsto> plain_task)\<rparr>) task 8 = Inr node2 \<and>
     (\<exists>node'. TecTaskNode_done idle_pool node2 16 = Inr ([plain_call], [77], node'))"
proof -
  obtain node0 where n0: "TecTaskNode_init zero_node 4 (\<lambda>_. 0) 4096 = Inr node0" "node_ok node0 []"
    "q_heap (tn_q node0) = Map.empty"
    "mem_blocks (tn_mem node0) = [4096 \<mapsto> 192]" "esize (tn_arena node0) = 48"
    "mtx_result (q_mtx (tn_q node0)) = Some 0" "cv_result (q_cv (tn_q node0)) = Some 0"
    "mtx_result (sig_mtx (tn_sig_terminated node0)) = Some 0"
    "cv_result (sig_cnd (tn_sig_terminated node0)) = Some 0"
    "mtx_result (ar_lock (tn_arena node0)) \<noteq> None"
  proof -
    have "calloc_fresh (tn_mem zero_node) 4096 (unat (4 :: u64) * 48)"
      by (simp add: zero_node_def calloc_fresh_def)
    with node_init_ok [of 4 "\<lambda>_. 0" 4096] that show thesis
      by (force simp: calloc_def zero_node_def)
  qed
  define node where "node = node0\<lparr>tn_thr := TecThread_create (tn_thr node0) 0 77\<rparr>"
  have run: "TecTaskNode_run node0 0 77 = Inr (True, node)"
    by (simp add: TecTaskNode_run_def TecThread_create_def TecThread_ok_def read_field_def node_def)
  have ok: "node_ok node []" using n0(2) by (simp add: node_queue_def node_def)
  have "arena_avail (tn_arena node, tn_mem node) 65536" "fresh_qnode (tn_q node) 8"
    using n0(3-5) by (simp_all add: arena_avail_def calloc_fresh_def fresh_qnode_def node_def)
  note free = this
  obtain task node1 where
    a: "TecTaskNode_allocate_task node 65536 = Inr (task, node1)" "tn_q node1 = tn_q node"
      "tn_thr node1 = tn_thr node" "tn_sig_terminated node1 = tn_sig_terminated node"
    and enq: "\<And>t pq. task \<noteq> NULL \<Longrightarrow> fresh_qnode (tn_q node) pq \<Longrightarrow>
      \<exists>node2. TecTaskNode_enqueue_task (node1\<lparr>tn_tasks := (tn_tasks node1)(task \<mapsto> t)\<rparr>) task pq
        = Inr node2 \<and> node_ok node2 ([] @ [t])"
    using node_take [OF ok free(1)] by metis
  have task: "task \<noteq> NULL"
  proof
    assume "task = NULL"
    then show False
      using a(1) by (auto simp: TecTaskNode_allocate_task_def bind_outcome_Inr_iff dest: allocate_NULL)
  qed
  from enq [OF task free(2), of plain_task] obtain node2 where
    e: "TecTaskNode_enqueue_task (node1\<lparr>tn_tasks := (tn_tasks node1)(task \<mapsto> plain_task)\<rparr>) task 8
      = Inr node2" "node_ok node2 [plain_task]" by auto
  have lock: "ar_lock (tn_arena node1) = ar_lock (tn_arena node)"
    using a(1)
    by (auto simp: TecTaskNode_allocate_task_def TecArena_allocate_def bind_outcome_Inr_iff Let_def
        split: if_splits)
  have n2: "q_mtx (tn_q node2) = q_mtx (tn_q node)" "q_cv (tn_q node2) = q_cv (tn_q node)"
    "q_heap (tn_q node2) 16 = None" "tn_thr node2 = tn_thr node1" "tn_arena node2 = tn_arena node1"
    "tn_sig_terminated node2 = tn_sig_terminated node1"
    using e(1) a(2) n0(3)
    by (auto simp: TecTaskNode_enqueue_task_def TecQueue_push_def qnode_at_def bind_outcome_Inr_iff
        node_def Let_def split: if_splits option.splits)
  have "list_all2 (runs idle_pool) [plain_task] [Some plain_call]"
    by (simp add: runs_def call_of_def slice_def idle_pool_def plain_task_def plain_call_def)
  from done_runs_all_tasks [OF e(2) this, of 16]
  have "\<exists>node'. TecTaskNode_done idle_pool node2 16 = Inr ([plain_call], [77], node')"
    using n2 a(3,4) lock n0 by (auto simp: node_def TecThread_create_def fresh_qnode_def)
  then show ?thesis using n0(1) run a(1) e(1) by blast
qed

text \<open>What a task takes from the heap at its node: at most the two blocks offered.\<close>

lemma enqueue_blocks:
  assumes run: "TecThrPool_enqueue pool func payload args pt pq = Inr pool'"
    and idx: "next_index pool = Inr i"
  shows "mem_blocks (tn_mem (tp_nodes pool' ! i)) b = Some n \<Longrightarrow>
      mem_blocks (tn_mem (tp_nodes pool ! i)) b = Some n \<or>
      b = pt \<and> n = esize (tn_arena (tp_nodes pool ! i))"
    and "q_heap (tn_q (tp_nodes pool' ! i)) x \<noteq> None \<Longrightarrow>
      x = pq \<or> q_heap (tn_q (tp_nodes pool ! i)) x \<noteq> None"
    and "esize (tn_arena (tp_nodes pool' ! i)) = esize (tn_arena (tp_nodes pool ! i))"
proof -
  let ?node = "tp_nodes pool ! i"
  obtain task a M pays q where i: "\<not> length (tp_nodes pool) \<le> i"
    and al: "TecArena_allocate (tn_arena ?node) (tn_mem ?node) pt = Inr (task, a, M)"
    and q: "TecQueue_push (tn_q ?node) task pq = Inr q"
    and node: "tn_mem (tp_nodes pool' ! i) = M" "tn_q (tp_nodes pool' ! i) = q"
      "tn_arena (tp_nodes pool' ! i) = a"
    using run idx
    by (auto simp: TecThrPool_enqueue_def TecTaskNode_allocate_task_def TecTaskNode_enqueue_task_def
        bind_outcome_Inr_iff Let_def split: if_splits)
  show "mem_blocks (tn_mem (tp_nodes pool' ! i)) b = Some n \<Longrightarrow>
      mem_blocks (tn_mem ?node) b = Some n \<or> b = pt \<and> n = esize (tn_arena ?node)"
    using al unfolding node
    by (auto simp: TecArena_allocate_def calloc_def store_def bind_outcome_Inr_iff Let_def
        split: if_splits)
  show "q_heap (tn_q (tp_nodes pool' ! i)) x \<noteq> None \<Longrightarrow>
      x = pq \<or> q_heap (tn_q ?node) x \<noteq> None"
    using q unfolding node
    by (auto simp: TecQueue_push_def qnode_at_def bind_outcome_Inr_iff Let_def split: if_splits option.splits)
  show "esize (tn_arena (tp_nodes pool' ! i)) = esize (tn_arena ?node)"
    using al unfolding node
    by (auto simp: TecArena_allocate_def bind_outcome_Inr_iff Let_def split: if_splits)
qed

lemma second_task_overwrites:
  assumes ok: "pool_ok pool [ts]" and nt: "tp_nthreads pool = 1"
    and pay: "tp_payload_arena pool \<noteq> None"
    and s: "length s1 = unat (tp_payload_size pool)" "length s2 = unat (tp_payload_size pool)"
    and h1: "pt1 \<noteq> NULL" "arena_avail (tn_arena (tp_nodes pool ! 0), tn_mem (tp_nodes pool ! 0)) pt1"
      "fresh_qnode (tn_q (tp_nodes pool ! 0)) pq1"
    and run: "TecThrPool_enqueue pool f1 (Some s1) a1 pt1 pq1 = Inr pool1"
    and h2: "pt2 \<noteq> NULL" "arena_avail (tn_arena (tp_nodes pool1 ! 0), tn_mem (tp_nodes pool1 ! 0)) pt2"
      "fresh_qnode (tn_q (tp_nodes pool1 ! 0)) pq2"
  shows "\<exists>pool2 t1 t2 c1 c2. TecThrPool_enqueue pool1 f2 (Some s2) a2 pt2 pq2 = Inr pool2 \<and>
     pool_ok pool2 [ts @ [t1, t2]] \<and> call_of pool2 t1 = Inr c1 \<and> call_of pool2 t2 = Inr c2 \<and>
     call_func c1 = f1 \<and> call_func c2 = f2 \<and>
     call_payload c1 = Some s2 \<and> call_payload c2 = Some s2"
proof -
  let ?n = "unat (tp_payload_size pool)"
  have idx: "next_index p = Inr 0" if "tp_nthreads p = 1" for p
    using that by (simp add: next_index_def u64_mod)
  have "unat (1 :: u64) = 1" by simp
  have le: "\<forall>s. Some s1 = Some s \<longrightarrow> unat (tp_payload_size pool) \<le> length s" using s by simp
  obtain d where d: "tp_payload_arena pool = Some d" using pay by auto
  have ld: "length d = ?n" using ok nt d by (simp add: pool_ok_def)
  let ?t1 = "task_for pool 0 f1 a1" and ?t2 = "task_for pool1 0 f2 a2"
  have p1: "pool_ok pool1 [ts @ [?t1]]" "tp_nthreads pool1 = 1"
    "tp_payload_size pool1 = tp_payload_size pool" "tp_buffer_size pool1 = tp_buffer_size pool"
    "tp_buffer_arena pool1 = tp_buffer_arena pool" "tp_payload_arena pool1 = Some s1"
    using enqueue_ok [OF ok idx [OF nt] _ h1 le, of f1 a1] run nt s ld
    by (auto simp: d overlay_whole)
  have le: "\<forall>s. Some s2 = Some s \<longrightarrow> unat (tp_payload_size pool1) \<le> length s"
    using s p1(3) by simp
  obtain pool2 where p2: "TecThrPool_enqueue pool1 f2 (Some s2) a2 pt2 pq2 = Inr pool2"
    "pool_ok pool2 [ts @ [?t1, ?t2]]" "tp_payload_size pool2 = tp_payload_size pool"
    "tp_buffer_size pool2 = tp_buffer_size pool" "tp_buffer_arena pool2 = tp_buffer_arena pool"
    "tp_payload_arena pool2 = Some s2" "tp_nthreads pool2 = 1"
    using enqueue_ok [OF p1(1) idx [OF p1(2)] _ h2 le, of f2 a2] p1 s
    by (auto simp: overlay_whole)
  have buf: "\<exists>bs. slice (tp_buffer_arena pool2) (task_buffer t) (task_buffer_size t) = Inr bs"
    if "t = ?t1 \<or> t = ?t2" for t
    using that p2(2,4,5,7) p1(4,5)
    by (auto simp: slice_def task_for_def mem_read_def pool_ok_def)
  have pl: "slice (tp_payload_arena pool2) (task_payload t) (tp_payload_size pool2) = Inr (Some s2)"
    if "t = ?t1 \<or> t = ?t2" for t
    using that p2(3,6) p1(6) d s by (auto simp: slice_def task_for_def mem_read_def)
  have call: "\<exists>c. call_of pool2 t = Inr c \<and> call_func c = task_func t \<and> call_payload c = Some s2"
    if "t = ?t1 \<or> t = ?t2" for t
    using buf [OF that] pl [OF that] by (auto simp: call_of_def)
  obtain c1 c2 where "call_of pool2 ?t1 = Inr c1 \<and> call_func c1 = f1 \<and> call_payload c1 = Some s2"
    "call_of pool2 ?t2 = Inr c2 \<and> call_func c2 = f2 \<and> call_payload c2 = Some s2"
    using call [of ?t1] call [of ?t2] by (auto simp: task_for_def)
  with p2(1,2) show ?thesis by blast
qed

text \<open>
  The payload slice belongs to the thread, not to the task: when a
  second task goes to the same thread before the first one ran, the first task runs with the
  payload of the second.
\<close>

theorem payload_overwritten:
  assumes ok: "pool_ok pool [ts]" and nt: "tp_nthreads pool = 1"
    and pay: "tp_payload_arena pool \<noteq> None"
    and s: "length s1 = unat (tp_payload_size pool)" "length s2 = unat (tp_payload_size pool)"
    and h1: "pt1 \<noteq> NULL" "arena_avail (tn_arena (tp_nodes pool ! 0), tn_mem (tp_nodes pool ! 0)) pt1"
      "fresh_qnode (tn_q (tp_nodes pool ! 0)) pq1"
    and run: "TecThrPool_enqueue pool f1 (Some s1) a1 pt1 pq1 = Inr pool1"
    and h2: "pt2 \<noteq> NULL" "arena_avail (tn_arena (tp_nodes pool1 ! 0), tn_mem (tp_nodes pool1 ! 0)) pt2"
      "fresh_qnode (tn_q (tp_nodes pool1 ! 0)) pq2"
  shows "\<exists>pool2 t1 t2 c1 c2. TecThrPool_enqueue pool1 f2 (Some s2) a2 pt2 pq2 = Inr pool2 \<and>
     pool_ok pool2 [ts @ [t1, t2]] \<and> call_of pool2 t1 = Inr c1 \<and> call_of pool2 t2 = Inr c2 \<and>
     call_func c1 = f1 \<and> call_func c2 = f2 \<and>
     call_payload c1 = Some s2 \<and> call_payload c2 = Some s2"
  using assms by (rule second_task_overwrites)

lemma room_for_second:
  assumes one: "one_thread_pool pool" and run: "TecThrPool_enqueue pool f payload a 65536 8 = Inr pool1"
  shows "arena_avail (tn_arena (tp_nodes pool1 ! 0), tn_mem (tp_nodes pool1 ! 0)) 131072 \<and>
    fresh_qnode (tn_q (tp_nodes pool1 ! 0)) 16"
proof
  have f: "esize (tn_arena (tp_nodes pool ! 0)) = 48"
    "mem_blocks (tn_mem (tp_nodes pool ! 0)) = [4096 \<mapsto> 192]"
    "q_heap (tn_q (tp_nodes pool ! 0)) = Map.empty" "next_index pool = Inr 0"
    using one by (simp_all add: one_thread_pool_def)
  note b = enqueue_blocks [OF run f(4)]
  show "arena_avail (tn_arena (tp_nodes pool1 ! 0), tn_mem (tp_nodes pool1 ! 0)) 131072"
  proof -
    have m: "mem_blocks (tn_mem (tp_nodes pool1 ! 0)) x = Some n \<Longrightarrow>
        x = 4096 \<and> n = 192 \<or> x = 65536 \<and> n = 48" for x n
      using b(1) f(1,2) by (fastforce split: if_splits)
    have "mem_blocks (tn_mem (tp_nodes pool1 ! 0)) 131072 = None"
      using m [of 131072] by (cases "mem_blocks (tn_mem (tp_nodes pool1 ! 0)) 131072") auto
    then show ?thesis using m b(3) f(1) by (fastforce simp: arena_avail_def calloc_fresh_def)
  qed
  show "fresh_qnode (tn_q (tp_nodes pool1 ! 0)) 16"
    using b(2) [of 16] f(3)
    by (cases "q_heap (tn_q (tp_nodes pool1 ! 0)) 16") (simp_all add: fresh_qnode_def)
qed

theorem payload_overwritten_witness:
  "\<exists>pool pool1 pool2 t1 t2 c1 c2.
     TecThrPool_init 1 8 2 4 (True, True, True) (\<lambda>_ _. 0) (\<lambda>n. 4096) = Inr pool \<and>
     TecThrPool_enqueue pool 7 (Some [65, 66]) 9 65536 8 = Inr pool1 \<and>
     TecThrPool_enqueue pool1 7 (Some [67, 68]) 9 131072 16 = Inr pool2 \<and>
     pool_ok pool2 [[t1, t2]] \<and> call_of pool2 t1 = Inr c1 \<and> call_payload c1 = Some [67, 68]"
proof -
  obtain pool where p: "TecThrPool_init 1 8 2 4 (True, True, True) (\<lambda>_ _. 0) (\<lambda>n. 4096) = Inr pool"
    "one_thread_pool pool" using one_thread_pool_exists by blast
  have f: "tp_payload_size pool = 2" "tp_nthreads pool = 1" "tp_payload_arena pool \<noteq> None"
    using p(2) by (simp_all add: one_thread_pool_def)
  have l: "length [65, 66 :: u8] = unat (tp_payload_size pool)"
    "length [67, 68 :: u8] = unat (tp_payload_size pool)" using f by simp_all
  have "\<forall>s. Some [65, 66 :: u8] = Some s \<longrightarrow> unat (tp_payload_size pool) \<le> length s"
    using f by simp
  from enqueue_ok [OF one_thread_enqueue [OF p(2)] this, of 7 9] obtain pool1 where
    p1: "TecThrPool_enqueue pool 7 (Some [65, 66]) 9 65536 8 = Inr pool1" by blast
  have "arena_avail (tn_arena (tp_nodes pool1 ! 0), tn_mem (tp_nodes pool1 ! 0)) 131072"
    "fresh_qnode (tn_q (tp_nodes pool1 ! 0)) 16" using room_for_second [OF p(2) p1] by blast+
  then obtain pool2 t1 t2 c1 c2 where
    "TecThrPool_enqueue pool1 7 (Some [67, 68]) 9 131072 16 = Inr pool2"
    "pool_ok pool2 [[] @ [t1, t2]]" "call_of pool2 t1 = Inr c1" "call_payload c1 = Some [67, 68]"
    using payload_overwritten [OF one_thread_enqueue(1) [OF p(2)] f(2,3) l
        one_thread_enqueue(4-6) [OF p(2)] p1, of 131072 16 7 9] by auto
  with p(1) p1 show ?thesis by auto
qed

text \<open>
  The buffer a task function gets has no block size: a write past
  its end divides by zero, and a task of a pool without buffers that writes at all goes
  through a null pointer.
\<close>

theorem task_buffer_cannot_grow:
  assumes call: "call_of pool t = Inr c" and len: "task_buffer_size t < len" "unat len \<le> length src"
    and none: "task_buffer_size t = 0 \<longrightarrow> task_buffer t = None"
  shows "TecBuffer_write env (call_buf c) src len
    = Inl (if task_buffer_size t = 0 then Null_deref else Div_by_zero)"
proof -
  obtain bs where b: "slice (tp_buffer_arena pool) (task_buffer t) (task_buffer_size t) = Inr bs"
    "call_buf c = \<lparr>buf_data = bs, buf_pos = 0, buf_size = task_buffer_size t,
       buf_capacity = task_buffer_size t, buf_block_size = 0\<rparr>"
    using call by (auto simp: call_of_def bind_outcome_Inr_iff)
  have lt: "\<not> len \<le> task_buffer_size t" using len(1) by simp
  have "len \<noteq> 0" using len(1) by auto
  show ?thesis
  proof (cases "task_buffer_size t = 0")
    case True
    then have "bs = None" using none b(1) by (simp add: slice_def)
    have "0 < unat len" using \<open>len \<noteq> 0\<close> by (simp add: u64_eq_0)
    then have "take (unat len) src \<noteq> []" using len(2) by auto
    moreover have "mem_read (Some src) 0 (unat len) = Inr (take (unat len) src)"
      using len(2) by (simp add: mem_read_def)
    moreover have "ensure_capacity env (call_buf c) 0 len = Inr (call_buf c)"
      using \<open>len \<noteq> 0\<close> True b(2)
      by (simp add: ensure_capacity_def grow_capacity_done realloc_buffer_def)
    ultimately show ?thesis
      using True \<open>len \<noteq> 0\<close> \<open>bs = None\<close> b(2) by (simp add: TecBuffer_write_def mem_write_def)
  next
    case False
    then show ?thesis
      using lt \<open>len \<noteq> 0\<close> by (simp add: TecBuffer_write_def b(2) ensure_capacity_def)
  qed
qed

theorem task_buffer_cannot_grow_witness:
  "\<exists>pool c. TecThrPool_init 1 8 2 4 (True, True, True) (\<lambda>_ _. 0) (\<lambda>n. 4096) = Inr pool \<and>
     call_of pool (task_for pool 0 7 9) = Inr c \<and>
     TecBuffer_write \<lparr>calloc_ok = (\<lambda>_. True), on_buffer_error = None\<rparr> (call_buf c) [1, 2, 3, 4, 5, 6, 7, 8, 9] 9 = Inl Div_by_zero"
proof -
  obtain pool where p: "TecThrPool_init 1 8 2 4 (True, True, True) (\<lambda>_ _. 0) (\<lambda>n. 4096) = Inr pool"
    "one_thread_pool pool" using one_thread_pool_exists by blast
  let ?t = "task_for pool 0 7 9"
  have t: "task_buffer_size ?t = 8" "task_buffer_size ?t = 0 \<longrightarrow> task_buffer ?t = None"
    "task_buffer_size ?t < 9"
    using p(2) by (simp_all add: one_thread_pool_def task_for_def)
  obtain c where c: "call_of pool ?t = Inr c"
    using p(2)
    by (auto simp: one_thread_pool_def call_of_def task_for_def slice_def mem_read_def)
  show ?thesis
    using task_buffer_cannot_grow [OF c t(3) _ t(2), of "[1, 2, 3, 4, 5, 6, 7, 8, 9]"
        "\<lparr>calloc_ok = (\<lambda>_. True), on_buffer_error = None\<rparr>"] p(1) c t(1)
    by auto
qed

end
