(* ===== verification/TecPayload.thy ===== *)
theory TecPayload
  imports TecThrPool
begin

text \<open>
  The payloads of a thread pool seen as an array of slots, one per thread: what a sequence of
  calls of \<open>TecThrPool_enqueue\<close> leaves in them, and what the tasks then run with.
\<close>

section \<open>Slots\<close>

definition slot :: "nat \<Rightarrow> u8 list \<Rightarrow> nat \<Rightarrow> u8 list" where
  "slot n d j = take n (drop (j * n) d)"

lemma slot_overlay:
  assumes "length ys = n" and "length d = k * n" and "i < k" and "j < k"
  shows "slot n (overlay d (i * n) ys) j = (if j = i then ys else slot n d j)"
proof (rule nth_equalityI)
  have i: "i * n + n \<le> length d" and j: "j * n + n \<le> length d"
    using slice_fits [OF assms(3), of n] slice_fits [OF assms(4), of n] assms(2) by simp_all
  then show len: "length (slot n (overlay d (i * n) ys) j) = length (if j = i then ys else slot n d j)"
    using assms(1) by (simp add: slot_def)
  fix x assume "x < length (slot n (overlay d (i * n) ys) j)"
  then have x: "x < n" by (simp add: slot_def)
  have "slot n (overlay d (i * n) ys) j ! x = overlay d (i * n) ys ! (j * n + x)"
    using i j x assms(1) by (simp add: slot_def)
  also have "\<dots> = (if i * n \<le> j * n + x \<and> j * n + x < i * n + n then ys ! (j * n + x - i * n)
      else d ! (j * n + x))"
    using i j x assms(1) by (subst nth_overlay) simp_all
  also have "\<dots> = (if j = i then ys else slot n d j) ! x"
  proof (cases j i rule: linorder_cases)
    case less
    then have "j * n + n \<le> i * n" by (rule slice_fits)
    then show ?thesis using less x j by (simp add: slot_def)
  next
    case equal
    then show ?thesis using x by simp
  next
    case greater
    then have "i * n + n \<le> j * n" by (rule slice_fits)
    then show ?thesis using greater x j by (simp add: slot_def)
  qed
  finally show "slot n (overlay d (i * n) ys) j ! x = (if j = i then ys else slot n d j) ! x" .
qed

lemma nat_offset: "nat (int i * uint (n :: u64)) = i * unat n"
  by (simp add: nat_mult_distrib)

lemma enqueue_slots:
  assumes run: "TecThrPool_enqueue pool func (Some s) args pt pq = Inr pool'"
    and idx: "next_index pool = Inr i" and d: "tp_payload_arena pool = Some d"
    and s: "length s = unat (tp_payload_size pool)"
  shows "tp_payload_arena pool' = Some (overlay d (i * unat (tp_payload_size pool)) s)"
    and "tp_nthreads pool' = tp_nthreads pool" and "tp_payload_size pool' = tp_payload_size pool"
    and "tp_buffer_size pool' = tp_buffer_size pool" and "tp_buffer_arena pool' = tp_buffer_arena pool"
    and "tp_next_thread_index pool' = tp_next_thread_index pool + 1"
  using assms nat_offset [of i "tp_payload_size pool"]
  by (auto simp: TecThrPool_enqueue_def copy_payload_def task_for_def mem_read_def mem_write_def
      bind_outcome_Inr_iff Let_def split: if_splits)

section \<open>Tasks that wait at different threads\<close>

text \<open>A request: function, payload, argument, and what the allocator gives for it.\<close>

record request =
  rq_func :: ptr
  rq_payload :: "u8 list"
  rq_args :: ptr
  rq_pt :: ptr
  rq_pq :: ptr

definition enqueue_request :: "TecThrPool \<Rightarrow> request \<Rightarrow> TecThrPool outcome" where
  "enqueue_request pool r =
     TecThrPool_enqueue pool (rq_func r) (Some (rq_payload r)) (rq_args r) (rq_pt r) (rq_pq r)"

text \<open>The thread the request number \<open>k\<close> from now goes to.\<close>

definition thread_of :: "TecThrPool \<Rightarrow> nat \<Rightarrow> nat" where
  "thread_of pool k = (unat (tp_next_thread_index pool) + k) mod unat (tp_nthreads pool)"

definition arenas_ok :: "TecThrPool \<Rightarrow> bool" where
  "arenas_ok pool \<longleftrightarrow> tp_nthreads pool \<noteq> 0 \<and>
     (\<exists>d. tp_payload_arena pool = Some d \<and>
        length d = unat (tp_nthreads pool) * unat (tp_payload_size pool)) \<and>
     (\<forall>b. tp_buffer_arena pool = Some b \<longrightarrow>
        length b = unat (tp_nthreads pool) * unat (tp_buffer_size pool))"

text \<open>What stays the same while tasks are enqueued.\<close>

definition same_layout :: "TecThrPool \<Rightarrow> TecThrPool \<Rightarrow> bool" where
  "same_layout pool pool' \<longleftrightarrow>
     tp_nthreads pool' = tp_nthreads pool \<and> tp_payload_size pool' = tp_payload_size pool \<and>
     tp_buffer_size pool' = tp_buffer_size pool \<and> tp_buffer_arena pool' = tp_buffer_arena pool"

lemma enqueue_request_slot:
  assumes ok: "arenas_ok pool" and run: "enqueue_request pool r = Inr pool'"
    and s: "length (rq_payload r) = unat (tp_payload_size pool)"
    and small: "unat (tp_next_thread_index pool) < 2 ^ 31"
  shows "arenas_ok pool'" and "same_layout pool pool'"
    and "tp_next_thread_index pool' = tp_next_thread_index pool + 1"
    and "j < unat (tp_nthreads pool) \<Longrightarrow>
      slot (unat (tp_payload_size pool)) (the (tp_payload_arena pool')) j
        = (if j = thread_of pool 0 then rq_payload r
           else slot (unat (tp_payload_size pool)) (the (tp_payload_arena pool)) j)"
proof -
  let ?n = "unat (tp_payload_size pool)"
  obtain d where d: "tp_payload_arena pool = Some d" "length d = unat (tp_nthreads pool) * ?n"
    and nt: "tp_nthreads pool \<noteq> 0" using ok by (auto simp: arenas_ok_def)
  obtain i where i: "next_index pool = Inr i" "i < unat (tp_nthreads pool)" "i = thread_of pool 0"
    using next_index_rotates [OF nt] small by (auto simp: thread_of_def)
  note e = enqueue_slots [OF run [unfolded enqueue_request_def] i(1) d(1) s]
  have "i * ?n + ?n \<le> length d" using slice_fits [OF i(2), of ?n] d(2) by simp
  then have "length (overlay d (i * ?n) (rq_payload r)) = length d" using s by simp
  then show "arenas_ok pool'" using ok d e nt by (auto simp: arenas_ok_def)
  show "same_layout pool pool'" "tp_next_thread_index pool' = tp_next_thread_index pool + 1"
    using e by (simp_all add: same_layout_def)
  show "slot ?n (the (tp_payload_arena pool')) j
      = (if j = thread_of pool 0 then rq_payload r else slot ?n (the (tp_payload_arena pool)) j)"
    if "j < unat (tp_nthreads pool)"
    using slot_overlay [OF s d(2) i(2) that] e(1) d(1) i(3) by simp
qed

lemma thread_of_Suc:
  assumes "tp_next_thread_index pool' = tp_next_thread_index pool + 1" and "same_layout pool pool'"
    and "unat (tp_next_thread_index pool) < 2 ^ 31"
  shows "thread_of pool' k = thread_of pool (Suc k)"
    and "unat (tp_next_thread_index pool') = Suc (unat (tp_next_thread_index pool))"
proof -
  show "unat (tp_next_thread_index pool') = Suc (unat (tp_next_thread_index pool))"
    using assms(1,3) by (simp add: unat_word_ariths)
  then show "thread_of pool' k = thread_of pool (Suc k)"
    using assms(2) by (simp add: thread_of_def same_layout_def)
qed

text \<open>Requests that follow and go to other threads leave a slot alone.\<close>

lemma requests_keep_slot:
  assumes "arenas_ok pool" and "fold_outcome enqueue_request pool rs = Inr pool'"
    and "\<forall>r \<in> set rs. length (rq_payload r) = unat (tp_payload_size pool)"
    and "unat (tp_next_thread_index pool) + length rs \<le> 2 ^ 31"
    and "j < unat (tp_nthreads pool)"
  shows "same_layout pool pool' \<and> arenas_ok pool' \<and>
     unat (tp_next_thread_index pool') = unat (tp_next_thread_index pool) + length rs \<and>
     ((\<forall>k < length rs. thread_of pool k \<noteq> j) \<longrightarrow>
        slot (unat (tp_payload_size pool)) (the (tp_payload_arena pool')) j
          = slot (unat (tp_payload_size pool)) (the (tp_payload_arena pool)) j)"
  using assms
proof (induction rs arbitrary: pool)
  case Nil
  then show ?case by (simp add: same_layout_def)
next
  case (Cons r rs)
  obtain pool1 where p1: "enqueue_request pool r = Inr pool1"
    "fold_outcome enqueue_request pool1 rs = Inr pool'"
    using Cons.prems(2) by (auto simp: bind_outcome_Inr_iff)
  have len: "length (rq_payload r) = unat (tp_payload_size pool)"
    "unat (tp_next_thread_index pool) < 2 ^ 31" using Cons.prems(3,4) by simp_all
  note e = enqueue_request_slot [OF Cons.prems(1) p1(1) len]
  note t = thread_of_Suc [OF e(3,2) len(2)]
  have same: "tp_payload_size pool1 = tp_payload_size pool" "tp_nthreads pool1 = tp_nthreads pool"
    using e(2) by (simp_all add: same_layout_def)
  have ih: "same_layout pool1 pool' \<and> arenas_ok pool' \<and>
     unat (tp_next_thread_index pool') = unat (tp_next_thread_index pool1) + length rs \<and>
     ((\<forall>k < length rs. thread_of pool1 k \<noteq> j) \<longrightarrow>
        slot (unat (tp_payload_size pool)) (the (tp_payload_arena pool')) j
          = slot (unat (tp_payload_size pool)) (the (tp_payload_arena pool1)) j)"
    using Cons.IH [OF e(1) p1(2)] Cons.prems(3-5) t(2) same by simp
  show ?case
    using ih e(2) e(4) [OF Cons.prems(5)] t by (auto simp: same_layout_def)
qed

lemma mod_neighbours:
  fixes a k n :: nat
  assumes "0 < k" and "k < n"
  shows "(a + k) mod n \<noteq> a mod n"
proof
  assume "(a + k) mod n = a mod n"
  then have "n dvd (a + k) - a" by (subst (asm) mod_eq_dvd_iff_nat) simp_all
  then show False using assms by (auto dest: dvd_imp_le)
qed

text \<open>What a task of the thread \<open>i\<close> runs with is in its slot.\<close>

lemma call_of_slot:
  assumes ok: "arenas_ok pool'" and same: "same_layout pool pool'" and i: "i < unat (tp_nthreads pool)"
    and pay: "tp_payload_arena pool \<noteq> None"
  shows "\<exists>c. call_of pool' (task_for pool i func args) = Inr c \<and> call_func c = func \<and> call_args c = args \<and>
     call_payload c = Some (slot (unat (tp_payload_size pool)) (the (tp_payload_arena pool')) i)"
proof -
  obtain d where d: "tp_payload_arena pool' = Some d"
    "length d = unat (tp_nthreads pool) * unat (tp_payload_size pool)"
    using ok same by (auto simp: arenas_ok_def same_layout_def)
  have "i * unat (tp_payload_size pool) + unat (tp_payload_size pool) \<le> length d"
    using slice_fits [OF i, of "unat (tp_payload_size pool)"] d(2) by simp
  then have p: "slice (tp_payload_arena pool') (task_payload (task_for pool i func args)) (tp_payload_size pool')
      = Inr (Some (slot (unat (tp_payload_size pool)) d i))"
    using pay same d(1) nat_offset [of i "tp_payload_size pool"]
    by (simp add: slice_def task_for_def mem_read_def slot_def same_layout_def)
  have b: "\<exists>bs. slice (tp_buffer_arena pool') (task_buffer (task_for pool i func args))
      (task_buffer_size (task_for pool i func args)) = Inr bs"
  proof (cases "tp_buffer_arena pool")
    case None
    then show ?thesis by (simp add: slice_def task_for_def)
  next
    case (Some b)
    then have b: "tp_buffer_arena pool' = Some b"
      "length b = unat (tp_nthreads pool) * unat (tp_buffer_size pool)"
      using ok same by (auto simp: arenas_ok_def same_layout_def)
    have "i * unat (tp_buffer_size pool) + unat (tp_buffer_size pool) \<le> length b"
      using slice_fits [OF i, of "unat (tp_buffer_size pool)"] b(2) by simp
    then show ?thesis using Some b(1) nat_offset [of i "tp_buffer_size pool"]
      by (simp add: slice_def task_for_def mem_read_def)
  qed
  have f: "task_func (task_for pool i func args) = func" "task_args (task_for pool i func args) = args"
    by (simp_all add: task_for_def)
  show ?thesis using p b d(1) f by (auto simp: call_of_def)
qed

lemma waiting_tasks_own_payload:
  assumes ok: "arenas_ok pool" and run: "fold_outcome enqueue_request pool rs = Inr pool'"
    and len: "\<forall>r \<in> set rs. length (rq_payload r) = unat (tp_payload_size pool)"
    and few: "length rs \<le> unat (tp_nthreads pool)"
    and small: "unat (tp_next_thread_index pool) + length rs \<le> 2 ^ 31"
    and k: "k < length rs"
  shows "\<exists>c. call_of pool' (task_for pool (thread_of pool k) (rq_func (rs ! k)) (rq_args (rs ! k))) = Inr c \<and>
     call_func c = rq_func (rs ! k) \<and> call_args c = rq_args (rs ! k) \<and>
     call_payload c = Some (rq_payload (rs ! k))"
proof -
  let ?n = "unat (tp_payload_size pool)" and ?i = "thread_of pool k"
  have rs: "rs = take k rs @ rs ! k # drop (Suc k) rs" using k by (rule id_take_nth_drop)
  obtain pool1 pool2 where p1: "fold_outcome enqueue_request pool (take k rs) = Inr pool1"
    and p2: "enqueue_request pool1 (rs ! k) = Inr pool2"
    and p3: "fold_outcome enqueue_request pool2 (drop (Suc k) rs) = Inr pool'"
    using run by (subst (asm) rs) (auto simp: fold_outcome_append bind_outcome_Inr_iff)
  have i: "?i < unat (tp_nthreads pool)" using few k by (simp add: thread_of_def)
  have l1: "\<forall>r \<in> set (take k rs). length (rq_payload r) = ?n" using len by (auto dest: in_set_takeD)
  have 1: "same_layout pool pool1" "arenas_ok pool1"
    "unat (tp_next_thread_index pool1) = unat (tp_next_thread_index pool) + k"
    using requests_keep_slot [OF ok p1 l1 _ i] small k by simp_all
  have s1: "length (rq_payload (rs ! k)) = unat (tp_payload_size pool1)"
    "unat (tp_next_thread_index pool1) < 2 ^ 31" using len k 1 small by (simp_all add: same_layout_def)
  have t1: "thread_of pool1 0 = ?i" using 1(1,3) by (simp add: thread_of_def same_layout_def)
  note e = enqueue_request_slot [OF 1(2) p2 s1]
  have layout2: "same_layout pool pool2" using 1(1) e(2) by (simp add: same_layout_def)
  have slot2: "slot ?n (the (tp_payload_arena pool2)) ?i = rq_payload (rs ! k)"
    using e(4) [of ?i] i 1(1) t1 by (simp add: same_layout_def)
  have next2: "unat (tp_next_thread_index pool2) = Suc (unat (tp_next_thread_index pool) + k)"
    using thread_of_Suc(2) [OF e(3,2) s1(2)] 1(3) by simp
  have other: "thread_of pool2 x \<noteq> ?i" if "x < length (drop (Suc k) rs)" for x
  proof -
    have "(unat (tp_next_thread_index pool) + k + Suc x) mod unat (tp_nthreads pool)
        \<noteq> (unat (tp_next_thread_index pool) + k) mod unat (tp_nthreads pool)"
      using that few by (intro mod_neighbours) simp_all
    then show ?thesis using next2 layout2 by (simp add: thread_of_def same_layout_def)
  qed
  have l3: "\<forall>r \<in> set (drop (Suc k) rs). length (rq_payload r) = unat (tp_payload_size pool2)"
    using len layout2 by (auto simp: same_layout_def dest: in_set_dropD)
  have 3: "same_layout pool2 pool'" "arenas_ok pool'"
    "slot ?n (the (tp_payload_arena pool')) ?i = slot ?n (the (tp_payload_arena pool2)) ?i"
    using requests_keep_slot [OF e(1) p3 l3, of ?i] other next2 layout2 i small k
    by (simp_all add: same_layout_def)
  have "same_layout pool pool'" using layout2 3(1) by (simp add: same_layout_def)
  from call_of_slot [OF 3(2) this i, of "rq_func (rs ! k)" "rq_args (rs ! k)"] ok 3(3) slot2
  show ?thesis by (auto simp: arenas_ok_def)
qed

text \<open>
  As long as no more tasks wait than the pool has threads, they wait at
  different threads and none disturbs another: each runs with the function, the argument and
  the payload it was enqueued with.
\<close>

theorem own_payloads:
  assumes ok: "arenas_ok pool" and run: "fold_outcome enqueue_request pool rs = Inr pool'"
    and len: "\<forall>r \<in> set rs. length (rq_payload r) = unat (tp_payload_size pool)"
    and few: "length rs \<le> unat (tp_nthreads pool)"
    and small: "unat (tp_next_thread_index pool) + length rs \<le> 2 ^ 31"
    and k: "k < length rs"
  shows "\<exists>c. call_of pool' (task_for pool (thread_of pool k) (rq_func (rs ! k)) (rq_args (rs ! k))) = Inr c \<and>
     call_func c = rq_func (rs ! k) \<and> call_args c = rq_args (rs ! k) \<and>
     call_payload c = Some (rq_payload (rs ! k))"
  using assms by (rule waiting_tasks_own_payload)

text \<open>A pool of two threads with 2-byte payload slices.\<close>

definition two_thread_pool :: "TecThrPool \<Rightarrow> bool" where
  "two_thread_pool pool \<longleftrightarrow> pool_ok pool [[], []] \<and> arenas_ok pool \<and> tp_nthreads pool = 2 \<and>
     tp_payload_size pool = 2 \<and> tp_next_thread_index pool = 0 \<and>
     (\<forall>i < 2. arena_avail (tn_arena (tp_nodes pool ! i), tn_mem (tp_nodes pool ! i)) 65536 \<and>
        fresh_qnode (tn_q (tp_nodes pool ! i)) 8)"

lemma two_thread_pool_exists:
  obtains pool where "TecThrPool_init 2 8 2 4 (True, True, True) (\<lambda>_ _. 0) (\<lambda>n. 4096) = Inr pool"
    and "two_thread_pool pool"
proof -
  obtain node where n: "TecTaskNode_init zero_node 4 (\<lambda>_. 0) 4096 = Inr node" "node_ok node []"
    "tn_mem node = calloc (tn_mem zero_node) 4096 (unat (4 :: u64) * 48)"
    "q_heap (tn_q node) = Map.empty" "ar_elem_size (tn_arena node) = 48"
    using node_init_ok [of 4 "\<lambda>_. 0" 4096] by (auto simp: zero_node_def calloc_fresh_def)
  have ns: "[0 ..< 2] = [0, 1 :: nat]" by (simp add: upt_rec)
  have nth: "[node, node] ! i = node" "node_ok node ([[], []] ! i)" if "i < 2" for i
    using that n(2) by (auto simp: less_2_cases_iff)
  have four: "replicate 4 0 = [0, 0, 0, 0 :: u8]" by (simp add: numeral_eq_Suc)
  let ?pool = "\<lparr>tp_nthreads = 2, tp_nodes = [node, node], tp_next_thread_index = 0, tp_buffer_size = 8,
      tp_buffer_arena = Some (replicate 16 0), tp_payload_size = 2, tp_payload_arena = Some [0, 0, 0, 0]\<rparr>"
  have init: "TecThrPool_init 2 8 2 4 (True, True, True) (\<lambda>_ _. 0) (\<lambda>n. 4096) = Inr ?pool"
    using n(1) by (simp add: TecThrPool_init_def ns four Let_def)
  have "calloc_fresh (tn_mem node) 65536 48"
    by (auto simp: n(3) calloc_fresh_def calloc_def zero_node_def)
  then show thesis
    using that [OF init] n(4,5) nth
    by (simp add: two_thread_pool_def pool_ok_def arenas_ok_def arena_avail_def fresh_qnode_def)
qed

lemma two_requests_run:
  assumes "two_thread_pool pool" and "length s1 = 2" and "length s2 = 2"
  obtains pool' where "fold_outcome enqueue_request pool
     [\<lparr>rq_func = f, rq_payload = s1, rq_args = a, rq_pt = 65536, rq_pq = 8\<rparr>,
      \<lparr>rq_func = f, rq_payload = s2, rq_args = a, rq_pt = 65536, rq_pq = 8\<rparr>] = Inr pool'"
proof -
  have p: "pool_ok pool [[], []]" "tp_nthreads pool = 2" "tp_payload_size pool = 2"
    "tp_next_thread_index pool = 0"
    and avail: "\<And>i. i < 2 \<Longrightarrow> arena_avail (tn_arena (tp_nodes pool ! i), tn_mem (tp_nodes pool ! i)) 65536"
      "\<And>i. i < 2 \<Longrightarrow> fresh_qnode (tn_q (tp_nodes pool ! i)) 8"
    using assms(1) by (simp_all add: two_thread_pool_def)
  have i0: "next_index pool = Inr 0" using p(2,4) by (simp add: next_index_def)
  obtain pool1 where p1: "TecThrPool_enqueue pool f (Some s1) a 65536 8 = Inr pool1"
    "pool_ok pool1 ([[], []][0 := [[], []] ! 0 @ [task_for pool 0 f a]])"
    "tp_nthreads pool1 = 2" "tp_payload_size pool1 = 2" "tp_next_thread_index pool1 = 1"
    "tp_nodes pool1 ! 1 = tp_nodes pool ! 1"
    using enqueue_ok [OF p(1) i0 _ _ avail(1) avail(2), of "Some s1" f a] p(2-4) assms(2) by auto
  have i1: "next_index pool1 = Inr 1" using p1(3,5) by (simp add: next_index_def)
  have a1: "arena_avail (tn_arena (tp_nodes pool1 ! 1), tn_mem (tp_nodes pool1 ! 1)) 65536"
    "fresh_qnode (tn_q (tp_nodes pool1 ! 1)) 8"
    using avail [of 1] p1(6) by simp_all
  obtain pool2 where "TecThrPool_enqueue pool1 f (Some s2) a 65536 8 = Inr pool2"
    using enqueue_ok [OF p1(2) i1 _ _ a1, of "Some s2" f a] p1(3,4) assms(3) by auto
  with p1(1) show thesis using that by (simp add: enqueue_request_def)
qed

theorem own_payloads_witness:
  "\<exists>pool pool' c1 c2. TecThrPool_init 2 8 2 4 (True, True, True) (\<lambda>_ _. 0) (\<lambda>n. 4096) = Inr pool \<and>
     fold_outcome enqueue_request pool
       [\<lparr>rq_func = 7, rq_payload = [65, 66], rq_args = 9, rq_pt = 65536, rq_pq = 8\<rparr>,
        \<lparr>rq_func = 7, rq_payload = [67, 68], rq_args = 9, rq_pt = 65536, rq_pq = 8\<rparr>] = Inr pool' \<and>
     call_of pool' (task_for pool 0 7 9) = Inr c1 \<and> call_payload c1 = Some [65, 66] \<and>
     call_of pool' (task_for pool 1 7 9) = Inr c2 \<and> call_payload c2 = Some [67, 68]"
proof -
  obtain pool where init: "TecThrPool_init 2 8 2 4 (True, True, True) (\<lambda>_ _. 0) (\<lambda>n. 4096) = Inr pool"
    and two: "two_thread_pool pool" by (rule two_thread_pool_exists)
  then have p: "arenas_ok pool" "tp_nthreads pool = 2" "tp_payload_size pool = 2"
    "tp_next_thread_index pool = 0" by (simp_all add: two_thread_pool_def)
  let ?r1 = "\<lparr>rq_func = 7, rq_payload = [65, 66], rq_args = 9, rq_pt = 65536, rq_pq = 8\<rparr>"
  let ?r2 = "\<lparr>rq_func = 7, rq_payload = [67, 68], rq_args = 9, rq_pt = 65536, rq_pq = 8\<rparr>"
  obtain pool2 where run: "fold_outcome enqueue_request pool [?r1, ?r2] = Inr pool2"
    using two_requests_run [OF two, of "[65, 66]" "[67, 68]" 7 9] by auto
  have len: "\<forall>r \<in> set [?r1, ?r2]. length (rq_payload r) = unat (tp_payload_size pool)"
    using p(3) by simp
  have few: "length [?r1, ?r2] \<le> unat (tp_nthreads pool)"
    "unat (tp_next_thread_index pool) + length [?r1, ?r2] \<le> 2 ^ 31" using p(2,4) by simp_all
  have t: "thread_of pool 0 = 0" "thread_of pool 1 = 1" using p(2,4) by (simp_all add: thread_of_def)
  obtain c1 where c1: "call_of pool2 (task_for pool 0 7 9) = Inr c1" "call_payload c1 = Some [65, 66]"
    using own_payloads [OF p(1) run len few, of 0] t by auto
  obtain c2 where c2: "call_of pool2 (task_for pool 1 7 9) = Inr c2" "call_payload c2 = Some [67, 68]"
    using own_payloads [OF p(1) run len few, of 1] t by auto
  show ?thesis using init run c1 c2 by blast
qed

end
