(* ===== verification/TecPoolLife.thy ===== *)
theory TecPoolLife
  imports TecPayload
begin

text \<open>
  The life of a thread pool as its users in \<open>tecc_tcp_server.c\<close> and \<open>examples/\<close> have it: created,
  started, given a sequence of tasks, and destroyed. The heap hands out memory that is free.
\<close>

section \<open>Composition\<close>

text \<open>One call of \<open>TecThrPool_enqueue\<close>: its arguments, and the memory the heap would give.\<close>

record job =
  jb_func :: ptr
  jb_payload :: "u8 list option"
  jb_args :: ptr
  jb_pt :: ptr
  jb_pq :: ptr

definition enqueue_job :: "TecThrPool \<Rightarrow> job \<Rightarrow> TecThrPool outcome" where
  "enqueue_job pool j = TecThrPool_enqueue pool (jb_func j) (jb_payload j) (jb_args j) (jb_pt j) (jb_pq j)"

text \<open>
  All of it; \<open>hs\<close> are the handles of the threads. What the threads ran, by node, and the threads
  joined.
\<close>

definition pool_life ::
  "u64 \<Rightarrow> u64 \<Rightarrow> u64 \<Rightarrow> u64 \<Rightarrow> (nat \<Rightarrow> ptr) \<Rightarrow> nat list \<Rightarrow> job list \<Rightarrow> ptr list
   \<Rightarrow> (task_call list list \<times> nat list) outcome" where
  "pool_life nthreads bsize psize nelems p hs jobs ps =
     bind_outcome (TecThrPool_init nthreads bsize psize nelems (True, True, True) (\<lambda>_ _. 0) p) (\<lambda>pool.
     bind_outcome (TecThrPool_run pool (map (\<lambda>h. (0, h)) hs)) (\<lambda>(ok, pool).
     bind_outcome (fold_outcome enqueue_job pool jobs) (\<lambda>pool.
       TecThrPool_done pool ps)))"

text \<open>The jobs dealt to node \<open>i\<close> of \<open>n\<close>.\<close>

definition dealt :: "nat \<Rightarrow> job list \<Rightarrow> nat \<Rightarrow> job list" where
  "dealt n jobs i = nths jobs {k. k mod n = i}"

lemma dealt_Nil [simp]: "dealt n [] i = []"
  by (simp add: dealt_def)

lemma dealt_snoc: "dealt n (jobs @ [j]) i = dealt n jobs i @ (if length jobs mod n = i then [j] else [])"
  by (simp add: dealt_def nths_append)

lemma set_dealt: "set (dealt n jobs i) \<subseteq> set jobs"
  by (simp add: dealt_def set_nths_subset)

lemma dealt_few:
  assumes "length jobs \<le> n"
  shows "dealt n jobs i = (if i < length jobs then [jobs ! i] else [])"
  using assms by (induction jobs rule: rev_induct) (auto simp: dealt_snoc nth_append)

section \<open>Memory\<close>

text \<open>Two blocks, each an address and a len, do not overlap.\<close>

fun apart :: "ptr \<times> nat \<Rightarrow> ptr \<times> nat \<Rightarrow> bool" where
  "apart (a, m) (b, n) \<longleftrightarrow> a + m \<le> b \<or> b + n \<le> a"

text \<open>
  The heap as the pool uses it: \<open>p i\<close> is the block of \<open>len\<close> bytes of node \<open>i\<close>; the task and the
  queue node for a job are not in use.
\<close>

definition job_fits :: "(nat \<Rightarrow> ptr) \<Rightarrow> nat \<Rightarrow> nat \<Rightarrow> job list \<Rightarrow> job \<Rightarrow> bool" where
  "job_fits p n len jobs j \<longleftrightarrow>
     jb_pt j \<noteq> NULL \<and> jb_pt j + 48 < 2 ^ 64 \<and> (\<forall>i < n. apart (jb_pt j, 48) (p i, len)) \<and>
     (\<forall>k \<in> set jobs. apart (jb_pt j, 48) (jb_pt k, 48) \<and> jb_pq j \<noteq> jb_pq k) \<and> jb_pq j \<noteq> NULL"

fun jobs_fit :: "(nat \<Rightarrow> ptr) \<Rightarrow> nat \<Rightarrow> nat \<Rightarrow> job list \<Rightarrow> job list \<Rightarrow> bool" where
  "jobs_fit p n len past [] \<longleftrightarrow> True"
| "jobs_fit p n len past (j # jobs) \<longleftrightarrow> job_fits p n len past j \<and> jobs_fit p n len (past @ [j]) jobs"

text \<open>A node with the jobs dealt to it, whose thread has the handle \<open>h\<close> and whose block is \<open>b\<close>.\<close>

definition node_life :: "TecTaskNode \<Rightarrow> nat \<Rightarrow> ptr \<times> nat \<Rightarrow> job list \<Rightarrow> bool" where
  "node_life node h b jobs \<longleftrightarrow>
     node_made node \<and> tn_thr node = \<lparr>thr_result = Some 0, thr_t = h\<rparr> \<and> ar_elem_size (tn_arena node) = 48 \<and>
     (\<forall>a s. mem_blocks (tn_mem node) a = Some s \<longrightarrow> (a, s) = b \<or> a \<in> jb_pt ` set jobs \<and> s = 48) \<and>
     (\<forall>q. q_heap (tn_q node) q \<noteq> None \<longrightarrow> q \<in> jb_pq ` set jobs)"

definition tasks_of :: "TecThrPool \<Rightarrow> nat \<Rightarrow> job list \<Rightarrow> TecTask list" where
  "tasks_of pool i jobs = map (\<lambda>j. task_for pool i (jb_func j) (jb_args j)) jobs"

definition pool_has :: "TecThrPool \<Rightarrow> nat list \<Rightarrow> (nat \<Rightarrow> ptr) \<Rightarrow> nat \<Rightarrow> job list \<Rightarrow> bool" where
  "pool_has pool hs p len jobs \<longleftrightarrow>
     (let n = unat (tp_nthreads pool)
      in tp_nthreads pool \<noteq> 0 \<and> length hs = n \<and>
         tp_next_thread_index pool = of_nat (length jobs) \<and>
         pool_ok pool (map (\<lambda>i. tasks_of pool i (dealt n jobs i)) [0 ..< n]) \<and>
         (\<forall>i < n. node_life (tp_nodes pool ! i) (hs ! i) (p i, len) (dealt n jobs i)))"

lemma node_life_supply:
  assumes l: "node_life node h (p i, len) (dealt n jobs i)" and i: "i < n" and len: "0 < len"
    and j: "job_fits p n len jobs j"
  shows "arena_avail (tn_arena node, tn_mem node) (jb_pt j)" and "fresh_qnode (tn_q node) (jb_pq j)"
proof -
  have ap: "apart (jb_pt j, 48) (a, s)" "0 < s" if "mem_blocks (tn_mem node) a = Some s" for a s
  proof -
    have "(a, s) = (p i, len) \<or> a \<in> jb_pt ` set jobs \<and> s = 48"
      using l that set_dealt [of n jobs i] by (fastforce simp: node_life_def)
    then show "apart (jb_pt j, 48) (a, s)" "0 < s" using j i len by (auto simp: job_fits_def)
  qed
  have "mem_blocks (tn_mem node) (jb_pt j) = None"
    using ap [of "jb_pt j"] by (cases "mem_blocks (tn_mem node) (jb_pt j)") fastforce+
  then show "arena_avail (tn_arena node, tn_mem node) (jb_pt j)"
    using ap j l by (auto simp: arena_avail_def calloc_fresh_def job_fits_def node_life_def)
  show "fresh_qnode (tn_q node) (jb_pq j)"
    using l j set_dealt [of n jobs i] by (fastforce simp: fresh_qnode_def node_life_def job_fits_def)
qed

section \<open>Start\<close>

lemma node_init_life:
  assumes "nelems \<noteq> 0" "unat nelems * 48 < 2 ^ 64"
    and "calloc_fresh (tn_mem zero_node) p (unat nelems * 48)"
  obtains node where "TecTaskNode_init zero_node nelems (\<lambda>_. 0) p = Inr node" and "node_ok node []"
    and "\<And>h. node_life (node\<lparr>tn_thr := \<lparr>thr_result = Some 0, thr_t = h\<rparr>\<rparr>) h (p, unat nelems * 48) []"
proof -
  from node_init_ok [OF assms(1,2) refl assms(3)] obtain node where
    n: "TecTaskNode_init zero_node nelems (\<lambda>_. 0) p = Inr node" "node_ok node []"
    "tn_mem node = calloc (tn_mem zero_node) p (unat nelems * 48)"
    "q_heap (tn_q node) = Map.empty" "ar_elem_size (tn_arena node) = 48" "node_made node"
    by (metis node_made_def)
  have "mem_blocks (tn_mem node) a = Some s \<Longrightarrow> (a, s) = (p, unat nelems * 48)" for a s
    using n(3) by (auto simp: calloc_def zero_node_def split: if_splits)
  then show thesis
    using n by (intro that [of node]) (auto simp: node_life_def node_made_def)
qed

lemma init_nodes_life:
  assumes "nelems \<noteq> 0" "unat nelems * 48 < 2 ^ 64"
    and "\<forall>i \<in> set ns. calloc_fresh (tn_mem zero_node) (p i) (unat nelems * 48)"
  shows "\<exists>nodes. init_nodes nelems (\<lambda>_ _. 0) p ns = Inr nodes \<and>
     list_all2 (\<lambda>node i. node_ok node [] \<and>
       (\<forall>h. node_life (node\<lparr>tn_thr := \<lparr>thr_result = Some 0, thr_t = h\<rparr>\<rparr>) h (p i, unat nelems * 48) [])) nodes ns"
  using assms(3)
proof (induction ns)
  case (Cons i ns)
  then show ?case
    using node_init_life [OF assms(1,2), of "p i"] by (fastforce simp: list_all2_Cons2)
qed simp

definition started :: "nat \<Rightarrow> TecTaskNode \<Rightarrow> TecTaskNode" where
  "started h node = node\<lparr>tn_thr := \<lparr>thr_result = Some 0, thr_t = h\<rparr>\<rparr>"

lemma run_nodes_started:
  "length nodes = length hs \<Longrightarrow>
   run_nodes (map (\<lambda>h. (0, h)) hs) nodes = Inr (True, map2 started hs nodes)"
proof (induction hs nodes rule: list_induct2')
  case (4 h hs node nodes)
  then show ?case
    by (simp add: TecTaskNode_run_def TecThread_create_def TecThread_ok_def read_field_def started_def Let_def)
qed simp_all

lemma node_ok_started [simp]: "node_queue (started h node) ts rest = node_queue node ts rest"
  by (simp add: started_def node_queue_def)

lemma pool_starts:
  assumes n: "nthreads \<noteq> 0" and nelems: "nelems \<noteq> 0" "unat nelems * 48 < 2 ^ 64"
    and p: "\<forall>i < unat nthreads. calloc_fresh (tn_mem zero_node) (p i) (unat nelems * 48)"
    and hs: "length hs = unat nthreads"
  obtains pool0 pool where
    "TecThrPool_init nthreads bsize psize nelems (True, True, True) (\<lambda>_ _. 0) p = Inr pool0"
    and "TecThrPool_run pool0 (map (\<lambda>h. (0, h)) hs) = Inr (True, pool)"
    and "pool_has pool hs p (unat nelems * 48) []"
    and "tp_nthreads pool = nthreads" and "tp_payload_size pool = psize"
    and "psize \<noteq> 0 \<Longrightarrow> arenas_ok pool"
proof -
  obtain nodes where nodes: "init_nodes nelems (\<lambda>_ _. 0) p [0 ..< unat nthreads] = Inr nodes"
    and all: "list_all2 (\<lambda>node i. node_ok node [] \<and>
       (\<forall>h. node_life (started h node) h (p i, unat nelems * 48) [])) nodes [0 ..< unat nthreads]"
    using init_nodes_life [OF nelems, of "[0 ..< unat nthreads]" p] p unfolding started_def by auto
  let ?made = "\<lparr>tp_nthreads = nthreads, tp_nodes = nodes, tp_next_thread_index = 0, tp_buffer_size = bsize,
     tp_buffer_arena = (if bsize \<noteq> 0 then Some (replicate (unat nthreads * unat bsize) 0) else None),
     tp_payload_size = psize,
     tp_payload_arena = (if psize \<noteq> 0 then Some (replicate (unat nthreads * unat psize) 0) else None)\<rparr>"
  let ?pool = "?made\<lparr>tp_nodes := map2 started hs nodes\<rparr>"
  have len: "length nodes = unat nthreads" using list_all2_lengthD [OF all] by simp
  have at: "node_ok (nodes ! i) []" "node_life (started h (nodes ! i)) h (p i, unat nelems * 48) []"
    if "i < unat nthreads" for i h
    using list_all2_nthD [OF all, of i] that len by simp_all
  have "TecThrPool_init nthreads bsize psize nelems (True, True, True) (\<lambda>_ _. 0) p = Inr ?made"
    using nodes by (simp add: TecThrPool_init_def Let_def)
  moreover have "TecThrPool_run ?made (map (\<lambda>h. (0, h)) hs) = Inr (True, ?pool)"
    using run_nodes_started [of nodes hs] len hs by (simp add: TecThrPool_run_def)
  moreover have "pool_has ?pool hs p (unat nelems * 48) []"
    using at len hs n by (simp add: pool_has_def pool_ok_def tasks_of_def)
  ultimately show thesis
    by (rule that [of ?made ?pool]) (use n in \<open>simp_all add: arenas_ok_def split: if_splits\<close>)
qed

section \<open>Tasks\<close>

lemma enqueue_keeps:
  assumes run: "TecThrPool_enqueue pool func payload args pt pq = Inr pool'" and idx: "next_index pool = Inr i"
    and made: "node_made (tp_nodes pool ! i)"
  shows "node_made (tp_nodes pool' ! i)" and "tn_thr (tp_nodes pool' ! i) = tn_thr (tp_nodes pool ! i)"
    and "ar_elem_size (tn_arena (tp_nodes pool' ! i)) = ar_elem_size (tn_arena (tp_nodes pool ! i))"
proof -
  let ?node = "tp_nodes pool ! i"
  obtain task a M t q where i: "\<not> length (tp_nodes pool) \<le> i"
    and al: "TecArena_allocate (tn_arena ?node) (tn_mem ?node) pt = Inr (task, a, M)"
    and q: "TecQueue_push (tn_q ?node) task pq = Inr q"
    and node: "tp_nodes pool' ! i = ?node\<lparr>tn_arena := a, tn_mem := M, tn_tasks := t, tn_q := q\<rparr>"
    using run idx
    by (auto simp: TecThrPool_enqueue_def TecTaskNode_allocate_task_def TecTaskNode_enqueue_task_def
        bind_outcome_Inr_iff Let_def split: if_splits)
  have "q_mtx q = q_mtx (tn_q ?node)" "q_cv q = q_cv (tn_q ?node)"
    using push_monitor [OF q] by simp_all
  moreover have "ar_lock a = ar_lock (tn_arena ?node)" "ar_elem_size a = ar_elem_size (tn_arena ?node)"
    using al by (auto simp: TecArena_allocate_def bind_outcome_Inr_iff Let_def split: if_splits)
  ultimately show "node_made (tp_nodes pool' ! i)" "tn_thr (tp_nodes pool' ! i) = tn_thr ?node"
    "ar_elem_size (tn_arena (tp_nodes pool' ! i)) = ar_elem_size (tn_arena ?node)"
    using made by (simp_all add: node node_made_def)
qed

text \<open>What the fields of the tasks depend on.\<close>

definition same_shape :: "TecThrPool \<Rightarrow> TecThrPool \<Rightarrow> bool" where
  "same_shape pool pool' \<longleftrightarrow> same_layout pool pool' \<and>
     (tp_payload_arena pool' = None \<longleftrightarrow> tp_payload_arena pool = None)"

lemma same_shapeD:
  assumes "same_shape pool pool'"
  shows "task_for pool' i f a = task_for pool i f a" "tasks_of pool' i jobs = tasks_of pool i jobs"
    "tp_nthreads pool' = tp_nthreads pool" "tp_payload_size pool' = tp_payload_size pool"
  using assms by (simp_all add: same_shape_def same_layout_def task_for_def tasks_of_def)

definition payload_fits :: "TecThrPool \<Rightarrow> job \<Rightarrow> bool" where
  "payload_fits pool j \<longleftrightarrow> (\<forall>s. jb_payload j = Some s \<longrightarrow> unat (tp_payload_size pool) \<le> length s)"

lemma pool_has_job:
  assumes has: "pool_has pool hs p len jobs" and len: "0 < len"
    and j: "job_fits p (unat (tp_nthreads pool)) len jobs j" "payload_fits pool j"
    and small: "length jobs < 2 ^ 31"
  obtains pool' where "enqueue_job pool j = Inr pool'" and "pool_has pool' hs p len (jobs @ [j])"
    and "same_shape pool pool'"
proof -
  define n where "n = unat (tp_nthreads pool)"
  define i where "i = length jobs mod n"
  let ?tss = "map (\<lambda>i. tasks_of pool i (dealt n jobs i)) [0 ..< n]"
  have nt: "tp_nthreads pool \<noteq> 0" and hs: "length hs = n" and ok: "pool_ok pool ?tss"
    and life: "\<And>m. m < n \<Longrightarrow> node_life (tp_nodes pool ! m) (hs ! m) (p m, len) (dealt n jobs m)"
    and idx: "tp_next_thread_index pool = of_nat (length jobs)"
    using has by (simp_all add: pool_has_def n_def Let_def)
  have u: "unat (tp_next_thread_index pool) = length jobs"
    using small by (simp add: idx unat_of_nat take_bit_nat_eq_self_iff)
  have i: "next_index pool = Inr i" "i < n"
    using next_index_rotates [OF nt] small u nt by (auto simp: i_def n_def unat_gt_0)
  note free = node_life_supply [OF life [OF i(2)] i(2) len j(1) [folded n_def]]
  have pt: "jb_pt j \<noteq> NULL" using j(1) by (simp add: job_fits_def)
  obtain pool' where run: "TecThrPool_enqueue pool (jb_func j) (jb_payload j) (jb_args j) (jb_pt j) (jb_pq j)
      = Inr pool'"
    and ok': "pool_ok pool' (?tss[i := ?tss ! i @ [task_for pool i (jb_func j) (jb_args j)]])"
    and layout: "tp_nthreads pool' = tp_nthreads pool" "tp_payload_size pool' = tp_payload_size pool"
      "tp_buffer_size pool' = tp_buffer_size pool" "tp_buffer_arena pool' = tp_buffer_arena pool"
    and next': "tp_next_thread_index pool' = tp_next_thread_index pool + 1"
    and pay: "tp_payload_arena pool' = (case (jb_payload j, tp_payload_arena pool) of
        (Some s, Some d) \<Rightarrow> Some (overlay d (i * unat (tp_payload_size pool)) (take (unat (tp_payload_size pool)) s))
      | _ \<Rightarrow> tp_payload_arena pool)"
    and other: "\<And>m. m \<noteq> i \<Longrightarrow> tp_nodes pool' ! m = tp_nodes pool ! m"
    by (rule enqueue_ok [OF ok i(1) nt pt free j(2) [unfolded payload_fits_def], of "jb_func j" "jb_args j"])
      (rule that; (assumption | blast))
  have shape: "same_shape pool pool'"
    using layout pay by (auto simp: same_shape_def same_layout_def split: option.splits)
  note blocks = enqueue_blocks [OF run i(1)]
    and keeps = enqueue_keeps [OF run i(1)]
  have made: "node_life (tp_nodes pool ! i) (hs ! i) (p i, len) (dealt n jobs i)" by (rule life [OF i(2)])
  have dealt: "dealt n (jobs @ [j]) m = dealt n jobs m @ (if m = i then [j] else [])" for m
    by (simp add: dealt_snoc i_def)
  have "node_life (tp_nodes pool' ! i) (hs ! i) (p i, len) (dealt n jobs i @ [j])"
    using made blocks keeps by (fastforce simp: node_life_def)
  then have "node_life (tp_nodes pool' ! m) (hs ! m) (p m, len) (dealt n (jobs @ [j]) m)" if "m < n" for m
    using life [OF that] other [of m] by (auto simp: dealt)
  moreover have "?tss[i := ?tss ! i @ [task_for pool i (jb_func j) (jb_args j)]]
      = map (\<lambda>m. tasks_of pool' m (dealt n (jobs @ [j]) m)) [0 ..< n]"
    using i(2) by (intro nth_equalityI) (auto simp: same_shapeD [OF shape] dealt nth_list_update tasks_of_def)
  ultimately have "pool_has pool' hs p len (jobs @ [j])"
    using ok' hs nt next' idx same_shapeD(3) [OF shape] by (simp add: pool_has_def n_def Let_def)
  then show thesis using that [of pool'] run shape by (simp add: enqueue_job_def)
qed

lemma same_shape_trans: "same_shape p q \<Longrightarrow> same_shape q r \<Longrightarrow> same_shape p r"
  by (simp add: same_shape_def same_layout_def)

lemma pool_has_jobs:
  assumes "pool_has pool hs p len past" and "0 < len"
    and "jobs_fit p (unat (tp_nthreads pool)) len past jobs" and "\<forall>j \<in> set jobs. payload_fits pool j"
    and "length past + length jobs \<le> 2 ^ 31"
  shows "\<exists>pool'. fold_outcome enqueue_job pool jobs = Inr pool' \<and> pool_has pool' hs p len (past @ jobs) \<and>
     same_shape pool pool'"
  using assms
proof (induction jobs arbitrary: pool past)
  case Nil
  then show ?case by (simp add: same_shape_def same_layout_def)
next
  case (Cons j jobs)
  obtain pool1 where p1: "enqueue_job pool j = Inr pool1" "pool_has pool1 hs p len (past @ [j])"
    "same_shape pool pool1"
    using pool_has_job [of pool hs p len past j] Cons.prems by auto
  have "\<exists>pool'. fold_outcome enqueue_job pool1 jobs = Inr pool' \<and> pool_has pool' hs p len ((past @ [j]) @ jobs) \<and>
     same_shape pool1 pool'"
    using p1(2) Cons.prems same_shapeD(3,4) [OF p1(3)]
    by (intro Cons.IH) (auto simp: payload_fits_def)
  then show ?case using p1(1,3) same_shape_trans by auto
qed

section \<open>Destruction\<close>

text \<open>The call the job \<open>j\<close> becomes at node \<open>i\<close>.\<close>

definition call_at :: "TecThrPool \<Rightarrow> nat \<Rightarrow> job \<Rightarrow> task_call" where
  "call_at pool i j = projr (call_of pool (task_for pool i (jb_func j) (jb_args j)))"

lemma slice_ok:
  fixes n :: u64
  assumes "i < k" and "\<forall>b. arena = Some b \<longrightarrow> length b = k * unat n"
  shows "\<exists>bs. slice arena (if arena \<noteq> None then Some (i * unat n) else None)
     (if arena \<noteq> None then n else 0) = Inr bs"
    and "\<exists>bs. slice arena (if arena \<noteq> None then Some (i * unat n) else None) n = Inr bs"
  using assms slice_fits [OF assms(1), of "unat n"] nat_offset [of i n]
  by (auto simp: slice_def mem_read_def simp del: of_nat_mult)

text \<open>The arenas, where the pool has them, hold a slice per thread.\<close>

definition arenas_fit :: "TecThrPool \<Rightarrow> bool" where
  "arenas_fit pool \<longleftrightarrow>
     (\<forall>b. tp_buffer_arena pool = Some b \<longrightarrow> length b = unat (tp_nthreads pool) * unat (tp_buffer_size pool)) \<and>
     (\<forall>b. tp_payload_arena pool = Some b \<longrightarrow> length b = unat (tp_nthreads pool) * unat (tp_payload_size pool))"

lemma pool_ok_fit: "pool_ok pool tss \<Longrightarrow> arenas_fit pool"
  by (simp add: pool_ok_def arenas_fit_def)

lemma call_at_ok:
  assumes "arenas_fit pool" and "i < unat (tp_nthreads pool)"
  shows "call_of pool (task_for pool i (jb_func j) (jb_args j)) = Inr (call_at pool i j)"
    and "call_func (call_at pool i j) = jb_func j" and "call_args (call_at pool i j) = jb_args j"
proof -
  let ?t = "task_for pool i (jb_func j) (jb_args j)"
  obtain b where b: "slice (tp_buffer_arena pool) (task_buffer ?t) (task_buffer_size ?t) = Inr b"
    using slice_ok(1) [OF assms(2), of "tp_buffer_arena pool" "tp_buffer_size pool"] assms(1)
    by (auto simp: arenas_fit_def task_for_def)
  obtain d where d: "slice (tp_payload_arena pool) (task_payload ?t) (tp_payload_size pool) = Inr d"
    using slice_ok(2) [OF assms(2), of "tp_payload_arena pool" "tp_payload_size pool"] assms(1)
    by (auto simp: arenas_fit_def task_for_def)
  show "call_of pool ?t = Inr (call_at pool i j)"
    "call_func (call_at pool i j) = jb_func j" "call_args (call_at pool i j) = jb_args j"
    using b d by (simp_all add: call_at_def call_of_def task_for_def)
qed

definition node_calls :: "TecThrPool \<Rightarrow> nat \<Rightarrow> job list \<Rightarrow> task_call list" where
  "node_calls pool i jobs = map (call_at pool i) (filter (\<lambda>j. jb_func j \<noteq> NULL) jobs)"

lemma node_life_done:
  assumes ok: "pool_ok pool tss" and i: "i < unat (tp_nthreads pool)"
    and node: "node_ok node (tasks_of pool i jobs)" "node_life node h b jobs"
    and q: "q \<noteq> NULL" "q \<notin> jb_pq ` set jobs"
  obtains node' where "TecTaskNode_done pool node q = Inr (node_calls pool i jobs, [h], node')"
proof -
  let ?cs = "map (\<lambda>j. if jb_func j = NULL then None else Some (call_at pool i j)) jobs"
  have runs: "list_all2 (runs pool) (tasks_of pool i jobs) ?cs"
    using call_at_ok(1) [OF pool_ok_fit [OF ok] i]
    by (auto simp: tasks_of_def list_all2_conv_all_nth runs_def task_for_def)
  have calls: "concat (map (\<lambda>c. case c of None \<Rightarrow> [] | Some c \<Rightarrow> [c]) ?cs) = node_calls pool i jobs"
    by (induction jobs) (simp_all add: node_calls_def)
  have thr: "thr_result (tn_thr node) = Some 0" "thr_t (tn_thr node) = h" "node_made node"
    using node(2) by (simp_all add: node_life_def)
  have "q_heap (tn_q node) q \<noteq> None \<longrightarrow> q \<in> jb_pq ` set jobs" using node(2) by (simp add: node_life_def)
  then have "fresh_qnode (tn_q node) q" using q by (auto simp: fresh_qnode_def)
  from node_done_runs [OF node(1) runs thr(1) this thr(3)] show thesis
    unfolding calls thr(2) using that by blast
qed

lemma done_nodes_life:
  assumes ok: "pool_ok pool tss"
    and all: "\<And>i. i \<in> set is \<Longrightarrow> i < unat (tp_nthreads pool) \<and> node_ok (nd i) (tasks_of pool i (js i)) \<and>
      node_life (nd i) (h i) (b i) (js i) \<and> q i \<noteq> NULL \<and> q i \<notin> jb_pq ` set (js i)"
  shows "done_nodes pool (map q is) (map nd is) = Inr (map (\<lambda>i. node_calls pool i (js i)) is, map h is)"
  using all
proof (induction "is")
  case (Cons i "is")
  obtain node' where "TecTaskNode_done pool (nd i) (q i) = Inr (node_calls pool i (js i), [h i], node')"
    using node_life_done [OF ok, of i "nd i" "js i" "h i" "b i" "q i"] Cons.prems [of i] by auto
  then show ?case using Cons by simp
qed simp

lemma pool_has_done:
  assumes has: "pool_has pool hs p len jobs" and n: "n = unat (tp_nthreads pool)"
    and ps: "length ps = n" "\<forall>q \<in> set ps. q \<noteq> NULL \<and> q \<notin> jb_pq ` set jobs"
  shows "TecThrPool_done pool ps = Inr (map (\<lambda>i. node_calls pool i (dealt n jobs i)) [0 ..< n], hs)"
proof -
  let ?tss = "map (\<lambda>i. tasks_of pool i (dealt n jobs i)) [0 ..< n]"
  have hs: "length hs = n" and ok: "pool_ok pool ?tss"
    and life: "\<And>i. i < n \<Longrightarrow> node_life (tp_nodes pool ! i) (hs ! i) (p i, len) (dealt n jobs i)"
    using has by (simp_all add: pool_has_def n Let_def)
  have len: "length (tp_nodes pool) = n"
    and nodes: "\<And>i. i < n \<Longrightarrow> node_ok (tp_nodes pool ! i) (tasks_of pool i (dealt n jobs i))"
    using ok by (auto simp: pool_ok_def n)
  have q: "ps ! i \<noteq> NULL \<and> ps ! i \<notin> jb_pq ` set (dealt n jobs i)" if "i < n" for i
    using ps that set_dealt [of n jobs i] nth_mem [of i ps] by fastforce
  have "done_nodes pool (map ((!) ps) [0 ..< n]) (map ((!) (tp_nodes pool)) [0 ..< n])
      = Inr (map (\<lambda>i. node_calls pool i (dealt n jobs i)) [0 ..< n], map ((!) hs) [0 ..< n])"
    by (rule done_nodes_life [OF ok, where b = "\<lambda>i. (p i, len)"]) (use nodes life q n in auto)
  then show ?thesis
    using ps(1) hs len by (metis TecThrPool_done_def map_nth)
qed

lemma pool_life_ends:
  assumes n: "n = unat nthreads" "nthreads \<noteq> 0" and nelems: "nelems \<noteq> 0" "unat nelems * 48 < 2 ^ 64"
    and p: "\<forall>i < n. calloc_fresh (tn_mem zero_node) (p i) (unat nelems * 48)"
    and hs: "length hs = n"
    and jobs: "jobs_fit p n (unat nelems * 48) [] jobs" "length jobs \<le> 2 ^ 31"
      "\<forall>j \<in> set jobs. \<forall>s. jb_payload j = Some s \<longrightarrow> unat psize \<le> length s"
    and ps: "length ps = n" "\<forall>q \<in> set ps. q \<noteq> NULL \<and> q \<notin> jb_pq ` set jobs"
  shows "\<exists>pool. pool_life nthreads bsize psize nelems p hs jobs ps
     = Inr (map (\<lambda>i. node_calls pool i (dealt n jobs i)) [0 ..< n], hs) \<and>
     (\<exists>tss. pool_ok pool tss) \<and> tp_nthreads pool = nthreads"
proof -
  obtain pool0 pool1 where start:
    "TecThrPool_init nthreads bsize psize nelems (True, True, True) (\<lambda>_ _. 0) p = Inr pool0"
    "TecThrPool_run pool0 (map (\<lambda>h. (0, h)) hs) = Inr (True, pool1)"
    "pool_has pool1 hs p (unat nelems * 48) []" "tp_nthreads pool1 = nthreads" "tp_payload_size pool1 = psize"
    using pool_starts [OF n(2) nelems, of p hs bsize psize] p hs n(1) by metis
  have "0 < unat nelems * 48" using nelems(1) by (simp add: unat_gt_0)
  then obtain pool where pool: "fold_outcome enqueue_job pool1 jobs = Inr pool"
    "pool_has pool hs p (unat nelems * 48) jobs" "same_shape pool1 pool"
    using pool_has_jobs [OF start(3), of jobs] start(4,5) jobs n(1) by (auto simp: payload_fits_def)
  have nt: "tp_nthreads pool = nthreads" using same_shapeD(3) [OF pool(3)] start(4) by simp
  have "TecThrPool_done pool ps = Inr (map (\<lambda>i. node_calls pool i (dealt n jobs i)) [0 ..< n], hs)"
    by (rule pool_has_done [OF pool(2) _ ps]) (simp add: nt n(1))
  then show ?thesis
    using start(1,2) pool(1,2) nt
    by (intro exI [of _ pool]) (auto simp: pool_life_def pool_has_def Let_def)
qed

text \<open>
  C23: a pool of any size, created, started, given any sequence of jobs and
  destroyed: the k-th job runs at thread k modulo the number of threads, every thread runs
  its jobs in the order they were given, each once with its own function and argument (a job
  without a function runs nothing), and every thread is joined once.
\<close>

theorem pool_life_serves:
  assumes "n = unat nthreads" and "nthreads \<noteq> 0" and "nelems \<noteq> 0" and "unat nelems * 48 < 2 ^ 64"
    and "\<forall>i < n. calloc_fresh (tn_mem zero_node) (p i) (unat nelems * 48)" and "length hs = n"
    and "jobs_fit p n (unat nelems * 48) [] jobs" and "length jobs \<le> 2 ^ 31"
    and "\<forall>j \<in> set jobs. \<forall>s. jb_payload j = Some s \<longrightarrow> unat psize \<le> length s"
    and "length ps = n" and "\<forall>q \<in> set ps. q \<noteq> NULL \<and> q \<notin> jb_pq ` set jobs"
  shows "\<exists>callss. pool_life nthreads bsize psize nelems p hs jobs ps = Inr (callss, hs) \<and>
     map (map (\<lambda>c. (call_func c, call_args c))) callss
       = map (\<lambda>i. map (\<lambda>j. (jb_func j, jb_args j)) (filter (\<lambda>j. jb_func j \<noteq> NULL) (dealt n jobs i))) [0 ..< n]"
proof -
  obtain pool tss where "pool_life nthreads bsize psize nelems p hs jobs ps
     = Inr (map (\<lambda>i. node_calls pool i (dealt n jobs i)) [0 ..< n], hs)"
    "pool_ok pool tss" "tp_nthreads pool = nthreads"
    using pool_life_ends [OF assms] by blast
  then show ?thesis using assms(1) call_at_ok(2,3) pool_ok_fit by (auto simp: node_calls_def)
qed

theorem pool_life_serves_witness:
  "\<exists>callss. pool_life 2 0 0 1 (\<lambda>i. 4096 * Suc i) [77, 78]
     [\<lparr>jb_func = 5, jb_payload = None, jb_args = 1, jb_pt = 65536, jb_pq = 8\<rparr>,
      \<lparr>jb_func = 0, jb_payload = None, jb_args = 2, jb_pt = 131072, jb_pq = 16\<rparr>,
      \<lparr>jb_func = 6, jb_payload = None, jb_args = 3, jb_pt = 196608, jb_pq = 24\<rparr>] [32, 40] = Inr (callss, [77, 78]) \<and>
     map (map (\<lambda>c. (call_func c, call_args c))) callss = [[(5, 1), (6, 3)], []]"
proof -
  let ?js = "[\<lparr>jb_func = 5, jb_payload = None, jb_args = 1, jb_pt = 65536, jb_pq = 8\<rparr>,
      \<lparr>jb_func = 0, jb_payload = None, jb_args = 2, jb_pt = 131072, jb_pq = 16\<rparr>,
      \<lparr>jb_func = 6, jb_payload = None, jb_args = 3, jb_pt = 196608, jb_pq = 24\<rparr>]"
  have "map (\<lambda>i. map (\<lambda>j. (jb_func j, jb_args j)) (filter (\<lambda>j. jb_func j \<noteq> NULL) (dealt 2 ?js i))) [0 ..< 2]
      = [[(5, 1), (6, 3)], []]"
    by (simp add: dealt_def nths_Cons upt_conv_Cons numeral_2_eq_2)
  then show ?thesis
    using pool_life_serves [of 2 2 1 "\<lambda>i. 4096 * Suc i" "[77, 78]" ?js 0 "[32, 40]" 0]
    by (simp add: zero_node_def calloc_fresh_def job_fits_def)
qed

section \<open>Requests that wait, one at each thread\<close>

definition request_job :: "request \<Rightarrow> job" where
  "request_job r = \<lparr>jb_func = rq_func r, jb_payload = Some (rq_payload r), jb_args = rq_args r,
     jb_pt = rq_pt r, jb_pq = rq_pq r\<rparr>"

lemma enqueue_requests:
  "fold_outcome enqueue_request pool rs = fold_outcome enqueue_job pool (map request_job rs)"
  by (induction rs arbitrary: pool) (simp_all add: enqueue_request_def enqueue_job_def request_job_def)

lemma waiting_requests_done:
  assumes has: "pool_has pool hs p len []" "0 < len" and n: "n = unat (tp_nthreads pool)" "n \<le> 2 ^ 31"
    and fit: "jobs_fit p n len [] (map request_job rs)" and few: "length rs \<le> n"
    and arenas: "arenas_ok pool" "\<forall>r \<in> set rs. length (rq_payload r) = unat (tp_payload_size pool)"
    and func: "\<forall>r \<in> set rs. rq_func r \<noteq> NULL"
    and ps: "length ps = n" "\<forall>q \<in> set ps. q \<noteq> NULL \<and> q \<notin> rq_pq ` set rs"
  obtains pool' cs where "fold_outcome enqueue_request pool rs = Inr pool'" and "length cs = length rs"
    and "\<And>k. k < length rs \<Longrightarrow> call_func (cs ! k) = rq_func (rs ! k) \<and> call_args (cs ! k) = rq_args (rs ! k) \<and>
      call_payload (cs ! k) = Some (rq_payload (rs ! k))"
    and "TecThrPool_done pool' ps = Inr (map (\<lambda>i. if i < length rs then [cs ! i] else []) [0 ..< n], hs)"
proof -
  let ?js = "map request_job rs"
  have idx: "unat (tp_next_thread_index pool) = 0" using has(1) by (simp add: pool_has_def Let_def)
  obtain pool' where pool': "fold_outcome enqueue_job pool ?js = Inr pool'" "pool_has pool' hs p len ?js"
    "same_shape pool pool'"
    using pool_has_jobs [OF has, of ?js] fit n few arenas(2)
    by (auto simp: payload_fits_def request_job_def)
  then have run: "fold_outcome enqueue_request pool rs = Inr pool'" by (simp add: enqueue_requests)
  let ?cs = "map (\<lambda>i. call_at pool' i (request_job (rs ! i))) [0 ..< length rs]"
  have own: "call_func (?cs ! k) = rq_func (rs ! k) \<and> call_args (?cs ! k) = rq_args (rs ! k) \<and>
      call_payload (?cs ! k) = Some (rq_payload (rs ! k))" if k: "k < length rs" for k
  proof -
    have "thread_of pool k = k" using k few n(1) idx by (simp add: thread_of_def)
    then obtain c where "call_of pool' (task_for pool k (rq_func (rs ! k)) (rq_args (rs ! k))) = Inr c"
      "call_func c = rq_func (rs ! k)" "call_args c = rq_args (rs ! k)" "call_payload c = Some (rq_payload (rs ! k))"
      using waiting_tasks_own_payload [OF arenas(1) run arenas(2), of k] few n idx k by auto
    then show ?thesis
      using k by (simp add: call_at_def request_job_def same_shapeD(1) [OF pool'(3)])
  qed
  have nt: "n = unat (tp_nthreads pool')" using n(1) same_shapeD(3) [OF pool'(3)] by simp
  have "TecThrPool_done pool' ps = Inr (map (\<lambda>i. node_calls pool' i (dealt n ?js i)) [0 ..< n], hs)"
    by (rule pool_has_done [OF pool'(2) nt ps(1)]) (use ps(2) in \<open>force simp: request_job_def\<close>)
  moreover have "node_calls pool' i (dealt n ?js i) = (if i < length rs then [?cs ! i] else [])" for i
    using dealt_few [of ?js n i] few func nth_mem [of i rs] by (auto simp: node_calls_def request_job_def)
  ultimately show thesis using that [of pool' ?cs] run own by simp
qed

end
