(* ===== verification/TecPoolSteps.thy ===== *)
theory TecPoolSteps
  imports TecPoolLife "HOL-Library.Disjoint_Sets"
begin

text \<open>
  Models \<open>tecc_thread_pool.c\<close> with its threads: any number of callers of \<open>TecThrPool_enqueue\<close>, the
  threads of the nodes in \<open>task_func\<close>, and the thread that calls \<open>TecThrPool_done\<close>, step by step.
  The queue and the arena of a node lock themselves, so that each of their operations is one
  step; a thread in \<open>TecQueue_pop\<close> takes its step when the queue is not empty.
\<close>

section \<open>Model\<close>

text \<open>
  Where a caller is in \<open>TecThrPool_enqueue\<close>: the job, the index of the node, the task. The job
  names the memory that the heap is going to give.
\<close>

datatype enq_pc =
  E_done
| E_index job
| E_alloc job nat
| E_fill job nat ptr
| E_push job nat ptr

text \<open>Where the thread of a node is in \<open>task_func\<close>.\<close>

datatype run_pc = R_pop | R_run ptr | R_release ptr | R_set | R_left

text \<open>Where the owner of the pool is in \<open>TecThrPool_done\<close>; \<open>M_open\<close> is before its call.\<close>

datatype main_pc = M_open | M_null nat | M_wait nat | M_join nat | M_freed

text \<open>
  \<open>pp_in\<close> are the jobs whose tasks were pushed at a node and \<open>pp_out\<close> what its thread made of the
  tasks it took, both oldest first; \<open>pp_joined\<close> are the threads joined.
\<close>

record pool_state =
  pp_pool :: TecThrPool
  pp_enq :: "nat \<Rightarrow> enq_pc"
  pp_run :: "nat \<Rightarrow> run_pc"
  pp_main :: main_pc
  pp_in :: "nat \<Rightarrow> job list"
  pp_out :: "nat \<Rightarrow> task_call option list"
  pp_joined :: "nat list"

definition get_node :: "pool_state \<Rightarrow> nat \<Rightarrow> TecTaskNode" where
  "get_node s n = tp_nodes (pp_pool s) ! n"

definition put_node :: "pool_state \<Rightarrow> nat \<Rightarrow> TecTaskNode \<Rightarrow> pool_state" where
  "put_node s n node = s\<lparr>pp_pool := (pp_pool s)\<lparr>tp_nodes := (tp_nodes (pp_pool s))[n := node]\<rparr>\<rparr>"

text \<open>
  The first four rules are the statements of \<open>TecThrPool_enqueue\<close>, the next four the body of the
  loop in \<open>task_func\<close> and what follows it, the rest \<open>TecThrPool_done\<close> with \<open>TecTaskNode_done\<close>.
\<close>

inductive pool_step :: "pool_state \<Rightarrow> pool_state \<Rightarrow> bool" where
  index: "pp_enq s i = E_index j \<Longrightarrow> next_index (pp_pool s) = Inr n \<Longrightarrow>
    pool_step s (s\<lparr>pp_pool := (pp_pool s)\<lparr>tp_next_thread_index := tp_next_thread_index (pp_pool s) + 1\<rparr>,
      pp_enq := (pp_enq s)(i := E_alloc j n)\<rparr>)"
| alloc: "pp_enq s i = E_alloc j n \<Longrightarrow> node = get_node s n \<Longrightarrow>
    arena_avail (tn_arena node, tn_mem node) (jb_pt j) \<Longrightarrow>
    TecTaskNode_allocate_task node (jb_pt j) = Inr (task, node') \<Longrightarrow> task \<noteq> NULL \<Longrightarrow>
    pool_step s ((put_node s n node')\<lparr>pp_enq := (pp_enq s)(i := E_fill j n task)\<rparr>)"
| fill: "pp_enq s i = E_fill j n task \<Longrightarrow> node = get_node s n \<Longrightarrow>
    t = task_for (pp_pool s) n (jb_func j) (jb_args j) \<Longrightarrow>
    copy_payload (pp_pool s) t (jb_payload j) = Inr payloads \<Longrightarrow>
    pool_step s ((put_node (s\<lparr>pp_pool := (pp_pool s)\<lparr>tp_payload_arena := payloads\<rparr>\<rparr>) n
        (node\<lparr>tn_tasks := (tn_tasks node)(task \<mapsto> t)\<rparr>))\<lparr>pp_enq := (pp_enq s)(i := E_push j n task)\<rparr>)"
| push: "pp_enq s i = E_push j n task \<Longrightarrow> node = get_node s n \<Longrightarrow> fresh_qnode (tn_q node) (jb_pq j) \<Longrightarrow>
    TecTaskNode_enqueue_task node task (jb_pq j) = Inr node' \<Longrightarrow>
    pool_step s ((put_node s n node')\<lparr>pp_enq := (pp_enq s)(i := E_done),
      pp_in := (pp_in s)(n := pp_in s n @ [j])\<rparr>)"
| take: "pp_run s n = R_pop \<Longrightarrow> n < length (tp_nodes (pp_pool s)) \<Longrightarrow> node = get_node s n \<Longrightarrow>
    TecQueue_pop (tn_q node) = Inr (Some (task, q)) \<Longrightarrow>
    pool_step s ((put_node s n (node\<lparr>tn_q := q\<rparr>))
      \<lparr>pp_run := (pp_run s)(n := if task = NULL then R_set else R_run task)\<rparr>)"
| run: "pp_run s n = R_run task \<Longrightarrow> tn_tasks (get_node s n) task = Some t \<Longrightarrow> runs (pp_pool s) t c \<Longrightarrow>
    pool_step s (s\<lparr>pp_run := (pp_run s)(n := R_release task), pp_out := (pp_out s)(n := pp_out s n @ [c])\<rparr>)"
| release: "pp_run s n = R_release task \<Longrightarrow> node = get_node s n \<Longrightarrow>
    TecArena_release (tn_arena node) (tn_mem node) task = Inr (a, M) \<Longrightarrow>
    pool_step s ((put_node s n (node\<lparr>tn_arena := a, tn_mem := M, tn_tasks := (tn_tasks node)(task := None)\<rparr>))
      \<lparr>pp_run := (pp_run s)(n := R_pop)\<rparr>)"
| set: "pp_run s n = R_set \<Longrightarrow> node = get_node s n \<Longrightarrow>
    TecSignal_set (tn_sig_terminated node) 0 0 = (e, cs, sg) \<Longrightarrow>
    pool_step s ((put_node s n (node\<lparr>tn_sig_terminated := sg\<rparr>))\<lparr>pp_run := (pp_run s)(n := R_left)\<rparr>)"
| null: "pp_main s = M_null n \<Longrightarrow> n < length (tp_nodes (pp_pool s)) \<Longrightarrow> node = get_node s n \<Longrightarrow>
    TecThread_ok (tn_thr node) = Inr True \<Longrightarrow> fresh_qnode (tn_q node) p \<Longrightarrow>
    TecTaskNode_enqueue_task node NULL p = Inr node' \<Longrightarrow>
    pool_step s ((put_node s n node')\<lparr>pp_main := M_wait n\<rparr>)"
| wait: "pp_main s = M_wait n \<Longrightarrow>
    TecSignal_wait (sig_value (tn_sig_terminated (get_node s n))) 0 [] = Some r \<Longrightarrow>
    pool_step s (s\<lparr>pp_main := M_join n\<rparr>)"
| join: "pp_main s = M_join n \<Longrightarrow> pp_run s n = R_left \<Longrightarrow> node = get_node s n \<Longrightarrow>
    TecThread_join (tn_thr node) = Inr (hs, t) \<Longrightarrow> TecQueue_done (tn_q node) 0 = Inr (cs, q) \<Longrightarrow>
    TecArena_done (tn_arena node) (tn_mem node) = Inr (cs', a, M) \<Longrightarrow>
    TecSignal_done (tn_sig_terminated node) 0 = Inr (cs'', sg) \<Longrightarrow>
    node' = node\<lparr>tn_thr := t, tn_q := q, tn_arena := a, tn_mem := M, tn_sig_terminated := sg\<rparr> \<Longrightarrow>
    pool_step s ((put_node s n node')\<lparr>pp_main := M_null (Suc n), pp_joined := pp_joined s @ hs\<rparr>)"
| freed: "pp_main s = M_null (length (tp_nodes (pp_pool s))) \<Longrightarrow> pool_step s (s\<lparr>pp_main := M_freed\<rparr>)"

text \<open>
  A pool that was created and started; threads that call \<open>TecThrPool_enqueue\<close> while it is open,
  with a payload of the size the pool expects; and its owner, who calls \<open>TecThrPool_done\<close> when no
  call of \<open>TecThrPool_enqueue\<close> is going on.
\<close>

definition pool_start :: "TecThrPool \<Rightarrow> pool_state" where
  "pool_start pool = \<lparr>pp_pool = pool, pp_enq = (\<lambda>_. E_done), pp_run = (\<lambda>_. R_pop), pp_main = M_open,
     pp_in = (\<lambda>_. []), pp_out = (\<lambda>_. []), pp_joined = []\<rparr>"

inductive pool_reach :: "nat list \<Rightarrow> pool_state \<Rightarrow> bool" for hs where
  start: "nthreads \<noteq> 0 \<Longrightarrow> nelems \<noteq> 0 \<Longrightarrow> unat nelems * 48 < 2 ^ 64 \<Longrightarrow>
    (\<And>i. i < unat nthreads \<Longrightarrow> calloc_fresh (tn_mem zero_node) (p i) (unat nelems * 48)) \<Longrightarrow>
    length hs = unat nthreads \<Longrightarrow>
    TecThrPool_init nthreads bsize psize nelems (True, True, True) (\<lambda>_ _. 0) p = Inr pool0 \<Longrightarrow>
    TecThrPool_run pool0 (map (\<lambda>h. (0, h)) hs) = Inr (True, pool) \<Longrightarrow>
    pool_reach hs (pool_start pool)"
| step: "pool_reach hs s \<Longrightarrow> pool_step s s' \<Longrightarrow> pool_reach hs s'"
| call: "pool_reach hs s \<Longrightarrow> pp_main s = M_open \<Longrightarrow> pp_enq s i = E_done \<Longrightarrow> payload_fits (pp_pool s) j \<Longrightarrow>
    pool_reach hs (s\<lparr>pp_enq := (pp_enq s)(i := E_index j)\<rparr>)"
| call_done: "pool_reach hs s \<Longrightarrow> pp_main s = M_open \<Longrightarrow> (\<And>i. pp_enq s i = E_done) \<Longrightarrow>
    pool_reach hs (s\<lparr>pp_main := M_null 0\<rparr>)"

section \<open>Owners of the tasks\<close>

text \<open>
  A task that the arena of a node has handed out is at one place: in a caller, in the queue, or
  with the thread of the node.
\<close>

datatype owner = In_queue | At_thread | At_caller nat

fun held :: "enq_pc \<Rightarrow> nat \<Rightarrow> ptr set" where
  "held (E_fill j m task) n = (if m = n then {task} else {})"
| "held (E_push j m task) n = (if m = n then {task} else {})"
| "held _ n = {}"

fun in_hand :: "run_pc \<Rightarrow> ptr set" where
  "in_hand (R_run task) = {task}"
| "in_hand (R_release task) = {task}"
| "in_hand _ = {}"

fun owned :: "(nat \<Rightarrow> enq_pc) \<Rightarrow> run_pc \<Rightarrow> nat \<Rightarrow> ptr list \<Rightarrow> owner \<Rightarrow> ptr set" where
  "owned enq pc n os In_queue = set os"
| "owned enq pc n os At_thread = in_hand pc"
| "owned enq pc n os (At_caller i) = held (enq i) n"

lemma owned_upd:
  "owned (enq(i := p)) pc n os = (owned enq pc n os)(At_caller i := held p n)"
  "owned enq pc' n os = (owned enq pc n os)(At_thread := in_hand pc')"
  "owned enq pc n os' = (owned enq pc n os)(In_queue := set os')"
  by (rule ext, rename_tac x, case_tac x; simp)+

lemma owned_same: "in_hand pc' = in_hand pc \<Longrightarrow> owned enq pc' n os = owned enq pc n os"
  by (rule ext, rename_tac x, case_tac x; simp)

lemma family_add:
  assumes "disjoint_family F" and "x \<notin> \<Union> (range F)" and "F a = {}"
  shows "disjoint_family (F(a := {x}))" and "\<Union> (range (F(a := {x}))) = insert x (\<Union> (range F))"
proof -
  show "disjoint_family (F(a := {x}))"
    using assms by (force simp: disjoint_family_on_def)
  show "\<Union> (range (F(a := {x}))) = insert x (\<Union> (range F))"
    using assms(3) by (fastforce split: if_splits)
qed

lemma family_move:
  assumes "disjoint_family F" and "x \<in> F a" and "a \<noteq> b"
  shows "disjoint_family (F(a := F a - {x}, b := insert x (F b)))"
    and "\<Union> (range (F(a := F a - {x}, b := insert x (F b)))) = \<Union> (range F)"
    and "x \<notin> F b"
proof -
  have d: "F c \<inter> F d = {}" if "c \<noteq> d" for c d using assms(1) that by (auto simp: disjoint_family_on_def)
  have "c = a" if "x \<in> F c" for c using d [of c a] that assms(2) by blast
  then show "disjoint_family (F(a := F a - {x}, b := insert x (F b)))" "x \<notin> F b"
    using d assms(3) by (auto simp: disjoint_family_on_def)
  show "\<Union> (range (F(a := F a - {x}, b := insert x (F b)))) = \<Union> (range F)"
    using assms(2,3) by (fastforce split: if_splits)
qed

lemma family_drop:
  assumes "disjoint_family F" and "F a = {x}"
  shows "disjoint_family (F(a := {}))" and "\<Union> (range (F(a := {}))) = \<Union> (range F) - {x}"
proof -
  have "F c \<inter> F a = {}" if "c \<noteq> a" for c using assms(1) that by (auto simp: disjoint_family_on_def)
  then show "\<Union> (range (F(a := {}))) = \<Union> (range F) - {x}"
    using assms(2) by (fastforce split: if_splits)
  show "disjoint_family (F(a := {}))" using assms(1) by (auto simp: disjoint_family_on_def)
qed

text \<open>The objects of a node; \<open>told\<close>: the \<open>NULL\<close> task was pushed.\<close>

definition objects_ok :: "(nat \<Rightarrow> enq_pc) \<Rightarrow> run_pc \<Rightarrow> nat \<Rightarrow> TecTaskNode \<Rightarrow> bool \<Rightarrow> ptr list \<Rightarrow> bool" where
  "objects_ok enq pc n node told os \<longleftrightarrow>
     queue_holds (tn_q node) (os @ (if told \<and> pc \<notin> {R_set, R_left} then [NULL] else [])) \<and> distinct os \<and>
     disjoint_family (owned enq pc n os) \<and>
     arena_live (tn_arena node, tn_mem node) (\<Union> (range (owned enq pc n os)))"

lemma objects_same:
  "in_hand pc' = in_hand pc \<Longrightarrow> pc' \<in> {R_set, R_left} \<longleftrightarrow> pc \<in> {R_set, R_left} \<Longrightarrow>
   tn_q node' = tn_q node \<Longrightarrow> tn_arena node' = tn_arena node \<Longrightarrow> tn_mem node' = tn_mem node \<Longrightarrow>
   objects_ok enq pc' n node' told os = objects_ok enq pc n node told os"
  using owned_same [of pc' pc enq n os] by (simp add: objects_ok_def)

lemma objects_alloc:
  assumes ok: "objects_ok enq pc n node told os" and free: "held (enq i) n = {}"
    and avail: "arena_avail (tn_arena node, tn_mem node) pt"
    and run: "TecTaskNode_allocate_task node pt = Inr (task, node')" "task \<noteq> NULL"
  shows "objects_ok (enq(i := E_fill j n task)) pc n node' told os"
    and "\<exists>a M. node' = node\<lparr>tn_arena := a, tn_mem := M\<rparr> \<and> ar_lock a = ar_lock (tn_arena node)"
proof -
  let ?F = "owned enq pc n os"
  have live: "arena_live (tn_arena node, tn_mem node) (\<Union> (range ?F))" and dis: "disjoint_family ?F"
    using ok by (simp_all add: objects_ok_def)
  obtain a M where al: "TecArena_allocate (tn_arena node) (tn_mem node) pt = Inr (task, a, M)"
    and node': "node' = node\<lparr>tn_arena := a, tn_mem := M\<rparr>"
    using run(1) by (auto simp: TecTaskNode_allocate_task_def bind_outcome_Inr_iff)
  have new: "task \<notin> \<Union> (range ?F)" "arena_live (a, M) (insert task (\<Union> (range ?F)))"
    using tec_arena.take_spec [OF live avail] al run(2) by (auto simp: arena_take_def)
  have "?F (At_caller i) = {}" using free by simp
  from family_add [OF dis new(1) this] new(2) ok
  show "objects_ok (enq(i := E_fill j n task)) pc n node' told os"
    by (simp add: objects_ok_def node' owned_upd(1))
  have "ar_lock a = ar_lock (tn_arena node)"
    using al by (auto simp: TecArena_allocate_def bind_outcome_Inr_iff Let_def split: if_splits)
  then show "\<exists>a M. node' = node\<lparr>tn_arena := a, tn_mem := M\<rparr> \<and> ar_lock a = ar_lock (tn_arena node)"
    using node' by blast
qed

text \<open>Steps that move a task.\<close>

lemma objects_push:
  assumes ok: "objects_ok enq pc n node False os" and i: "enq i = E_push j n task"
    and fresh: "fresh_qnode (tn_q node) p" and run: "TecTaskNode_enqueue_task node task p = Inr node'"
  shows "objects_ok (enq(i := E_done)) pc n node' False (os @ [task])"
    and "\<exists>q. node' = node\<lparr>tn_q := q\<rparr> \<and> q_mtx q = q_mtx (tn_q node) \<and> q_cv q = q_cv (tn_q node)"
proof -
  let ?F = "owned enq pc n os"
  have q: "queue_holds (tn_q node) os" and dis: "disjoint_family ?F" using ok by (simp_all add: objects_ok_def)
  obtain q' where q': "TecQueue_push (tn_q node) task p = Inr q'" "queue_holds q' (os @ [task])"
    using tec_queue.enq_spec [OF q fresh] by blast
  then have node': "node' = node\<lparr>tn_q := q'\<rparr>" using run by (simp add: TecTaskNode_enqueue_task_def)
  have "task \<in> ?F (At_caller i)" using i by simp
  from family_move [OF dis this, of In_queue]
  show "objects_ok (enq(i := E_done)) pc n node' False (os @ [task])"
    using ok i q'(2) by (simp add: objects_ok_def node' owned_upd(1) owned_upd(3) [of _ _ _ "os @ [task]" os])
  have "q_mtx q' = q_mtx (tn_q node)" "q_cv q' = q_cv (tn_q node)"
    using push_monitor [OF q'(1)] by simp_all
  then show "\<exists>q. node' = node\<lparr>tn_q := q\<rparr> \<and> q_mtx q = q_mtx (tn_q node) \<and> q_cv q = q_cv (tn_q node)"
    using node' by blast
qed

lemma objects_take:
  assumes ok: "objects_ok enq R_pop n node told os" and pop: "TecQueue_pop (tn_q node) = Inr (Some (task, q))"
  obtains os' where "task \<noteq> NULL" and "os = task # os'"
      and "objects_ok enq (R_run task) n (node\<lparr>tn_q := q\<rparr>) told os'"
  | "task = NULL" and "os = []" and told and "objects_ok enq R_set n (node\<lparr>tn_q := q\<rparr>) told []"
proof (cases os)
  case Nil
  have told
  proof (rule ccontr)
    assume "\<not> told"
    then have "queue_holds (tn_q node) []" using ok Nil by (simp add: objects_ok_def)
    then show False using tec_queue.deq_empty pop by simp
  qed
  then have "queue_holds (tn_q node) (NULL # [])" using ok Nil by (simp add: objects_ok_def)
  then have "task = NULL" "queue_holds q []" using tec_queue.deq_spec pop by fastforce+
  moreover have "owned enq R_set n [] = owned enq R_pop n []" by (rule owned_same) simp
  ultimately show thesis using that(2) ok Nil \<open>told\<close> by (simp add: objects_ok_def)
next
  case (Cons x os')
  let ?F = "owned enq R_pop n os"
  obtain rest where "queue_holds (tn_q node) (x # os' @ rest)" and rest: "rest = (if told then [NULL] else [])"
    using ok Cons by (simp add: objects_ok_def)
  then have x: "task = x" and q: "queue_holds q (os' @ rest)"
    using tec_queue.deq_spec pop by fastforce+
  have live: "arena_live (tn_arena node, tn_mem node) (\<Union> (range ?F))" and dis: "disjoint_family ?F"
    and d: "x \<notin> set os'" using ok Cons by (simp_all add: objects_ok_def)
  have inq: "task \<in> ?F In_queue" using Cons x by simp
  then have "task \<in> \<Union> (range ?F)" by (rule UN_I [OF UNIV_I])
  then have "task \<noteq> NULL" using tec_arena.live_not_NULL [OF live] by metis
  moreover have "owned enq (R_run task) n os' = ?F(In_queue := ?F In_queue - {task}, At_thread := insert task (?F At_thread))"
    using Cons x d by (intro ext, rename_tac y, case_tac y) auto
  with family_move [OF dis inq, of At_thread] have "objects_ok enq (R_run task) n (node\<lparr>tn_q := q\<rparr>) told os'"
    using ok Cons q rest by (simp add: objects_ok_def)
  ultimately show thesis using that(1) Cons x by blast
qed

lemma objects_release:
  assumes ok: "objects_ok enq (R_release task) n node told os"
  shows "\<exists>a M. TecArena_release (tn_arena node) (tn_mem node) task = Inr (a, M)"
    and "TecArena_release (tn_arena node) (tn_mem node) task = Inr (a, M) \<Longrightarrow>
      objects_ok enq R_pop n (node\<lparr>tn_arena := a, tn_mem := M, tn_tasks := ts\<rparr>) told os"
proof -
  let ?F = "owned enq (R_release task) n os"
  have live: "arena_live (tn_arena node, tn_mem node) (\<Union> (range ?F))" and dis: "disjoint_family ?F"
    using ok by (simp_all add: objects_ok_def)
  have th: "?F At_thread = {task}" by simp
  then have "task \<in> \<Union> (range ?F)" by blast
  from tec_arena.give_spec [OF live this] obtain a' M' where
    r: "TecArena_release (tn_arena node) (tn_mem node) task = Inr (a', M')"
    "arena_live (a', M') (\<Union> (range ?F) - {task})" by (auto simp: arena_give_def)
  show "\<exists>a M. TecArena_release (tn_arena node) (tn_mem node) task = Inr (a, M)" using r(1) by blast
  show "objects_ok enq R_pop n (node\<lparr>tn_arena := a, tn_mem := M, tn_tasks := ts\<rparr>) told os"
    if "TecArena_release (tn_arena node) (tn_mem node) task = Inr (a, M)"
    using family_drop [OF dis th] ok r that
    by (simp add: objects_ok_def owned_upd(2) [of _ R_pop _ _ "R_release task"])
qed

lemma objects_told:
  assumes ok: "objects_ok enq pc n node False os" and pc: "pc \<notin> {R_set, R_left}"
    and fresh: "fresh_qnode (tn_q node) p"
  obtains q where "TecTaskNode_enqueue_task node NULL p = Inr (node\<lparr>tn_q := q\<rparr>)"
    and "objects_ok enq pc n (node\<lparr>tn_q := q\<rparr>) True os"
    and "q_mtx q = q_mtx (tn_q node)" and "q_cv q = q_cv (tn_q node)"
proof -
  have "queue_holds (tn_q node) os" using ok by (simp add: objects_ok_def)
  from tec_queue.enq_spec [OF this fresh] obtain q where
    q: "TecQueue_push (tn_q node) NULL p = Inr q" "queue_holds q (os @ [NULL])" by blast
  show thesis
    by (rule that [of q]) (use ok pc q push_monitor [OF q(1)] in \<open>simp_all add: TecTaskNode_enqueue_task_def objects_ok_def\<close>)
qed

text \<open>A task of a caller is in no other place.\<close>

lemma held_alone:
  assumes ok: "objects_ok enq pc n node told os" and t: "task \<in> held (enq i) n"
  shows "task \<notin> set os" and "task \<notin> in_hand pc" and "task \<in> held (enq k) n \<Longrightarrow> k = i"
proof -
  have dis: "disjoint_family (owned enq pc n os)" using ok by (simp add: objects_ok_def)
  then have d: "x \<noteq> At_caller i \<Longrightarrow> task \<notin> owned enq pc n os x" for x
    using disjoint_family_onD [OF dis, of x "At_caller i"] t by auto
  show "task \<notin> set os" "task \<notin> in_hand pc" using d [of In_queue] d [of At_thread] by simp_all
  show "k = i" if "task \<in> held (enq k) n" using d [of "At_caller k"] that by auto
qed

section \<open>Invariant\<close>

text \<open>What a job asks for, and what its thread did for it.\<close>

definition asked :: "job \<Rightarrow> (ptr \<times> ptr) option" where
  "asked j = (if jb_func j = NULL then None else Some (jb_func j, jb_args j))"

definition seen :: "task_call option \<Rightarrow> (ptr \<times> ptr) option" where
  "seen c = map_option (\<lambda>c. (call_func c, call_args c)) c"

fun current :: "run_pc \<Rightarrow> ptr list" where
  "current (R_run task) = [task]"
| "current _ = []"

abbreviation task_of :: "TecThrPool \<Rightarrow> nat \<Rightarrow> job \<Rightarrow> TecTask" where
  "task_of pool n j \<equiv> task_for pool n (jb_func j) (jb_args j)"

text \<open>
  The tasks of the node \<open>n\<close>: of the jobs \<open>js\<close> pushed there, the first have been run, the others
  are with the thread and in the queue.
\<close>

definition work_ok ::
  "TecThrPool \<Rightarrow> nat \<Rightarrow> TecTaskNode \<Rightarrow> run_pc \<Rightarrow> job list \<Rightarrow> task_call option list \<Rightarrow> (nat \<Rightarrow> enq_pc)
   \<Rightarrow> ptr list \<Rightarrow> bool" where
  "work_ok pool n node pc js cs enq os \<longleftrightarrow>
     map (tn_tasks node) (current pc @ os) = map (\<lambda>j. Some (task_of pool n j)) (drop (length cs) js) \<and>
     map seen cs = map asked (take (length cs) js) \<and>
     (\<forall>i j task. enq i = E_push j n task \<longrightarrow> tn_tasks node task = Some (task_of pool n j))"

definition thread_ok :: "TecTaskNode \<Rightarrow> nat \<Rightarrow> run_pc \<Rightarrow> bool \<Rightarrow> ptr list \<Rightarrow> bool" where
  "thread_ok node h pc told os \<longleftrightarrow>
     node_made node \<and> tn_thr node = \<lparr>thr_result = Some 0, thr_t = h\<rparr> \<and>
     sig_value (tn_sig_terminated node) = (if pc = R_left then 1 else 0) \<and>
     (pc \<in> {R_set, R_left} \<longrightarrow> told \<and> os = [])"

definition node_inv ::
  "TecThrPool \<Rightarrow> nat \<Rightarrow> nat \<Rightarrow> TecTaskNode \<Rightarrow> run_pc \<Rightarrow> bool \<Rightarrow> job list \<Rightarrow> task_call option list
   \<Rightarrow> (nat \<Rightarrow> enq_pc) \<Rightarrow> bool" where
  "node_inv pool h n node pc told js cs enq \<longleftrightarrow>
     (\<exists>os. objects_ok enq pc n node told os \<and> work_ok pool n node pc js cs enq os \<and>
       thread_ok node h pc told os)"

lemma work_length:
  assumes "work_ok pool n node pc js cs enq os"
  shows "length cs \<le> length js" and "length js = length cs + length (current pc) + length os"
proof -
  have "length (map seen cs) = length (map asked (take (length cs) js))"
    "length (map (tn_tasks node) (current pc @ os)) = length (map (\<lambda>j. Some (task_of pool n j)) (drop (length cs) js))"
    using assms unfolding work_ok_def by simp_all
  then show "length cs \<le> length js" "length js = length cs + length (current pc) + length os" by simp_all
qed

text \<open>A caller at work at another node, or before the allocation, does not matter.\<close>

lemma node_inv_other:
  assumes "node_inv pool h n node pc told js cs enq" and "held p n = {}" and "held (enq i) n = {}"
  shows "node_inv pool h n node pc told js cs (enq(i := p))"
proof -
  obtain os where os: "objects_ok enq pc n node told os" "work_ok pool n node pc js cs enq os"
    "thread_ok node h pc told os"
    using assms(1) by (auto simp: node_inv_def)
  have "owned (enq(i := p)) pc n os = owned enq pc n os"
    using assms(2,3) by (simp add: owned_upd(1) fun_upd_idem_iff)
  then have "objects_ok (enq(i := p)) pc n node told os" using os(1) by (simp add: objects_ok_def)
  moreover have "work_ok pool n node pc js cs (enq(i := p)) os"
    using os(2) assms(2) by (auto simp: work_ok_def)
  ultimately show ?thesis using os(3) unfolding node_inv_def by blast
qed

lemma node_inv_alloc:
  assumes "node_inv pool h n node pc told js cs enq" and "held (enq i) n = {}"
    and "arena_avail (tn_arena node, tn_mem node) pt"
    and "TecTaskNode_allocate_task node pt = Inr (task, node')" and "task \<noteq> NULL"
  shows "node_inv pool h n node' pc told js cs (enq(i := E_fill j n task))"
proof -
  obtain os where os: "objects_ok enq pc n node told os" "work_ok pool n node pc js cs enq os"
    "thread_ok node h pc told os"
    using assms(1) by (auto simp: node_inv_def)
  note al = objects_alloc [OF os(1) assms(2-5)]
  obtain a M where node': "node' = node\<lparr>tn_arena := a, tn_mem := M\<rparr>" "ar_lock a = ar_lock (tn_arena node)"
    using al(2) by blast
  have "work_ok pool n node' pc js cs (enq(i := E_fill j n task)) os"
    using os(2) by (auto simp: work_ok_def node'(1))
  moreover have "thread_ok node' h pc told os" using os(3) node'(2) by (simp add: thread_ok_def node_made_def node'(1))
  ultimately show ?thesis using al(1) unfolding node_inv_def by blast
qed

lemma node_inv_fill:
  assumes "node_inv pool h n node pc told js cs enq" and i: "enq i = E_fill j n task"
  shows "node_inv pool h n (node\<lparr>tn_tasks := (tn_tasks node)(task \<mapsto> task_of pool n j)\<rparr>) pc told js cs
    (enq(i := E_push j n task))"
proof -
  let ?node = "node\<lparr>tn_tasks := (tn_tasks node)(task \<mapsto> task_of pool n j)\<rparr>"
  obtain os where os: "objects_ok enq pc n node told os" "work_ok pool n node pc js cs enq os"
    "thread_ok node h pc told os"
    using assms(1) by (auto simp: node_inv_def)
  have "task \<in> held (enq i) n" using i by simp
  note alone = held_alone [OF os(1) this]
  have "owned (enq(i := E_push j n task)) pc n os = owned enq pc n os"
    using i by (simp add: owned_upd(1) fun_upd_idem_iff)
  then have "objects_ok (enq(i := E_push j n task)) pc n ?node told os" using os(1) by (simp add: objects_ok_def)
  moreover have "work_ok pool n ?node pc js cs (enq(i := E_push j n task)) os"
  proof -
    have "task \<notin> set (current pc @ os)" using alone(1,2) by (cases pc) auto
    then have "map (tn_tasks ?node) (current pc @ os) = map (tn_tasks node) (current pc @ os)"
      by (intro map_cong refl) auto
    then have "map (tn_tasks ?node) (current pc @ os) = map (\<lambda>j. Some (task_of pool n j)) (drop (length cs) js)"
      using os(2) unfolding work_ok_def by metis
    moreover have "tn_tasks ?node t = Some (task_of pool n k)"
      if "(enq(i := E_push j n task)) l = E_push k n t" for k l t
      using that os(2) alone(3) [of l] by (cases "l = i") (auto simp: work_ok_def)
    ultimately show ?thesis using os(2) unfolding work_ok_def by blast
  qed
  moreover have "thread_ok ?node h pc told os" using os(3) by (simp add: thread_ok_def node_made_def)
  ultimately show ?thesis unfolding node_inv_def by blast
qed

lemma node_inv_push:
  assumes "node_inv pool h n node pc False js cs enq" and i: "enq i = E_push j n task"
    and "fresh_qnode (tn_q node) p" and "TecTaskNode_enqueue_task node task p = Inr node'"
  shows "node_inv pool h n node' pc False (js @ [j]) cs (enq(i := E_done))"
proof -
  obtain os where os: "objects_ok enq pc n node False os" "work_ok pool n node pc js cs enq os"
    "thread_ok node h pc False os"
    using assms(1) by (auto simp: node_inv_def)
  note push = objects_push [OF os(1) i assms(3,4)]
  obtain q where node': "node' = node\<lparr>tn_q := q\<rparr>" "q_mtx q = q_mtx (tn_q node)" "q_cv q = q_cv (tn_q node)"
    using push(2) by blast
  have "work_ok pool n node' pc (js @ [j]) cs (enq(i := E_done)) (os @ [task])"
    using os(2) i work_length(1) [OF os(2)] by (auto simp: work_ok_def node'(1))
  moreover have "thread_ok node' h pc False (os @ [task])"
    using os(3) node'(2,3) by (auto simp: thread_ok_def node_made_def node'(1))
  ultimately show ?thesis using push(1) unfolding node_inv_def by blast
qed

lemma node_inv_take:
  assumes "node_inv pool h n node R_pop told js cs enq" and pop: "TecQueue_pop (tn_q node) = Inr (Some (task, q))"
  shows "node_inv pool h n (node\<lparr>tn_q := q\<rparr>) (if task = NULL then R_set else R_run task) told js cs enq"
proof -
  obtain os where os: "objects_ok enq R_pop n node told os" "work_ok pool n node R_pop js cs enq os"
    "thread_ok node h R_pop told os"
    using assms(1) by (auto simp: node_inv_def)
  from os(1) pop show ?thesis
  proof (cases rule: objects_take)
    case (1 os')
    moreover have "work_ok pool n (node\<lparr>tn_q := q\<rparr>) (R_run task) js cs enq os'"
      using os(2) 1(2) by (simp add: work_ok_def)
    moreover have "thread_ok (node\<lparr>tn_q := q\<rparr>) h (R_run task) told os'"
      using os(3) pop_monitor [OF pop] by (simp add: thread_ok_def node_made_def)
    ultimately show ?thesis unfolding node_inv_def by auto
  next
    case 2
    moreover have "work_ok pool n (node\<lparr>tn_q := q\<rparr>) R_set js cs enq []"
      using os(2) 2(2) by (simp add: work_ok_def)
    moreover have "thread_ok (node\<lparr>tn_q := q\<rparr>) h R_set told []"
      using os(3) pop_monitor [OF pop] 2(3) by (simp add: thread_ok_def node_made_def)
    ultimately show ?thesis unfolding node_inv_def by auto
  qed
qed

lemma run_task:
  assumes w: "work_ok pool n node (R_run task) js cs enq os" and fit: "arenas_fit pool'" "same_shape pool pool'"
    and n: "n < unat (tp_nthreads pool)"
  shows "length cs < length js" and "tn_tasks node task = Some (task_of pool n (js ! length cs))"
    and "\<exists>c. runs pool' (task_of pool n (js ! length cs)) c"
    and "runs pool' (task_of pool n (js ! length cs)) c \<Longrightarrow> seen c = asked (js ! length cs)"
proof -
  let ?j = "js ! length cs"
  show l: "length cs < length js" using work_length(2) [OF w] by simp
  then show "tn_tasks node task = Some (task_of pool n ?j)"
    using w by (simp add: work_ok_def Cons_nth_drop_Suc [symmetric])
  have "task_of pool n ?j = task_of pool' n ?j" using same_shapeD(1) [OF fit(2)] by simp
  then have call: "call_of pool' (task_of pool n ?j) = Inr (call_at pool' n ?j)"
    "call_func (call_at pool' n ?j) = jb_func ?j" "call_args (call_at pool' n ?j) = jb_args ?j"
    using call_at_ok [OF fit(1), of n ?j] n same_shapeD(3) [OF fit(2)] by simp_all
  then show "\<exists>c. runs pool' (task_of pool n ?j) c"
    by (cases "jb_func ?j = NULL") (simp_all add: runs_def task_for_def)
  show "runs pool' (task_of pool n ?j) c \<Longrightarrow> seen c = asked ?j"
    using call by (auto simp: runs_def seen_def asked_def task_for_def split: if_splits)
qed

lemma node_inv_run:
  assumes "node_inv pool h n node (R_run task) told js cs enq" and "arenas_fit pool'" "same_shape pool pool'"
    and "n < unat (tp_nthreads pool)" and t: "tn_tasks node task = Some t" "runs pool' t c"
  shows "node_inv pool h n node (R_release task) told js (cs @ [c]) enq"
proof -
  obtain os where os: "objects_ok enq (R_run task) n node told os" "work_ok pool n node (R_run task) js cs enq os"
    "thread_ok node h (R_run task) told os"
    using assms(1) by (auto simp: node_inv_def)
  note r = run_task [OF os(2) assms(2-4)]
  have "objects_ok enq (R_release task) n node told os" using os(1) objects_same [of "R_release task" "R_run task"] by simp
  moreover have "work_ok pool n node (R_release task) js (cs @ [c]) enq os"
    using os(2) r t by (simp add: work_ok_def Cons_nth_drop_Suc [symmetric] take_Suc_conv_app_nth)
  moreover have "thread_ok node h (R_release task) told os" using os(3) by (simp add: thread_ok_def)
  ultimately show ?thesis unfolding node_inv_def by blast
qed

lemma node_inv_release:
  assumes "node_inv pool h n node (R_release task) told js cs enq"
    and run: "TecArena_release (tn_arena node) (tn_mem node) task = Inr (a, M)"
  shows "node_inv pool h n (node\<lparr>tn_arena := a, tn_mem := M, tn_tasks := (tn_tasks node)(task := None)\<rparr>)
    R_pop told js cs enq"
proof -
  let ?ts = "(tn_tasks node)(task := None)"
  let ?node = "node\<lparr>tn_arena := a, tn_mem := M, tn_tasks := ?ts\<rparr>"
  obtain os where os: "objects_ok enq (R_release task) n node told os"
    "work_ok pool n node (R_release task) js cs enq os" "thread_ok node h (R_release task) told os"
    using assms(1) by (auto simp: node_inv_def)
  have dis: "disjoint_family (owned enq (R_release task) n os)" using os(1) by (simp add: objects_ok_def)
  have "task \<notin> set os"
    using disjoint_family_onD [OF dis, of At_thread In_queue] by simp
  then have "map (tn_tasks ?node) os = map (tn_tasks node) os" by (intro map_cong refl) auto
  then have "map (tn_tasks ?node) (current R_pop @ os) = map (\<lambda>j. Some (task_of pool n j)) (drop (length cs) js)"
    using os(2) unfolding work_ok_def by (simp del: map_eq_conv)
  moreover have "tn_tasks ?node t = Some (task_of pool n j)" if "enq i = E_push j n t" for i j t
  proof -
    have "t \<in> held (enq i) n" using that by simp
    then have "t \<noteq> task" using held_alone(2) [OF os(1)] by auto
    then show ?thesis using os(2) that by (auto simp: work_ok_def)
  qed
  ultimately have "work_ok pool n ?node R_pop js cs enq os" using os(2) unfolding work_ok_def by blast
  moreover have "thread_ok ?node h R_pop told os"
    using os(3) release_lock [OF run] by (simp add: thread_ok_def node_made_def)
  ultimately show ?thesis using objects_release(2) [OF os(1) run, of ?ts] unfolding node_inv_def by blast
qed

lemma node_inv_set:
  assumes "node_inv pool h n node R_set told js cs enq"
    and run: "TecSignal_set (tn_sig_terminated node) 0 0 = (e, ms, sg)"
  shows "node_inv pool h n (node\<lparr>tn_sig_terminated := sg\<rparr>) R_left told js cs enq"
proof -
  let ?node = "node\<lparr>tn_sig_terminated := sg\<rparr>"
  obtain os where os: "objects_ok enq R_set n node told os" "work_ok pool n node R_set js cs enq os"
    "thread_ok node h R_set told os"
    using assms(1) by (auto simp: node_inv_def)
  have sg: "sg = (tn_sig_terminated node)\<lparr>sig_value := 1\<rparr>" using run by (simp add: TecSignal_set_def Let_def)
  have "objects_ok enq R_left n ?node told os" using os(1) objects_same [of R_left R_set ?node node] by simp
  moreover have "work_ok pool n ?node R_left js cs enq os" using os(2) by (simp add: work_ok_def)
  moreover have "thread_ok ?node h R_left told os" using os(3) by (simp add: thread_ok_def node_made_def sg)
  ultimately show ?thesis unfolding node_inv_def by blast
qed

lemma node_inv_told:
  assumes "node_inv pool h n node pc False js cs enq" and fresh: "fresh_qnode (tn_q node) p"
  shows "\<exists>node'. TecTaskNode_enqueue_task node NULL p = Inr node'"
    and "TecTaskNode_enqueue_task node NULL p = Inr node' \<Longrightarrow> node_inv pool h n node' pc True js cs enq"
proof -
  obtain os where os: "objects_ok enq pc n node False os" "work_ok pool n node pc js cs enq os"
    "thread_ok node h pc False os"
    using assms(1) by (auto simp: node_inv_def)
  have "pc \<notin> {R_set, R_left}" using os(3) by (auto simp: thread_ok_def)
  from objects_told [OF os(1) this fresh] obtain q where q:
    "TecTaskNode_enqueue_task node NULL p = Inr (node\<lparr>tn_q := q\<rparr>)"
    "objects_ok enq pc n (node\<lparr>tn_q := q\<rparr>) True os" "q_mtx q = q_mtx (tn_q node)" "q_cv q = q_cv (tn_q node)" .
  have "work_ok pool n (node\<lparr>tn_q := q\<rparr>) pc js cs enq os" using os(2) by (simp add: work_ok_def)
  moreover have "thread_ok (node\<lparr>tn_q := q\<rparr>) h pc True os" using os(3) q(3,4) by (auto simp: thread_ok_def node_made_def)
  ultimately have "node_inv pool h n (node\<lparr>tn_q := q\<rparr>) pc True js cs enq" using q(2) unfolding node_inv_def by blast
  then show "\<exists>node'. TecTaskNode_enqueue_task node NULL p = Inr node'"
    "TecTaskNode_enqueue_task node NULL p = Inr node' \<Longrightarrow> node_inv pool h n node' pc True js cs enq"
    using q(1) by auto
qed

text \<open>A node that \<open>TecThrPool_done\<close> has not freed, and one that it has.\<close>

lemma node_inv_left:
  assumes "node_inv pool h n node R_left told js cs enq"
  shows "map seen cs = map asked js" and "length cs = length js"
proof -
  obtain os where w: "work_ok pool n node R_left js cs enq os" "thread_ok node h R_left told os"
    using assms by (auto simp: node_inv_def)
  have l: "length js = length cs" using work_length(2) [OF w(1)] w(2) by (simp add: thread_ok_def)
  have s: "map seen cs = map asked (take (length cs) js)" using w(1) by (simp add: work_ok_def)
  show "length cs = length js" using l by simp
  show "map seen cs = map asked js" using s l by simp
qed

section \<open>The pool: invariant\<close>

text \<open>How many nodes are freed, whether a node got its \<open>NULL\<close> task, and the range of the index.\<close>

fun closed :: "nat \<Rightarrow> main_pc \<Rightarrow> nat" where
  "closed N M_open = 0"
| "closed N (M_null n) = n"
| "closed N (M_wait n) = n"
| "closed N (M_join n) = n"
| "closed N M_freed = N"

fun told_to :: "main_pc \<Rightarrow> nat \<Rightarrow> bool" where
  "told_to M_open n \<longleftrightarrow> False"
| "told_to (M_null k) n \<longleftrightarrow> n < k"
| "told_to (M_wait k) n \<longleftrightarrow> n \<le> k"
| "told_to (M_join k) n \<longleftrightarrow> n \<le> k"
| "told_to M_freed n \<longleftrightarrow> True"

definition main_ok :: "nat \<Rightarrow> pool_state \<Rightarrow> bool" where
  "main_ok N s \<longleftrightarrow>
     (case pp_main s of
        M_open \<Rightarrow> True
      | M_null n \<Rightarrow> n \<le> N
      | M_wait n \<Rightarrow> n < N
      | M_join n \<Rightarrow> n < N \<and> pp_run s n = R_left
      | M_freed \<Rightarrow> True) \<and>
     (pp_main s \<noteq> M_open \<longrightarrow> (\<forall>i. pp_enq s i = E_done))"

fun caller_ok :: "TecThrPool \<Rightarrow> enq_pc \<Rightarrow> bool" where
  "caller_ok pool E_done \<longleftrightarrow> True"
| "caller_ok pool (E_index j) \<longleftrightarrow> payload_fits pool j"
| "caller_ok pool (E_alloc j n) \<longleftrightarrow> payload_fits pool j \<and> n < unat (tp_nthreads pool)"
| "caller_ok pool (E_fill j n task) \<longleftrightarrow> payload_fits pool j \<and> n < unat (tp_nthreads pool)"
| "caller_ok pool (E_push j n task) \<longleftrightarrow> n < unat (tp_nthreads pool)"

text \<open>A node that is freed: its thread has left, and every job pushed there was run.\<close>

definition all_run :: "pool_state \<Rightarrow> nat \<Rightarrow> bool" where
  "all_run s n \<longleftrightarrow> pp_run s n = R_left \<and> map seen (pp_out s n) = map asked (pp_in s n)"

definition state_of_node :: "TecThrPool \<Rightarrow> nat list \<Rightarrow> pool_state \<Rightarrow> nat \<Rightarrow> bool" where
  "state_of_node pool hs s n \<longleftrightarrow>
     (if n < closed (length hs) (pp_main s) then all_run s n
      else node_inv pool (hs ! n) n (get_node s n) (pp_run s n) (told_to (pp_main s) n) (pp_in s n)
        (pp_out s n) (pp_enq s))"

text \<open>\<open>pool\<close> is the pool when it was started.\<close>

definition pool_inv :: "TecThrPool \<Rightarrow> nat list \<Rightarrow> pool_state \<Rightarrow> bool" where
  "pool_inv pool hs s \<longleftrightarrow>
     (same_shape pool (pp_pool s) \<and> arenas_fit (pp_pool s) \<and> tp_nthreads pool \<noteq> 0 \<and>
      length hs = unat (tp_nthreads pool) \<and> length (tp_nodes (pp_pool s)) = length hs) \<and>
     main_ok (length hs) s \<and> pp_joined s = take (closed (length hs) (pp_main s)) hs \<and>
     (\<forall>i. caller_ok pool (pp_enq s i)) \<and> (\<forall>n \<ge> length hs. pp_run s n = R_pop) \<and>
     (\<forall>n < length hs. state_of_node pool hs s n)"

lemma get_put [simp]:
  "get_node (put_node s n node) m = (if m = n \<and> n < length (tp_nodes (pp_pool s)) then node else get_node s m)"
  by (cases "n < length (tp_nodes (pp_pool s))"; cases "m = n")
    (simp_all add: get_node_def put_node_def list_update_beyond)

lemma put_node_simps [simp]:
  "pp_enq (put_node s n node) = pp_enq s" "pp_run (put_node s n node) = pp_run s"
  "pp_main (put_node s n node) = pp_main s" "pp_in (put_node s n node) = pp_in s"
  "pp_out (put_node s n node) = pp_out s" "pp_joined (put_node s n node) = pp_joined s"
  "length (tp_nodes (pp_pool (put_node s n node))) = length (tp_nodes (pp_pool s))"
  "same_shape pool (pp_pool (put_node s n node)) = same_shape pool (pp_pool s)"
  "arenas_fit (pp_pool (put_node s n node)) = arenas_fit (pp_pool s)"
  "tp_nthreads (pp_pool (put_node s n node)) = tp_nthreads (pp_pool s)"
  by (simp_all add: put_node_def same_shape_def same_layout_def arenas_fit_def)

lemma get_node_upd [simp]:
  "get_node (s\<lparr>pp_enq := e\<rparr>) n = get_node s n" "get_node (s\<lparr>pp_run := r\<rparr>) n = get_node s n"
  "get_node (s\<lparr>pp_main := m\<rparr>) n = get_node s n" "get_node (s\<lparr>pp_in := i\<rparr>) n = get_node s n"
  "get_node (s\<lparr>pp_out := c\<rparr>) n = get_node s n" "get_node (s\<lparr>pp_joined := j\<rparr>) n = get_node s n"
  "get_node (s\<lparr>pp_pool := (pp_pool s)\<lparr>tp_next_thread_index := k\<rparr>\<rparr>) n = get_node s n"
  "get_node (s\<lparr>pp_pool := (pp_pool s)\<lparr>tp_payload_arena := p\<rparr>\<rparr>) n = get_node s n"
  by (simp_all add: get_node_def)

lemma pool_invD:
  assumes "pool_inv pool hs s"
  shows "same_shape pool (pp_pool s)" "arenas_fit (pp_pool s)" "tp_nthreads pool \<noteq> 0"
    "length hs = unat (tp_nthreads pool)" "length (tp_nodes (pp_pool s)) = length hs"
    "main_ok (length hs) s" "pp_joined s = take (closed (length hs) (pp_main s)) hs"
    "caller_ok pool (pp_enq s i)" "length hs \<le> n \<Longrightarrow> pp_run s n = R_pop"
    "n < length hs \<Longrightarrow> state_of_node pool hs s n"
  using assms unfolding pool_inv_def by blast+

text \<open>A step of a caller: the pool is open, and one node at most changes.\<close>

lemma caller_step:
  assumes inv: "pool_inv pool hs s" and i: "pp_enq s i \<noteq> E_done"
    and s': "pp_main s' = pp_main s" "pp_run s' = pp_run s" "pp_out s' = pp_out s" "pp_joined s' = pp_joined s"
      "pp_enq s' = (pp_enq s)(i := p)"
    and pl: "same_shape pool (pp_pool s')" "arenas_fit (pp_pool s')"
      "length (tp_nodes (pp_pool s')) = length (tp_nodes (pp_pool s))"
    and p: "caller_ok pool p"
    and other: "\<And>m. m \<noteq> n \<Longrightarrow> get_node s' m = get_node s m \<and> pp_in s' m = pp_in s m \<and>
      held p m = {} \<and> held (pp_enq s i) m = {}"
    and this_node: "node_inv pool (hs ! n) n (get_node s n) (pp_run s n) False (pp_in s n) (pp_out s n) (pp_enq s) \<Longrightarrow>
      node_inv pool (hs ! n) n (get_node s' n) (pp_run s n) False (pp_in s' n) (pp_out s n) (pp_enq s')"
  shows "pool_inv pool hs s'"
proof -
  note d = pool_invD [OF inv]
  have main: "pp_main s = M_open" using d(6) i unfolding main_ok_def by metis
  have "state_of_node pool hs s' m" if m: "m < length hs" for m
  proof (cases "m = n")
    case True
    then show ?thesis using d(10) [OF m] this_node s' main by (simp add: state_of_node_def)
  next
    case False
    then show ?thesis
      using d(10) [OF m] other [of m] s' main node_inv_other [of pool "hs ! m" m _ _ _ _ _ "pp_enq s" p i]
      by (simp add: state_of_node_def)
  qed
  moreover have "main_ok (length hs) s'" using s' main by (simp add: main_ok_def)
  ultimately show ?thesis using d pl p s' unfolding pool_inv_def by simp
qed

text \<open>A step of the thread of a node.\<close>

lemma thread_step:
  assumes inv: "pool_inv pool hs s" and n: "pp_run s n = pc" "pc \<noteq> R_left" "pc \<noteq> R_pop \<or> n < length hs"
    and s': "pp_main s' = pp_main s" "pp_in s' = pp_in s" "pp_joined s' = pp_joined s" "pp_enq s' = pp_enq s"
      "pp_run s' = (pp_run s)(n := pc')"
    and pl: "same_shape pool (pp_pool s')" "arenas_fit (pp_pool s')"
      "length (tp_nodes (pp_pool s')) = length (tp_nodes (pp_pool s))"
    and other: "\<And>m. m \<noteq> n \<Longrightarrow> get_node s' m = get_node s m \<and> pp_out s' m = pp_out s m"
    and this_node: "\<And>told. n < length hs \<Longrightarrow>
      node_inv pool (hs ! n) n (get_node s n) pc told (pp_in s n) (pp_out s n) (pp_enq s) \<Longrightarrow>
      node_inv pool (hs ! n) n (get_node s' n) pc' told (pp_in s n) (pp_out s' n) (pp_enq s)"
  shows "pool_inv pool hs s'"
proof -
  note d = pool_invD [OF inv]
  have nl: "n < length hs" using n d(9) [of n] by (cases "n < length hs") auto
  have nc: "\<not> n < closed (length hs) (pp_main s)"
    using d(10) [OF nl] n by (auto simp: state_of_node_def all_run_def)
  have "state_of_node pool hs s' m" if m: "m < length hs" for m
  proof (cases "m = n")
    case True
    then show ?thesis using d(10) [OF m] this_node [OF nl] s' nc n(1) by (simp add: state_of_node_def)
  next
    case False
    then show ?thesis
      using d(10) [OF m] other [of m] s' by (auto simp: state_of_node_def all_run_def split: if_splits)
  qed
  moreover have "main_ok (length hs) s'" using s' d(6) n by (auto simp: main_ok_def split: main_pc.splits)
  ultimately show ?thesis using d pl s' nl unfolding pool_inv_def by simp
qed

lemma fill_pool:
  assumes fit: "arenas_fit pool'" "same_shape pool pool'" and n: "n < unat (tp_nthreads pool)"
    and j: "payload_fits pool j"
    and run: "copy_payload pool' (task_of pool' n j) (jb_payload j) = Inr payloads"
  shows "same_shape pool (pool'\<lparr>tp_payload_arena := payloads\<rparr>)" and "arenas_fit (pool'\<lparr>tp_payload_arena := payloads\<rparr>)"
proof -
  have d: "n < unat (tp_nthreads pool')" "\<forall>s. jb_payload j = Some s \<longrightarrow> unat (tp_payload_size pool') \<le> length s"
    "\<forall>b. tp_payload_arena pool' = Some b \<longrightarrow> length b = unat (tp_nthreads pool') * unat (tp_payload_size pool')"
    using n j same_shapeD(3,4) [OF fit(2)] fit(1) by (simp_all add: payload_fits_def arenas_fit_def)
  have p: "payloads = copied pool' n (jb_payload j)" using copy_payload_ok(1) [OF d(1,3,2)] run by simp
  show "same_shape pool (pool'\<lparr>tp_payload_arena := payloads\<rparr>)"
    using fit(2) by (simp add: same_shape_def same_layout_def p copied_None)
  show "arenas_fit (pool'\<lparr>tp_payload_arena := payloads\<rparr>)"
    using fit(1) copy_payload_ok(2) [OF d(1,3,2)] by (simp add: arenas_fit_def p)
qed

lemma index_inv:
  assumes inv: "pool_inv pool hs s" and i: "pp_enq s i = E_index j" and n: "next_index (pp_pool s) = Inr n"
  shows "pool_inv pool hs (s\<lparr>pp_pool := (pp_pool s)\<lparr>tp_next_thread_index := k\<rparr>,
      pp_enq := (pp_enq s)(i := E_alloc j n)\<rparr>)"
proof -
  note d = pool_invD [OF inv]
  have "n < unat (tp_nthreads pool)"
    using next_index_bound [OF _ n] d(3) same_shapeD(3) [OF d(1)] by simp
  then show ?thesis
    using i d(1,2) d(8) [of i]
    by (intro caller_step [OF inv, where i = i and n = n])
      (auto simp: same_shape_def same_layout_def arenas_fit_def intro: node_inv_other)
qed

text \<open>Steps of \<open>TecThrPool_done\<close>.\<close>

lemma null_inv:
  assumes inv: "pool_inv pool hs s" and n: "pp_main s = M_null n" "n < length (tp_nodes (pp_pool s))"
    and p: "fresh_qnode (tn_q (get_node s n)) p"
    and run: "TecTaskNode_enqueue_task (get_node s n) NULL p = Inr node'"
  shows "pool_inv pool hs ((put_node s n node')\<lparr>pp_main := M_wait n\<rparr>)"
proof -
  note d = pool_invD [OF inv]
  have nl: "n < length hs" using n(2) d(5) by simp
  have old: "node_inv pool (hs ! n) n (get_node s n) (pp_run s n) False (pp_in s n) (pp_out s n) (pp_enq s)"
    using d(10) [OF nl] n(1) by (simp add: state_of_node_def)
  have "state_of_node pool hs ((put_node s n node')\<lparr>pp_main := M_wait n\<rparr>) m" if "m < length hs" for m
    using d(10) [OF that] n node_inv_told(2) [OF old p run]
    by (auto simp: state_of_node_def all_run_def le_less split: if_splits)
  moreover have "main_ok (length hs) ((put_node s n node')\<lparr>pp_main := M_wait n\<rparr>)"
    using d(6) n nl by (simp add: main_ok_def)
  ultimately show ?thesis using d n(1) unfolding pool_inv_def by simp
qed

lemma node_told_left:
  assumes inv: "pool_inv pool hs s" and n: "pp_main s = M_wait n"
    and v: "TecSignal_wait (sig_value (tn_sig_terminated (get_node s n))) 0 [] = Some r"
  shows "pp_run s n = R_left"
proof -
  have nl: "n < length hs" using pool_invD(6) [OF inv] n by (simp add: main_ok_def)
  then have "node_inv pool (hs ! n) n (get_node s n) (pp_run s n) True (pp_in s n) (pp_out s n) (pp_enq s)"
    using pool_invD(10) [OF inv nl] n by (simp add: state_of_node_def)
  moreover have "sig_value (tn_sig_terminated (get_node s n)) = 1"
    using v by (simp add: TecSignal_wait_def split: if_splits)
  ultimately show ?thesis by (auto simp: node_inv_def thread_ok_def split: if_splits)
qed

lemma wait_inv:
  assumes inv: "pool_inv pool hs s" and n: "pp_main s = M_wait n"
    and v: "TecSignal_wait (sig_value (tn_sig_terminated (get_node s n))) 0 [] = Some r"
  shows "pool_inv pool hs (s\<lparr>pp_main := M_join n\<rparr>)"
proof -
  note d = pool_invD [OF inv]
  have "state_of_node pool hs (s\<lparr>pp_main := M_join n\<rparr>) m" if "m < length hs" for m
    using d(10) [OF that] n by (auto simp: state_of_node_def all_run_def split: if_splits)
  moreover have "main_ok (length hs) (s\<lparr>pp_main := M_join n\<rparr>)"
    using d(6) n node_told_left [OF inv n v] by (simp add: main_ok_def)
  ultimately show ?thesis using d n unfolding pool_inv_def by simp
qed

lemma pool_join_inv:
  assumes inv: "pool_inv pool hs s" and n: "pp_main s = M_join n" "pp_run s n = R_left"
    and join: "TecThread_join (tn_thr (get_node s n)) = Inr (js, t)"
  shows "pool_inv pool hs ((put_node s n node')\<lparr>pp_main := M_null (Suc n), pp_joined := pp_joined s @ js\<rparr>)"
proof -
  let ?s = "(put_node s n node')\<lparr>pp_main := M_null (Suc n), pp_joined := pp_joined s @ js\<rparr>"
  note d = pool_invD [OF inv]
  have nl: "n < length hs" using d(6) n by (simp add: main_ok_def)
  have this_node: "node_inv pool (hs ! n) n (get_node s n) R_left True (pp_in s n) (pp_out s n) (pp_enq s)"
    using d(10) [OF nl] n by (simp add: state_of_node_def)
  then have "tn_thr (get_node s n) = \<lparr>thr_result = Some 0, thr_t = hs ! n\<rparr>"
    by (auto simp: node_inv_def thread_ok_def)
  then have js: "js = [hs ! n]" using join by (simp add: TecThread_join_def TecThread_ok_def read_field_def)
  have "state_of_node pool hs ?s m" if "m < length hs" for m
    using d(10) [OF that] n node_inv_left(1) [OF this_node]
    by (auto simp: state_of_node_def all_run_def less_Suc_eq less_Suc_eq_le split: if_splits)
  moreover have "main_ok (length hs) ?s" using d(6) n nl by (simp add: main_ok_def)
  ultimately show ?thesis
    using d n(1) js take_Suc_conv_app_nth [OF nl] unfolding pool_inv_def by simp
qed

lemma freed_inv:
  assumes inv: "pool_inv pool hs s" and n: "pp_main s = M_null (length hs)"
  shows "pool_inv pool hs (s\<lparr>pp_main := M_freed\<rparr>)"
proof -
  note d = pool_invD [OF inv]
  have "state_of_node pool hs (s\<lparr>pp_main := M_freed\<rparr>) m" if "m < length hs" for m
    using d(10) [OF that] that n by (simp add: state_of_node_def all_run_def)
  moreover have "main_ok (length hs) (s\<lparr>pp_main := M_freed\<rparr>)" using d(6) n by (simp add: main_ok_def)
  ultimately show ?thesis using d n unfolding pool_inv_def by simp
qed

lemma pool_inv_step:
  assumes "pool_step s s'" and inv: "pool_inv pool hs s"
  shows "pool_inv pool hs s'"
proof -
  note d = pool_invD [OF inv]
  note sh = same_shapeD(1) [OF d(1)]
  from assms(1) show ?thesis
  proof cases
    case (index i j n)
    then show ?thesis using index_inv [OF inv] by simp
  next
    case (alloc i j n node task node')
    have "caller_ok pool (E_fill j n task)" using d(8) [of i] alloc(2) by simp
    with alloc d(1,2,5) show ?thesis
      by (intro caller_step [OF inv, of i _ "E_fill j n task" n])
        (auto intro: node_inv_alloc simp: d(4))
  next
    case (fill i j n task node t payloads)
    have j: "payload_fits pool j" "n < unat (tp_nthreads pool)" using d(8) [of i] fill(2) by simp_all
    have t: "t = task_of pool n j" using fill(4) sh by simp
    have "same_shape pool ((pp_pool s)\<lparr>tp_payload_arena := payloads\<rparr>)"
      "arenas_fit ((pp_pool s)\<lparr>tp_payload_arena := payloads\<rparr>)"
      using fill_pool [OF d(2,1) j(2,1)] fill(4,5) by simp_all
    then show ?thesis
      using fill(1-3) t d(5) j
      by (intro caller_step [OF inv, of i _ "E_push j n task" n]) (auto intro: node_inv_fill simp: d(4))
  next
    case (push i j n task node node')
    have "n < unat (tp_nthreads pool)" using d(8) [of i] push(2) by simp
    with push d(1,2,5) show ?thesis
      by (intro caller_step [OF inv, of i _ E_done n]) (auto intro: node_inv_push simp: d(4))
  next
    case (take n node task q)
    then show ?thesis
      using d(1,2,5)
      by (intro thread_step [OF inv, of n R_pop _ "if task = NULL then R_set else R_run task"])
        (auto intro: node_inv_take split del: if_split)
  next
    case (run n task t c)
    then show ?thesis
      using d(1,2,4,5)
      by (intro thread_step [OF inv, of n "R_run task" _ "R_release task"]) (auto intro: node_inv_run)
  next
    case (release n task node a M)
    then show ?thesis
      using d(1,2,5)
      by (intro thread_step [OF inv, of n "R_release task" _ R_pop]) (auto intro: node_inv_release)
  next
    case (set n node e cs sg)
    then show ?thesis
      using d(1,2,5)
      by (intro thread_step [OF inv, of n R_set _ R_left]) (auto intro: node_inv_set)
  next
    case (null n node p node')
    then show ?thesis using null_inv [OF inv] by simp
  next
    case (wait n r)
    then show ?thesis using wait_inv [OF inv] by simp
  next
    case (join n node hs' t cs q cs' a M cs'' sg node')
    then show ?thesis using pool_join_inv [OF inv join(2,3)] by simp
  next
    case freed
    then show ?thesis using freed_inv [OF inv] d(5) by simp
  qed
qed

section \<open>Start and callers\<close>

lemma init_not_set:
  "init_nodes nelems rc p ns = Inr nodes \<Longrightarrow> \<forall>node \<in> set nodes. sig_value (tn_sig_terminated node) = 0"
proof (induction ns arbitrary: nodes)
  case (Cons n ns)
  have "sig_value (tn_sig_terminated node) = 0"
    if "TecTaskNode_init zero_node nelems (rc n) (p n) = Inr node" for node
    using that
    by (auto simp: TecTaskNode_init_def TecSignal_init_def bind_outcome_Inr_iff Let_def split: if_splits)
  then show ?case using Cons by (auto simp: bind_outcome_Inr_iff)
qed simp

lemma run_not_set:
  "run_nodes rcs nodes = Inr (ok, nodes') \<Longrightarrow> \<forall>node \<in> set nodes. sig_value (tn_sig_terminated node) = 0 \<Longrightarrow>
   \<forall>node \<in> set nodes'. sig_value (tn_sig_terminated node) = 0"
  by (induction rcs nodes arbitrary: nodes' ok rule: run_nodes.induct)
    (auto simp: TecTaskNode_run_def bind_outcome_Inr_iff Let_def split: if_splits)

lemma pool_start_inv:
  assumes n: "nthreads \<noteq> 0" and nelems: "nelems \<noteq> 0" "unat nelems * 48 < 2 ^ 64"
    and p: "\<forall>i < unat nthreads. calloc_fresh (tn_mem zero_node) (p i) (unat nelems * 48)"
    and hs: "length hs = unat nthreads"
    and init: "TecThrPool_init nthreads bsize psize nelems (True, True, True) (\<lambda>_ _. 0) p = Inr pool0"
    and run: "TecThrPool_run pool0 (map (\<lambda>h. (0, h)) hs) = Inr (True, pool)"
  shows "pool_inv pool hs (pool_start pool)"
proof -
  obtain pool1 pool2 where start:
    "TecThrPool_init nthreads bsize psize nelems (True, True, True) (\<lambda>_ _. 0) p = Inr pool1"
    "TecThrPool_run pool1 (map (\<lambda>h. (0, h)) hs) = Inr (True, pool2)"
    "pool_has pool2 hs p (unat nelems * 48) []" "tp_nthreads pool2 = nthreads"
    by (rule pool_starts [OF n nelems p hs])
  then have has: "pool_has pool hs p (unat nelems * 48) []" and nt: "tp_nthreads pool = nthreads"
    using init run by simp_all
  have sig: "\<forall>node \<in> set (tp_nodes pool). sig_value (tn_sig_terminated node) = 0"
  proof -
    obtain nodes where "init_nodes nelems (\<lambda>_ _. 0) p [0 ..< unat nthreads] = Inr nodes" "tp_nodes pool0 = nodes"
      using init by (auto simp: TecThrPool_init_def bind_outcome_Inr_iff Let_def split: if_splits)
    then have "\<forall>node \<in> set (tp_nodes pool0). sig_value (tn_sig_terminated node) = 0" using init_not_set by blast
    then show ?thesis using run run_not_set by (auto simp: TecThrPool_run_def bind_outcome_Inr_iff)
  qed
  have ok: "pool_ok pool (map (\<lambda>i. tasks_of pool i []) [0 ..< length hs])"
    and life: "\<And>m. m < length hs \<Longrightarrow> node_life (tp_nodes pool ! m) (hs ! m) (p m, unat nelems * 48) []"
    using has hs nt by (simp_all add: pool_has_def Let_def)
  have len: "length (tp_nodes pool) = length hs" using ok hs nt by (simp add: pool_ok_def)
  have "node_inv pool (hs ! m) m (tp_nodes pool ! m) R_pop False [] [] (\<lambda>_. E_done)" if m: "m < length hs" for m
  proof -
    have "node_ok (tp_nodes pool ! m) []" using ok m nt hs by (auto simp: pool_ok_def tasks_of_def)
    then have q: "queue_holds (tn_q (tp_nodes pool ! m)) []"
      "arena_live (tn_arena (tp_nodes pool ! m), tn_mem (tp_nodes pool ! m)) {}"
      by (auto simp: node_queue_def)
    have none: "owned (\<lambda>_. E_done) R_pop m [] x = {}" for x by (cases x) simp_all
    have "objects_ok (\<lambda>_. E_done) R_pop m (tp_nodes pool ! m) False []"
      using q by (simp add: objects_ok_def disjoint_family_on_def none)
    moreover have "thread_ok (tp_nodes pool ! m) (hs ! m) R_pop False []"
      using life [OF m] sig m len by (simp add: thread_ok_def node_life_def)
    ultimately show ?thesis unfolding node_inv_def by (intro exI [of _ "[]"]) (simp add: work_ok_def)
  qed
  then show ?thesis
    using pool_ok_fit [OF ok] nt n hs len
    by (simp add: pool_inv_def pool_start_def state_of_node_def main_ok_def get_node_def same_shape_def same_layout_def)
qed

lemma pool_reach_inv:
  assumes "pool_reach hs s"
  obtains pool where "pool_inv pool hs s"
  using assms
proof (induction arbitrary: thesis rule: pool_reach.induct)
  case (start nthreads nelems p bsize psize pool0 pool)
  show thesis by (rule start(8)) (rule pool_start_inv; use start in blast)
next
  case (step s s')
  then show thesis using pool_inv_step by metis
next
  case (call s i j)
  obtain pool where inv: "pool_inv pool hs s" using call.IH by blast
  note d = pool_invD [OF inv]
  have "payload_fits pool j" using call.hyps(4) same_shapeD(4) [OF d(1)] by (simp add: payload_fits_def)
  then have "pool_inv pool hs (s\<lparr>pp_enq := (pp_enq s)(i := E_index j)\<rparr>)"
    using d call.hyps(2,3) node_inv_other [where p = "E_index j" and i = i and enq = "pp_enq s"]
    unfolding pool_inv_def by (simp add: state_of_node_def all_run_def main_ok_def)
  then show thesis by (rule call.prems)
next
  case (call_done s)
  obtain pool where inv: "pool_inv pool hs s" using call_done.IH by blast
  have "pool_inv pool hs (s\<lparr>pp_main := M_null 0\<rparr>)"
    using inv call_done.hyps(2,3) unfolding pool_inv_def by (simp add: state_of_node_def main_ok_def)
  then show thesis by (rule call_done.prems)
qed

section \<open>Progress\<close>

lemma fresh_exists:
  assumes "queue_holds q os"
  obtains p where "fresh_qnode q p"
proof -
  have "finite (insert NULL (dom (q_heap q)))" using assms by (auto simp: queue_holds_def queue_layout_def)
  then obtain p where "p \<notin> insert NULL (dom (q_heap q))"
    using ex_new_if_finite infinite_UNIV_nat by blast
  then show thesis by (intro that [of p]) (auto simp: fresh_qnode_def)
qed

text \<open>A thread with a task, or whose queue is not empty, can go on.\<close>

lemma thread_enabled:
  assumes inv: "pool_inv pool hs s" and n: "n < length hs"
    and node: "node_inv pool h n (get_node s n) (pp_run s n) told (pp_in s n) (pp_out s n) (pp_enq s)"
    and pc: "pp_run s n \<noteq> R_left" "told \<or> length (pp_out s n) < length (pp_in s n) \<or> pp_run s n \<noteq> R_pop"
  shows "\<exists>s'. pool_step s s'"
proof -
  note d = pool_invD [OF inv]
  obtain os where os: "objects_ok (pp_enq s) (pp_run s n) n (get_node s n) told os"
    "work_ok pool n (get_node s n) (pp_run s n) (pp_in s n) (pp_out s n) (pp_enq s) os"
    using node by (auto simp: node_inv_def)
  show ?thesis
  proof (cases "pp_run s n")
    case R_pop
    have "os @ (if told then [NULL] else []) \<noteq> []"
      using pc(2) R_pop work_length(2) [OF os(2)] by auto
    then obtain x xs where "queue_holds (tn_q (get_node s n)) (x # xs)"
      using os(1) R_pop unfolding objects_ok_def by (cases "os @ (if told then [NULL] else [])") auto
    then obtain q where "TecQueue_pop (tn_q (get_node s n)) = Inr (Some (x, q))" using tec_queue.deq_spec by blast
    then show ?thesis using pool_step.take [OF R_pop] n d(5) by fastforce
  next
    case (R_run task)
    note r = run_task [OF os(2) [unfolded R_run] d(2,1) n [unfolded d(4)]]
    obtain c where "runs (pp_pool s) (task_of pool n (pp_in s n ! length (pp_out s n))) c" using r(3) by blast
    then show ?thesis using pool_step.run [OF R_run r(2)] by blast
  next
    case (R_release task)
    then show ?thesis using objects_release(1) [OF os(1) [unfolded R_release]] pool_step.release [OF R_release refl] by blast
  next
    case R_set
    obtain e cs sg where "TecSignal_set (tn_sig_terminated (get_node s n)) 0 0 = (e, cs, sg)" by (rule prod_cases3)
    then show ?thesis using pool_step.set [OF R_set refl] by blast
  qed (use pc in simp)
qed

lemma open_node:
  assumes inv: "pool_inv pool hs s" and n: "n < length hs" "closed (length hs) (pp_main s) \<le> n"
  shows "node_inv pool (hs ! n) n (get_node s n) (pp_run s n) (told_to (pp_main s) n) (pp_in s n) (pp_out s n) (pp_enq s)"
    and "TecThread_ok (tn_thr (get_node s n)) = Inr True"
proof -
  show node: "node_inv pool (hs ! n) n (get_node s n) (pp_run s n) (told_to (pp_main s) n) (pp_in s n) (pp_out s n)
      (pp_enq s)"
    using pool_invD(10) [OF inv n(1)] n(2) by (simp add: state_of_node_def)
  then show "TecThread_ok (tn_thr (get_node s n)) = Inr True"
    by (auto simp: node_inv_def thread_ok_def TecThread_ok_def read_field_def)
qed

lemma null_enabled:
  assumes inv: "pool_inv pool hs s" and main: "pp_main s = M_null n"
  shows "\<exists>s'. pool_step s s'"
proof (cases "n < length hs")
  case True
  note open_n = open_node [OF inv True]
  have N: "node_inv pool (hs ! n) n (get_node s n) (pp_run s n) False (pp_in s n) (pp_out s n) (pp_enq s)"
    using open_n(1) main by simp
  then obtain p where p: "fresh_qnode (tn_q (get_node s n)) p"
    by (auto simp: node_inv_def objects_ok_def elim: fresh_exists)
  obtain node' where "TecTaskNode_enqueue_task (get_node s n) NULL p = Inr node'"
    using node_inv_told(1) [OF N p] by blast
  then show ?thesis
    using pool_step.null [OF main _ refl _ p] True pool_invD(5) [OF inv] open_n(2) main by simp blast
next
  case False
  then have "n = length hs" using pool_invD(6) [OF inv] main by (simp add: main_ok_def)
  then show ?thesis using pool_step.freed [of s] main pool_invD(5) [OF inv] by auto
qed

lemma wait_enabled:
  assumes inv: "pool_inv pool hs s" and main: "pp_main s = M_wait n"
  shows "\<exists>s'. pool_step s s'"
proof -
  have n: "n < length hs" using pool_invD(6) [OF inv] main by (simp add: main_ok_def)
  have N: "node_inv pool (hs ! n) n (get_node s n) (pp_run s n) True (pp_in s n) (pp_out s n) (pp_enq s)"
    using open_node(1) [OF inv n] main by simp
  show ?thesis
  proof (cases "pp_run s n = R_left")
    case True
    then have "sig_value (tn_sig_terminated (get_node s n)) = 1"
      using N by (auto simp: node_inv_def thread_ok_def)
    then show ?thesis using pool_step.wait [OF main, of "(0, [])"] by (auto simp: TecSignal_wait_def)
  next
    case False
    show ?thesis by (rule thread_enabled [OF inv n N False]) simp
  qed
qed

lemma pool_join_enabled:
  assumes inv: "pool_inv pool hs s" and main: "pp_main s = M_join n"
  shows "\<exists>s'. pool_step s s'"
proof -
  have n: "n < length hs" "pp_run s n = R_left" using pool_invD(6) [OF inv] main by (simp_all add: main_ok_def)
  note open_n = open_node [OF inv n(1)]
  obtain os X where "queue_holds (tn_q (get_node s n)) os" "node_made (get_node s n)"
    "arena_live (tn_arena (get_node s n), tn_mem (get_node s n)) X"
    using open_n(1) main by (auto simp: node_inv_def objects_ok_def thread_ok_def)
  from node_freed [OF this(1,3,2)] obtain qcs q acs a M scs sg where
    "TecQueue_done (tn_q (get_node s n)) 0 = Inr (qcs, q)"
    "TecArena_done (tn_arena (get_node s n)) (tn_mem (get_node s n)) = Inr (acs, a, M)"
    "TecSignal_done (tn_sig_terminated (get_node s n)) 0 = Inr (scs, sg)" by blast
  moreover obtain js t where "TecThread_join (tn_thr (get_node s n)) = Inr (js, t)"
    using open_n(2) main by (auto simp: TecThread_join_def)
  ultimately show ?thesis using pool_step.join [OF main n(2) refl] by blast
qed

lemma done_progress:
  assumes inv: "pool_inv pool hs s" and main: "pp_main s \<noteq> M_open" "pp_main s \<noteq> M_freed"
  shows "\<exists>s'. pool_step s s'"
  using main null_enabled [OF inv] wait_enabled [OF inv] pool_join_enabled [OF inv] by (cases "pp_main s") blast+

section \<open>Termination\<close>

text \<open>What is left to do for the thread of a node and for the owner.\<close>

fun run_rank :: "run_pc \<Rightarrow> nat" where
  "run_rank R_pop = 2"
| "run_rank (R_run task) = 1"
| "run_rank (R_release task) = 3"
| "run_rank R_set = 1"
| "run_rank R_left = 0"

fun main_rank :: "nat \<Rightarrow> main_pc \<Rightarrow> nat" where
  "main_rank N M_open = 0"
| "main_rank N (M_null n) = 3 * (N - n) + 1"
| "main_rank N (M_wait n) = 3 * (N - n)"
| "main_rank N (M_join n) = 3 * (N - n) - 1"
| "main_rank N M_freed = 0"

definition node_rank :: "pool_state \<Rightarrow> nat \<Rightarrow> nat" where
  "node_rank s n = 3 * (length (pp_in s n) - length (pp_out s n)) + run_rank (pp_run s n)"

definition pool_rank :: "nat \<Rightarrow> pool_state \<Rightarrow> nat" where
  "pool_rank N s = main_rank N (pp_main s) + (\<Sum>n < N. node_rank s n)"

lemma rank_thread:
  assumes "n < N" and "node_rank s' n < node_rank s n" and "pp_main s' = pp_main s"
    and "\<And>m. m \<noteq> n \<Longrightarrow> node_rank s' m = node_rank s m"
  shows "pool_rank N s' < pool_rank N s"
proof -
  have "(\<Sum>n < N. node_rank s' n) < (\<Sum>n < N. node_rank s n)"
    using assms(1,2,4) by (intro sum_strict_mono_ex1) (auto simp: le_less, metis)
  then show ?thesis using assms(3) by (simp add: pool_rank_def)
qed

lemma rank_main:
  "main_rank N (pp_main s') < main_rank N (pp_main s) \<Longrightarrow> pp_in s' = pp_in s \<Longrightarrow> pp_out s' = pp_out s \<Longrightarrow>
   pp_run s' = pp_run s \<Longrightarrow> pool_rank N s' < pool_rank N s"
  by (simp add: pool_rank_def node_rank_def)

lemma done_step:
  assumes inv: "pool_inv pool hs s" and main: "pp_main s \<noteq> M_open" and step: "pool_step s s'"
  shows "pool_rank (length hs) s' < pool_rank (length hs) s" and "pp_main s' \<noteq> M_open" and "pp_in s' = pp_in s"
proof -
  note d = pool_invD [OF inv]
  have idle: "pp_enq s i = E_done" for i using d(6) main unfolding main_ok_def by blast
  have range: "n < length hs" if "pp_run s n \<noteq> R_pop" for n
    using d(9) [of n] that by (cases "n < length hs") auto
  from step show "pool_rank (length hs) s' < pool_rank (length hs) s"
  proof cases
    case (take n node task q)
    then show ?thesis using d(5) by (intro rank_thread [of n]) (simp_all add: node_rank_def)
  next
    case (run n task t c)
    have n: "n < length hs" using range [of n] run(2) by simp
    have "node_inv pool (hs ! n) n (get_node s n) (R_run task) (told_to (pp_main s) n) (pp_in s n) (pp_out s n) (pp_enq s)"
      using d(10) [OF n] run(2) by (auto simp: state_of_node_def all_run_def split: if_splits)
    then have "length (pp_out s n) < length (pp_in s n)"
      using work_length(2) [of _ _ _ "R_run task"] by (fastforce simp: node_inv_def)
    then show ?thesis using run n by (intro rank_thread [of n]) (simp_all add: node_rank_def)
  next
    case (release n task node a M)
    then show ?thesis using range [of n] by (intro rank_thread [of n]) (simp_all add: node_rank_def)
  next
    case (set n node e cs sg)
    then show ?thesis using range [of n] by (intro rank_thread [of n]) (simp_all add: node_rank_def)
  next
    case (null n node p node')
    then show ?thesis using d(5) by (intro rank_main) simp_all
  next
    case (wait n r)
    then show ?thesis using d(6) by (intro rank_main) (simp_all add: main_ok_def)
  next
    case (join n node js t cs q cs' a M cs'' sg node')
    then have "n < length hs" using d(6) by (simp add: main_ok_def)
    then have "Suc (3 * (length hs - Suc n)) < 3 * (length hs - n) - Suc 0" by linarith
    then show ?thesis using join by (intro rank_main) simp_all
  next
    case freed
    then show ?thesis by (intro rank_main) simp_all
  qed (use idle in simp_all)
  from step show "pp_main s' \<noteq> M_open" by cases (use main in simp_all)
  from step show "pp_in s' = pp_in s" by cases (use idle in simp_all)
qed

lemma done_ends:
  assumes "pool_reach hs s" and "pp_main s \<noteq> M_open"
  shows "\<exists>s'. pool_reach hs s' \<and> pp_main s' = M_freed \<and> pp_in s' = pp_in s"
  using assms
proof (induction "pool_rank (length hs) s" arbitrary: s rule: less_induct)
  case less
  obtain pool where inv: "pool_inv pool hs s" using pool_reach_inv [OF less.prems(1)] .
  show ?case
  proof (cases "pp_main s = M_freed")
    case False
    obtain s1 where s1: "pool_step s s1" using done_progress [OF inv less.prems(2) False] by blast
    note d = done_step [OF inv less.prems(2) s1]
    from less.hyps [OF d(1) pool_reach.step [OF less.prems(1) s1] d(2)] show ?thesis using d(3) by simp
  qed (use less.prems in blast)
qed

section \<open>The steps and the functions\<close>

text \<open>Undisturbed, the steps of a caller are \<open>TecThrPool_enqueue\<close>.\<close>

lemma enqueue_by_steps:
  assumes i: "pp_enq s i = E_index j" and run: "enqueue_job (pp_pool s) j = Inr pool'"
    and n: "next_index (pp_pool s) = Inr n"
    and free: "arena_avail (tn_arena (get_node s n), tn_mem (get_node s n)) (jb_pt j)"
      "fresh_qnode (tn_q (get_node s n)) (jb_pq j)"
  shows "pool_step\<^sup>*\<^sup>* s (s\<lparr>pp_pool := pool', pp_enq := (pp_enq s)(i := E_done), pp_in := (pp_in s)(n := pp_in s n @ [j])\<rparr>)"
proof -
  let ?p1 = "(pp_pool s)\<lparr>tp_next_thread_index := tp_next_thread_index (pp_pool s) + 1\<rparr>"
  obtain task node payloads node' where len: "n < length (tp_nodes (pp_pool s))" and task: "task \<noteq> NULL"
    and al: "TecTaskNode_allocate_task (get_node s n) (jb_pt j) = Inr (task, node)"
    and copy: "copy_payload ?p1 (task_of ?p1 n j) (jb_payload j) = Inr payloads"
    and enq: "TecTaskNode_enqueue_task (node\<lparr>tn_tasks := (tn_tasks node)(task \<mapsto> task_of ?p1 n j)\<rparr>) task (jb_pq j)
      = Inr node'"
    and pool': "pool' = ?p1\<lparr>tp_payload_arena := payloads, tp_nodes := (tp_nodes (pp_pool s))[n := node']\<rparr>"
    using run n
    by (auto simp: enqueue_job_def TecThrPool_enqueue_def get_node_def bind_outcome_Inr_iff Let_def split: if_splits)
  let ?s1 = "s\<lparr>pp_pool := ?p1, pp_enq := (pp_enq s)(i := E_alloc j n)\<rparr>"
  let ?s2 = "(put_node ?s1 n node)\<lparr>pp_enq := (pp_enq s)(i := E_fill j n task)\<rparr>"
  let ?n3 = "node\<lparr>tn_tasks := (tn_tasks node)(task \<mapsto> task_of ?p1 n j)\<rparr>"
  let ?s3 = "(put_node (?s2\<lparr>pp_pool := (pp_pool ?s2)\<lparr>tp_payload_arena := payloads\<rparr>\<rparr>) n ?n3)
    \<lparr>pp_enq := (pp_enq s)(i := E_push j n task)\<rparr>"
  have q: "tn_q node = tn_q (get_node s n)"
    using al by (auto simp: TecTaskNode_allocate_task_def bind_outcome_Inr_iff)
  have same: "copy_payload (pp_pool ?s2) t x = copy_payload ?p1 t x" for t x
    by (cases x; cases "task_payload t") (simp_all add: copy_payload_def put_node_def)
  have t: "task_of (pp_pool ?s2) n j = task_of ?p1 n j" by (simp add: put_node_def task_for_def)
  have copy2: "copy_payload (pp_pool ?s2) (task_of (pp_pool ?s2) n j) (jb_payload j) = Inr payloads"
    using copy unfolding t same .
  have "pool_step\<^sup>*\<^sup>* s ?s1" using pool_step.index [OF i n] by (intro r_into_rtranclp) simp
  also have "pool_step ?s1 ?s2"
    using pool_step.alloc [of ?s1 i j n _ task node, OF _ refl] free(1) al task by simp
  also have "pool_step ?s2 ?s3"
    using pool_step.fill [of ?s2 i j n task _ _ payloads, OF _ refl refl copy2] len t by simp
  also have "pool_step ?s3 ((put_node ?s3 n node')\<lparr>pp_enq := (pp_enq s)(i := E_done),
      pp_in := (pp_in s)(n := pp_in s n @ [j])\<rparr>)"
    using pool_step.push [of ?s3 i j n task _ node', OF _ refl] len free(2) q enq by simp
  finally show ?thesis by (simp add: put_node_def pool')
qed

text \<open>Undisturbed, the steps of a thread are a pass of the loop of \<open>task_func\<close>.\<close>

lemma pass_by_steps:
  assumes pc: "pp_run s n = R_pop" "n < length (tp_nodes (pp_pool s))"
    and run: "task_func_pass (pp_pool s) (get_node s n) = Inr (Executed c, node')"
  shows "pool_step\<^sup>*\<^sup>* s ((put_node s n node')\<lparr>pp_out := (pp_out s)(n := pp_out s n @ [c])\<rparr>)"
proof -
  let ?node = "get_node s n"
  obtain r where "TecQueue_pop (tn_q ?node) = Inr r"
    using run by (cases "TecQueue_pop (tn_q ?node)") (simp_all add: task_func_pass_def)
  then obtain task q where pop: "TecQueue_pop (tn_q ?node) = Inr (Some (task, q))"
    using run by (cases r) (auto simp: task_func_pass_def)
  have task: "task \<noteq> NULL" using run pop by (cases "task = NULL") (simp_all add: task_func_pass_def Let_def)
  with pop obtain t where t: "tn_tasks ?node task = Some t"
    using run by (cases "tn_tasks ?node task") (simp_all add: task_func_pass_def Let_def)
  from run obtain a M where c: "runs (pp_pool s) t c"
    and rel: "TecArena_release (tn_arena ?node) (tn_mem ?node) task = Inr (a, M)"
    and node': "node' = ?node\<lparr>tn_q := q, tn_arena := a, tn_mem := M, tn_tasks := (tn_tasks ?node)(task := None)\<rparr>"
    using pop task t
    by (auto simp: task_func_pass_def runs_def bind_outcome_Inr_iff Let_def split: if_splits)
  let ?s1 = "(put_node s n (?node\<lparr>tn_q := q\<rparr>))\<lparr>pp_run := (pp_run s)(n := R_run task)\<rparr>"
  let ?s2 = "?s1\<lparr>pp_run := (pp_run s)(n := R_release task), pp_out := (pp_out s)(n := pp_out s n @ [c])\<rparr>"
  have c': "runs (pp_pool ?s1) t c"
  proof -
    have "call_of (pp_pool ?s1) t = call_of (pp_pool s) t" by (simp add: call_of_def put_node_def)
    then show ?thesis using c by (simp add: runs_def)
  qed
  have "pool_step\<^sup>*\<^sup>* s ?s1" using pool_step.take [OF pc refl pop] task by (intro r_into_rtranclp) simp
  also have "pool_step ?s1 ?s2" using pool_step.run [of ?s1 n task t c] pc(2) t c' by simp
  also have "pool_step ?s2 ((put_node ?s2 n node')\<lparr>pp_run := (pp_run s)(n := R_pop)\<rparr>)"
    using pool_step.release [of ?s2 n task _ a M, OF _ refl] pc(2) rel node' by simp
  finally have steps: "pool_step\<^sup>*\<^sup>* s ((put_node ?s2 n node')\<lparr>pp_run := (pp_run s)(n := R_pop)\<rparr>)" .
  have "(put_node ?s2 n node')\<lparr>pp_run := (pp_run s)(n := R_pop)\<rparr>
      = (put_node s n node')\<lparr>pp_out := (pp_out s)(n := pp_out s n @ [c])\<rparr>"
    using pc(1) by (intro pool_state.equality) (simp_all add: put_node_def fun_upd_idem)
  with steps show ?thesis by simp
qed

section \<open>Properties\<close>

lemma one_job:
  obtains s where "pool_reach [7] s" and "pp_main s = M_open" and "\<forall>i. pp_enq s i = E_done"
    and "pp_in s 0 = [\<lparr>jb_func = 5, jb_payload = None, jb_args = 1, jb_pt = 65536, jb_pq = 8\<rparr>]"
proof -
  let ?j = "\<lparr>jb_func = 5, jb_payload = None, jb_args = 1, jb_pt = 65536, jb_pq = 8\<rparr>"
  have p: "\<forall>i < unat (1 :: u64). calloc_fresh (tn_mem zero_node) ((\<lambda>_. 4096) i) (unat (1 :: u64) * 48)"
    by (simp add: calloc_fresh_def zero_node_def)
  obtain pool0 pool where init: "TecThrPool_init 1 0 0 1 (True, True, True) (\<lambda>_ _. 0) (\<lambda>_. 4096) = Inr pool0"
    and run: "TecThrPool_run pool0 (map (\<lambda>h. (0, h)) [7]) = Inr (True, pool)"
    and has: "pool_has pool [7] (\<lambda>_. 4096) (unat (1 :: u64) * 48) []" and nt: "tp_nthreads pool = 1"
    by (rule pool_starts [of 1 1 "\<lambda>_. 4096" "[7]" 0 0]) (use p in simp_all)
  have fit: "job_fits (\<lambda>_. 4096) 1 48 [] ?j" by (simp add: job_fits_def)
  obtain pool' where enq: "enqueue_job pool ?j = Inr pool'"
    using pool_has_job [OF has, of ?j] fit nt by (auto simp: payload_fits_def)
  have life: "node_life (tp_nodes pool ! 0) 7 ((\<lambda>_. 4096) 0, 48) (dealt 1 [] 0)"
    using has nt by (simp add: pool_has_def Let_def)
  note room = node_life_supply [OF life, of ?j]
  have idx: "next_index pool = Inr 0"
    by (simp add: next_index_def nt u64_mod)
  have start: "pool_reach [7] (pool_start pool)"
    by (rule pool_reach.start [OF _ _ _ _ _ init run]) (use p in simp_all)
  let ?s = "(pool_start pool)\<lparr>pp_enq := (pp_enq (pool_start pool))(0 := E_index ?j)\<rparr>"
  have call: "pool_reach [7] ?s"
    by (rule pool_reach.call [OF start]) (simp_all add: pool_start_def payload_fits_def)
  have more: "pool_reach [7] s2" if "pool_step\<^sup>*\<^sup>* s1 s2" "pool_reach [7] s1" for s1 s2
    using that by (induction rule: rtranclp_induct) (auto intro: pool_reach.step)
  let ?t = "?s\<lparr>pp_pool := pool', pp_enq := (pp_enq ?s)(0 := E_done), pp_in := (pp_in ?s)(0 := pp_in ?s 0 @ [?j])\<rparr>"
  have "pool_step\<^sup>*\<^sup>* ?s ?t"
    by (rule enqueue_by_steps [of ?s 0 ?j pool' 0])
      (use enq idx room fit in \<open>simp_all add: pool_start_def get_node_def\<close>)
  then have "pool_reach [7] ?t" using more call by blast
  then show thesis by (rule that) (simp_all add: pool_start_def)
qed

text \<open>
  C21: whatever the interleaving of the callers of \<open>TecThrPool_enqueue\<close>, the
  threads of the pool and its owner, a thread has at any time run the first of the jobs pushed
  at its node, in the order of the pushes and each once, with the function and the argument
  that were asked for; when \<open>TecThrPool_done\<close> returns it has run all of them, and every thread
  has been joined once.
\<close>

theorem pool_jobs_in_order:
  assumes "pool_reach hs s" and "n < length hs"
  shows "map seen (pp_out s n) = map asked (take (length (pp_out s n)) (pp_in s n)) \<and>
     (pp_main s = M_freed \<longrightarrow> length (pp_out s n) = length (pp_in s n) \<and> pp_joined s = hs)"
proof -
  obtain pool where inv: "pool_inv pool hs s" using pool_reach_inv [OF assms(1)] .
  note d = pool_invD(7) [OF inv] pool_invD(10) [OF inv assms(2)]
  show ?thesis
  proof (cases "n < closed (length hs) (pp_main s)")
    case True
    then have "map seen (pp_out s n) = map asked (pp_in s n)" using d(2) by (simp add: state_of_node_def all_run_def)
    moreover from this have "length (pp_out s n) = length (pp_in s n)" by (metis length_map)
    ultimately show ?thesis using d(1) by simp
  next
    case False
    then have "pp_main s \<noteq> M_freed" using assms(2) by auto
    then show ?thesis using d(2) False by (auto simp: state_of_node_def node_inv_def work_ok_def)
  qed
qed

theorem pool_jobs_in_order_witness:
  "\<exists>s. pool_reach [7] s \<and> pp_main s = M_freed \<and> map seen (pp_out s 0) = [Some (5, 1)] \<and> pp_joined s = [7]"
proof -
  obtain s where s: "pool_reach [7] s" "pp_main s = M_open" "\<forall>i. pp_enq s i = E_done"
    "pp_in s 0 = [\<lparr>jb_func = 5, jb_payload = None, jb_args = 1, jb_pt = 65536, jb_pq = 8\<rparr>]"
    by (rule one_job)
  obtain s' where s': "pool_reach [7] s'" "pp_main s' = M_freed" "pp_in s' = pp_in s"
    using done_ends [OF pool_reach.call_done [OF s(1,2)]] s(3) by auto
  from pool_jobs_in_order [OF s'(1), of 0] s' s(4) show ?thesis
    by (intro exI [of _ s']) (auto simp: asked_def)
qed

text \<open>
  C22: once its owner has called \<open>TecThrPool_done\<close>, the pool cannot go on for ever,
  and until the call has returned the owner or one of the threads can take a step: it waits for
  the threads and they cannot get stuck, whatever is queued.
\<close>

theorem pool_done_returns:
  assumes "pool_reach hs s" and "pp_main s \<noteq> M_open"
  shows "(\<nexists>f. f 0 = s \<and> (\<forall>i. pool_step (f i) (f (Suc i)))) \<and>
     (pp_main s \<noteq> M_freed \<longrightarrow> (\<exists>s'. pool_step s s'))"
proof -
  obtain pool where inv: "pool_inv pool hs s" using pool_reach_inv [OF assms(1)] .
  have False if f: "f 0 = s" "\<And>i. pool_step (f i) (f (Suc i))" for f
  proof -
    have i: "pool_inv pool hs (f i) \<and> pp_main (f i) \<noteq> M_open" for i
    proof (induction i)
      case 0
      then show ?case using f(1) inv assms(2) by simp
    next
      case (Suc i)
      then show ?case using pool_inv_step [OF f(2)] done_step(2) [OF _ _ f(2)] by blast
    qed
    then have "(f (Suc i), f i) \<in> measure (pool_rank (length hs))" for i
      using done_step(1) f(2) by fastforce
    then show False using wf_measure [of "pool_rank (length hs)"] unfolding wf_iff_no_infinite_down_chain by blast
  qed
  then show ?thesis using done_progress [OF inv assms(2)] by blast
qed

theorem pool_done_returns_witness:
  "\<exists>s s'. pool_reach [7] s \<and> pp_main s = M_null 0 \<and> length (pp_in s 0) = 1 \<and> pool_step s s'"
proof -
  obtain s where s: "pool_reach [7] s" "pp_main s = M_open" "\<forall>i. pp_enq s i = E_done" "length (pp_in s 0) = 1"
    by (rule one_job) simp
  have "pool_reach [7] (s\<lparr>pp_main := M_null 0\<rparr>)" by (rule pool_reach.call_done [OF s(1,2)]) (use s(3) in blast)
  moreover from pool_done_returns [OF this] obtain s' where "pool_step (s\<lparr>pp_main := M_null 0\<rparr>) s'" by auto
  moreover have "pp_main (s\<lparr>pp_main := M_null 0\<rparr>) = M_null 0" "length (pp_in (s\<lparr>pp_main := M_null 0\<rparr>) 0) = 1"
    using s(4) by simp_all
  ultimately show ?thesis by blast
qed

end
