(* ===== verification/TecMessage.thy ===== *)
theory TecMessage
  imports Prelude
begin

text \<open>
  Models \<open>tecc_message.h\<close>, \<open>tecc_rpc.h\<close> and \<open>tecc_rpc.c\<close>: messages with their tag and
  destructor, the message that carries a remote call, and the memory they live in.
\<close>

section \<open>Model\<close>

text \<open>The tag is the string its pointer reaches; \<open>msg_done\<close> is the address of a function.\<close>

record TecMsg =
  msg_tag :: "u8 list"
  msg_done :: ptr

text \<open>
  A request is the message its pointer reaches, \<open>None\<close> for \<open>NULL\<close>: the caller is blocked,
  and must leave it unchanged, while the call is in progress.
\<close>

record TecRPC =
  rpc_hdr :: TecMsg
  rpc_request :: "TecMsg option"
  rpc_reply :: ptr
  rpc_sig_ready :: ptr
  rpc_error :: int

text \<open>What a \<open>TecMsgPtr\<close> can point at: both kinds of object start with the header.\<close>

datatype message = Msg TecMsg | Rpc TecRPC

fun hdr :: "message \<Rightarrow> TecMsg" where
  "hdr (Msg m) = m"
| "hdr (Rpc r) = rpc_hdr r"

type_synonym msg_mem = "ptr \<Rightarrow> message option"

definition TecRPC_msg :: "u8 list" where
  "TecRPC_msg = bytes_of ''TecRPC''"

definition TecMsg_typeof :: "u8 list \<Rightarrow> TecMsg \<Rightarrow> bool" where
  "TecMsg_typeof type m \<longleftrightarrow> type = msg_tag m"

definition TecMsg_init :: "u8 list \<Rightarrow> TecMsg \<Rightarrow> TecMsg" where
  "TecMsg_init type m = m\<lparr>msg_tag := type, msg_done := NULL\<rparr>"

text \<open>\<open>p\<close> is what \<open>calloc\<close> returned; the macro does not test it.\<close>

definition TecMsg_new :: "msg_mem \<Rightarrow> u8 list \<Rightarrow> ptr \<Rightarrow> msg_mem outcome" where
  "TecMsg_new mem type p =
     (if p = NULL then Inl Null_deref
      else Inr (mem(p \<mapsto> Msg (TecMsg_init type \<lparr>msg_tag = [], msg_done = NULL\<rparr>))))"

text \<open>
  What the library does with messages, seen from outside: it calls an init or exit hook, or
  a callback with a message; it destroys and frees a message; it sets the signal of a call.
\<close>

datatype event =
    Hook ptr
  | Called ptr ptr
  | Destroyed ptr ptr
  | Freed ptr
  | Signalled ptr

definition msg_at :: "msg_mem \<Rightarrow> ptr \<Rightarrow> message outcome" where
  "msg_at mem p =
     (if p = NULL then Inl Null_deref
      else case mem p of None \<Rightarrow> Inl Invalid_pointer | Some m \<Rightarrow> Inr m)"

definition TecMsg_free :: "msg_mem \<Rightarrow> ptr \<Rightarrow> (event list \<times> msg_mem) outcome" where
  "TecMsg_free mem p =
     (if p = NULL then Inr ([], mem)
      else bind_outcome (msg_at mem p) (\<lambda>m.
        let done = msg_done (hdr m)
        in Inr ((if done \<noteq> NULL then [Destroyed done p] else []) @ [Freed p], mem(p := None))))"

text \<open>All fields of the object are set; it lives in the frame of the caller.\<close>

definition TecRPC_init :: "TecMsg option \<Rightarrow> ptr \<Rightarrow> ptr \<Rightarrow> TecRPC" where
  "TecRPC_init request reply sig =
     \<lparr>rpc_hdr = TecMsg_init TecRPC_msg \<lparr>msg_tag = [], msg_done = NULL\<rparr>,
      rpc_request = request, rpc_reply = reply, rpc_sig_ready = sig, rpc_error = 0\<rparr>"

definition TecRPC_done :: "TecRPC \<Rightarrow> TecRPC" where
  "TecRPC_done rpc = rpc"

section \<open>Messages a sender may pass\<close>

text \<open>
  A plain message must not carry the tag of a call; a call has a request and a signal.
\<close>

fun wf_message :: "message \<Rightarrow> bool" where
  "wf_message (Msg m) \<longleftrightarrow> msg_tag m \<noteq> TecRPC_msg"
| "wf_message (Rpc r) \<longleftrightarrow>
     msg_tag (rpc_hdr r) = TecRPC_msg \<and> rpc_request r \<noteq> None \<and> rpc_sig_ready r \<noteq> NULL"

lemma wf_rpc_init: "request \<noteq> None \<Longrightarrow> sig \<noteq> NULL \<Longrightarrow> wf_message (Rpc (TecRPC_init request reply sig))"
  by (simp add: TecRPC_init_def TecMsg_init_def)

lemma msg_at_Some [simp]: "p \<noteq> NULL \<Longrightarrow> mem p = Some m \<Longrightarrow> msg_at mem p = Inr m"
  by (simp add: msg_at_def)

text \<open>
  C#free_once: \<open>TecMsg_free\<close> calls the destructor at most once, frees the object exactly
  once, and a second \<open>TecMsg_free\<close> of the same pointer is an access to freed memory.
\<close>

theorem free_once:
  assumes "p \<noteq> NULL" and "mem p = Some m"
  shows "\<exists>es mem'. TecMsg_free mem p = Inr (es, mem') \<and> count_list es (Freed p) = 1 \<and>
     count_list es (Destroyed (msg_done (hdr m)) p) = (if msg_done (hdr m) = NULL then 0 else 1) \<and>
     TecMsg_free mem' p = Inl Invalid_pointer \<and> (\<forall>q. q \<noteq> p \<longrightarrow> mem' q = mem q)"
  using assms by (simp add: TecMsg_free_def Let_def msg_at_def)

theorem free_once_witness:
  "\<exists>es mem'. TecMsg_free [64 \<mapsto> Msg \<lparr>msg_tag = [77], msg_done = 5\<rparr>] 64 = Inr (es, mem') \<and>
     count_list es (Freed 64) = 1 \<and> count_list es (Destroyed 5 64) = 1 \<and>
     TecMsg_free mem' 64 = Inl Invalid_pointer"
  using free_once [of 64 "[64 \<mapsto> Msg \<lparr>msg_tag = [77], msg_done = 5\<rparr>]"] by auto

end
