(* ===== verification/TecDaemon.thy ===== *)
theory TecDaemon
  imports TecMessage
begin

text \<open>
  Models \<open>tecc_daemon.h\<close>: the table of methods every long-lived component starts with.
\<close>

section \<open>Model\<close>

text \<open>
  The functions the library stores in method tables. A table entry is \<open>None\<close> for \<open>NULL\<close>.
\<close>

datatype daemon_method =
    Worker_run
  | Worker_terminate
  | Worker_send
  | Worker_rpc
  | Worker_done
  | Service_worker_done

text \<open>\<open>sig_running\<close> and \<open>sig_terminated\<close>: whether the pointer is set.\<close>

record TecDaemon =
  d_flags :: u64
  d_sig_running :: bool
  d_sig_terminated :: bool
  d_run :: "daemon_method option"
  d_terminate :: "daemon_method option"
  d_send :: "daemon_method option"
  d_rpc :: "daemon_method option"
  d_done :: "daemon_method option"

definition TECC_ERR_OK :: int where
  "TECC_ERR_OK = 0"

definition TECC_ERR_SYSTEM :: int where
  "TECC_ERR_SYSTEM = - 1"

definition TECC_ERR_HANDLER_NOT_FOUND :: int where
  "TECC_ERR_HANDLER_NOT_FOUND = - 2"

definition TECC_ERR_NOT_SUPPORTED :: int where
  "TECC_ERR_NOT_SUPPORTED = - 3"

definition TecDaemon_init :: TecDaemon where
  "TecDaemon_init =
     \<lparr>d_flags = 0, d_sig_running = False, d_sig_terminated = False, d_run = None, d_terminate = None,
      d_send = None, d_rpc = None, d_done = None\<rparr>"

text \<open>A call through the table: the method called, a fault when the entry is \<open>NULL\<close>.\<close>

definition call_method :: "daemon_method option \<Rightarrow> daemon_method outcome" where
  "call_method f = (case f of None \<Rightarrow> Inl Null_deref | Some g \<Rightarrow> Inr g)"

text \<open>The destructors \<open>TecDaemon_done\<close> calls, and the table after it.\<close>

definition TecDaemon_done :: "TecDaemon \<Rightarrow> daemon_method list \<times> TecDaemon" where
  "TecDaemon_done d =
     (case d_done d of None \<Rightarrow> ([], d) | Some f \<Rightarrow> ([f], d\<lparr>d_done := None\<rparr>))"

fun done_times :: "nat \<Rightarrow> TecDaemon \<Rightarrow> daemon_method list \<times> TecDaemon" where
  "done_times 0 d = ([], d)"
| "done_times (Suc n) d =
     (let (fs, d) = TecDaemon_done d; (gs, d) = done_times n d in (fs @ gs, d))"

lemma done_times_None: "d_done d = None \<Longrightarrow> done_times n d = ([], d)"
  by (induction n) (simp_all add: TecDaemon_done_def)

text \<open>
  However often \<open>TecDaemon_done\<close> is used on a daemon, its destructor runs
  once, and never when it was not set.
\<close>

theorem daemon_done_once:
  "fst (done_times (Suc n) d) = (case d_done d of None \<Rightarrow> [] | Some f \<Rightarrow> [f])"
  by (cases "d_done d") (simp_all add: TecDaemon_done_def done_times_None split: prod.splits)

end
