(* ===== verification/TecWorker.thy ===== *)
theory TecWorker
  imports TecDaemon TecMap TecQueue TecSignal
begin

text \<open>
  Models \<open>tecc_worker.c\<close> and \<open>tecc_worker.h\<close>: a thread that takes messages from a queue and
  hands each to the callback registered for its type; the daemon methods of a worker; and
  the message loop together with any number of senders as a step relation.
\<close>

section \<open>Model\<close>

text \<open>
  \<open>w_dispatch\<close>, \<open>w_on_msg\<close> and \<open>w_on_rpc\<close> are \<open>None\<close> for the library's own function, else
  the address of the function that replaces it.
\<close>

record TecWorker =
  w_daemon :: TecDaemon
  w_hash_table_size :: u64
  w_error :: int
  w_sig_running :: TecSignal
  w_sig_terminated :: TecSignal
  w_queue :: TecQueue
  w_callbacks :: TecMap
  w_on_init :: ptr
  w_on_exit :: ptr
  w_lock :: TecMutex
  w_thread :: TecThread
  w_dispatch :: "ptr option"
  w_on_msg :: "ptr option"
  w_on_rpc :: "ptr option"

text \<open>
  The functions of the user, by their addresses: what an init and an exit hook return, the
  header of a message after a callback, the \<open>error\<close> of a remote call after a callback. What
  they send is a step of a sender (see the step relation below).
\<close>

record user_code =
  u_init :: "ptr \<Rightarrow> int"
  u_exit :: "ptr \<Rightarrow> int"
  u_msg :: "ptr \<Rightarrow> TecMsg \<Rightarrow> TecMsg"
  u_rpc :: "ptr \<Rightarrow> TecRPC \<Rightarrow> int"

fun after_call :: "user_code \<Rightarrow> ptr \<Rightarrow> message \<Rightarrow> message" where
  "after_call u cb (Msg m) = Msg (u_msg u cb m)"
| "after_call u cb (Rpc r) = Rpc (r\<lparr>rpc_error := u_rpc u cb r\<rparr>)"

subsection \<open>Dispatching a message\<close>

definition on_msg :: "user_code \<Rightarrow> TecWorker \<Rightarrow> msg_mem \<Rightarrow> ptr \<Rightarrow> (event list \<times> msg_mem) outcome" where
  "on_msg u w mem msg =
     bind_outcome (msg_at mem msg) (\<lambda>m.
     bind_outcome (TecMap_get (w_callbacks w) (msg_tag (hdr m))) (\<lambda>callback.
       let (es, mem) =
         (if callback \<noteq> NULL then ([Called callback msg], mem(msg \<mapsto> after_call u callback m))
          else ([], mem))
       in bind_outcome (TecMsg_free mem msg) (\<lambda>(es', mem). Inr (es @ es', mem))))"

definition on_rpc :: "user_code \<Rightarrow> TecWorker \<Rightarrow> msg_mem \<Rightarrow> ptr \<Rightarrow> (event list \<times> msg_mem) outcome" where
  "on_rpc u w mem rpc =
     bind_outcome (msg_at mem rpc) (\<lambda>m.
       case m of
         Msg _ \<Rightarrow> Inl Invalid_pointer
       | Rpc r \<Rightarrow>
           let r = r\<lparr>rpc_error := 0\<rparr>
           in case rpc_request r of
                None \<Rightarrow> Inl Null_deref
              | Some request \<Rightarrow>
                  bind_outcome (TecMap_get (w_callbacks w) (msg_tag request)) (\<lambda>callback.
                    let (es, r) =
                      (if callback \<noteq> NULL
                       then ([Called callback rpc], r\<lparr>rpc_error := u_rpc u callback r\<rparr>)
                       else ([], r\<lparr>rpc_error := TECC_ERR_HANDLER_NOT_FOUND\<rparr>))
                    in if rpc_sig_ready r = NULL then Inl Null_deref
                       else Inr (es @ [Signalled (rpc_sig_ready r)], mem(rpc \<mapsto> Rpc r))))"

definition dispatch :: "user_code \<Rightarrow> TecWorker \<Rightarrow> msg_mem \<Rightarrow> ptr \<Rightarrow> (event list \<times> msg_mem) outcome" where
  "dispatch u w mem msg =
     bind_outcome (msg_at mem msg) (\<lambda>m.
       if TecMsg_typeof TecRPC_msg (hdr m)
       then case w_on_rpc w of None \<Rightarrow> on_rpc u w mem msg | Some f \<Rightarrow> Inr ([Called f msg], mem)
       else case w_on_msg w of None \<Rightarrow> on_msg u w mem msg | Some f \<Rightarrow> Inr ([Called f msg], mem))"

subsection \<open>The thread\<close>

text \<open>Up to the loop: the init hook and the signal that the worker runs.\<close>

definition worker_start :: "user_code \<Rightarrow> TecWorker \<Rightarrow> event list \<times> TecWorker" where
  "worker_start u w =
     (let (es, w) =
        (if w_on_init w \<noteq> NULL \<and> w_error w = 0
         then ([Hook (w_on_init w)], w\<lparr>w_error := u_init u (w_on_init w)\<rparr>)
         else ([], w))
      in (es, w\<lparr>w_sig_running := snd (snd (TecSignal_set (w_sig_running w) 0 0))\<rparr>))"

text \<open>One pass of the loop: the thread sleeps, leaves the loop, or dispatches a message.\<close>

datatype pass = Sleeps | Leaves | Dispatches

definition worker_pass ::
  "user_code \<Rightarrow> TecWorker \<Rightarrow> msg_mem \<Rightarrow> (pass \<times> event list \<times> TecWorker \<times> msg_mem) outcome" where
  "worker_pass u w mem =
     bind_outcome (TecQueue_pop (w_queue w)) (\<lambda>r.
       case r of
         None \<Rightarrow> Inr (Sleeps, [], w, mem)
       | Some (msg, q) \<Rightarrow>
           let w = w\<lparr>w_queue := q\<rparr>
           in if msg = NULL then Inr (Leaves, [], w, mem)
              else
                bind_outcome
                  (case w_dispatch w of
                     None \<Rightarrow> dispatch u w mem msg
                   | Some f \<Rightarrow> Inr ([Called f msg], mem))
                  (\<lambda>(es, mem). Inr (Dispatches, es, w, mem)))"

text \<open>The whole loop on the messages that are queued; \<open>None\<close> when it sleeps for ever.\<close>

partial_function (option) worker_loop ::
  "user_code \<Rightarrow> TecWorker \<Rightarrow> msg_mem \<Rightarrow> event list \<Rightarrow> (event list \<times> TecWorker \<times> msg_mem) outcome option" where
  "worker_loop u w mem es =
     (case worker_pass u w mem of
        Inl f \<Rightarrow> Some (Inl f)
      | Inr (Sleeps, _) \<Rightarrow> None
      | Inr (Leaves, _, w', mem') \<Rightarrow> Some (Inr (es, w', mem'))
      | Inr (Dispatches, es', w', mem') \<Rightarrow> worker_loop u w' mem' (es @ es'))"

text \<open>After the loop: the exit hook and the signal that the worker has terminated.\<close>

definition worker_exit :: "user_code \<Rightarrow> TecWorker \<Rightarrow> event list \<times> TecWorker" where
  "worker_exit u w =
     (let (es, w) =
        (if w_on_exit w \<noteq> NULL \<and> w_error w = 0
         then ([Hook (w_on_exit w)], w\<lparr>w_error := u_exit u (w_on_exit w)\<rparr>)
         else ([], w))
      in (es, w\<lparr>w_sig_terminated := snd (snd (TecSignal_set (w_sig_terminated w) 0 0))\<rparr>))"

definition worker_func ::
  "user_code \<Rightarrow> TecWorker \<Rightarrow> msg_mem \<Rightarrow> (event list \<times> TecWorker \<times> msg_mem) outcome" where
  "worker_func u w mem =
     (let (es, w) = worker_start u w
      in bind_outcome
           (if w_error w = 0
            then (case worker_loop u w mem es of None \<Rightarrow> Inl No_return | Some r \<Rightarrow> r)
            else Inr (es, w, mem))
           (\<lambda>(es, w, mem). let (es', w) = worker_exit u w in Inr (es @ es', w, mem)))"

subsection \<open>Daemon methods\<close>

text \<open>
  \<open>lrc\<close> and \<open>crc\<close>: what locking and \<open>pthread_create\<close> return; \<open>h\<close>: the handle of the thread.
  The result, the calls on the lock, the threads joined, the events, the worker.
\<close>

definition TecWorker_run ::
  "user_code \<Rightarrow> TecWorker \<Rightarrow> int \<Rightarrow> int \<Rightarrow> nat
   \<Rightarrow> (int \<times> mon_call list \<times> nat list \<times> event list \<times> TecWorker) outcome" where
  "TecWorker_run u w lrc crc h =
     (if lrc \<noteq> 0 then Inr (lrc, [Lock lrc, Unlock], [], [], w)
      else
        let w = w\<lparr>w_thread := TecThread_create (w_thread w) crc h\<rparr>
        in bind_outcome (TecThread_ok (w_thread w)) (\<lambda>ok.
           if \<not> ok then Inr (crc, [Lock lrc, Unlock], [], [], w)
           else
             let (es, w) = worker_start u w
             in if TecSignal_wait (sig_value (w_sig_running w)) 0 [] = None then Inl No_return
                else if w_error w = 0 then Inr (0, [Lock lrc, Unlock], [], es, w)
                else
                  let (es', w) = worker_exit u w
                  in bind_outcome (TecThread_join (w_thread w)) (\<lambda>(hs, t).
                       Inr (w_error w, [Lock lrc, Unlock], hs, es @ es', w\<lparr>w_thread := t\<rparr>))))"

text \<open>\<open>p\<close> is the node \<open>malloc\<close> gives for the queue.\<close>

definition TecWorker_send :: "TecWorker \<Rightarrow> ptr \<Rightarrow> ptr \<Rightarrow> TecWorker outcome" where
  "TecWorker_send w msg p =
     bind_outcome (TecQueue_push (w_queue w) msg p) (\<lambda>q. Inr (w\<lparr>w_queue := q\<rparr>))"

text \<open>The macro: a call through the table. Workers have one method to send.\<close>

definition TecDaemon_send :: "TecWorker \<Rightarrow> ptr \<Rightarrow> ptr \<Rightarrow> TecWorker outcome" where
  "TecDaemon_send w msg p =
     bind_outcome (call_method (d_send (w_daemon w))) (\<lambda>_. TecWorker_send w msg p)"

text \<open>The thread is in its loop: it was created and has not signalled that it is over.\<close>

definition in_loop :: "TecWorker \<Rightarrow> bool" where
  "in_loop w \<longleftrightarrow> thr_result (w_thread w) = Some 0 \<and> sig_value (w_sig_terminated w) \<noteq> 1"

definition TecWorker_terminate ::
  "user_code \<Rightarrow> TecWorker \<Rightarrow> msg_mem \<Rightarrow> ptr
   \<Rightarrow> (int \<times> nat list \<times> event list \<times> TecWorker \<times> msg_mem) outcome" where
  "TecWorker_terminate u w mem p =
     bind_outcome (TecDaemon_send w NULL p) (\<lambda>w.
     bind_outcome
       (if in_loop w then
          bind_outcome (case worker_loop u w mem [] of None \<Rightarrow> Inl No_return | Some r \<Rightarrow> r)
            (\<lambda>(es, w, mem). let (es', w) = worker_exit u w in Inr (es @ es', w, mem))
        else Inr ([], w, mem))
       (\<lambda>(es, w, mem).
     if TecSignal_wait (sig_value (w_sig_terminated w)) 0 [] = None then Inl No_return
     else bind_outcome (TecThread_join (w_thread w)) (\<lambda>(hs, t).
       Inr (w_error w, hs, es, w\<lparr>w_thread := t\<rparr>, mem))))"

text \<open>The loop of a running worker until it sets the signal \<open>sig\<close> its caller waits for.\<close>

partial_function (option) serve_until ::
  "user_code \<Rightarrow> ptr \<Rightarrow> TecWorker \<Rightarrow> msg_mem \<Rightarrow> event list
   \<Rightarrow> (event list \<times> TecWorker \<times> msg_mem) outcome option" where
  "serve_until u sig w mem es =
     (case worker_pass u w mem of
        Inl f \<Rightarrow> Some (Inl f)
      | Inr (Sleeps, _) \<Rightarrow> None
      | Inr (Leaves, _) \<Rightarrow> None
      | Inr (Dispatches, es', w', mem') \<Rightarrow>
          (if Signalled sig \<in> set es' then Some (Inr (es @ es', w', mem'))
           else serve_until u sig w' mem' (es @ es')))"

text \<open>
  \<open>rpc\<close> and \<open>sig\<close> are the addresses of the two objects in the caller's frame. The signal lives
  for this call only: its wait ends with the event that sets it.
\<close>

definition TecWorker_rpc ::
  "user_code \<Rightarrow> TecWorker \<Rightarrow> msg_mem \<Rightarrow> TecMsg option \<Rightarrow> ptr \<Rightarrow> ptr \<Rightarrow> ptr \<Rightarrow> ptr
   \<Rightarrow> (int \<times> event list \<times> TecWorker \<times> msg_mem) outcome" where
  "TecWorker_rpc u w mem request reply rpc sig p =
     bind_outcome (TecDaemon_send w rpc p) (\<lambda>w.
     let mem = mem(rpc \<mapsto> Rpc (TecRPC_init request reply sig))
     in if \<not> in_loop w then Inl No_return
        else
          bind_outcome (case serve_until u sig w mem [] of None \<Rightarrow> Inl No_return | Some r \<Rightarrow> r)
            (\<lambda>(es, w, mem).
          bind_outcome (msg_at mem rpc) (\<lambda>m.
            case m of
              Msg _ \<Rightarrow> Inl Invalid_pointer
            | Rpc r \<Rightarrow> Inr (rpc_error (TecRPC_done r), es, w, mem(rpc := None)))))"

text \<open>Joining a thread that is still in its loop does not return.\<close>

definition TecWorker_done :: "TecWorker \<Rightarrow> (nat list \<times> mon_call list \<times> TecWorker) outcome" where
  "TecWorker_done w =
     bind_outcome (TecThread_join (w_thread w)) (\<lambda>(hs, t).
     if in_loop w then Inl No_return
     else
     bind_outcome (TecSignal_done (w_sig_running w) 0) (\<lambda>(cs1, s1).
     bind_outcome (TecSignal_done (w_sig_terminated w) 0) (\<lambda>(cs2, s2).
     bind_outcome (TecQueue_done (w_queue w) 0) (\<lambda>(cs3, q).
     bind_outcome (TecMap_done (w_callbacks w)) (\<lambda>m.
     bind_outcome (TecMutex_destroy (w_lock w)) (\<lambda>cs4.
       Inr (hs, cs1 @ cs2 @ cs3 @ cs4,
            w\<lparr>w_thread := t, w_sig_running := s1, w_sig_terminated := s2, w_queue := q,
              w_callbacks := m\<rparr>)))))))"

subsection \<open>Creation\<close>

text \<open>
  \<open>rc n\<close> are the results of the platform's initialisation calls, \<open>cok\<close> tells whether
  \<open>calloc\<close> gives the table. A step that fails keeps the later ones from running, except that
  the lock and the hooks are always initialised. The thread object is not touched.
\<close>

definition TecWorker_init ::
  "(nat \<Rightarrow> int) \<Rightarrow> bool \<Rightarrow> TecWorker \<Rightarrow> u64 \<Rightarrow> (bool \<times> TecWorker) outcome" where
  "TecWorker_init rc cok w hash_table_size =
     (let w = w\<lparr>w_daemon := TecDaemon_init, w_hash_table_size := hash_table_size, w_error := 0\<rparr>
      in bind_outcome (TecSignal_init (w_sig_running w) (rc 0) (rc 1)) (\<lambda>(ok, _, s).
         let w = w\<lparr>w_sig_running := s\<rparr>
      in bind_outcome
           (if ok then TecSignal_init (w_sig_terminated w) (rc 2) (rc 3)
            else Inr (False, [], w_sig_terminated w)) (\<lambda>(ok, _, s).
         let w = w\<lparr>w_sig_terminated := s\<rparr>;
             (ok, q) = (if ok then TecQueue_init (w_queue w) (rc 4) (rc 5) else (False, w_queue w));
             (ok, m) = (if ok then TecMap_init cok (w_callbacks w) hash_table_size
                        else (False, w_callbacks w));
             w = w\<lparr>w_queue := q, w_callbacks := m, w_lock := TecMutex_init (w_lock w) (rc 6)\<rparr>
      in bind_outcome (if ok then TecMutex_ok (w_lock w) else Inr False) (\<lambda>ok.
         let w = w\<lparr>w_on_init := NULL, w_on_exit := NULL, w_dispatch := None, w_on_msg := None,
                   w_on_rpc := None\<rparr>
         in Inr (ok,
              if ok
              then w\<lparr>w_daemon := (w_daemon w)\<lparr>d_sig_running := True, d_sig_terminated := True,
                        d_run := Some Worker_run, d_terminate := Some Worker_terminate,
                        d_send := Some Worker_send, d_rpc := Some Worker_rpc,
                        d_done := Some Worker_done\<rparr>\<rparr>
              else w)))))"

text \<open>\<open>p\<close> is the node \<open>malloc\<close> gives for the table; the calls on the lock are returned.\<close>

definition TecWorker_register ::
  "TecWorker \<Rightarrow> u8 list \<Rightarrow> ptr \<Rightarrow> ptr \<Rightarrow> (mon_call list \<times> TecWorker) outcome" where
  "TecWorker_register w func_name callback p =
     bind_outcome (TecMap_set (w_callbacks w) func_name callback p) (\<lambda>(_, m).
       Inr ([Lock 0, Unlock], w\<lparr>w_callbacks := m\<rparr>))"

definition TecWorker_set_on_init :: "TecWorker \<Rightarrow> ptr \<Rightarrow> TecWorker" where
  "TecWorker_set_on_init w h = w\<lparr>w_on_init := h\<rparr>"

definition TecWorker_set_on_exit :: "TecWorker \<Rightarrow> ptr \<Rightarrow> TecWorker" where
  "TecWorker_set_on_exit w h = w\<lparr>w_on_exit := h\<rparr>"

section \<open>What a message does\<close>

text \<open>
  The specification: with the callbacks \<open>f\<close>, the events the message \<open>m\<close> at \<open>p\<close> gives rise to,
  and what is left at its address.
\<close>

fun serve :: "user_code \<Rightarrow> (u8 list \<Rightarrow> ptr option) \<Rightarrow> ptr \<Rightarrow> message \<Rightarrow> event list" where
  "serve u f p (Msg m) =
     (let cb = value_of (f (msg_tag m));
          done = msg_done (if cb = NULL then m else u_msg u cb m)
      in (if cb = NULL then [] else [Called cb p])
         @ (if done = NULL then [] else [Destroyed done p]) @ [Freed p])"
| "serve u f p (Rpc r) =
     (let cb = value_of (f (msg_tag (the (rpc_request r))))
      in (if cb = NULL then [] else [Called cb p]) @ [Signalled (rpc_sig_ready r)])"

text \<open>The result of a remote call.\<close>

definition rpc_result :: "user_code \<Rightarrow> (u8 list \<Rightarrow> ptr option) \<Rightarrow> TecRPC \<Rightarrow> int" where
  "rpc_result u f r =
     (let cb = value_of (f (msg_tag (the (rpc_request r))))
      in if cb = NULL then TECC_ERR_HANDLER_NOT_FOUND else u_rpc u cb (r\<lparr>rpc_error := 0\<rparr>))"

fun settle :: "user_code \<Rightarrow> (u8 list \<Rightarrow> ptr option) \<Rightarrow> message \<Rightarrow> message option" where
  "settle u f (Msg m) = None"
| "settle u f (Rpc r) = Some (Rpc (r\<lparr>rpc_error := rpc_result u f r\<rparr>))"

lemma serve_freed: "Freed q \<in> set (serve u f p m) \<longleftrightarrow> q = p \<and> (\<exists>x. m = Msg x)"
  by (cases m) (auto simp: Let_def)

lemma serve_signalled:
  "Signalled s \<in> set (serve u f p m) \<longleftrightarrow> (\<exists>r. m = Rpc r \<and> s = rpc_sig_ready r)"
  by (cases m) (auto simp: Let_def)

text \<open>The callbacks are \<open>f\<close> and every hook of the dispatcher is the library's own.\<close>

definition plain_worker :: "TecWorker \<Rightarrow> (u8 list \<Rightarrow> ptr option) \<Rightarrow> bool" where
  "plain_worker w f \<longleftrightarrow>
     represents (w_callbacks w) f \<and> w_dispatch w = None \<and> w_on_msg w = None \<and> w_on_rpc w = None"

lemma dispatch_serves:
  assumes w: "plain_worker w f" and p: "p \<noteq> NULL" "mem p = Some m" and m: "wf_message m"
  shows "dispatch u w mem p = Inr (serve u f p m, mem(p := settle u f m))"
proof (cases m)
  case (Msg x)
  have "TecMap_get (w_callbacks w) (msg_tag x) = Inr (value_of (f (msg_tag x)))"
    using w by (intro tec_map.get_spec) (simp add: plain_worker_def)
  then show ?thesis
    using w p m Msg
    by (auto simp: dispatch_def on_msg_def TecMsg_typeof_def TecMsg_free_def plain_worker_def Let_def)
next
  case (Rpc r)
  obtain q where q: "rpc_request r = Some q" using m Rpc by auto
  have "TecMap_get (w_callbacks w) (msg_tag q) = Inr (value_of (f (msg_tag q)))"
    using w by (intro tec_map.get_spec) (simp add: plain_worker_def)
  then show ?thesis
    using w p m Rpc q
    by (auto simp: dispatch_def on_rpc_def TecMsg_typeof_def plain_worker_def rpc_result_def Let_def)
qed

text \<open>
  The messages \<open>ms\<close> are queued, oldest first, each in memory until it is served; \<open>rest\<close> is
  what follows them in the queue.
\<close>

definition holds_messages ::
  "TecWorker \<Rightarrow> msg_mem \<Rightarrow> (ptr \<times> message) list \<Rightarrow> ptr list \<Rightarrow> bool" where
  "holds_messages w mem ms rest \<longleftrightarrow>
     queue_holds (w_queue w) (map fst ms @ rest) \<and> distinct (map fst ms) \<and>
     (\<forall>(p, m) \<in> set ms. p \<noteq> NULL \<and> mem p = Some m \<and> wf_message m)"

definition queue_only :: "TecWorker \<Rightarrow> TecWorker \<Rightarrow> bool" where
  "queue_only w w' \<longleftrightarrow> (\<exists>q. w' = w\<lparr>w_queue := q\<rparr> \<and>
     q_mtx q = q_mtx (w_queue w) \<and> q_cv q = q_cv (w_queue w))"

lemma queue_onlyI [intro]:
  "q_mtx q = q_mtx (w_queue w) \<Longrightarrow> q_cv q = q_cv (w_queue w) \<Longrightarrow> queue_only w (w\<lparr>w_queue := q\<rparr>)"
  by (auto simp: queue_only_def)

lemma queue_only_trans: "queue_only w w1 \<Longrightarrow> queue_only w1 w2 \<Longrightarrow> queue_only w w2"
  by (auto simp: queue_only_def)

lemma queue_onlyD:
  assumes "queue_only w w'"
  shows "plain_worker w' f = plain_worker w f" "w_error w' = w_error w" "w_thread w' = w_thread w"
    "w_sig_running w' = w_sig_running w" "w_sig_terminated w' = w_sig_terminated w"
    "w_on_exit w' = w_on_exit w" "w_on_init w' = w_on_init w" "w_daemon w' = w_daemon w"
    "in_loop w' = in_loop w" "w_lock w' = w_lock w"  "w_callbacks w' = w_callbacks w"
proof -
  obtain q where "w' = w\<lparr>w_queue := q\<rparr>" using assms by (auto simp: queue_only_def)
  then show "plain_worker w' f = plain_worker w f" "w_error w' = w_error w" "w_thread w' = w_thread w"
    "w_sig_running w' = w_sig_running w" "w_sig_terminated w' = w_sig_terminated w"
    "w_on_exit w' = w_on_exit w" "w_on_init w' = w_on_init w" "w_daemon w' = w_daemon w"
    "in_loop w' = in_loop w" "w_lock w' = w_lock w"  "w_callbacks w' = w_callbacks w"
    by (simp_all add: plain_worker_def in_loop_def)
qed

lemma pass_sleeps:
  "queue_holds (w_queue w) [] \<Longrightarrow> worker_pass u w mem = Inr (Sleeps, [], w, mem)"
  using tec_queue.deq_empty [of "w_queue w"] by (simp add: worker_pass_def)

lemma pass_leaves:
  assumes "queue_holds (w_queue w) (NULL # os)"
  obtains w' where "worker_pass u w mem = Inr (Leaves, [], w', mem)" and "queue_only w w'"
    and "queue_holds (w_queue w') os"
proof -
  obtain q where q: "TecQueue_pop (w_queue w) = Inr (Some (NULL, q))" "queue_holds q os"
    using tec_queue.deq_spec [OF assms] by blast
  show thesis
    by (rule that [of "w\<lparr>w_queue := q\<rparr>"])
      (use q pop_monitor [OF q(1)] in \<open>auto simp: worker_pass_def\<close>)
qed

lemma pass_serves:
  assumes w: "plain_worker w f" and h: "holds_messages w mem ((p, m) # ms) rest"
  obtains w' where
    "worker_pass u w mem = Inr (Dispatches, serve u f p m, w', mem(p := settle u f m))"
    and "queue_only w w'" and "holds_messages w' (mem(p := settle u f m)) ms rest"
proof -
  have q: "queue_holds (w_queue w) (p # map fst ms @ rest)" and p: "p \<noteq> NULL" "mem p = Some m"
    "wf_message m" and ms: "distinct (p # map fst ms)"
    "\<forall>(p, m) \<in> set ms. p \<noteq> NULL \<and> mem p = Some m \<and> wf_message m"
    using h by (auto simp: holds_messages_def)
  obtain q' where q': "TecQueue_pop (w_queue w) = Inr (Some (p, q'))" "queue_holds q' (map fst ms @ rest)"
    using tec_queue.deq_spec [OF q] by blast
  have w': "plain_worker (w\<lparr>w_queue := q'\<rparr>) f" "w_dispatch w = None"
    using w by (simp_all add: plain_worker_def)
  have mem: "\<forall>(q, x) \<in> set ms. (mem(p := settle u f m)) q = mem q"
    using ms(1) by force
  show thesis
  proof (rule that [of "w\<lparr>w_queue := q'\<rparr>"])
    show "worker_pass u w mem
        = Inr (Dispatches, serve u f p m, w\<lparr>w_queue := q'\<rparr>, mem(p := settle u f m))"
      using q'(1) p(1) w'(2) dispatch_serves [where mem = mem and u = u, OF w'(1) p]
      by (simp add: worker_pass_def)
    show "queue_only w (w\<lparr>w_queue := q'\<rparr>)"
      using pop_monitor [OF q'(1)] by (intro queue_onlyI) simp_all
    show "holds_messages (w\<lparr>w_queue := q'\<rparr>) (mem(p := settle u f m)) ms rest"
      using q'(2) ms mem by (fastforce simp: holds_messages_def)
  qed
qed

definition all_served ::
  "user_code \<Rightarrow> (u8 list \<Rightarrow> ptr option) \<Rightarrow> (ptr \<times> message) list \<Rightarrow> event list" where
  "all_served u f ms = concat (map (\<lambda>(p, m). serve u f p m) ms)"

text \<open>The memory after the messages \<open>ms\<close> have been served.\<close>

definition settled ::
  "user_code \<Rightarrow> (u8 list \<Rightarrow> ptr option) \<Rightarrow> (ptr \<times> message) list \<Rightarrow> msg_mem \<Rightarrow> msg_mem" where
  "settled u f ms mem = fold (\<lambda>(p, m) mem. mem(p := settle u f m)) ms mem"

lemma all_served_simps [simp]:
  "all_served u f [] = []"
  "all_served u f ((p, m) # ms) = serve u f p m @ all_served u f ms"
  "all_served u f (ms @ ns) = all_served u f ms @ all_served u f ns"
  by (simp_all add: all_served_def)

lemma settled_simps [simp]:
  "settled u f [] mem = mem"
  "settled u f ((p, m) # ms) mem = settled u f ms (mem(p := settle u f m))"
  by (simp_all add: settled_def)

lemma settled_other: "q \<notin> fst ` set ms \<Longrightarrow> settled u f ms mem q = mem q"
  by (induction ms arbitrary: mem) auto

lemma settled_at:
  "distinct (map fst ms) \<Longrightarrow> (q, m) \<in> set ms \<Longrightarrow> settled u f ms mem q = settle u f m"
proof (induction ms arbitrary: mem)
  case (Cons pm ms)
  then show ?case by (cases pm) (auto simp: settled_other)
qed simp

lemma loop_serves:
  assumes "plain_worker w f" and "holds_messages w mem ms (NULL # os)"
  shows "\<exists>w'. worker_loop u w mem es = Some (Inr (es @ all_served u f ms, w', settled u f ms mem)) \<and>
     queue_only w w' \<and> queue_holds (w_queue w') os"
  using assms
proof (induction ms arbitrary: w mem es)
  case Nil
  then obtain w' where "worker_pass u w mem = Inr (Leaves, [], w', mem)" "queue_only w w'"
    "queue_holds (w_queue w') os"
    using pass_leaves [of w os u mem] by (auto simp: holds_messages_def)
  then show ?case by (subst worker_loop.simps) simp
next
  case (Cons pm ms)
  obtain p m where pm: "pm = (p, m)" by (cases pm)
  obtain w1 where w1: "worker_pass u w mem = Inr (Dispatches, serve u f p m, w1, mem(p := settle u f m))"
    "queue_only w w1" "holds_messages w1 (mem(p := settle u f m)) ms (NULL # os)"
    using pass_serves [of w f mem p m ms "NULL # os" u] Cons.prems unfolding pm by blast
  have "plain_worker w1 f" using queue_onlyD(1) [OF w1(2)] Cons.prems(1) by simp
  from Cons.IH [OF this w1(3)] obtain w2 where
    "worker_loop u w1 (mem(p := settle u f m)) (es @ serve u f p m)
      = Some (Inr ((es @ serve u f p m) @ all_served u f ms, w2, settled u f ms (mem(p := settle u f m))))"
    "queue_only w1 w2" "queue_holds (w_queue w2) os" by blast
  then show ?case
    using queue_only_trans [OF w1(2)] w1(1) pm
    by (subst worker_loop.simps) simp
qed

lemma serve_loop:
  assumes "plain_worker w f" and "holds_messages w mem (ms @ (p, Rpc r) # ns) os"
    and "\<forall>q x. (q, Rpc x) \<in> set ms \<longrightarrow> rpc_sig_ready x \<noteq> rpc_sig_ready r"
  shows "\<exists>w'. serve_until u (rpc_sig_ready r) w mem es
      = Some (Inr (es @ all_served u f (ms @ [(p, Rpc r)]), w', settled u f (ms @ [(p, Rpc r)]) mem)) \<and>
     queue_only w w' \<and> holds_messages w' (settled u f (ms @ [(p, Rpc r)]) mem) ns os"
  using assms
proof (induction ms arbitrary: w mem es)
  case Nil
  then obtain w1 where "worker_pass u w mem
      = Inr (Dispatches, serve u f p (Rpc r), w1, mem(p := settle u f (Rpc r)))"
    "queue_only w w1" "holds_messages w1 (mem(p := settle u f (Rpc r))) ns os"
    using pass_serves [of w f mem p "Rpc r" ns os u] by auto
  then show ?case
    by (subst serve_until.simps) (simp del: serve.simps add: serve_signalled)
next
  case (Cons pm ms)
  obtain q m where pm: "pm = (q, m)" by (cases pm)
  obtain w1 where w1: "worker_pass u w mem = Inr (Dispatches, serve u f q m, w1, mem(q := settle u f m))"
    "queue_only w w1" "holds_messages w1 (mem(q := settle u f m)) (ms @ (p, Rpc r) # ns) os"
    using pass_serves [of w f mem q m "ms @ (p, Rpc r) # ns" os u] Cons.prems unfolding pm by auto
  have plain: "plain_worker w1 f" using queue_onlyD(1) [OF w1(2)] Cons.prems(1) by simp
  have "rpc_sig_ready x \<noteq> rpc_sig_ready r" if "m = Rpc x" for x
    using Cons.prems(3) that unfolding pm by auto
  then have not_yet: "Signalled (rpc_sig_ready r) \<notin> set (serve u f q m)"
    by (auto simp: serve_signalled)
  have "\<forall>q x. (q, Rpc x) \<in> set ms \<longrightarrow> rpc_sig_ready x \<noteq> rpc_sig_ready r"
    using Cons.prems(3) by auto
  from Cons.IH [OF plain w1(3) this] obtain w2 where
    "serve_until u (rpc_sig_ready r) w1 (mem(q := settle u f m)) (es @ serve u f q m)
      = Some (Inr ((es @ serve u f q m) @ all_served u f (ms @ [(p, Rpc r)]), w2,
          settled u f (ms @ [(p, Rpc r)]) (mem(q := settle u f m))))"
    "queue_only w1 w2"
    "holds_messages w2 (settled u f (ms @ [(p, Rpc r)]) (mem(q := settle u f m))) ns os" by blast
  then show ?case
    using queue_only_trans [OF w1(2)] w1(1) pm not_yet
    by (subst serve_until.simps) simp
qed

lemma send_message:
  assumes h: "holds_messages w mem ms []" and q: "fresh_qnode (w_queue w) p"
    and d: "d_send (w_daemon w) \<noteq> None"
  obtains w' where "TecDaemon_send w x p = Inr w'" and "queue_only w w'"
    and "queue_holds (w_queue w') (map fst ms @ [x])"
proof -
  have "queue_holds (w_queue w) (map fst ms)" using h by (simp add: holds_messages_def)
  from tec_queue.enq_spec [OF this q] obtain q' where
    q': "TecQueue_push (w_queue w) x p = Inr q'" "queue_holds q' (map fst ms @ [x])" by blast
  have "q_mtx q' = q_mtx (w_queue w)" "q_cv q' = q_cv (w_queue w)"
    using push_monitor [OF q'(1)] by simp_all
  then have "queue_only w (w\<lparr>w_queue := q'\<rparr>)" by (intro queue_onlyI)
  then show thesis
    using that [of "w\<lparr>w_queue := q'\<rparr>"] q' d
    by (auto simp: TecDaemon_send_def TecWorker_send_def call_method_def)
qed

section \<open>Destruction\<close>

text \<open>Every object of the platform in the worker has been initialised.\<close>

definition signal_made :: "TecSignal \<Rightarrow> bool" where
  "signal_made s \<longleftrightarrow> mtx_result (sig_mtx s) = Some 0 \<and> cv_result (sig_cnd s) = Some 0"

definition worker_made :: "TecWorker \<Rightarrow> bool" where
  "worker_made w \<longleftrightarrow> signal_made (w_sig_running w) \<and> signal_made (w_sig_terminated w) \<and>
     mtx_result (q_mtx (w_queue w)) = Some 0 \<and> cv_result (q_cv (w_queue w)) = Some 0 \<and>
     mtx_result (w_lock w) = Some 0"

lemma queue_only_made: "queue_only w w' \<Longrightarrow> worker_made w' = worker_made w"
  by (auto simp: queue_only_def worker_made_def)

lemma signal_made_set [simp]: "signal_made (snd (snd (TecSignal_set s lrc brc))) = signal_made s"
  by (simp add: signal_made_def TecSignal_set_def Let_def)

lemma signal_done_made:
  "signal_made s \<Longrightarrow> \<exists>s'. TecSignal_done s 0 = Inr ([Destroy_cv, Destroy_mutex], s')"
  by (simp add: signal_made_def TecSignal_done_def TecCV_destroy_def TecCV_ok_def TecMutex_destroy_def
      TecMutex_ok_def read_field_def)

text \<open>A worker whose thread has been joined.\<close>

definition worker_over :: "TecWorker \<Rightarrow> bool" where
  "worker_over w \<longleftrightarrow> worker_made w \<and> (\<exists>f. plain_worker w f) \<and> (\<exists>os. queue_holds (w_queue w) os) \<and>
     (\<exists>r. thr_result (w_thread w) = Some r \<and> r \<noteq> 0)"

lemma done_over:
  assumes "worker_over w"
  shows "\<exists>cs w'. TecWorker_done w = Inr ([], cs, w') \<and> count_list cs Destroy_mutex = 4 \<and>
     count_list cs Destroy_cv = 3 \<and> q_heap (w_queue w') = Map.empty \<and> map_heap (w_callbacks w') = Map.empty"
proof -
  obtain f os r where w: "worker_made w" "plain_worker w f" "queue_holds (w_queue w) os"
    "thr_result (w_thread w) = Some r" "r \<noteq> 0"
    using assms by (auto simp: worker_over_def)
  obtain s1 where s1: "TecSignal_done (w_sig_running w) 0 = Inr ([Destroy_cv, Destroy_mutex], s1)"
    using w(1) signal_done_made by (auto simp: worker_made_def)
  obtain s2 where s2: "TecSignal_done (w_sig_terminated w) 0 = Inr ([Destroy_cv, Destroy_mutex], s2)"
    using w(1) signal_done_made by (auto simp: worker_made_def)
  obtain q where q: "TecQueue_done (w_queue w) 0 = Inr ([Lock 0, Unlock, Destroy_mutex, Destroy_cv], q)"
    "q_heap q = Map.empty"
    using done_empties [OF w(3)] w(1) by (auto simp: worker_made_def)
  have m: "TecMap_done (w_callbacks w)
      = Inr ((empty_map (map_capacity (w_callbacks w)))\<lparr>map_nodes := None, map_capacity := 0\<rparr>)"
    using w(2) clear_result by (auto simp: TecMap_done_def plain_worker_def)
  show ?thesis
    using w s1 s2 q m
    by (simp add: TecWorker_done_def TecThread_join_def TecThread_ok_def read_field_def in_loop_def
        TecMutex_destroy_def TecMutex_ok_def worker_made_def empty_map_def)
qed

lemma exit_fields:
  assumes "worker_exit u w = (es, w')"
  shows "w_error w = 0 \<Longrightarrow> es = (if w_on_exit w = NULL then [] else [Hook (w_on_exit w)])"
    "w_error w = 0 \<Longrightarrow> w_error w' = (if w_on_exit w = NULL then 0 else u_exit u (w_on_exit w))"
    "w_queue w' = w_queue w" "w_thread w' = w_thread w" "sig_value (w_sig_terminated w') = 1"
    "plain_worker w' f = plain_worker w f" "worker_made w' = worker_made w"
  using assms
  by (auto simp: worker_exit_def TecSignal_set_def plain_worker_def worker_made_def signal_made_def Let_def
      split: if_splits)

section \<open>Properties\<close>

lemma terminate_after_serving:
  assumes w: "plain_worker w f" and h: "holds_messages w mem ms []" and l: "in_loop w"
    and e: "w_error w = 0" and d: "d_send (w_daemon w) \<noteq> None" and p: "fresh_qnode (w_queue w) p"
  shows "\<exists>w'. TecWorker_terminate u w mem p =
       Inr (if w_on_exit w = NULL then 0 else u_exit u (w_on_exit w), [thr_t (w_thread w)],
            all_served u f ms @ (if w_on_exit w = NULL then [] else [Hook (w_on_exit w)]),
            w', settled u f ms mem) \<and>
     queue_holds (w_queue w') [] \<and> (worker_made w \<longrightarrow> worker_over w') \<and>
     sig_value (w_sig_terminated w') = 1"
proof -
  obtain w1 where w1: "TecDaemon_send w NULL p = Inr w1" "queue_only w w1"
    "queue_holds (w_queue w1) (map fst ms @ [NULL])"
    by (rule send_message [OF h p d])
  have "plain_worker w1 f" "holds_messages w1 mem ms [NULL]"
    using w h w1(3) queue_onlyD [OF w1(2)] by (simp_all add: holds_messages_def)
  from loop_serves [OF this, of u "[]"] obtain w2 where
    loop: "worker_loop u w1 mem [] = Some (Inr (all_served u f ms, w2, settled u f ms mem))"
    and w2: "queue_only w1 w2" "queue_holds (w_queue w2) []" by auto
  note eqs = queue_onlyD [OF queue_only_trans [OF w1(2) w2(1)]]
  have t: "thr_result (w_thread w2) = Some 0" using l eqs(3) by (simp add: in_loop_def)
  obtain es w3 where x: "worker_exit u w2 = (es, w3)" by (cases "worker_exit u w2")
  have w3: "es = (if w_on_exit w = NULL then [] else [Hook (w_on_exit w)])"
    "w_error w3 = (if w_on_exit w = NULL then 0 else u_exit u (w_on_exit w))"
    "w_queue w3 = w_queue w2" "w_thread w3 = w_thread w2" "sig_value (w_sig_terminated w3) = 1"
    "plain_worker w3 f = plain_worker w2 f" "worker_made w3 = worker_made w2"
    using exit_fields [OF x] e unfolding eqs(2,6) by simp_all
  have "TecThread_join (w_thread w3) = Inr ([thr_t (w_thread w)], (w_thread w3)\<lparr>thr_result := Some 22\<rparr>)"
    using t w3(4) eqs(3) by (simp add: TecThread_join_def TecThread_ok_def read_field_def)
  then have run: "TecWorker_terminate u w mem p =
      Inr (w_error w3, [thr_t (w_thread w)], all_served u f ms @ es,
        w3\<lparr>w_thread := (w_thread w3)\<lparr>thr_result := Some 22\<rparr>\<rparr>, settled u f ms mem)"
    using w1(1) loop x w3(5) l queue_onlyD(9) [OF w1(2)]
    by (simp add: TecWorker_terminate_def TecSignal_wait_def)
  have made: "worker_made w2 = worker_made w"
    using queue_only_made queue_only_trans [OF w1(2) w2(1)] by blast
  have "plain_worker w2 f" using w eqs(1) by simp
  then have "worker_made w \<longrightarrow> worker_over (w3\<lparr>w_thread := (w_thread w3)\<lparr>thr_result := Some 22\<rparr>\<rparr>)"
    using w2(2) w3(3,6,7) made by (auto simp: worker_over_def worker_made_def plain_worker_def)
  then show ?thesis
    unfolding run w3(1,2) using w2(2) w3(3,5)
    by (intro exI [of _ "w3\<lparr>w_thread := (w_thread w3)\<lparr>thr_result := Some 22\<rparr>\<rparr>"] conjI) simp_all
qed

text \<open>
  C#terminate_drains: \<open>TecWorker_terminate\<close> on a running worker returns after every message
  sent before has been served, in the order they were sent, then the exit hook has run, and
  the thread has been joined, once; its result is the worker's error.
\<close>

theorem terminate_drains:
  assumes w: "plain_worker w f" and h: "holds_messages w mem ms []" and l: "in_loop w"
    and e: "w_error w = 0" and d: "d_send (w_daemon w) \<noteq> None" and p: "fresh_qnode (w_queue w) p"
  shows "\<exists>w'. TecWorker_terminate u w mem p =
       Inr (if w_on_exit w = NULL then 0 else u_exit u (w_on_exit w), [thr_t (w_thread w)],
            all_served u f ms @ (if w_on_exit w = NULL then [] else [Hook (w_on_exit w)]),
            w', settled u f ms mem) \<and>
     queue_holds (w_queue w') []"
  using terminate_after_serving [OF assms, of u] by blast

lemma rpc_serves:
  fixes f :: "u8 list \<Rightarrow> ptr option" and rq :: TecMsg
  assumes w: "plain_worker w f" and h: "holds_messages w mem ms []" and l: "in_loop w"
    and d: "d_send (w_daemon w) \<noteq> None" and p: "fresh_qnode (w_queue w) p"
    and rpc: "rpc \<noteq> NULL" "rpc \<notin> fst ` set ms"
    and sig: "sig \<noteq> NULL" "\<forall>q x. (q, Rpc x) \<in> set ms \<longrightarrow> rpc_sig_ready x \<noteq> sig"
  defines "cb \<equiv> value_of (f (msg_tag rq))"
  shows "\<exists>w' mem'. TecWorker_rpc u w mem (Some rq) reply rpc sig p =
       Inr (if cb = NULL then TECC_ERR_HANDLER_NOT_FOUND
            else u_rpc u cb (TecRPC_init (Some rq) reply sig),
            all_served u f (ms @ [(rpc, Rpc (TecRPC_init (Some rq) reply sig))]), w', mem') \<and>
     queue_only w w' \<and> holds_messages w' mem' [] []"
proof -
  let ?r = "TecRPC_init (Some rq) reply sig"
  let ?mem = "mem(rpc \<mapsto> Rpc ?r)"
  obtain w1 where w1: "TecDaemon_send w rpc p = Inr w1" "queue_only w w1"
    "queue_holds (w_queue w1) (map fst ms @ [rpc])"
    by (rule send_message [OF h p d])
  have sr: "rpc_sig_ready ?r = sig" "rpc_request ?r = Some rq" "?r\<lparr>rpc_error := 0\<rparr> = ?r"
    by (simp_all add: TecRPC_init_def)
  have "q \<noteq> rpc \<and> q \<noteq> NULL \<and> mem q = Some m \<and> wf_message m" if "(q, m) \<in> set ms" for q m
    using h rpc(2) that by (force simp: holds_messages_def)
  then have "\<forall>(q, m) \<in> set ms. q \<noteq> NULL \<and> ?mem q = Some m \<and> wf_message m" by auto
  then have "holds_messages w1 ?mem (ms @ [(rpc, Rpc ?r)]) []"
    using h w1(3) rpc wf_rpc_init [of "Some rq" sig reply] sig(1)
    by (auto simp: holds_messages_def)
  moreover have "plain_worker w1 f" using w queue_onlyD(1) [OF w1(2)] by simp
  ultimately obtain w2 where
    loop: "serve_until u sig w1 ?mem [] = Some (Inr (all_served u f (ms @ [(rpc, Rpc ?r)]), w2,
        settled u f (ms @ [(rpc, Rpc ?r)]) ?mem))"
    and w2: "queue_only w1 w2" "holds_messages w2 (settled u f (ms @ [(rpc, Rpc ?r)]) ?mem) [] []"
    using serve_loop [of w1 f ?mem ms rpc ?r "[]" "[]" u "[]"] sig(2) by (auto simp: sr(1))
  have mem: "settled u f (ms @ [(rpc, Rpc ?r)]) ?mem rpc
      = Some (Rpc (?r\<lparr>rpc_error := rpc_result u f ?r\<rparr>))"
    by (simp add: settled_def)
  have "rpc_result u f ?r = (if cb = NULL then TECC_ERR_HANDLER_NOT_FOUND else u_rpc u cb ?r)"
    by (simp add: rpc_result_def sr cb_def)
  then show ?thesis
    using w1(1) loop mem rpc(1) l queue_onlyD(9) [OF w1(2)] queue_only_trans [OF w1(2) w2(1)] w2(2)
    by (auto simp: TecWorker_rpc_def TecRPC_done_def holds_messages_def)
qed

text \<open>
  C12: a remote call to a running worker returns once the messages sent before it
  have been served; it returns what the handler left in \<open>error\<close>, or
  \<open>TECC_ERR_HANDLER_NOT_FOUND\<close> when no handler is registered for the request.
\<close>

theorem rpc_returns:
  fixes f :: "u8 list \<Rightarrow> ptr option" and rq :: TecMsg
  assumes w: "plain_worker w f" and h: "holds_messages w mem ms []" and l: "in_loop w"
    and d: "d_send (w_daemon w) \<noteq> None" and p: "fresh_qnode (w_queue w) p"
    and rpc: "rpc \<noteq> NULL" "rpc \<notin> fst ` set ms"
    and sig: "sig \<noteq> NULL" "\<forall>q x. (q, Rpc x) \<in> set ms \<longrightarrow> rpc_sig_ready x \<noteq> sig"
  defines "cb \<equiv> value_of (f (msg_tag rq))"
  shows "\<exists>w' mem'. TecWorker_rpc u w mem (Some rq) reply rpc sig p =
       Inr (if cb = NULL then TECC_ERR_HANDLER_NOT_FOUND
            else u_rpc u cb (TecRPC_init (Some rq) reply sig),
            all_served u f (ms @ [(rpc, Rpc (TecRPC_init (Some rq) reply sig))]), w', mem') \<and>
     queue_only w w' \<and> holds_messages w' mem' [] []"
  unfolding cb_def using assms(1-9) by (rule rpc_serves)

section \<open>Creation and registration\<close>

text \<open>Memory a worker has not been initialised in: no node of it is allocated yet.\<close>

definition unused_worker :: "TecWorker \<Rightarrow> bool" where
  "unused_worker w \<longleftrightarrow> q_heap (w_queue w) = Map.empty \<and> map_heap (w_callbacks w) = Map.empty \<and>
     thr_result (w_thread w) = None"

definition ready_worker :: "TecWorker \<Rightarrow> (u8 list \<Rightarrow> ptr option) \<Rightarrow> bool" where
  "ready_worker w f \<longleftrightarrow>
     plain_worker w f \<and> queue_holds (w_queue w) [] \<and> w_error w = 0 \<and>
     sig_value (w_sig_running w) = 0 \<and> sig_value (w_sig_terminated w) = 0 \<and>
     d_send (w_daemon w) = Some Worker_send"

lemma ready_holds: "ready_worker w f \<Longrightarrow> holds_messages w mem [] []"
  by (simp add: ready_worker_def holds_messages_def)

lemma signal_init_ok:
  "TecSignal_init s 0 0 = Inr (True, [], s\<lparr>sig_value := 0, sig_mtx := \<lparr>mtx_result = Some 0\<rparr>,
     sig_cnd := \<lparr>cv_result = Some 0\<rparr>\<rparr>)"
  by (simp add: TecSignal_init_def TecMutex_init_def TecMutex_ok_def TecCV_init_def TecCV_ok_def
      read_field_def Let_def)

lemma init_ready:
  assumes "unused_worker w"
  obtains w' where "TecWorker_init (\<lambda>_. 0) True w n = Inr (True, w')" and "ready_worker w' Map.empty"
    and "w_thread w' = w_thread w" and "w_on_init w' = NULL" and "w_on_exit w' = NULL"
    and "map_heap (w_callbacks w') = Map.empty" and "q_heap (w_queue w') = Map.empty"
proof -
  let ?n = "if n = 0 then TECC_MAP_DEFAULT_SIZE else n"
  have m: "TecMap_init True (w_callbacks w) n = (True, empty_map ?n)"
    using assms by (intro init_empty) (simp add: unused_worker_def)
  have rep: "represents (empty_map ?n) Map.empty"
    by (intro empty_map_represents) (simp add: TECC_MAP_DEFAULT_SIZE_def)
  have q: "queue_holds (snd (TecQueue_init (w_queue w) 0 0)) []"
    using assms by (intro init_holds) (simp add: unused_worker_def)
  have q': "q_heap (snd (TecQueue_init (w_queue w) 0 0)) = Map.empty"
    using assms by (simp add: unused_worker_def TecQueue_init_def)
  obtain qi where qi: "TecQueue_init (w_queue w) 0 0 = (True, qi)" by (simp add: TecQueue_init_def)
  have mutex: "TecMutex_ok (TecMutex_init x 0) = Inr True" for x
    by (simp add: TecMutex_ok_def TecMutex_init_def read_field_def)
  have "map_heap (empty_map ?n) = Map.empty" by (simp add: empty_map_def)
  then have "\<exists>w'. TecWorker_init (\<lambda>_. 0) True w n = Inr (True, w') \<and> ready_worker w' Map.empty \<and>
      w_thread w' = w_thread w \<and> w_on_init w' = NULL \<and> w_on_exit w' = NULL \<and>
      map_heap (w_callbacks w') = Map.empty \<and> q_heap (w_queue w') = Map.empty"
    using rep q q'
    by (simp add: TecWorker_init_def signal_init_ok m qi mutex Let_def ready_worker_def plain_worker_def)
  then show thesis using that by blast
qed

text \<open>
  C#init_all_or_nothing: \<open>TecWorker_init\<close> either reports success and gives a worker with an
  empty queue, no callback and all methods set, or reports failure and leaves every method
  \<open>NULL\<close>: a send through the table of such a worker is a call through a null pointer.
\<close>

lemma worker_init_cases:
  assumes "TecWorker_init rc cok w n = Inr (ok, w')"
  shows "d_send (w_daemon w') = (if ok then Some Worker_send else None)"
    and "d_done (w_daemon w') = (if ok then Some Worker_done else None)"
    and "d_run (w_daemon w') = (if ok then Some Worker_run else None)"
    and "d_rpc (w_daemon w') = (if ok then Some Worker_rpc else None)"
    and "d_terminate (w_daemon w') = (if ok then Some Worker_terminate else None)"
  using assms
  by (cases ok; auto simp: TecWorker_init_def bind_outcome_Inr_iff TecDaemon_init_def Let_def split_beta
      split del: if_split)+

theorem init_all_or_nothing:
  assumes "TecWorker_init rc cok w n = Inr (ok, w')"
  shows "d_done (w_daemon w') = (if ok then Some Worker_done else None) \<and>
     fst (TecDaemon_done (w_daemon w')) = (if ok then [Worker_done] else []) \<and>
     (\<not> ok \<longrightarrow> TecDaemon_send w' msg p = Inl Null_deref)"
  using worker_init_cases [OF assms]
  by (simp add: TecDaemon_done_def TecDaemon_send_def call_method_def)

lemma init_made: "TecWorker_init (\<lambda>_. 0) True w n = Inr (True, w') \<Longrightarrow> worker_made w'"
  by (auto simp: TecWorker_init_def signal_init_ok worker_made_def signal_made_def TecQueue_init_def
      TecMutex_init_def TecCV_init_def Let_def split_beta bind_outcome_Inr_iff)

lemma register_made: "TecWorker_register w k cb p = Inr (cs, w') \<Longrightarrow> worker_made w' = worker_made w"
  by (auto simp: TecWorker_register_def bind_outcome_Inr_iff worker_made_def)

lemma start_made: "worker_start u w = (es, w') \<Longrightarrow> worker_made w' = worker_made w"
  by (auto simp: worker_start_def TecSignal_set_def worker_made_def signal_made_def Let_def split: if_splits)

lemma run_made:
  assumes "TecWorker_run u w 0 0 h = Inr (r, cs, hs, es, w')"
  shows "worker_made w' = worker_made w"
proof -
  let ?w = "w\<lparr>w_thread := TecThread_create (w_thread w) 0 h\<rparr>"
  obtain es1 w1 where s: "worker_start u ?w = (es1, w1)" by (cases "worker_start u ?w")
  obtain es2 w2 where x: "worker_exit u w1 = (es2, w2)" by (cases "worker_exit u w1")
  have "worker_made w1 = worker_made w"
    using start_made [OF s] by (simp add: worker_made_def)
  moreover have "worker_made w2 = worker_made w1" by (rule exit_fields(7) [OF x])
  moreover have "w' = w1 \<or> (\<exists>t. w' = w2\<lparr>w_thread := t\<rparr>)"
    using assms s x
    by (auto simp: TecWorker_run_def TecThread_create_def TecThread_ok_def read_field_def
        bind_outcome_Inr_iff Let_def split: if_splits)
  moreover have "worker_made (w2\<lparr>w_thread := t\<rparr>) = worker_made w2" for t
    by (simp add: worker_made_def)
  ultimately show ?thesis by auto
qed

text \<open>\<open>TecWorker_register\<close> adds a callback; the next worker relation is over the larger map.\<close>

lemma register_adds:
  assumes "plain_worker w f" and "fresh_node (w_callbacks w) p"
  obtains w' where "TecWorker_register w k cb p = Inr ([Lock 0, Unlock], w')"
    and "plain_worker w' (f(k \<mapsto> cb))" and "w' = w\<lparr>w_callbacks := w_callbacks w'\<rparr>"
proof -
  obtain m where "TecMap_set (w_callbacks w) k cb p = Inr (value_of (f k), m)"
    "represents m (f(k \<mapsto> cb))"
    using tec_map.put_spec [of "w_callbacks w" f p k cb] assms by (auto simp: plain_worker_def)
  then show thesis
    using that [of "w\<lparr>w_callbacks := m\<rparr>"] assms(1)
    by (simp add: TecWorker_register_def plain_worker_def)
qed

lemma register_ready:
  assumes ready: "ready_worker w f" and p: "fresh_node (w_callbacks w) p"
  obtains w' where "TecWorker_register w k cb p = Inr ([Lock 0, Unlock], w')"
    and "ready_worker w' (f(k \<mapsto> cb))" and "worker_made w' = worker_made w"
    and "w_on_init w' = w_on_init w" and "w_on_exit w' = w_on_exit w" and "w_thread w' = w_thread w"
    and "w_queue w' = w_queue w"
    and "\<And>q. q \<noteq> p \<Longrightarrow> map_heap (w_callbacks w) q = None \<Longrightarrow> map_heap (w_callbacks w') q = None"
proof -
  have "plain_worker w f" using ready by (simp add: ready_worker_def)
  from register_adds [OF this p, of k cb] obtain w' where
    w': "TecWorker_register w k cb p = Inr ([Lock 0, Unlock], w')" "plain_worker w' (f(k \<mapsto> cb))" by blast
  then obtain r m where m: "TecMap_set (w_callbacks w) k cb p = Inr (r, m)" "w' = w\<lparr>w_callbacks := m\<rparr>"
    by (auto simp: TecWorker_register_def bind_outcome_Inr_iff)
  then show thesis
    using that [OF w'(1)] w' ready register_made [OF w'(1)] set_heap [OF m(1)]
    by (auto simp: ready_worker_def)
qed

text \<open>
  A running worker for witnesses: created, one callback registered, the thread in its loop.
\<close>

definition unused :: TecWorker where
  "unused =
     (let sig = \<lparr>sig_value = 0, sig_mtx = \<lparr>mtx_result = None\<rparr>, sig_cnd = \<lparr>cv_result = None\<rparr>\<rparr>
      in \<lparr>w_daemon = TecDaemon_init, w_hash_table_size = 0, w_error = 0, w_sig_running = sig,
          w_sig_terminated = sig,
          w_queue = \<lparr>q_head = NULL, q_tail = NULL, q_mtx = \<lparr>mtx_result = None\<rparr>,
                     q_cv = \<lparr>cv_result = None\<rparr>, q_heap = Map.empty\<rparr>,
          w_callbacks = \<lparr>map_nodes = None, map_size = 0, map_capacity = 0, map_heap = Map.empty\<rparr>,
          w_on_init = NULL, w_on_exit = NULL, w_lock = \<lparr>mtx_result = None\<rparr>,
          w_thread = \<lparr>thr_result = None, thr_t = 0\<rparr>, w_dispatch = None, w_on_msg = None,
          w_on_rpc = None\<rparr>)"

lemma unused_worker_unused: "unused_worker unused"
  by (simp add: unused_worker_def unused_def Let_def)

definition idle_worker :: "TecWorker \<Rightarrow> u8 list \<Rightarrow> ptr \<Rightarrow> bool" where
  "idle_worker w k cb \<longleftrightarrow> plain_worker w [k \<mapsto> cb] \<and> holds_messages w Map.empty [] [] \<and> in_loop w \<and>
     w_error w = 0 \<and> d_send (w_daemon w) = Some Worker_send \<and> q_heap (w_queue w) = Map.empty \<and>
     w_on_init w = NULL \<and> w_on_exit w = NULL \<and> thr_t (w_thread w) = 77"

lemma run_ready:
  assumes "ready_worker w f" and "w_on_init w = NULL"
  obtains w' where "TecWorker_run u w 0 0 h = Inr (0, [Lock 0, Unlock], [], [], w')"
    and "w' = w\<lparr>w_thread := \<lparr>thr_result = Some 0, thr_t = h\<rparr>, w_sig_running := w_sig_running w'\<rparr>"
  using that assms
  by (simp add: TecWorker_run_def ready_worker_def TecThread_create_def TecThread_ok_def read_field_def
      worker_start_def TecSignal_set_def TecSignal_wait_def Let_def)

lemma run_in_loop:
  assumes ready: "ready_worker w f" and init: "w_on_init w = NULL"
  obtains w' where "TecWorker_run u w 0 0 h = Inr (0, [Lock 0, Unlock], [], [], w')"
    and "plain_worker w' f" and "queue_holds (w_queue w') []" and "in_loop w'" and "w_error w' = 0"
    and "d_send (w_daemon w') = Some Worker_send" and "w_queue w' = w_queue w" and "w_on_exit w' = w_on_exit w"
    and "thr_t (w_thread w') = h" and "sig_value (w_sig_running w') = 1" and "worker_made w' = worker_made w"
proof -
  let ?sr = "snd (snd (TecSignal_set (w_sig_running w) 0 0))"
  let ?w' = "w\<lparr>w_thread := \<lparr>thr_result = Some 0, thr_t = h\<rparr>, w_sig_running := ?sr\<rparr>"
  have set: "sig_value ?sr = 1" by (simp add: TecSignal_set_def Let_def)
  have run: "TecWorker_run u w 0 0 h = Inr (0, [Lock 0, Unlock], [], [], ?w')"
    using assms set
    by (simp add: TecWorker_run_def ready_worker_def TecThread_create_def TecThread_ok_def read_field_def
        worker_start_def TecSignal_wait_def Let_def)
  show thesis
    by (rule that [OF run])
      (use ready set run_made [OF run] in \<open>simp_all add: ready_worker_def plain_worker_def in_loop_def\<close>)
qed

lemma run_no_thread:
  assumes ready: "ready_worker w f" and crc: "crc \<noteq> 0"
  obtains w' where "TecWorker_run u w 0 crc h = Inr (crc, [Lock 0, Unlock], [], [], w')"
    and "\<not> in_loop w'" and "queue_holds (w_queue w') []" and "d_send (w_daemon w') = Some Worker_send"
    and "sig_value (w_sig_terminated w') = 0" and "worker_made w \<Longrightarrow> worker_over w'"
proof -
  let ?w' = "w\<lparr>w_thread := TecThread_create (w_thread w) crc h\<rparr>"
  have run: "TecWorker_run u w 0 crc h = Inr (crc, [Lock 0, Unlock], [], [], ?w')"
    using crc by (simp add: TecWorker_run_def TecThread_create_def TecThread_ok_def read_field_def Let_def)
  have "plain_worker ?w' f" using ready by (simp add: ready_worker_def plain_worker_def)
  then show thesis
    using ready crc
    by (intro that [OF run])
      (auto simp: ready_worker_def in_loop_def worker_over_def worker_made_def TecThread_create_def)
qed

lemma registered_exists:
  obtains w0 w1 where "TecWorker_init (\<lambda>_. 0) True unused 0 = Inr (True, w0)"
    and "TecWorker_register w0 k cb 64 = Inr ([Lock 0, Unlock], w1)"
    and "ready_worker w1 [k \<mapsto> cb]" and "w_on_init w1 = NULL" and "w_on_exit w1 = NULL"
    and "q_heap (w_queue w1) = Map.empty"
proof -
  obtain w0 where w0: "TecWorker_init (\<lambda>_. 0) True unused 0 = Inr (True, w0)"
    "ready_worker w0 Map.empty" "w_on_init w0 = NULL" "w_on_exit w0 = NULL"
    "map_heap (w_callbacks w0) = Map.empty" "q_heap (w_queue w0) = Map.empty"
    using init_ready [OF unused_worker_unused, of 0] by metis
  have "fresh_node (w_callbacks w0) 64" using w0(5) by (simp add: fresh_node_def)
  from register_ready [OF w0(2) this, of k cb] that w0 show thesis by metis
qed

lemma idle_worker_exists:
  "\<exists>w0 w1 w. TecWorker_init (\<lambda>_. 0) True unused 0 = Inr (True, w0) \<and>
     TecWorker_register w0 k cb 64 = Inr ([Lock 0, Unlock], w1) \<and>
     TecWorker_run u w1 0 0 77 = Inr (0, [Lock 0, Unlock], [], [], w) \<and> idle_worker w k cb"
proof -
  obtain w0 w1 where w1: "TecWorker_init (\<lambda>_. 0) True unused 0 = Inr (True, w0)"
    "TecWorker_register w0 k cb 64 = Inr ([Lock 0, Unlock], w1)"
    "ready_worker w1 [k \<mapsto> cb]" "w_on_init w1 = NULL" "w_on_exit w1 = NULL"
    "q_heap (w_queue w1) = Map.empty"
    by (rule registered_exists)
  from w1(3,4) obtain w where w: "TecWorker_run u w1 0 0 77 = Inr (0, [Lock 0, Unlock], [], [], w)"
    "w = w1\<lparr>w_thread := \<lparr>thr_result = Some 0, thr_t = 77\<rparr>, w_sig_running := w_sig_running w\<rparr>"
    by (rule run_ready)
  then obtain sr where
    "w = w1\<lparr>w_thread := \<lparr>thr_result = Some 0, thr_t = 77\<rparr>, w_sig_running := sr\<rparr>" by blast
  then have "idle_worker w k cb"
    using w1(3-6)
    by (simp add: idle_worker_def plain_worker_def holds_messages_def in_loop_def ready_worker_def)
  then show ?thesis using w1(1,2) w(1) by blast
qed

section \<open>The message loop and its senders\<close>

text \<open>
  The thread of the worker and any number of senders, each step as the lock of the queue
  makes it. A sender hands over a message at an address that holds none; the order of
  \<open>ws_sent\<close> is the order in the queue, \<open>None\<close> stands for \<open>NULL\<close>. Callbacks are registered
  before the worker starts. What the hooks of the user did is in \<open>ws_hooks\<close>.
\<close>

datatype worker_pc = Starting | Looping | Leaving | Ended

record worker_state =
  ws_worker :: TecWorker
  ws_mem :: msg_mem
  ws_pc :: worker_pc
  ws_log :: "event list"
  ws_hooks :: "event list"
  ws_sent :: "(ptr \<times> message) option list"

inductive worker_step :: "user_code \<Rightarrow> worker_state \<Rightarrow> worker_state \<Rightarrow> bool" for u where
  start: "ws_pc s = Starting \<Longrightarrow> worker_start u (ws_worker s) = (es, w) \<Longrightarrow>
    worker_step u s (s\<lparr>ws_worker := w, ws_pc := (if w_error w = 0 then Looping else Leaving),
      ws_hooks := ws_hooks s @ es\<rparr>)"
| serve: "ws_pc s = Looping \<Longrightarrow>
    worker_pass u (ws_worker s) (ws_mem s) = Inr (Dispatches, es, w, mem) \<Longrightarrow>
    worker_step u s (s\<lparr>ws_worker := w, ws_mem := mem, ws_log := ws_log s @ es\<rparr>)"
| leave: "ws_pc s = Looping \<Longrightarrow>
    worker_pass u (ws_worker s) (ws_mem s) = Inr (Leaves, es, w, mem) \<Longrightarrow>
    worker_step u s (s\<lparr>ws_worker := w, ws_mem := mem, ws_pc := Leaving\<rparr>)"
| exit: "ws_pc s = Leaving \<Longrightarrow> worker_exit u (ws_worker s) = (es, w) \<Longrightarrow>
    worker_step u s (s\<lparr>ws_worker := w, ws_pc := Ended, ws_hooks := ws_hooks s @ es\<rparr>)"
| send: "msg \<noteq> NULL \<Longrightarrow> ws_mem s msg = None \<Longrightarrow> wf_message m \<Longrightarrow>
    fresh_qnode (w_queue (ws_worker s)) p \<Longrightarrow> TecWorker_send (ws_worker s) msg p = Inr w \<Longrightarrow>
    worker_step u s (s\<lparr>ws_worker := w, ws_mem := (ws_mem s)(msg \<mapsto> m),
      ws_sent := ws_sent s @ [Some (msg, m)]\<rparr>)"
| send_null: "fresh_qnode (w_queue (ws_worker s)) p \<Longrightarrow>
    TecWorker_send (ws_worker s) NULL p = Inr w \<Longrightarrow>
    worker_step u s (s\<lparr>ws_worker := w, ws_sent := ws_sent s @ [None]\<rparr>)"

inductive worker_reach :: "user_code \<Rightarrow> (u8 list \<Rightarrow> ptr option) \<Rightarrow> worker_state \<Rightarrow> bool" for u f where
  init: "ready_worker w f \<Longrightarrow>
    worker_reach u f \<lparr>ws_worker = w, ws_mem = Map.empty, ws_pc = Starting, ws_log = [],
      ws_hooks = [], ws_sent = []\<rparr>"
| step: "worker_reach u f s \<Longrightarrow> worker_step u s s' \<Longrightarrow> worker_reach u f s'"

definition before_null :: "(ptr \<times> message) option list \<Rightarrow> (ptr \<times> message) list" where
  "before_null xs = map the (takeWhile (\<lambda>x. x \<noteq> None) xs)"

lemma takeWhile_Some: "takeWhile (\<lambda>x. x \<noteq> None) (map Some ms @ xs) = map Some ms @ takeWhile (\<lambda>x. x \<noteq> None) xs"
  by (induction ms) auto

lemma before_null_append [simp]: "before_null (map Some ms @ xs) = ms @ before_null xs"
  unfolding before_null_def takeWhile_Some by (simp add: comp_def)

lemma before_null_None [simp]: "before_null (None # xs) = []"
  by (simp add: before_null_def)

fun sent_ptr :: "(ptr \<times> message) option \<Rightarrow> ptr" where
  "sent_ptr None = NULL"
| "sent_ptr (Some (p, m)) = p"

text \<open>The init hook fails.\<close>

definition init_fails :: "user_code \<Rightarrow> TecWorker \<Rightarrow> bool" where
  "init_fails u w \<longleftrightarrow> w_on_init w \<noteq> NULL \<and> u_init u (w_on_init w) \<noteq> 0"

text \<open>
  Invariant: some of the messages sent have been served; while the thread can still take
  messages, the others are in the queue up to the first \<open>NULL\<close> and what follows it.
\<close>

definition pending ::
  "TecWorker \<Rightarrow> msg_mem \<Rightarrow> (ptr \<times> message) option list \<Rightarrow> bool" where
  "pending w mem rest \<longleftrightarrow>
     (\<exists>ms tail. rest = map Some ms @ tail \<and> (tail = [] \<or> hd tail = None) \<and>
        holds_messages w mem ms (map sent_ptr tail))"

definition worker_inv ::
  "user_code \<Rightarrow> (u8 list \<Rightarrow> ptr option) \<Rightarrow> worker_state \<Rightarrow> (ptr \<times> message) list
   \<Rightarrow> (ptr \<times> message) option list \<Rightarrow> bool" where
  "worker_inv u f s served rest \<longleftrightarrow>
     plain_worker (ws_worker s) f \<and>
     ws_sent s = map Some served @ rest \<and> ws_log s = all_served u f served \<and>
     (ws_pc s = Starting \<longrightarrow> served = [] \<and> w_error (ws_worker s) = 0) \<and>
     (ws_pc s \<in> {Starting, Looping} \<longrightarrow> pending (ws_worker s) (ws_mem s) rest) \<and>
     (ws_pc s \<in> {Leaving, Ended} \<longrightarrow> init_fails u (ws_worker s) \<or> (\<exists>t. rest = None # t))"

lemma sent_pending:
  assumes p: "pending w mem rest" and send: "TecWorker_send w x p = Inr w'"
    and fresh: "fresh_qnode (w_queue w) p"
    and x: "y = None \<and> x = NULL \<and> mem' = mem \<or>
      (\<exists>m. y = Some (x, m) \<and> x \<noteq> NULL \<and> mem x = None \<and> wf_message m \<and> mem' = mem(x \<mapsto> m))"
  shows "pending w' mem' (rest @ [y])"
proof -
  obtain ms tail where r: "rest = map Some ms @ tail" "tail = [] \<or> hd tail = None"
    and h: "holds_messages w mem ms (map sent_ptr tail)"
    using p by (auto simp: pending_def)
  obtain q where q: "TecQueue_push (w_queue w) x p = Inr q" "w' = w\<lparr>w_queue := q\<rparr>"
    using send by (auto simp: TecWorker_send_def bind_outcome_Inr_iff)
  have "queue_holds (w_queue w) (map fst ms @ map sent_ptr tail)" using h by (simp add: holds_messages_def)
  from tec_queue.enq_spec [OF this fresh, of x] q(1)
  have q': "queue_holds q ((map fst ms @ map sent_ptr tail) @ [x])" by auto
  have y: "sent_ptr y = x" using x by auto
  have m: "mem' p = Some m \<and> p \<noteq> x \<and> p \<noteq> NULL \<and> wf_message m" if "(p, m) \<in> set ms" for p m
    using h x that by (fastforce simp: holds_messages_def)
  show ?thesis
  proof (cases "tail = [] \<and> y \<noteq> None")
    case True
    then obtain m where "y = Some (x, m)" "x \<noteq> NULL" "wf_message m" "mem' = mem(x \<mapsto> m)"
      using x by blast
    moreover from this have "holds_messages w' mem' (ms @ [(x, m)]) []"
      using True q' h q(2) m by (force simp: holds_messages_def)
    ultimately show ?thesis
      unfolding pending_def r(1) using True
      by (intro exI [of _ "ms @ [(x, m)]"] exI [of _ "[]"]) simp
  next
    case False
    then have "hd (tail @ [y]) = None" using r(2) by (cases tail; cases y) auto
    moreover have "holds_messages w' mem' ms (map sent_ptr (tail @ [y]))"
      using q' h q(2) m y by (auto simp: holds_messages_def)
    ultimately show ?thesis
      unfolding pending_def r(1) by (intro exI [of _ ms] exI [of _ "tail @ [y]"]) simp
  qed
qed

lemma start_inv:
  assumes inv: "worker_inv u f s served rest" and pc: "ws_pc s = Starting"
    and st: "worker_start u (ws_worker s) = (es, w)"
  shows "worker_inv u f (s\<lparr>ws_worker := w, ws_pc := (if w_error w = 0 then Looping else Leaving),
      ws_hooks := ws_hooks s @ es\<rparr>) served rest"
proof -
  have i: "plain_worker (ws_worker s) f" "ws_sent s = map Some served @ rest"
    "ws_log s = all_served u f served" "w_error (ws_worker s) = 0"
    "pending (ws_worker s) (ws_mem s) rest"
    using inv pc by (simp_all add: worker_inv_def)
  have w: "w_queue w = w_queue (ws_worker s)" "w_on_init w = w_on_init (ws_worker s)"
    "plain_worker w f = plain_worker (ws_worker s) f"
    "w_error w \<noteq> 0 \<longleftrightarrow> init_fails u (ws_worker s)"
    using st i(4)
    by (auto simp: worker_start_def plain_worker_def init_fails_def Let_def split: if_splits)
  have "pending w (ws_mem s) rest"
    using i(5) by (simp add: pending_def holds_messages_def w)
  then show ?thesis using i w by (simp add: worker_inv_def init_fails_def)
qed

lemma exit_inv:
  assumes inv: "worker_inv u f s served rest" and pc: "ws_pc s = Leaving"
    and ex: "worker_exit u (ws_worker s) = (es, w)"
  shows "worker_inv u f (s\<lparr>ws_worker := w, ws_pc := Ended, ws_hooks := ws_hooks s @ es\<rparr>) served rest"
proof -
  have "plain_worker w f = plain_worker (ws_worker s) f" "init_fails u w = init_fails u (ws_worker s)"
    using ex by (auto simp: worker_exit_def plain_worker_def init_fails_def Let_def split: if_splits)
  then show ?thesis using inv pc by (auto simp: worker_inv_def)
qed

text \<open>What a pass of the loop does when the invariant holds.\<close>

lemma pass_inv:
  assumes "plain_worker w f" and "pending w mem rest"
  shows "rest = [] \<and> worker_pass u w mem = Inr (Sleeps, [], w, mem) \<or>
    (\<exists>t w'. rest = None # t \<and> worker_pass u w mem = Inr (Leaves, [], w', mem) \<and> queue_only w w') \<or>
    (\<exists>p m t w'. rest = Some (p, m) # t \<and>
       worker_pass u w mem = Inr (Dispatches, serve u f p m, w', mem(p := settle u f m)) \<and>
       queue_only w w' \<and> pending w' (mem(p := settle u f m)) t)"
proof -
  obtain ms tail where r: "rest = map Some ms @ tail" "tail = [] \<or> hd tail = None"
    and h: "holds_messages w mem ms (map sent_ptr tail)"
    using assms(2) by (auto simp: pending_def)
  show ?thesis
  proof (cases ms)
    case Nil
    show ?thesis
    proof (cases tail)
      case Nil
      have "queue_holds (w_queue w) []" using h Nil \<open>ms = []\<close> by (simp add: holds_messages_def)
      then show ?thesis using pass_sleeps r(1) Nil \<open>ms = []\<close> by simp
    next
      case (Cons a t)
      then have "a = None" using r(2) by simp
      then have "queue_holds (w_queue w) (NULL # map sent_ptr t)"
        using h Cons \<open>ms = []\<close> by (simp add: holds_messages_def)
      then obtain w' where "worker_pass u w mem = Inr (Leaves, [], w', mem)" "queue_only w w'"
        by (rule pass_leaves)
      then show ?thesis using r(1) Cons \<open>ms = []\<close> \<open>a = None\<close> by auto
    qed
  next
    case (Cons pm ns)
    obtain p m where pm: "pm = (p, m)" by (cases pm)
    obtain w' where "worker_pass u w mem = Inr (Dispatches, serve u f p m, w', mem(p := settle u f m))"
      "queue_only w w'" "holds_messages w' (mem(p := settle u f m)) ns (map sent_ptr tail)"
      using pass_serves [OF assms(1), of mem p m ns "map sent_ptr tail" u] h Cons pm by blast
    then show ?thesis
      using r Cons pm by (intro disjI2) (auto simp: pending_def)
  qed
qed

text \<open>
  What a step does when the invariant holds: the thread starts, leaves the loop or ends; it
  serves the next message; a message or \<open>NULL\<close> is sent.
\<close>

definition inner :: "worker_state \<Rightarrow> worker_state \<Rightarrow> bool" where
  "inner s s' \<longleftrightarrow> ws_sent s' = ws_sent s \<and> ws_log s' = ws_log s \<and> ws_mem s' = ws_mem s"

definition serves ::
  "user_code \<Rightarrow> (u8 list \<Rightarrow> ptr option) \<Rightarrow> ptr \<Rightarrow> message \<Rightarrow> worker_state \<Rightarrow> worker_state \<Rightarrow> bool" where
  "serves u f p m s s' \<longleftrightarrow> ws_sent s' = ws_sent s \<and> ws_log s' = ws_log s @ serve u f p m \<and>
     ws_mem s' = (ws_mem s)(p := settle u f m) \<and> ws_pc s' = ws_pc s \<and> ws_mem s p = Some m \<and>
     ws_pc s = Looping"

definition sends :: "(ptr \<times> message) option \<Rightarrow> worker_state \<Rightarrow> worker_state \<Rightarrow> bool" where
  "sends x s s' \<longleftrightarrow> ws_sent s' = ws_sent s @ [x] \<and> ws_log s' = ws_log s \<and> ws_pc s' = ws_pc s \<and>
     ws_mem s' = (case x of None \<Rightarrow> ws_mem s | Some (p, m) \<Rightarrow> (ws_mem s)(p \<mapsto> m)) \<and>
     (\<forall>p m. x = Some (p, m) \<longrightarrow> p \<noteq> NULL \<and> ws_mem s p = None \<and> wf_message m)"

lemma pending_head: "pending w mem (Some (p, m) # t) \<Longrightarrow> mem p = Some m"
  by (auto simp: pending_def holds_messages_def Cons_eq_append_conv)

lemma step_cases:
  assumes "worker_step u s s'" and inv: "worker_inv u f s served rest"
  obtains (inner) "inner s s'" "worker_inv u f s' served rest"
  | (serves) p m t where "rest = Some (p, m) # t" "serves u f p m s s'"
      "worker_inv u f s' (served @ [(p, m)]) t"
  | (sends) x where "sends x s s'" "worker_inv u f s' served (rest @ [x])"
  using assms(1)
proof cases
  case (start es w)
  then show thesis using start_inv [OF inv] by (intro that(1)) (simp_all add: inner_def)
next
  case (serve es w mem)
  have i: "plain_worker (ws_worker s) f" "pending (ws_worker s) (ws_mem s) rest"
    using inv serve(2) by (simp_all add: worker_inv_def)
  from pass_inv [OF i, of u] serve(3) obtain p m t where
    t: "rest = Some (p, m) # t" "es = serve u f p m" "queue_only (ws_worker s) w" "pending w mem t"
    "mem = (ws_mem s)(p := settle u f m)"
    by auto
  have "worker_inv u f s' (served @ [(p, m)]) t"
    using inv serve(1,2) t(1-4) queue_onlyD(1) [OF t(3)] by (simp add: worker_inv_def)
  then show thesis
    using t serve(1,2) pending_head i(2) by (intro that(2)) (auto simp: serves_def)
next
  case (leave es w mem)
  have i: "plain_worker (ws_worker s) f" "pending (ws_worker s) (ws_mem s) rest"
    using inv leave(2) by (simp_all add: worker_inv_def)
  from pass_inv [OF i, of u] leave(3) obtain t where
    t: "rest = None # t" "queue_only (ws_worker s) w" "mem = ws_mem s" by auto
  have "worker_inv u f s' served rest"
    using inv leave(1,2) t(1,2) queue_onlyD(1) [OF t(2)] by (simp add: worker_inv_def)
  then show thesis using t(3) leave(1) by (intro that(1)) (simp_all add: inner_def)
next
  case (exit es w)
  then show thesis using exit_inv [OF inv] by (intro that(1)) (simp_all add: inner_def)
next
  case (send msg m p w)
  have w: "plain_worker w f = plain_worker (ws_worker s) f" "w_error w = w_error (ws_worker s)"
    "init_fails u w = init_fails u (ws_worker s)"
    using send(6) by (auto simp: TecWorker_send_def bind_outcome_Inr_iff plain_worker_def init_fails_def)
  have "pending (ws_worker s) (ws_mem s) rest \<Longrightarrow>
      pending w ((ws_mem s)(msg \<mapsto> m)) (rest @ [Some (msg, m)])"
    using send(2-5) by (intro sent_pending [OF _ send(6,5)]) auto
  then have "worker_inv u f s' served (rest @ [Some (msg, m)])"
    using inv send(1) w by (auto simp: worker_inv_def)
  then show thesis using send(1-4) by (intro that(3)) (simp_all add: sends_def)
next
  case (send_null p w)
  have w: "plain_worker w f = plain_worker (ws_worker s) f" "w_error w = w_error (ws_worker s)"
    "init_fails u w = init_fails u (ws_worker s)"
    using send_null(3) by (auto simp: TecWorker_send_def bind_outcome_Inr_iff plain_worker_def init_fails_def)
  have "pending (ws_worker s) (ws_mem s) rest \<Longrightarrow> pending w (ws_mem s) (rest @ [None])"
    by (intro sent_pending [OF _ send_null(3,2)]) auto
  then have "worker_inv u f s' served (rest @ [None])"
    using inv send_null(1) w by (auto simp: worker_inv_def)
  then show thesis using send_null(1) by (intro that(3)) (simp_all add: sends_def)
qed

lemma step_inv:
  assumes "worker_step u s s'" and "worker_inv u f s served rest"
  shows "\<exists>served rest. worker_inv u f s' served rest"
  by (rule step_cases [OF assms]) blast+

lemma reach_inv: "worker_reach u f s \<Longrightarrow> \<exists>served rest. worker_inv u f s served rest"
proof (induction rule: worker_reach.induct)
  case (init w)
  have "pending w Map.empty []"
    using ready_holds [OF init] by (intro exI [of _ "[]"] conjI | simp add: pending_def)+
  then have "worker_inv u f \<lparr>ws_worker = w, ws_mem = Map.empty, ws_pc = Starting, ws_log = [],
      ws_hooks = [], ws_sent = []\<rparr> [] []"
    using init by (simp add: worker_inv_def ready_worker_def)
  then show ?case by blast
next
  case (step s s')
  then show ?case using step_inv by blast
qed

lemma reach_in_order:
  assumes "worker_reach u f s"
  shows "(\<exists>n. ws_log s = all_served u f (take n (before_null (ws_sent s)))) \<and>
    (ws_pc s = Ended \<and> \<not> init_fails u (ws_worker s) \<longrightarrow>
       None \<in> set (ws_sent s) \<and> ws_log s = all_served u f (before_null (ws_sent s)))"
proof -
  obtain served rest where "worker_inv u f s served rest" using reach_inv [OF assms] by blast
  then have i: "ws_sent s = map Some served @ rest" "ws_log s = all_served u f served"
    "ws_pc s \<in> {Leaving, Ended} \<longrightarrow> init_fails u (ws_worker s) \<or> (\<exists>t. rest = None # t)"
    by (simp_all add: worker_inv_def)
  then show ?thesis
    by (auto intro!: exI [of _ "length served"])
qed

text \<open>
  C8: whatever the interleaving of senders with the thread, what the worker has
  done is what a prefix of the messages sent before the first \<open>NULL\<close> does, one after the
  other in the order they were sent; when the thread has ended it has served all of them,
  unless its init hook failed.
\<close>

theorem worker_in_order:
  assumes "worker_reach u f s"
  shows "(\<exists>n. ws_log s = all_served u f (take n (before_null (ws_sent s)))) \<and>
    (ws_pc s = Ended \<and> \<not> init_fails u (ws_worker s) \<longrightarrow>
       None \<in> set (ws_sent s) \<and> ws_log s = all_served u f (before_null (ws_sent s)))"
  using assms by (rule reach_in_order)

text \<open>
  In the loop the thread never faults, and it sleeps only when every message
  sent so far has been served.
\<close>

theorem worker_progress:
  assumes "worker_reach u f s" and "ws_pc s = Looping"
  shows "\<exists>r es w mem. worker_pass u (ws_worker s) (ws_mem s) = Inr (r, es, w, mem) \<and>
    (r = Sleeps \<longrightarrow> ws_log s = all_served u f (map the (ws_sent s)) \<and> None \<notin> set (ws_sent s))"
proof -
  obtain served rest where inv: "worker_inv u f s served rest" using reach_inv [OF assms(1)] by blast
  then have i: "ws_sent s = map Some served @ rest" "ws_log s = all_served u f served"
    "plain_worker (ws_worker s) f" "pending (ws_worker s) (ws_mem s) rest"
    using assms(2) by (simp_all add: worker_inv_def)
  show ?thesis using pass_inv [OF i(3,4), of u] i(1,2) by (auto simp: comp_def)
qed

section \<open>Witnesses and failures\<close>

definition plain_user :: user_code where
  "plain_user = \<lparr>u_init = (\<lambda>_. 0), u_exit = (\<lambda>_. 0), u_msg = (\<lambda>_ m. m), u_rpc = (\<lambda>_ _. 42)\<rparr>"

lemma send_heap:
  "TecDaemon_send w x p = Inr w' \<Longrightarrow> q_heap (w_queue w) y = None \<Longrightarrow> y \<noteq> p \<Longrightarrow>
   q_heap (w_queue w') y = None"
  by (auto simp: TecDaemon_send_def TecWorker_send_def TecQueue_push_def qnode_at_def bind_outcome_Inr_iff
      Let_def split: if_splits option.splits)

theorem terminate_drains_witness:
  "\<exists>w0 w1 w w2 w' mem'. TecWorker_init (\<lambda>_. 0) True unused 0 = Inr (True, w0) \<and>
     TecWorker_register w0 [77] 5 64 = Inr ([Lock 0, Unlock], w1) \<and>
     TecWorker_run plain_user w1 0 0 77 = Inr (0, [Lock 0, Unlock], [], [], w) \<and>
     TecDaemon_send w 1000 8 = Inr w2 \<and>
     TecWorker_terminate plain_user w2 [1000 \<mapsto> Msg \<lparr>msg_tag = [77], msg_done = 6\<rparr>] 16
       = Inr (0, [77], [Called 5 1000, Destroyed 6 1000, Freed 1000], w', mem')"
proof -
  obtain w0 w1 w where run: "TecWorker_init (\<lambda>_. 0) True unused 0 = Inr (True, w0)"
    "TecWorker_register w0 [77] 5 64 = Inr ([Lock 0, Unlock], w1)"
    "TecWorker_run plain_user w1 0 0 77 = Inr (0, [Lock 0, Unlock], [], [], w)"
    "idle_worker w [77] 5"
    using idle_worker_exists [of "[77]" 5 plain_user] by blast
  let ?m = "Msg \<lparr>msg_tag = [77], msg_done = 6\<rparr>"
  have idle: "plain_worker w [[77] \<mapsto> 5]" "holds_messages w Map.empty [] []" "in_loop w" "w_error w = 0"
    "d_send (w_daemon w) \<noteq> None" "q_heap (w_queue w) = Map.empty" "w_on_exit w = NULL"
    "thr_t (w_thread w) = 77"
    using run(4) by (simp_all add: idle_worker_def)
  have "fresh_qnode (w_queue w) 8" using idle(6) by (simp add: fresh_qnode_def)
  from send_message [OF idle(2) this idle(5), of 1000] obtain w2 where
    w2: "TecDaemon_send w 1000 8 = Inr w2" "queue_only w w2" "queue_holds (w_queue w2) [1000]" by auto
  have "fresh_qnode (w_queue w2) 16"
    using send_heap [OF w2(1), of 16] idle(6) by (simp add: fresh_qnode_def)
  moreover have "holds_messages w2 [1000 \<mapsto> ?m] [(1000, ?m)] []"
    using w2(3) by (simp add: holds_messages_def TecRPC_msg_def bytes_of_def)
  ultimately show ?thesis
    using terminate_drains [of w2 "[[77] \<mapsto> 5]" "[1000 \<mapsto> ?m]" "[(1000, ?m)]" 16 plain_user]
      idle queue_onlyD [OF w2(2)] run(1-3) w2(1)
    by (auto simp: value_of_def plain_user_def)
qed

theorem rpc_returns_witness:
  "\<exists>w0 w1 w w' mem' w'' mem''. TecWorker_init (\<lambda>_. 0) True unused 0 = Inr (True, w0) \<and>
     TecWorker_register w0 [77] 5 64 = Inr ([Lock 0, Unlock], w1) \<and>
     TecWorker_run plain_user w1 0 0 77 = Inr (0, [Lock 0, Unlock], [], [], w) \<and>
     TecWorker_rpc plain_user w Map.empty (Some \<lparr>msg_tag = [77], msg_done = 0\<rparr>) 0 2000 3000 8
       = Inr (42, [Called 5 2000, Signalled 3000], w', mem') \<and>
     TecWorker_rpc plain_user w Map.empty (Some \<lparr>msg_tag = [78], msg_done = 0\<rparr>) 0 2000 3000 8
       = Inr (- 2, [Signalled 3000], w'', mem'')"
proof -
  obtain w0 w1 w where run: "TecWorker_init (\<lambda>_. 0) True unused 0 = Inr (True, w0)"
    "TecWorker_register w0 [77] 5 64 = Inr ([Lock 0, Unlock], w1)"
    "TecWorker_run plain_user w1 0 0 77 = Inr (0, [Lock 0, Unlock], [], [], w)"
    "idle_worker w [77] 5"
    using idle_worker_exists [of "[77]" 5 plain_user] by blast
  have idle: "plain_worker w [[77] \<mapsto> 5]" "holds_messages w Map.empty [] []" "in_loop w"
    "d_send (w_daemon w) \<noteq> None" "fresh_qnode (w_queue w) 8"
    using run(4) by (simp_all add: idle_worker_def fresh_qnode_def)
  note r = rpc_returns [OF idle(1-5), of 2000 3000 plain_user _ 0]
  show ?thesis
    using r [of "\<lparr>msg_tag = [77], msg_done = 0\<rparr>"] r [of "\<lparr>msg_tag = [78], msg_done = 0\<rparr>"] run(1-3)
    by (auto simp: value_of_def plain_user_def TecRPC_init_def TECC_ERR_HANDLER_NOT_FOUND_def)
qed

text \<open>
  When the init hook fails, \<open>TecWorker_run\<close> returns its error after joining
  the thread; no message is dispatched, the exit hook does not run, and a later
  \<open>TecWorker_terminate\<close> returns the same error at once, leaving what was sent in the queue.
\<close>

theorem run_init_failure:
  assumes w: "ready_worker w f" and i: "init_fails u w" and p: "fresh_qnode (w_queue w) p"
  shows "\<exists>w1 w2. TecWorker_run u w 0 0 h =
       Inr (u_init u (w_on_init w), [Lock 0, Unlock], [h], [Hook (w_on_init w)], w1) \<and>
     w_queue w1 = w_queue w \<and>
     TecWorker_terminate u w1 mem p = Inr (u_init u (w_on_init w), [], [], w2, mem) \<and>
     queue_holds (w_queue w2) [NULL]"
proof -
  have r: "w_error w = 0" "sig_value (w_sig_terminated w) = 0" "d_send (w_daemon w) = Some Worker_send"
    "queue_holds (w_queue w) []"
    using w by (simp_all add: ready_worker_def)
  obtain q where q: "TecQueue_push (w_queue w) NULL p = Inr q" "queue_holds q [NULL]"
    using tec_queue.enq_spec [OF r(4) p, of NULL] by auto
  have i': "0 < w_on_init w" "u_init u (w_on_init w) \<noteq> 0" using i by (simp_all add: init_fails_def)
  obtain w1 where w1: "TecWorker_run u w 0 0 h =
      Inr (u_init u (w_on_init w), [Lock 0, Unlock], [h], [Hook (w_on_init w)], w1)"
    "w_queue w1 = w_queue w" "w_daemon w1 = w_daemon w" "w_error w1 = u_init u (w_on_init w)"
    "sig_value (w_sig_terminated w1) = 1" "thr_result (w_thread w1) = Some 22"
    using i' r(1)
    by (auto simp: TecWorker_run_def TecThread_create_def TecThread_ok_def TecThread_join_def read_field_def
        worker_start_def worker_exit_def TecSignal_set_def TecSignal_wait_def Let_def)
  have "\<exists>w2. TecWorker_terminate u w1 mem p = Inr (u_init u (w_on_init w), [], [], w2, mem) \<and>
      w_queue w2 = q"
    using w1(2-6) q(1) r(3)
    by (simp add: TecWorker_terminate_def TecDaemon_send_def TecWorker_send_def call_method_def in_loop_def
        TecSignal_wait_def TecThread_join_def TecThread_ok_def read_field_def)
  then show ?thesis using w1(1,2) q(2) by blast
qed

text \<open>A fresh worker whose init hook, at address 9, returns 5.\<close>

theorem run_init_failure_witness:
  "\<exists>w0 w1 w2. TecWorker_init (\<lambda>_. 0) True unused 0 = Inr (True, w0) \<and>
     TecWorker_run (plain_user\<lparr>u_init := \<lambda>_. 5\<rparr>) (w0\<lparr>w_on_init := 9\<rparr>) 0 0 77 =
       Inr (5, [Lock 0, Unlock], [77], [Hook 9], w1) \<and>
     TecWorker_terminate (plain_user\<lparr>u_init := \<lambda>_. 5\<rparr>) w1 Map.empty 8 = Inr (5, [], [], w2, Map.empty)"
proof -
  obtain w0 where w0: "TecWorker_init (\<lambda>_. 0) True unused 0 = Inr (True, w0)"
    "ready_worker w0 Map.empty" "q_heap (w_queue w0) = Map.empty"
    using init_ready [OF unused_worker_unused, of 0] by metis
  have "ready_worker (w0\<lparr>w_on_init := 9\<rparr>) Map.empty" "fresh_qnode (w_queue (w0\<lparr>w_on_init := 9\<rparr>)) 8"
    using w0(2,3) by (simp_all add: ready_worker_def plain_worker_def fresh_qnode_def)
  from run_init_failure [OF this(1) _ this(2), of "plain_user\<lparr>u_init := \<lambda>_. 5\<rparr>" 77 Map.empty] w0(1)
  show ?thesis by (auto simp: init_fails_def)
qed

theorem init_all_or_nothing_witness:
  "\<exists>w'. TecWorker_init (\<lambda>n. if n = 2 then 11 else 0) True unused 0 = Inr (False, w') \<and>
     TecDaemon_send w' 1000 8 = Inl Null_deref"
proof -
  have "\<exists>w'. TecWorker_init (\<lambda>n. if n = 2 then 11 else 0) True unused 0 = Inr (False, w')"
    by (simp add: TecWorker_init_def TecSignal_init_def TecMutex_init_def TecMutex_ok_def TecMutex_destroy_def
        TecCV_init_def TecCV_ok_def read_field_def Let_def)
  then show ?thesis using init_all_or_nothing by blast
qed

text \<open>
  C#done_before_run: \<open>TecWorker_init\<close> does not initialise the thread object, so \<open>TecWorker_done\<close>
  on a worker that was created but never run reads memory nobody has written.
\<close>

theorem done_before_run:
  assumes "unused_worker w"
  shows "\<exists>w'. TecWorker_init (\<lambda>_. 0) True w n = Inr (True, w') \<and> TecWorker_done w' = Inl Uninitialised"
proof -
  obtain w' where "TecWorker_init (\<lambda>_. 0) True w n = Inr (True, w')" "w_thread w' = w_thread w"
    by (rule init_ready [OF assms])
  then show ?thesis
    using assms
    by (simp add: TecWorker_done_def TecThread_join_def TecThread_ok_def read_field_def unused_worker_def)
qed

theorem done_before_run_witness:
  "\<exists>w'. TecWorker_init (\<lambda>_. 0) True unused 0 = Inr (True, w') \<and> TecWorker_done w' = Inl Uninitialised"
  by (rule done_before_run [OF unused_worker_unused])

text \<open>One message is sent before the thread starts, and is served.\<close>

lemma reach_served:
  "\<exists>s. worker_reach plain_user Map.empty s \<and> ws_pc s = Looping \<and>
     ws_sent s = [Some (1000, Msg \<lparr>msg_tag = [77], msg_done = 6\<rparr>)] \<and>
     ws_log s = [Destroyed 6 1000, Freed 1000]"
proof -
  let ?m = "Msg \<lparr>msg_tag = [77], msg_done = 6\<rparr>"
  obtain w where w: "ready_worker w Map.empty" "w_on_init w = NULL" "q_heap (w_queue w) = Map.empty"
    using init_ready [OF unused_worker_unused, of 0] by metis
  let ?s0 = "\<lparr>ws_worker = w, ws_mem = Map.empty, ws_pc = Starting, ws_log = [], ws_hooks = [], ws_sent = []\<rparr>"
  have r0: "worker_reach plain_user Map.empty ?s0" using w(1) by (rule worker_reach.init)
  have "d_send (w_daemon w) \<noteq> None" "fresh_qnode (w_queue w) 8"
    using w by (simp_all add: ready_worker_def fresh_qnode_def)
  with send_message [OF ready_holds [OF w(1)], of 8 1000] obtain w1 where
    w1: "TecDaemon_send w 1000 8 = Inr w1" "queue_only w w1" "queue_holds (w_queue w1) [1000]" by auto
  have send: "TecWorker_send w 1000 8 = Inr w1"
    using w1(1) w(1) by (simp add: TecDaemon_send_def ready_worker_def call_method_def)
  let ?s1 = "?s0\<lparr>ws_worker := w1, ws_mem := [1000 \<mapsto> ?m], ws_sent := [Some (1000, ?m)]\<rparr>"
  have "worker_step plain_user ?s0 ?s1"
    using worker_step.send [of 1000 ?s0 ?m 8 w1 plain_user] send w(3)
    by (simp add: TecRPC_msg_def bytes_of_def fresh_qnode_def)
  with r0 have r1: "worker_reach plain_user Map.empty ?s1" by (rule worker_reach.step)
  obtain w2 where w2: "worker_start plain_user w1 = ([], w2)" "w_error w2 = 0"
    using w(1,2) queue_onlyD [OF w1(2)] by (simp add: worker_start_def ready_worker_def)
  let ?s2 = "?s1\<lparr>ws_worker := w2, ws_pc := Looping\<rparr>"
  have "worker_step plain_user ?s1 ?s2"
    using worker_step.start [of ?s1 plain_user "[]" w2] w2 by simp
  with r1 have r2: "worker_reach plain_user Map.empty ?s2" by (rule worker_reach.step)
  have "plain_worker w1 Map.empty" using w(1) queue_onlyD(1) [OF w1(2)] by (simp add: ready_worker_def)
  then have "plain_worker w2 Map.empty" "holds_messages w2 [1000 \<mapsto> ?m] [(1000, ?m)] []"
    using w2(1) w1(3)
    by (auto simp: worker_start_def plain_worker_def holds_messages_def TecRPC_msg_def bytes_of_def Let_def
        split: if_splits)
  then obtain w3 where w3: "worker_pass plain_user w2 [1000 \<mapsto> ?m]
      = Inr (Dispatches, serve plain_user Map.empty 1000 ?m, w3,
          [1000 \<mapsto> ?m](1000 := settle plain_user Map.empty ?m))"
    by (rule pass_serves)
  then have "worker_step plain_user ?s2 (?s2\<lparr>ws_worker := w3,
      ws_mem := [1000 \<mapsto> ?m](1000 := settle plain_user Map.empty ?m),
      ws_log := ws_log ?s2 @ serve plain_user Map.empty 1000 ?m\<rparr>)"
    by (intro worker_step.serve) simp_all
  with r2 have "worker_reach plain_user Map.empty (?s2\<lparr>ws_worker := w3,
      ws_mem := [1000 \<mapsto> ?m](1000 := settle plain_user Map.empty ?m),
      ws_log := ws_log ?s2 @ serve plain_user Map.empty 1000 ?m\<rparr>)"
    by (rule worker_reach.step)
  then show ?thesis by (intro exI conjI) (auto simp: value_of_def)
qed

theorem worker_in_order_witness:
  "\<exists>s n. worker_reach plain_user Map.empty s \<and>
     ws_log s = [Destroyed 6 1000, Freed 1000] \<and>
     ws_log s = all_served plain_user Map.empty
       (take n (before_null [Some (1000, Msg \<lparr>msg_tag = [77], msg_done = 6\<rparr>)]))"
proof -
  obtain s where s: "worker_reach plain_user Map.empty s"
    "ws_sent s = [Some (1000, Msg \<lparr>msg_tag = [77], msg_done = 6\<rparr>)]"
    "ws_log s = [Destroyed 6 1000, Freed 1000]" using reach_served by blast
  obtain n where "ws_log s = all_served plain_user Map.empty (take n (before_null (ws_sent s)))"
    using worker_in_order [OF s(1)] by blast
  then show ?thesis unfolding s(2) using s(1,3) by blast
qed

theorem worker_progress_witness:
  "\<exists>s r es w mem. worker_reach plain_user Map.empty s \<and> ws_log s = [Destroyed 6 1000, Freed 1000] \<and>
     worker_pass plain_user (ws_worker s) (ws_mem s) = Inr (r, es, w, mem)"
proof -
  obtain s where s: "worker_reach plain_user Map.empty s" "ws_pc s = Looping"
    "ws_log s = [Destroyed 6 1000, Freed 1000]" using reach_served by blast
  then show ?thesis using worker_progress [OF s(1,2)] by blast
qed

end
