(* ===== verification/TecCallers.thy ===== *)
theory TecCallers
  imports TecWorker
begin

text \<open>
  Models \<open>TecWorker_rpc_\<close> with any number of callers at the same time: the worker's thread,
  other senders, and threads that are inside a remote call, each with its call and its signal
  in its own frame.
\<close>

section \<open>Model\<close>

text \<open>
  A call that is in progress: the addresses of the two objects in the frame of its caller,
  its arguments, and its place among everything that was ever sent to the worker.
\<close>

record rpc_call =
  rc_rpc :: ptr
  rc_sig :: ptr
  rc_request :: TecMsg
  rc_reply :: ptr
  rc_pos :: nat

text \<open>
  The worker; the signals of the frames that are live; the call each thread is in; the calls
  that have returned, with the thread and the result.
\<close>

record rpc_state =
  rs_worker :: worker_state
  rs_sigs :: "ptr \<Rightarrow> TecSignal option"
  rs_calls :: "nat \<Rightarrow> rpc_call option"
  rs_returned :: "(nat \<times> rpc_call \<times> int) list"

text \<open>The object of a call as \<open>TecRPC_init\<close> leaves it.\<close>

definition rpc_object :: "rpc_call \<Rightarrow> TecRPC" where
  "rpc_object c = TecRPC_init (Some (rc_request c)) (rc_reply c) (rc_sig c)"

text \<open>
  What the events of the worker do to the signals of the callers: setting a signal whose frame
  is gone is a fault.
\<close>

fun set_signals :: "(ptr \<Rightarrow> TecSignal option) \<Rightarrow> event list \<Rightarrow> (ptr \<Rightarrow> TecSignal option) outcome" where
  "set_signals sigs [] = Inr sigs"
| "set_signals sigs (Signalled p # es) =
     (case sigs p of
        None \<Rightarrow> Inl Invalid_pointer
      | Some sg \<Rightarrow> set_signals (sigs(p \<mapsto> snd (snd (TecSignal_set sg 0 0)))) es)"
| "set_signals sigs (e # es) = set_signals sigs es"

text \<open>
  \<open>call\<close> is \<open>TecWorker_rpc_\<close> up to its wait: nobody else sees the two objects before the send,
  so its first statements are one step. \<open>return\<close> is the rest, once the wait lets it through.
\<close>

inductive rpc_step :: "user_code \<Rightarrow> rpc_state \<Rightarrow> rpc_state \<Rightarrow> bool" for u where
  work: "worker_step u (rs_worker s) w' \<Longrightarrow> ws_sent w' = ws_sent (rs_worker s) \<Longrightarrow>
    ws_log w' = ws_log (rs_worker s) @ es \<Longrightarrow> set_signals (rs_sigs s) es = Inr sigs \<Longrightarrow>
    rpc_step u s (s\<lparr>rs_worker := w', rs_sigs := sigs\<rparr>)"
| post: "worker_step u (rs_worker s) w' \<Longrightarrow> ws_sent w' = ws_sent (rs_worker s) @ [x] \<Longrightarrow>
    (\<And>p r. x \<noteq> Some (p, Rpc r)) \<Longrightarrow>
    rpc_step u s (s\<lparr>rs_worker := w'\<rparr>)"
| call: "rs_calls s i = None \<Longrightarrow> rpc \<noteq> NULL \<Longrightarrow> ws_mem (rs_worker s) rpc = None \<Longrightarrow>
    sig \<noteq> NULL \<Longrightarrow> rs_sigs s sig = None \<Longrightarrow> TecSignal_init sg0 0 0 = Inr (True, [], sg) \<Longrightarrow>
    fresh_qnode (w_queue (ws_worker (rs_worker s))) p \<Longrightarrow>
    TecDaemon_send (ws_worker (rs_worker s)) rpc p = Inr w \<Longrightarrow>
    r = TecRPC_init (Some request) reply sig \<Longrightarrow>
    rpc_step u s (s\<lparr>rs_worker := (rs_worker s)\<lparr>ws_worker := w,
        ws_mem := (ws_mem (rs_worker s))(rpc \<mapsto> Rpc r),
        ws_sent := ws_sent (rs_worker s) @ [Some (rpc, Rpc r)]\<rparr>,
      rs_sigs := (rs_sigs s)(sig \<mapsto> sg),
      rs_calls := (rs_calls s)(i \<mapsto> \<lparr>rc_rpc = rpc, rc_sig = sig, rc_request = request,
        rc_reply = reply, rc_pos = length (ws_sent (rs_worker s))\<rparr>)\<rparr>)"
| return: "rs_calls s i = Some c \<Longrightarrow> rs_sigs s (rc_sig c) = Some sg \<Longrightarrow>
    TecSignal_wait (sig_value sg) 0 [] = Some (err, cs) \<Longrightarrow>
    ws_mem (rs_worker s) (rc_rpc c) = Some (Rpc r) \<Longrightarrow> TecSignal_done sg 0 = Inr (cs', sg') \<Longrightarrow>
    rpc_step u s (s\<lparr>rs_worker := (rs_worker s)\<lparr>ws_mem := (ws_mem (rs_worker s))(rc_rpc c := None)\<rparr>,
      rs_sigs := (rs_sigs s)(rc_sig c := None), rs_calls := (rs_calls s)(i := None),
      rs_returned := rs_returned s @ [(i, c, rpc_error (TecRPC_done r))]\<rparr>)"

inductive rpc_reach :: "user_code \<Rightarrow> (u8 list \<Rightarrow> ptr option) \<Rightarrow> rpc_state \<Rightarrow> bool" for u f where
  init: "ready_worker w f \<Longrightarrow>
    rpc_reach u f \<lparr>rs_worker = \<lparr>ws_worker = w, ws_mem = Map.empty, ws_pc = Starting, ws_log = [],
      ws_hooks = [], ws_sent = []\<rparr>, rs_sigs = Map.empty, rs_calls = Map.empty, rs_returned = []\<rparr>"
| step: "rpc_reach u f s \<Longrightarrow> rpc_step u s s' \<Longrightarrow> rpc_reach u f s'"

section \<open>Invariant\<close>

text \<open>What a call in progress owns when the worker has served \<open>n\<close> messages.\<close>

definition call_sent :: "worker_state \<Rightarrow> rpc_call \<Rightarrow> bool" where
  "call_sent w c \<longleftrightarrow> rc_pos c < length (ws_sent w) \<and>
     ws_sent w ! rc_pos c = Some (rc_rpc c, Rpc (rpc_object c))"

definition served_rpc :: "user_code \<Rightarrow> (u8 list \<Rightarrow> ptr option) \<Rightarrow> rpc_call \<Rightarrow> TecRPC" where
  "served_rpc u f c = (rpc_object c)\<lparr>rpc_error := rpc_result u f (rpc_object c)\<rparr>"

definition live_call ::
  "user_code \<Rightarrow> (u8 list \<Rightarrow> ptr option) \<Rightarrow> rpc_state \<Rightarrow> nat \<Rightarrow> rpc_call \<Rightarrow> bool" where
  "live_call u f s n c \<longleftrightarrow> call_sent (rs_worker s) c \<and>
     (\<exists>sg cs sg'. rs_sigs s (rc_sig c) = Some sg \<and> sig_value sg = (if rc_pos c < n then 1 else 0) \<and>
        TecSignal_done sg 0 = Inr (cs, sg')) \<and>
     ws_mem (rs_worker s) (rc_rpc c) =
       Some (Rpc (if rc_pos c < n then served_rpc u f c else rpc_object c))"

text \<open>Frames do not overlap, and a call that is queued is in progress.\<close>

definition frames_apart :: "(nat \<Rightarrow> rpc_call option) \<Rightarrow> bool" where
  "frames_apart calls \<longleftrightarrow> (\<forall>i j c d. calls i = Some c \<longrightarrow> calls j = Some d \<longrightarrow> i \<noteq> j \<longrightarrow>
     rc_rpc c \<noteq> rc_rpc d \<and> rc_sig c \<noteq> rc_sig d)"

definition queued_live ::
  "(ptr \<times> message) option list \<Rightarrow> (nat \<Rightarrow> rpc_call option) \<Rightarrow> nat \<Rightarrow> bool" where
  "queued_live sent calls n \<longleftrightarrow> (\<forall>k p r. n \<le> k \<longrightarrow> k < length sent \<longrightarrow> sent ! k = Some (p, Rpc r) \<longrightarrow>
     (\<exists>i c. calls i = Some c \<and> rc_pos c = k))"

definition returned_ok ::
  "user_code \<Rightarrow> (u8 list \<Rightarrow> ptr option) \<Rightarrow> rpc_state \<Rightarrow> nat \<Rightarrow> bool" where
  "returned_ok u f s n \<longleftrightarrow> (\<forall>(i, c, e) \<in> set (rs_returned s).
     rc_pos c < n \<and> call_sent (rs_worker s) c \<and> e = rpc_result u f (rpc_object c))"

definition rpc_inv ::
  "user_code \<Rightarrow> (u8 list \<Rightarrow> ptr option) \<Rightarrow> rpc_state \<Rightarrow> (ptr \<times> message) list
   \<Rightarrow> (ptr \<times> message) option list \<Rightarrow> bool" where
  "rpc_inv u f s served rest \<longleftrightarrow>
     worker_inv u f (rs_worker s) served rest \<and>
     (\<forall>i c. rs_calls s i = Some c \<longrightarrow> live_call u f s (length served) c) \<and>
     frames_apart (rs_calls s) \<and>
     queued_live (ws_sent (rs_worker s)) (rs_calls s) (length served) \<and>
     returned_ok u f s (length served)"

lemma signal_set_value: "snd (snd (TecSignal_set sg 0 0)) = sg\<lparr>sig_value := 1\<rparr>"
  by (simp add: TecSignal_set_def Let_def)

lemma set_signals_msg: "set_signals sigs (serve u f p (Msg m)) = Inr sigs"
  by (simp add: Let_def)

lemma set_signals_rpc:
  "sigs (rpc_sig_ready r) = Some sg \<Longrightarrow>
   set_signals sigs (serve u f p (Rpc r)) = Inr (sigs(rpc_sig_ready r \<mapsto> sg\<lparr>sig_value := 1\<rparr>))"
  by (simp add: Let_def signal_set_value)

lemma rpc_object_fields [simp]:
  "rpc_sig_ready (rpc_object c) = rc_sig c" "rpc_request (rpc_object c) = Some (rc_request c)"
  by (simp_all add: rpc_object_def TecRPC_init_def)

lemma done_value:
  "TecSignal_done sg 0 = Inr (cs, sg') \<Longrightarrow> \<exists>cs sg'. TecSignal_done (sg\<lparr>sig_value := 1\<rparr>) 0 = Inr (cs, sg')"
  by (auto simp: TecSignal_done_def bind_outcome_Inr_iff)

lemma inv_sent:
  assumes "worker_inv u f w served (Some (p, m) # t)"
  shows "length served < length (ws_sent w)" "ws_sent w ! length served = Some (p, m)"
  using assms by (simp_all add: worker_inv_def nth_append)

text \<open>The owner of the next message when it is a call.\<close>

lemma next_owner:
  assumes inv: "rpc_inv u f s served (Some (p, Rpc r) # t)"
  obtains j d sg where "rs_calls s j = Some d" and "rc_pos d = length served" and "p = rc_rpc d"
    and "r = rpc_object d" and "rs_sigs s (rc_sig d) = Some sg"
    and "\<And>i c. rs_calls s i = Some c \<Longrightarrow> rc_pos c = length served \<Longrightarrow> i = j"
proof -
  have w: "worker_inv u f (rs_worker s) served (Some (p, Rpc r) # t)"
    and live: "\<And>i c. rs_calls s i = Some c \<Longrightarrow> live_call u f s (length served) c"
    and apart: "frames_apart (rs_calls s)"
    using inv by (simp_all add: rpc_inv_def)
  note sent = inv_sent [OF w]
  obtain j d where d: "rs_calls s j = Some d" "rc_pos d = length served"
    using inv sent unfolding rpc_inv_def queued_live_def by (metis order_refl)
  have at: "p = rc_rpc c \<and> r = rpc_object c" if "rs_calls s i = Some c" "rc_pos c = length served" for i c
    using live [OF that(1)] that(2) sent(2) by (simp add: live_call_def call_sent_def)
  obtain sg where "rs_sigs s (rc_sig d) = Some sg"
    using live [OF d(1)] by (auto simp: live_call_def)
  moreover have "i = j" if "rs_calls s i = Some c" "rc_pos c = length served" for i c
    using apart that at [OF that] at [OF d] d(1) unfolding frames_apart_def by metis
  ultimately show thesis using that d at [OF d] by blast
qed

lemma queued_live_Suc: "queued_live sent calls n \<Longrightarrow> queued_live sent calls (Suc n)"
  by (simp add: queued_live_def)

lemma returned_ok_mono:
  "returned_ok u f s n \<Longrightarrow> n \<le> n' \<Longrightarrow> rs_returned s' = rs_returned s \<Longrightarrow>
   (\<And>c. call_sent (rs_worker s) c \<Longrightarrow> call_sent (rs_worker s') c) \<Longrightarrow> returned_ok u f s' n'"
  by (fastforce simp: returned_ok_def)

text \<open>The worker's own step finds the signal of every call it serves.\<close>

lemma serves_inv:
  assumes inv: "rpc_inv u f s served (Some (p, m) # t)" and sv: "serves u f p m (rs_worker s) w'"
    and w': "worker_inv u f w' (served @ [(p, m)]) t"
  shows "\<exists>sigs. set_signals (rs_sigs s) (serve u f p m) = Inr sigs \<and>
    rpc_inv u f (s\<lparr>rs_worker := w', rs_sigs := sigs\<rparr>) (served @ [(p, m)]) t"
proof -
  let ?n = "length served"
  have live: "\<And>i c. rs_calls s i = Some c \<Longrightarrow> live_call u f s ?n c"
    and rest: "frames_apart (rs_calls s)" "queued_live (ws_sent (rs_worker s)) (rs_calls s) ?n"
      "returned_ok u f s ?n" "worker_inv u f (rs_worker s) served (Some (p, m) # t)"
    using inv by (simp_all add: rpc_inv_def)
  have sent: "ws_sent w' = ws_sent (rs_worker s)" and mem': "ws_mem w' = (ws_mem (rs_worker s))(p := settle u f m)"
    and mem: "ws_mem (rs_worker s) p = Some m"
    using sv by (simp_all add: serves_def)
  note at = inv_sent [OF rest(4)]
  have "\<exists>sigs. set_signals (rs_sigs s) (serve u f p m) = Inr sigs \<and>
      (\<forall>i c. rs_calls s i = Some c \<longrightarrow> live_call u f (s\<lparr>rs_worker := w', rs_sigs := sigs\<rparr>) (Suc ?n) c)"
  proof (cases m)
    case (Msg x)
    have "live_call u f (s\<lparr>rs_worker := w'\<rparr>) (Suc ?n) c" if "rs_calls s i = Some c" for i c
    proof -
      have "rc_pos c \<noteq> ?n" "rc_rpc c \<noteq> p"
        using live [OF that] at(2) mem Msg by (auto simp: live_call_def call_sent_def)
      then show ?thesis
        using live [OF that] by (auto simp: live_call_def call_sent_def sent mem' less_Suc_eq)
    qed
    then show ?thesis using set_signals_msg Msg by (intro exI [of _ "rs_sigs s"]) simp
  next
    case (Rpc r)
    obtain j d sg where d: "rs_calls s j = Some d" "rc_pos d = ?n" "p = rc_rpc d" "r = rpc_object d"
      "rs_sigs s (rc_sig d) = Some sg" "\<And>i c. rs_calls s i = Some c \<Longrightarrow> rc_pos c = ?n \<Longrightarrow> i = j"
      using next_owner [of u f s served p r t] inv Rpc by blast
    let ?sigs = "(rs_sigs s)(rc_sig d \<mapsto> sg\<lparr>sig_value := 1\<rparr>)"
    have "live_call u f (s\<lparr>rs_worker := w', rs_sigs := ?sigs\<rparr>) (Suc ?n) c" if c: "rs_calls s i = Some c" for i c
    proof (cases "i = j")
      case True
      then have "c = d" using c d(1) by simp
      then show ?thesis
        using live [OF c] d(2-5) Rpc
        by (auto simp: live_call_def call_sent_def sent mem' served_rpc_def dest: done_value)
    next
      case False
      then have "rc_rpc c \<noteq> rc_rpc d" "rc_sig c \<noteq> rc_sig d" "rc_pos c \<noteq> ?n"
        using rest(1) c d(1,6) by (auto simp: frames_apart_def)
      then show ?thesis
        using live [OF c] d(3) by (auto simp: live_call_def call_sent_def sent mem' less_Suc_eq)
    qed
    then show ?thesis using set_signals_rpc [of "rs_sigs s" r sg] d(4,5) Rpc by simp
  qed
  then show ?thesis
    using rest(1,3) queued_live_Suc [OF rest(2)] w'
    by (auto simp: rpc_inv_def sent call_sent_def intro!: returned_ok_mono [of u f s ?n])
qed

lemma live_call_frame:
  assumes "live_call u f s n c" and "\<And>c. call_sent (rs_worker s) c \<Longrightarrow> call_sent (rs_worker s') c"
    and "ws_mem (rs_worker s') (rc_rpc c) = ws_mem (rs_worker s) (rc_rpc c)"
    and "rs_sigs s' (rc_sig c) = rs_sigs s (rc_sig c)"
  shows "live_call u f s' n c"
  using assms by (simp add: live_call_def)

lemma inner_inv:
  assumes "rpc_inv u f s served rest" and "inner (rs_worker s) w'" and "worker_inv u f w' served rest"
  shows "rpc_inv u f (s\<lparr>rs_worker := w'\<rparr>) served rest"
  using assms by (auto simp: rpc_inv_def inner_def live_call_def call_sent_def returned_ok_def)

lemma call_sent_sends: "sends x w w' \<Longrightarrow> call_sent w c \<Longrightarrow> call_sent w' c"
  by (auto simp: sends_def call_sent_def nth_append)

lemma queued_live_snoc:
  "queued_live (sent @ [x]) calls n \<longleftrightarrow> queued_live sent calls n \<and>
     (\<forall>p r. n \<le> length sent \<longrightarrow> x = Some (p, Rpc r) \<longrightarrow> (\<exists>i c. calls i = Some c \<and> rc_pos c = length sent))"
  by (auto simp: queued_live_def nth_append less_Suc_eq)

lemma post_inv:
  assumes inv: "rpc_inv u f s served rest" and sd: "sends x (rs_worker s) w'"
    and w': "worker_inv u f w' served (rest @ [x])" and x: "\<And>p r. x \<noteq> Some (p, Rpc r)"
  shows "rpc_inv u f (s\<lparr>rs_worker := w'\<rparr>) served (rest @ [x])"
proof -
  have "live_call u f (s\<lparr>rs_worker := w'\<rparr>) (length served) c" if "rs_calls s i = Some c" for i c
  proof (rule live_call_frame)
    show l: "live_call u f s (length served) c" using inv that by (auto simp: rpc_inv_def)
    then have "ws_mem (rs_worker s) (rc_rpc c) \<noteq> None" by (auto simp: live_call_def)
    then show "ws_mem (rs_worker (s\<lparr>rs_worker := w'\<rparr>)) (rc_rpc c) = ws_mem (rs_worker s) (rc_rpc c)"
      using sd by (auto simp: sends_def split: option.splits)
  qed (simp_all add: call_sent_sends [OF sd])
  moreover have "queued_live (ws_sent w') (rs_calls s) (length served)"
    using inv sd x by (simp add: rpc_inv_def sends_def queued_live_snoc)
  ultimately show ?thesis
    using inv w' call_sent_sends [OF sd]
    by (auto simp: rpc_inv_def intro!: returned_ok_mono [of u f s "length served"])
qed

lemma call_inv:
  assumes inv: "rpc_inv u f s served rest"
    and frame: "rs_calls s i = None" "ws_mem (rs_worker s) (rc_rpc c) = None" "rs_sigs s (rc_sig c) = None"
    and sg: "sig_value sg = 0" "TecSignal_done sg 0 = Inr (cs, sg')"
    and c: "rc_pos c = length (ws_sent (rs_worker s))"
    and sd: "sends (Some (rc_rpc c, Rpc (rpc_object c))) (rs_worker s) w'"
    and w': "worker_inv u f w' served (rest @ [Some (rc_rpc c, Rpc (rpc_object c))])"
  shows "rpc_inv u f (s\<lparr>rs_worker := w', rs_sigs := (rs_sigs s)(rc_sig c \<mapsto> sg),
      rs_calls := (rs_calls s)(i \<mapsto> c)\<rparr>) served (rest @ [Some (rc_rpc c, Rpc (rpc_object c))])"
    (is "rpc_inv u f ?s' _ _")
proof -
  have live: "live_call u f s (length served) d" if "rs_calls s j = Some d" for j d
    using inv that by (auto simp: rpc_inv_def)
  have apart: "rc_rpc c \<noteq> rc_rpc d \<and> rc_sig c \<noteq> rc_sig d"
    "rc_rpc d \<noteq> rc_rpc c \<and> rc_sig d \<noteq> rc_sig c" if "rs_calls s j = Some d" for j d
    using live [OF that] frame(2,3) by (auto simp: live_call_def)
  have le: "length served \<le> length (ws_sent (rs_worker s))"
    using inv by (simp add: rpc_inv_def worker_inv_def)
  have new: "live_call u f ?s' (length served) c"
    using sd sg le c by (auto simp: live_call_def call_sent_def sends_def nth_append)
  have old: "live_call u f ?s' (length served) d" if "rs_calls s j = Some d" for j d
    by (rule live_call_frame [OF live [OF that]])
      (use sd apart(1) [OF that] call_sent_sends [OF sd] in \<open>simp_all add: sends_def\<close>)
  have "queued_live (ws_sent w') (rs_calls ?s') (length served)"
    unfolding queued_live_def
  proof (intro allI impI)
    fix k p r
    assume k: "length served \<le> k" "k < length (ws_sent w')" "ws_sent w' ! k = Some (p, Rpc r)"
    show "\<exists>j d. rs_calls ?s' j = Some d \<and> rc_pos d = k"
    proof (cases "k = length (ws_sent (rs_worker s))")
      case True
      then show ?thesis using c by (intro exI [of _ i] exI [of _ c]) simp
    next
      case False
      then have "k < length (ws_sent (rs_worker s))" "ws_sent (rs_worker s) ! k = Some (p, Rpc r)"
        using k sd by (auto simp: sends_def nth_append less_Suc_eq)
      then obtain j d where "rs_calls s j = Some d" "rc_pos d = k"
        using inv k(1) unfolding rpc_inv_def queued_live_def by blast
      then show ?thesis using frame(1) by (intro exI [of _ j] exI [of _ d]) auto
    qed
  qed
  moreover have "frames_apart (rs_calls ?s')"
    using inv apart by (auto simp: rpc_inv_def frames_apart_def)
  ultimately show ?thesis
    using inv w' old new call_sent_sends [OF sd]
    by (auto simp: rpc_inv_def intro!: returned_ok_mono [of u f s "length served"])
qed

text \<open>A wait that returns has seen the value 1: the call was served.\<close>

lemma wait_value: "TecSignal_wait v 0 [] = Some (err, cs) \<longleftrightarrow> v = 1 \<and> err = 0 \<and> cs = []"
  by (auto simp: TecSignal_wait_def)

lemma returning_served:
  assumes "rpc_inv u f s served rest" and "rs_calls s i = Some c" and "rs_sigs s (rc_sig c) = Some sg"
    and "sig_value sg = 1"
  shows "rc_pos c < length served" "ws_mem (rs_worker s) (rc_rpc c) = Some (Rpc (served_rpc u f c))"
    "call_sent (rs_worker s) c"
  using assms by (force simp: rpc_inv_def live_call_def split: if_splits)+

lemma queued_elsewhere:
  assumes inv: "rpc_inv u f s served rest" and c: "rs_calls s i = Some c" and pos: "rc_pos c < length served"
    and k: "k < length rest" "rest ! k = Some (p, m)" and mem: "ws_mem (rs_worker s) p = Some m"
  shows "p \<noteq> rc_rpc c"
proof
  assume p: "p = rc_rpc c"
  have sent: "ws_sent (rs_worker s) = map Some served @ rest" and
    live: "live_call u f s (length served) c"
    using inv c by (auto simp: rpc_inv_def worker_inv_def)
  have at: "ws_sent (rs_worker s) ! (length served + k) = Some (p, m)"
    using k(2) by (simp add: sent nth_append)
  obtain r where "m = Rpc r" using live mem p by (auto simp: live_call_def)
  then obtain j d where d: "rs_calls s j = Some d" "rc_pos d = length served + k"
    using inv at k(1) sent unfolding rpc_inv_def queued_live_def
    by (metis (no_types) le_add1 length_append length_map nat_add_left_cancel_less)
  then have "rc_rpc d = p"
    using inv at by (fastforce simp: rpc_inv_def live_call_def call_sent_def)
  then have "i = j" using inv c d(1) p unfolding rpc_inv_def frames_apart_def by blast
  then show False using c d pos by simp
qed

lemma return_inv:
  assumes inv: "rpc_inv u f s served rest" and c: "rs_calls s i = Some c" "rs_sigs s (rc_sig c) = Some sg"
    "sig_value sg = 1"
  shows "rpc_inv u f (s\<lparr>rs_worker := (rs_worker s)\<lparr>ws_mem := (ws_mem (rs_worker s))(rc_rpc c := None)\<rparr>,
      rs_sigs := (rs_sigs s)(rc_sig c := None), rs_calls := (rs_calls s)(i := None),
      rs_returned := rs_returned s @ [(i, c, rpc_result u f (rpc_object c))]\<rparr>) served rest"
    (is "rpc_inv u f ?s' _ _")
proof -
  note sv = returning_served [OF assms]
  let ?mem = "(ws_mem (rs_worker s))(rc_rpc c := None)"
  have w: "worker_inv u f (rs_worker s) served rest" using inv by (simp add: rpc_inv_def)
  have "pending w ?mem rest" if p: "pending w (ws_mem (rs_worker s)) rest" for w
  proof -
    obtain ms tail where r: "rest = map Some ms @ tail" "tail = [] \<or> hd tail = None"
      "holds_messages w (ws_mem (rs_worker s)) ms (map sent_ptr tail)"
      using p by (auto simp: pending_def)
    have "p \<noteq> rc_rpc c" if pm: "(p, m) \<in> set ms" for p m
    proof -
      obtain k where k: "k < length ms" "ms ! k = (p, m)" using pm by (auto simp: in_set_conv_nth)
      have "ws_mem (rs_worker s) p = Some m" using r(3) pm by (auto simp: holds_messages_def)
      then show ?thesis
        using k r(1) by (intro queued_elsewhere [OF inv c(1) sv(1), of k _ m]) (simp_all add: nth_append)
    qed
    then have "holds_messages w ?mem ms (map sent_ptr tail)"
      using r(3) by (auto simp: holds_messages_def)
    then show ?thesis using r(1,2) by (auto simp: pending_def)
  qed
  then have w': "worker_inv u f (rs_worker ?s') served rest" using w by (auto simp: worker_inv_def)
  have "live_call u f ?s' (length served) d" if d: "rs_calls ?s' j = Some d" for j d
  proof (rule live_call_frame)
    have j: "rs_calls s j = Some d" "j \<noteq> i" using d by (auto split: if_splits)
    then show "live_call u f s (length served) d" using inv by (auto simp: rpc_inv_def)
    have "rc_rpc d \<noteq> rc_rpc c \<and> rc_sig d \<noteq> rc_sig c"
      using inv j c(1) unfolding rpc_inv_def frames_apart_def by blast
    then show "ws_mem (rs_worker ?s') (rc_rpc d) = ws_mem (rs_worker s) (rc_rpc d)"
      "rs_sigs ?s' (rc_sig d) = rs_sigs s (rc_sig d)" by simp_all
  qed (simp add: call_sent_def)
  moreover have "frames_apart (rs_calls ?s')"
    using inv by (simp add: rpc_inv_def frames_apart_def)
  moreover have "queued_live (ws_sent (rs_worker ?s')) (rs_calls ?s') (length served)"
    unfolding queued_live_def
  proof (intro allI impI)
    fix k p r
    assume k: "length served \<le> k" "k < length (ws_sent (rs_worker ?s'))"
      "ws_sent (rs_worker ?s') ! k = Some (p, Rpc r)"
    then obtain j d where d: "rs_calls s j = Some d" "rc_pos d = k"
      using inv unfolding rpc_inv_def queued_live_def by auto
    then have "j \<noteq> i" using c(1) sv(1) k(1) by auto
    then show "\<exists>j d. rs_calls ?s' j = Some d \<and> rc_pos d = k" using d by auto
  qed
  moreover have "returned_ok u f ?s' (length served)"
    using inv sv by (auto simp: rpc_inv_def returned_ok_def call_sent_def)
  ultimately show ?thesis using w' by (simp add: rpc_inv_def)
qed

lemma init_signal:
  "TecSignal_init s0 0 0 = Inr (True, [], sg) \<Longrightarrow>
   sig_value sg = 0 \<and> (\<exists>cs sg'. TecSignal_done sg 0 = Inr (cs, sg'))"
  by (auto simp: TecSignal_init_def TecSignal_done_def TecMutex_init_def TecMutex_ok_def TecCV_init_def
      TecCV_ok_def TecMutex_destroy_def TecCV_destroy_def read_field_def Let_def)

text \<open>What a step may change, whoever makes it.\<close>

definition evolves ::
  "rpc_state \<Rightarrow> (ptr \<times> message) list \<Rightarrow> rpc_state \<Rightarrow> (ptr \<times> message) list \<Rightarrow> bool" where
  "evolves s served s' served' \<longleftrightarrow>
     (\<exists>xs. ws_sent (rs_worker s') = ws_sent (rs_worker s) @ xs) \<and>
     (served' = served \<or> ws_pc (rs_worker s) = Looping) \<and>
     (ws_pc (rs_worker s) \<in> {Leaving, Ended} \<longrightarrow> ws_pc (rs_worker s') \<in> {Leaving, Ended}) \<and>
     (\<forall>i c. rs_calls s i = Some c \<longrightarrow> length served \<le> rc_pos c \<longrightarrow> rs_calls s' i = Some c)"

lemma worker_step_pc:
  "worker_step u w w' \<Longrightarrow> ws_pc w \<in> {Leaving, Ended} \<Longrightarrow> ws_pc w' \<in> {Leaving, Ended}"
  by (erule worker_step.cases) auto

lemma rpc_step_inv:
  assumes "rpc_step u s s'" and inv: "rpc_inv u f s served rest"
  obtains served' rest' where "rpc_inv u f s' served' rest'" and "evolves s served s' served'"
  using assms(1)
proof cases
  case (work w' es sigs)
  have w: "worker_inv u f (rs_worker s) served rest" using inv by (simp add: rpc_inv_def)
  from work(2) w show thesis
  proof (cases rule: step_cases)
    case inner
    then have "es = []" using work(4) by (simp add: inner_def)
    then have "s' = s\<lparr>rs_worker := w'\<rparr>" using work(1,5) by simp
    then show thesis
      using inner_inv [OF inv inner] that work(1,3) worker_step_pc [OF work(2)] by (auto simp: evolves_def)
  next
    case (serves p m t)
    then have "es = serve u f p m" using work(4) by (simp add: serves_def)
    then show thesis
      using serves_inv [of u f s served p m t w'] inv serves work(1,3,5) that worker_step_pc [OF work(2)]
      by (auto simp: evolves_def serves_def)
  next
    case (sends x)
    then show thesis using work(3) by (simp add: sends_def)
  qed
next
  case (post w' x)
  have w: "worker_inv u f (rs_worker s) served rest" using inv by (simp add: rpc_inv_def)
  from post(2) w show thesis
  proof (cases rule: step_cases)
    case (sends y)
    then have "y = x" using post(3) by (simp add: sends_def)
    then have "rpc_inv u f s' served (rest @ [x])"
      using post_inv [OF inv, of x w'] sends post(1,4) by blast
    then show thesis using that post(1,3) worker_step_pc [OF post(2)] by (auto simp: evolves_def)
  qed (use post(3) in \<open>simp_all add: inner_def serves_def\<close>)
next
  case (call i rpc sig sg0 sg p w r request reply)
  let ?c = "\<lparr>rc_rpc = rpc, rc_sig = sig, rc_request = request, rc_reply = reply,
      rc_pos = length (ws_sent (rs_worker s))\<rparr>"
  let ?w = "(rs_worker s)\<lparr>ws_worker := w, ws_mem := (ws_mem (rs_worker s))(rpc \<mapsto> Rpc r),
      ws_sent := ws_sent (rs_worker s) @ [Some (rpc, Rpc r)]\<rparr>"
  have r: "r = rpc_object ?c" using call(10) by (simp add: rpc_object_def)
  have "TecWorker_send (ws_worker (rs_worker s)) rpc p = Inr w"
    using call(9) by (auto simp: TecDaemon_send_def bind_outcome_Inr_iff)
  moreover have "wf_message (Rpc r)" using call(5,10) wf_rpc_init by blast
  ultimately have "worker_step u (rs_worker s) ?w"
    using call(3,4,8) by (intro worker_step.send)
  moreover have "worker_inv u f (rs_worker s) served rest" using inv by (simp add: rpc_inv_def)
  ultimately show thesis
  proof (cases rule: step_cases)
    case (sends x)
    then have x: "x = Some (rc_rpc ?c, Rpc (rpc_object ?c))" using r by (simp add: sends_def)
    obtain cs sg' where "sig_value sg = 0" "TecSignal_done sg 0 = Inr (cs, sg')"
      using init_signal [OF call(7)] by blast
    from call_inv [of u f s served rest i ?c sg cs sg' ?w, OF inv _ _ _ this]
    show thesis using call(1,2,4,6) sends x that r by (auto simp: evolves_def)
  qed (simp_all add: inner_def serves_def)
next
  case (return i c sg err cs r cs' sg')
  then have v: "sig_value sg = 1" by (simp add: wait_value)
  note sv = returning_served [OF inv return(2,3) v]
  have "rpc_error (TecRPC_done r) = rpc_result u f (rpc_object c)"
    using sv(2) return(5) by (simp add: TecRPC_done_def served_rpc_def)
  then show thesis
    using return_inv [OF inv return(2,3) v] return(1,2) sv(1) that by (auto simp: evolves_def)
qed

lemma rpc_reach_inv: "rpc_reach u f s \<Longrightarrow> \<exists>served rest. rpc_inv u f s served rest"
proof (induction rule: rpc_reach.induct)
  case (init w)
  let ?w = "\<lparr>ws_worker = w, ws_mem = Map.empty, ws_pc = Starting, ws_log = [], ws_hooks = [], ws_sent = []\<rparr>"
  have "pending w Map.empty []"
    using ready_holds [OF init] by (intro exI [of _ "[]"] conjI | simp add: pending_def)+
  then have "worker_inv u f ?w [] []"
    using init by (simp add: worker_inv_def ready_worker_def)
  then show ?case
    by (intro exI [of _ "[]"]) (simp add: rpc_inv_def frames_apart_def queued_live_def returned_ok_def)
next
  case (step s s')
  then show ?case using rpc_step_inv by blast
qed

section \<open>Properties\<close>


lemma released_returns:
  assumes inv: "rpc_inv u f s served rest" and c: "rs_calls s i = Some c" and pos: "rc_pos c < length served"
  shows "\<exists>s'. rpc_step u s s' \<and> rs_calls s' i = None \<and>
    rs_returned s' = rs_returned s @ [(i, c, rpc_result u f (rpc_object c))]"
proof -
  obtain sg cs sg' where sg: "rs_sigs s (rc_sig c) = Some sg" "sig_value sg = 1"
    "TecSignal_done sg 0 = Inr (cs, sg')" "ws_mem (rs_worker s) (rc_rpc c) = Some (Rpc (served_rpc u f c))"
    using inv c pos by (force simp: rpc_inv_def live_call_def)
  have "TecSignal_wait (sig_value sg) 0 [] = Some (0, [])" using sg(2) by (simp add: wait_value)
  from rpc_step.return [where u = u, OF c sg(1) this sg(4,3)] show ?thesis
    by (intro exI conjI, assumption) (simp_all add: TecRPC_done_def served_rpc_def)
qed

text \<open>A step of the worker's thread.\<close>

definition alone :: "user_code \<Rightarrow> rpc_state \<Rightarrow> rpc_state \<Rightarrow> bool" where
  "alone u s s' \<longleftrightarrow> rpc_step u s s' \<and> rs_calls s' = rs_calls s \<and> rs_returned s' = rs_returned s \<and>
     ws_sent (rs_worker s') = ws_sent (rs_worker s)"

lemma serve_alone:
  assumes inv: "rpc_inv u f s served (Some (p, m) # t)" and pc: "ws_pc (rs_worker s) = Looping"
  obtains s' where "alone u s s'" and "rpc_inv u f s' (served @ [(p, m)]) t"
    and "ws_pc (rs_worker s') = Looping"
proof -
  have w: "worker_inv u f (rs_worker s) served (Some (p, m) # t)" using inv by (simp add: rpc_inv_def)
  then have i: "plain_worker (ws_worker (rs_worker s)) f"
    "pending (ws_worker (rs_worker s)) (ws_mem (rs_worker s)) (Some (p, m) # t)"
    using pc by (simp_all add: worker_inv_def)
  from pass_inv [OF i, of u] obtain w1 where w1:
    "worker_pass u (ws_worker (rs_worker s)) (ws_mem (rs_worker s))
       = Inr (Dispatches, serve u f p m, w1, (ws_mem (rs_worker s))(p := settle u f m))"
    "queue_only (ws_worker (rs_worker s)) w1"
    "pending w1 ((ws_mem (rs_worker s))(p := settle u f m)) t" by auto
  let ?w = "(rs_worker s)\<lparr>ws_worker := w1, ws_mem := (ws_mem (rs_worker s))(p := settle u f m),
      ws_log := ws_log (rs_worker s) @ serve u f p m\<rparr>"
  have w': "worker_inv u f ?w (served @ [(p, m)]) t"
    using w pc w1(3) queue_onlyD(1) [OF w1(2)] by (simp add: worker_inv_def)
  obtain w' where
    st: "worker_step u (rs_worker s) w'" "ws_sent w' = ws_sent (rs_worker s)"
      "ws_log w' = ws_log (rs_worker s) @ serve u f p m" "ws_pc w' = Looping"
      "ws_mem w' = (ws_mem (rs_worker s))(p := settle u f m)"
      "worker_inv u f w' (served @ [(p, m)]) t"
    using worker_step.serve [OF pc w1(1)] w' pc by (intro that [of ?w]) simp_all
  have "serves u f p m (rs_worker s) w'"
    using st pc pending_head [OF i(2)] by (simp add: serves_def)
  from serves_inv [OF inv this st(6)] obtain sigs where
    "set_signals (rs_sigs s) (serve u f p m) = Inr sigs"
    "rpc_inv u f (s\<lparr>rs_worker := w', rs_sigs := sigs\<rparr>) (served @ [(p, m)]) t" by blast
  then show thesis
    using rpc_step.work [OF st(1-3)] st(2,4)
    by (intro that [of "s\<lparr>rs_worker := w', rs_sigs := sigs\<rparr>"]) (simp_all add: alone_def)
qed

lemma reaches_call:
  assumes "rpc_inv u f s served rest" and "ws_pc (rs_worker s) = Looping" and "rs_calls s i = Some c"
    and "None \<notin> set (take (rc_pos c) (ws_sent (rs_worker s)))"
  shows "\<exists>s' served' rest'. (alone u)\<^sup>*\<^sup>* s s' \<and> rpc_inv u f s' served' rest' \<and>
    rc_pos c < length served' \<and> rs_calls s' = rs_calls s \<and> rs_returned s' = rs_returned s"
  using assms
proof (induction "Suc (rc_pos c) - length served" arbitrary: s served rest)
  case 0
  then show ?case by (intro exI [of _ s] exI [of _ served] exI [of _ rest]) simp
next
  case (Suc n)
  have sent: "ws_sent (rs_worker s) = map Some served @ rest"
    using Suc.prems(1) by (simp add: rpc_inv_def worker_inv_def)
  have c: "rc_pos c < length (ws_sent (rs_worker s))"
    "ws_sent (rs_worker s) ! rc_pos c = Some (rc_rpc c, Rpc (rpc_object c))"
    using Suc.prems(1,3) by (auto simp: rpc_inv_def live_call_def call_sent_def)
  have le: "length served \<le> rc_pos c" using Suc.hyps(2) by simp
  have "length served < length (ws_sent (rs_worker s))" using le c(1) by simp
  then obtain x t where rest: "rest = x # t" using sent by (cases rest) auto
  have "x = ws_sent (rs_worker s) ! length served" using sent rest by (simp add: nth_append)
  moreover have "ws_sent (rs_worker s) ! length served \<noteq> None"
  proof (cases "length served = rc_pos c")
    case True
    then show ?thesis using c(2) by simp
  next
    case False
    then show ?thesis using Suc.prems(4) le c(1) by (force simp: in_set_conv_nth)
  qed
  ultimately obtain p m where "x = Some (p, m)" by auto
  from serve_alone [of u f s served p m t] Suc.prems(1,2) rest this obtain s1 where
    s1: "alone u s s1" "rpc_inv u f s1 (served @ [(p, m)]) t" "ws_pc (rs_worker s1) = Looping" by blast
  have eqs: "rs_calls s1 = rs_calls s" "rs_returned s1 = rs_returned s"
    "ws_sent (rs_worker s1) = ws_sent (rs_worker s)" using s1(1) by (simp_all add: alone_def)
  have "n = Suc (rc_pos c) - length (served @ [(p, m)])" using Suc.hyps(2) by simp
  from Suc.hyps(1) [OF this s1(2,3)] Suc.prems(3,4) obtain s2 served' rest' where
    "(alone u)\<^sup>*\<^sup>* s1 s2" "rpc_inv u f s2 served' rest'" "rc_pos c < length served'"
    "rs_calls s2 = rs_calls s1" "rs_returned s2 = rs_returned s1" unfolding eqs by blast
  then show ?case using s1(1) eqs by (metis converse_rtranclp_into_rtranclp)
qed



text \<open>A call the worker will not serve: it is behind a \<open>NULL\<close>, or the loop is over.\<close>

definition too_late :: "rpc_state \<Rightarrow> rpc_call \<Rightarrow> bool" where
  "too_late s c \<longleftrightarrow>
     None \<in> set (take (rc_pos c) (ws_sent (rs_worker s))) \<or>
     ws_pc (rs_worker s) \<in> {Leaving, Ended} \<and> (\<forall>sg. rs_sigs s (rc_sig c) = Some sg \<longrightarrow> sig_value sg \<noteq> 1)"

lemma too_late_unserved:
  assumes inv: "rpc_inv u f s served rest" and c: "rs_calls s i = Some c" and late: "too_late s c"
  shows "length served \<le> rc_pos c"
proof (rule ccontr)
  assume n: "\<not> length served \<le> rc_pos c"
  have "ws_sent (rs_worker s) = map Some served @ rest"
    using inv by (simp add: rpc_inv_def worker_inv_def)
  then have "take (rc_pos c) (ws_sent (rs_worker s)) = map Some (take (rc_pos c) served)"
    using n by (simp add: take_map)
  moreover have "\<exists>sg. rs_sigs s (rc_sig c) = Some sg \<and> sig_value sg = 1"
    using inv c n by (force simp: rpc_inv_def live_call_def)
  ultimately show False using late by (auto simp: too_late_def)
qed

lemma stays_late:
  assumes inv: "rpc_inv u f s served rest" and c: "rs_calls s i = Some c" and late: "too_late s c"
    and ev: "evolves s served s' served'" and inv': "rpc_inv u f s' served' rest'"
  shows "rs_calls s' i = Some c \<and> too_late s' c"
proof -
  have n: "length served \<le> rc_pos c" by (rule too_late_unserved [OF inv c late])
  then have c': "rs_calls s' i = Some c" using ev c by (simp add: evolves_def)
  obtain xs where xs: "ws_sent (rs_worker s') = ws_sent (rs_worker s) @ xs"
    using ev by (auto simp: evolves_def)
  have "too_late s' c"
  proof (cases "None \<in> set (take (rc_pos c) (ws_sent (rs_worker s)))")
    case True
    then show ?thesis by (auto simp: too_late_def xs)
  next
    case False
    then have pc: "ws_pc (rs_worker s) \<in> {Leaving, Ended}" using late by (simp add: too_late_def)
    then have "ws_pc (rs_worker s') \<in> {Leaving, Ended}" "served' = served"
      using ev by (auto simp: evolves_def)
    moreover have "\<forall>sg. rs_sigs s' (rc_sig c) = Some sg \<longrightarrow> sig_value sg = 0"
      using inv' c' n calculation(2) by (force simp: rpc_inv_def live_call_def)
    ultimately show ?thesis by (auto simp: too_late_def)
  qed
  then show ?thesis using c' by simp
qed

text \<open>
  A remote call behind a \<open>NULL\<close>, or one the worker has not served when it
  leaves its loop, never returns, whatever happens later.
\<close>

theorem late_call_hangs:
  assumes "rpc_reach u f s" and "rs_calls s i = Some c" and "too_late s c" and "(rpc_step u)\<^sup>*\<^sup>* s s'"
  shows "rs_calls s' i = Some c"
proof -
  have "rs_calls s' i = Some c \<and> too_late s' c \<and> (\<exists>served rest. rpc_inv u f s' served rest)"
    using assms(4)
  proof (induction rule: rtranclp_induct)
    case base
    then show ?case using assms(2,3) rpc_reach_inv [OF assms(1)] by blast
  next
    case (step s1 s2)
    then obtain served rest where inv: "rpc_inv u f s1 served rest" by blast
    obtain served' rest' where "rpc_inv u f s2 served' rest'" "evolves s1 served s2 served'"
      by (rule rpc_step_inv [OF step.hyps(2) inv])
    then show ?case using stays_late [OF inv] step.IH by blast
  qed
  then show ?thesis by simp
qed

section \<open>Witnesses\<close>

text \<open>Thread 0 has called a worker that has a handler for the tag 77, behind \<open>xs\<close>.\<close>

definition witness_call :: "nat \<Rightarrow> rpc_call" where
  "witness_call n = \<lparr>rc_rpc = 2000, rc_sig = 3000, rc_request = \<lparr>msg_tag = [77], msg_done = 0\<rparr>,
     rc_reply = 0, rc_pos = n\<rparr>"

text \<open>A state in which thread 0 can call.\<close>

lemma call_made:
  assumes r: "rpc_reach u f s" and free: "rs_calls s 0 = None" "ws_mem (rs_worker s) 2000 = None"
    "rs_sigs s 3000 = None"
    and q: "q_heap (w_queue (ws_worker (rs_worker s))) 8 = None"
    and h: "queue_holds (w_queue (ws_worker (rs_worker s))) xs"
    and d: "d_send (w_daemon (ws_worker (rs_worker s))) = Some Worker_send"
  obtains s' where "rpc_reach u f s'"
    and "rs_calls s' 0 = Some (witness_call (length (ws_sent (rs_worker s))))"
    and "ws_sent (rs_worker s') = ws_sent (rs_worker s) @ [Some (2000, Rpc (rpc_object (witness_call 0)))]"
    and "ws_pc (rs_worker s') = ws_pc (rs_worker s)" and "rs_returned s' = rs_returned s"
proof -
  have p: "fresh_qnode (w_queue (ws_worker (rs_worker s))) 8" using q by (simp add: fresh_qnode_def)
  then obtain w where w: "TecDaemon_send (ws_worker (rs_worker s)) 2000 8 = Inr w"
    using tec_queue.enq_spec [OF h p, of 2000] d
    by (auto simp: TecDaemon_send_def TecWorker_send_def call_method_def)
  obtain sg where sg: "TecSignal_init \<lparr>sig_value = 0, sig_mtx = \<lparr>mtx_result = None\<rparr>,
      sig_cnd = \<lparr>cv_result = None\<rparr>\<rparr> 0 0 = Inr (True, [], sg)"
    by (simp add: signal_init_ok)
  let ?r = "rpc_object (witness_call 0)"
  let ?s = "s\<lparr>rs_worker := (rs_worker s)\<lparr>ws_worker := w,
        ws_mem := (ws_mem (rs_worker s))(2000 \<mapsto> Rpc ?r),
        ws_sent := ws_sent (rs_worker s) @ [Some (2000, Rpc ?r)]\<rparr>,
      rs_sigs := (rs_sigs s)(3000 \<mapsto> sg),
      rs_calls := (rs_calls s)(0 \<mapsto> \<lparr>rc_rpc = 2000, rc_sig = 3000,
        rc_request = \<lparr>msg_tag = [77], msg_done = 0\<rparr>, rc_reply = 0,
        rc_pos = length (ws_sent (rs_worker s))\<rparr>)\<rparr>"
  have "rpc_step u s ?s"
    by (rule rpc_step.call [OF free(1) _ free(2) _ free(3) sg p w])
      (simp_all add: rpc_object_def witness_call_def)
  with r have "rpc_reach u f ?s" by (rule rpc_reach.step)
  then show thesis by (rule that) (simp_all add: witness_call_def)
qed

lemma looping_worker:
  obtains s where "rpc_reach plain_user [[77] \<mapsto> 5] s" and "ws_pc (rs_worker s) = Looping"
    and "rs_calls s = Map.empty" and "rs_sigs s = Map.empty" and "ws_mem (rs_worker s) = Map.empty"
    and "q_heap (w_queue (ws_worker (rs_worker s))) = Map.empty"
    and "queue_holds (w_queue (ws_worker (rs_worker s))) []"
    and "d_send (w_daemon (ws_worker (rs_worker s))) = Some Worker_send"
    and "ws_sent (rs_worker s) = []" and "rs_returned s = []"
proof -
  obtain w where w: "ready_worker w [[77] \<mapsto> 5]" "w_on_init w = NULL" "q_heap (w_queue w) = Map.empty"
    using registered_exists [of "[77]" 5] by metis
  let ?w = "\<lparr>ws_worker = w, ws_mem = Map.empty, ws_pc = Starting, ws_log = [], ws_hooks = [], ws_sent = []\<rparr>"
  let ?s = "\<lparr>rs_worker = ?w, rs_sigs = Map.empty, rs_calls = Map.empty, rs_returned = []\<rparr>"
  obtain sg where st: "worker_start plain_user w = ([], w\<lparr>w_sig_running := sg\<rparr>)"
    using w(2) by (simp add: worker_start_def)
  have e: "w_error w = 0" using w(1) by (simp add: ready_worker_def)
  let ?w' = "?w\<lparr>ws_worker := w\<lparr>w_sig_running := sg\<rparr>, ws_pc := Looping\<rparr>"
  have "worker_step plain_user ?w ?w'"
    using worker_step.start [of ?w plain_user "[]" "w\<lparr>w_sig_running := sg\<rparr>"] st e by simp
  then have "rpc_step plain_user ?s (?s\<lparr>rs_worker := ?w', rs_sigs := Map.empty\<rparr>)"
    by (intro rpc_step.work [where es = "[]"]) simp_all
  with rpc_reach.init [OF w(1)] have "rpc_reach plain_user [[77] \<mapsto> 5] (?s\<lparr>rs_worker := ?w', rs_sigs := Map.empty\<rparr>)"
    by (rule rpc_reach.step)
  then show thesis by (rule that) (use w in \<open>simp_all add: ready_worker_def\<close>)
qed

lemma calling_worker:
  obtains s where "rpc_reach plain_user [[77] \<mapsto> 5] s" and "ws_pc (rs_worker s) = Looping"
    and "rs_calls s 0 = Some (witness_call 0)" and "rs_returned s = []"
    and "ws_sent (rs_worker s) = [Some (2000, Rpc (rpc_object (witness_call 0)))]"
proof -
  obtain s where s: "rpc_reach plain_user [[77] \<mapsto> 5] s" "ws_pc (rs_worker s) = Looping"
    "rs_calls s = Map.empty" "rs_sigs s = Map.empty" "ws_mem (rs_worker s) = Map.empty"
    "q_heap (w_queue (ws_worker (rs_worker s))) = Map.empty"
    "queue_holds (w_queue (ws_worker (rs_worker s))) []"
    "d_send (w_daemon (ws_worker (rs_worker s))) = Some Worker_send"
    "ws_sent (rs_worker s) = []" "rs_returned s = []"
    by (rule looping_worker)
  obtain s' where s': "rpc_reach plain_user [[77] \<mapsto> 5] s'"
    "rs_calls s' 0 = Some (witness_call (length (ws_sent (rs_worker s))))"
    "ws_sent (rs_worker s') = ws_sent (rs_worker s) @ [Some (2000, Rpc (rpc_object (witness_call 0)))]"
    "ws_pc (rs_worker s') = ws_pc (rs_worker s)" "rs_returned s' = rs_returned s"
    by (rule call_made [OF s(1) _ _ _ _ s(7,8)]) (simp_all add: s(3-6))
  show thesis by (rule that [of s']) (use s' s in simp_all)
qed

lemma witness_result: "rpc_result plain_user [[77] \<mapsto> 5] (rpc_object (witness_call n)) = 42"
  by (simp add: rpc_result_def rpc_object_def TecRPC_init_def witness_call_def value_of_def plain_user_def Let_def)

lemma alone_reach: "(alone u)\<^sup>*\<^sup>* s s' \<Longrightarrow> rpc_reach u f s \<Longrightarrow> rpc_reach u f s'"
  by (induction rule: rtranclp_induct) (auto simp: alone_def intro: rpc_reach.step)




text \<open>\<open>NULL\<close> is sent, and then thread 0 calls.\<close>

theorem late_call_hangs_witness:
  "\<exists>s. rpc_reach plain_user [[77] \<mapsto> 5] s \<and> ws_pc (rs_worker s) = Looping \<and>
     (\<forall>s'. (rpc_step plain_user)\<^sup>*\<^sup>* s s' \<longrightarrow> rs_calls s' 0 = Some (witness_call 1))"
proof -
  obtain s where s: "rpc_reach plain_user [[77] \<mapsto> 5] s" "ws_pc (rs_worker s) = Looping"
    "rs_calls s = Map.empty" "rs_sigs s = Map.empty" "ws_mem (rs_worker s) = Map.empty"
    "q_heap (w_queue (ws_worker (rs_worker s))) = Map.empty"
    "queue_holds (w_queue (ws_worker (rs_worker s))) []"
    "d_send (w_daemon (ws_worker (rs_worker s))) = Some Worker_send"
    "ws_sent (rs_worker s) = []" "rs_returned s = []"
    by (rule looping_worker)
  let ?w = "ws_worker (rs_worker s)"
  have p: "fresh_qnode (w_queue ?w) 16" using s(6) by (simp add: fresh_qnode_def)
  have "holds_messages ?w Map.empty [] []" "d_send (w_daemon ?w) \<noteq> None"
    using s(7,8) by (simp_all add: holds_messages_def)
  from send_message [OF this(1) p this(2), of NULL] obtain w1 where
    w1: "TecDaemon_send ?w NULL 16 = Inr w1" "queue_only ?w w1" "queue_holds (w_queue w1) [NULL]" by auto
  have send: "TecWorker_send ?w NULL 16 = Inr w1"
    using w1(1) s(8) by (simp add: TecDaemon_send_def call_method_def)
  let ?s1 = "s\<lparr>rs_worker := (rs_worker s)\<lparr>ws_worker := w1, ws_sent := [None]\<rparr>\<rparr>"
  have "worker_step plain_user (rs_worker s) (rs_worker ?s1)"
    using worker_step.send_null [OF p send, of plain_user] s(9) by simp
  then have "rpc_step plain_user s ?s1"
    using rpc_step.post [of plain_user s "rs_worker ?s1" None] s(9) by simp
  with s(1) have r1: "rpc_reach plain_user [[77] \<mapsto> 5] ?s1" by (rule rpc_reach.step)
  have "q_heap (w_queue w1) 8 = None" using send_heap [OF w1(1), of 8] s(6) by simp
  moreover have "d_send (w_daemon w1) = Some Worker_send" using s(8) queue_onlyD(8) [OF w1(2)] by simp
  ultimately obtain s2 where s2: "rpc_reach plain_user [[77] \<mapsto> 5] s2"
    "rs_calls s2 0 = Some (witness_call 1)"
    "ws_sent (rs_worker s2) = [None, Some (2000, Rpc (rpc_object (witness_call 0)))]"
    "ws_pc (rs_worker s2) = Looping"
    using call_made [OF r1, of "[NULL]"] w1(3) s(2-5) by auto
  have "too_late s2 (witness_call 1)" using s2(3) by (simp add: too_late_def witness_call_def)
  then show ?thesis using late_call_hangs [OF s2(1,2)] s2(1,4) by blast
qed

end
