(* ===== verification/TecService.thy ===== *)
theory TecService
  imports TecSignal
begin

text \<open>
  Models \<open>tecc_service.c\<close> and \<open>tecc_service.h\<close>: the table of methods of a service, the default
  methods, and the contract a service owes to the component that runs it.
\<close>

section \<open>Model\<close>

text \<open>
  The methods as functions on the state of a service: \<open>start\<close> up to its signal that the
  service has started, with the value it stored in \<open>*error\<close>; \<open>shutdown\<close>; the destructor.
\<close>

record 's TecService =
  svc_start :: "'s \<Rightarrow> TecSignal \<Rightarrow> (int \<times> TecSignal \<times> 's) outcome"
  svc_shutdown :: "'s \<Rightarrow> TecSignal \<Rightarrow> (TecSignal \<times> 's) outcome"
  svc_done :: "('s \<Rightarrow> 's outcome) option"

definition start :: "'s \<Rightarrow> TecSignal \<Rightarrow> (int \<times> TecSignal \<times> 's) outcome" where
  "start self sig_started = Inr (0, snd (snd (TecSignal_set sig_started 0 0)), self)"

definition shutdown :: "'s \<Rightarrow> TecSignal \<Rightarrow> (TecSignal \<times> 's) outcome" where
  "shutdown self sig_stopped = Inr (snd (snd (TecSignal_set sig_stopped 0 0)), self)"

definition TecService_done_default :: "'s \<Rightarrow> 's outcome" where
  "TecService_done_default self = Inr self"

definition TecService_init :: "'s TecService" where
  "TecService_init =
     \<lparr>svc_start = start, svc_shutdown = shutdown, svc_done = Some TecService_done_default\<rparr>"

definition TecService_start ::
  "'s TecService \<Rightarrow> 's \<Rightarrow> TecSignal \<Rightarrow> (int \<times> TecSignal \<times> 's) outcome" where
  "TecService_start svc self started = svc_start svc self started"

definition TecService_shutdown :: "'s TecService \<Rightarrow> 's \<Rightarrow> TecSignal \<Rightarrow> (TecSignal \<times> 's) outcome" where
  "TecService_shutdown svc self stopped = svc_shutdown svc self stopped"

definition TecService_done :: "'s TecService \<Rightarrow> 's \<Rightarrow> 's outcome" where
  "TecService_done svc self = (case svc_done svc of None \<Rightarrow> Inr self | Some done \<Rightarrow> done self)"

section \<open>The interface: a service\<close>

text \<open>
  What the service worker relies on: \<open>start\<close> stores its error and signals that it has started,
  whether it failed or not; \<open>shutdown\<close> of a service that was started signals that it has
  stopped.
\<close>

locale service_contract =
  fixes start :: "'s \<Rightarrow> TecSignal \<Rightarrow> (int \<times> TecSignal \<times> 's) outcome"
    and shutdown :: "'s \<Rightarrow> TecSignal \<Rightarrow> (TecSignal \<times> 's) outcome"
    and fresh :: "'s \<Rightarrow> bool"
    and started :: "'s \<Rightarrow> bool"
  assumes start_spec: "fresh s \<Longrightarrow>
      \<exists>e s'. start s sig = Inr (e, snd (snd (TecSignal_set sig 0 0)), s') \<and> started s'"
    and shutdown_spec: "started s \<Longrightarrow>
      \<exists>s'. shutdown s sig = Inr (snd (snd (TecSignal_set sig 0 0)), s')"
begin

lemma start_then_shutdown:
  assumes "fresh s"
  shows "\<exists>e s' s''. start s sig = Inr (e, snd (snd (TecSignal_set sig 0 0)), s') \<and>
     shutdown s' sig' = Inr (snd (snd (TecSignal_set sig' 0 0)), s'')"
  using start_spec [OF assms] shutdown_spec by metis

end

text \<open>A service that holds a resource and has given it back once it is shut down.\<close>

locale closing_service = service_contract start shutdown fresh started
  for start :: "'s \<Rightarrow> TecSignal \<Rightarrow> (int \<times> TecSignal \<times> 's) outcome"
    and shutdown :: "'s \<Rightarrow> TecSignal \<Rightarrow> (TecSignal \<times> 's) outcome"
    and fresh :: "'s \<Rightarrow> bool" and started :: "'s \<Rightarrow> bool" +
  fixes closed :: "'s \<Rightarrow> bool"
  assumes shutdown_closes: "shutdown s sig = Inr (sig', s') \<Longrightarrow> closed s'"
begin

lemma start_shutdown_closed:
  assumes "fresh s" and "start s sig = Inr (e, sig1, s1)"
  obtains sig2 s2 where "shutdown s1 sig' = Inr (sig2, s2)" and "closed s2"
proof -
  have "started s1" using start_spec [OF assms(1), of sig] assms(2) by auto
  then obtain s2 where "shutdown s1 sig' = Inr (snd (snd (TecSignal_set sig' 0 0)), s2)"
    using shutdown_spec by blast
  then show thesis using that shutdown_closes by blast
qed

end

interpretation default_service: service_contract start shutdown "\<lambda>_. True" "\<lambda>_. True"
  by unfold_locales (simp_all add: start_def shutdown_def)

lemma set_value [simp]: "sig_value (snd (snd (TecSignal_set s lrc brc))) = 1"
  by (simp add: TecSignal_set_def Let_def)

lemma set_wait [simp]: "TecSignal_wait 1 lrc evs = Some (0, [])"
  by (simp add: TecSignal_wait_def)

end
