(* ===== verification/TecServiceWorker.thy ===== *)
theory TecServiceWorker
  imports TecService TecWorker
begin

text \<open>
  Models \<open>tecc_service_worker.c\<close> and \<open>tecc_service_worker.h\<close>: a worker whose init and exit
  hooks start and stop a service in threads of their own.
\<close>

section \<open>Model\<close>

record 's TecServiceWorker =
  sw_worker :: TecWorker
  sw_error :: int
  sw_service :: 's
  sw_sig_started :: TecSignal
  sw_sig_stopped :: TecSignal
  sw_thread :: TecThread

text \<open>The addresses of the two hooks.\<close>

definition on_init_hook :: ptr where
  "on_init_hook = 1"

definition on_exit_hook :: ptr where
  "on_exit_hook = 2"

text \<open>The bodies of the two threads, up to the signal each of them sets.\<close>

definition service_start_func ::
  "'s TecService \<Rightarrow> 's TecServiceWorker \<Rightarrow> 's TecServiceWorker outcome" where
  "service_start_func svc w =
     bind_outcome (svc_start svc (sw_service w) (sw_sig_started w)) (\<lambda>(e, sig, s).
       Inr (w\<lparr>sw_service := s, sw_sig_started := sig, sw_error := e\<rparr>))"

definition service_shutdown_func ::
  "'s TecService \<Rightarrow> 's TecServiceWorker \<Rightarrow> 's TecServiceWorker outcome" where
  "service_shutdown_func svc w =
     bind_outcome (svc_shutdown svc (sw_service w) (sw_sig_stopped w)) (\<lambda>(sig, s).
       Inr (w\<lparr>sw_service := s, sw_sig_stopped := sig\<rparr>))"

text \<open>
  The init hook. \<open>crc\<close> and \<open>h\<close> are the result of \<open>pthread_create\<close> and the handle. A start that
  failed returns, so its thread can be joined; the threads joined are returned.
\<close>

definition on_init ::
  "'s TecService \<Rightarrow> 's TecServiceWorker \<Rightarrow> int \<Rightarrow> nat
   \<Rightarrow> (int \<times> nat list \<times> 's TecServiceWorker) outcome" where
  "on_init svc self crc h =
     (let self = self\<lparr>sw_thread := TecThread_create (sw_thread self) crc h\<rparr>
      in bind_outcome (TecThread_ok (sw_thread self)) (\<lambda>ok.
         if \<not> ok then bind_outcome (read_field (thr_result (sw_thread self))) (\<lambda>r. Inr (r, [], self))
         else
           bind_outcome (service_start_func svc self) (\<lambda>self.
           if TecSignal_wait (sig_value (sw_sig_started self)) 0 [] = None then Inl No_return
           else if sw_error self \<noteq> 0
           then bind_outcome (TecThread_join (sw_thread self)) (\<lambda>(hs, t).
                  Inr (sw_error self, hs,
                    self\<lparr>sw_thread := t,
                         sw_sig_stopped := snd (snd (TecSignal_set (sw_sig_stopped self) 0 0))\<rparr>))
           else Inr (sw_error self, [], self))))"

text \<open>The exit hook. Without its thread the service is not shut down, but waited for.\<close>

definition on_exit ::
  "'s TecService \<Rightarrow> 's TecServiceWorker \<Rightarrow> int \<Rightarrow> nat
   \<Rightarrow> (int \<times> nat list \<times> 's TecServiceWorker) outcome" where
  "on_exit svc self crc h =
     (let t = TecThread_create (TecThread_init \<lparr>thr_result = None, thr_t = 0\<rparr>) crc h
      in bind_outcome (TecThread_ok t) (\<lambda>ok.
         bind_outcome
           (if ok
            then bind_outcome (service_shutdown_func svc self) (\<lambda>self.
                 bind_outcome (TecThread_join t) (\<lambda>(hs, t). Inr (hs, self)))
            else Inr ([], self))
           (\<lambda>(hs, self).
         if TecSignal_wait (sig_value (sw_sig_stopped self)) 0 [] = None then Inl No_return
         else bind_outcome (TecThread_join (sw_thread self)) (\<lambda>(hs', t).
           Inr (sw_error self, hs @ hs', self\<lparr>sw_thread := t\<rparr>)))))"

text \<open>
  The methods of the worker, whose hooks are the two functions: the init hook runs in the
  worker's thread while \<open>TecWorker_run_\<close> waits, the exit hook while \<open>TecWorker_terminate_\<close>
  waits. The callbacks do not use the fields of the service worker.
\<close>

definition TecServiceWorker_run ::
  "'s TecService \<Rightarrow> user_code \<Rightarrow> 's TecServiceWorker \<Rightarrow> nat \<Rightarrow> int \<Rightarrow> nat
   \<Rightarrow> (int \<times> nat list \<times> event list \<times> 's TecServiceWorker) outcome" where
  "TecServiceWorker_run svc u self wh crc h =
     bind_outcome
       (if w_on_init (sw_worker self) \<noteq> NULL \<and> w_error (sw_worker self) = 0
        then on_init svc self crc h else Inr (0, [], self)) (\<lambda>(e, hs, self).
     bind_outcome (TecWorker_run (u\<lparr>u_init := \<lambda>_. e\<rparr>) (sw_worker self) 0 0 wh)
       (\<lambda>(r, cs, hs', es, w). Inr (r, hs @ hs', es, self\<lparr>sw_worker := w\<rparr>)))"

definition TecServiceWorker_terminate ::
  "'s TecService \<Rightarrow> user_code \<Rightarrow> 's TecServiceWorker \<Rightarrow> msg_mem \<Rightarrow> ptr \<Rightarrow> int \<Rightarrow> nat
   \<Rightarrow> (int \<times> nat list \<times> event list \<times> 's TecServiceWorker) outcome" where
  "TecServiceWorker_terminate svc u self mem p crc h =
     (let w = sw_worker self
      in bind_outcome
           (if in_loop w \<and> w_on_exit w \<noteq> NULL \<and> w_error w = 0 then on_exit svc self crc h
            else Inr (0, [], self)) (\<lambda>(e, hs, self).
         bind_outcome (TecWorker_terminate (u\<lparr>u_exit := \<lambda>_. e\<rparr>) w mem p)
           (\<lambda>(r, hs', es, w, mem). Inr (r, hs @ hs', es, self\<lparr>sw_worker := w\<rparr>))))"

text \<open>\<open>rc\<close> gives the results of the platform's calls, those of the worker first.\<close>

definition TecServiceWorker_init ::
  "(nat \<Rightarrow> int) \<Rightarrow> bool \<Rightarrow> 's TecServiceWorker \<Rightarrow> 's \<Rightarrow> u64 \<Rightarrow> (bool \<times> 's TecServiceWorker) outcome" where
  "TecServiceWorker_init rc cok self service hash_table_size =
     bind_outcome (TecWorker_init rc cok (sw_worker self) hash_table_size) (\<lambda>(ok, w).
     let self = self\<lparr>sw_worker := w, sw_error := 0, sw_service := service,
                     sw_thread := TecThread_init (sw_thread self)\<rparr>
     in bind_outcome
          (if ok then TecSignal_init (sw_sig_started self) (rc 7) (rc 8)
           else Inr (False, [], sw_sig_started self)) (\<lambda>(ok, _, s).
        let self = self\<lparr>sw_sig_started := s\<rparr>
     in bind_outcome
          (if ok then TecSignal_init (sw_sig_stopped self) (rc 9) (rc 10)
           else Inr (False, [], sw_sig_stopped self)) (\<lambda>(ok, _, s).
        let self = self\<lparr>sw_sig_stopped := s\<rparr>
     in Inr (ok,
          if ok
          then self\<lparr>sw_worker := (sw_worker self)
                 \<lparr>w_daemon := (w_daemon (sw_worker self))\<lparr>d_done := Some Service_worker_done\<rparr>,
                  w_on_init := on_init_hook, w_on_exit := on_exit_hook\<rparr>\<rparr>
          else self))))"

definition TecServiceWorker_done ::
  "'s TecServiceWorker \<Rightarrow> (nat list \<times> mon_call list \<times> 's TecServiceWorker) outcome" where
  "TecServiceWorker_done self =
     bind_outcome (TecSignal_done (sw_sig_stopped self) 0) (\<lambda>(cs1, s1).
     bind_outcome (TecSignal_done (sw_sig_started self) 0) (\<lambda>(cs2, s2).
     bind_outcome (TecThread_join (sw_thread self)) (\<lambda>(hs, t).
     bind_outcome (TecWorker_done (sw_worker self)) (\<lambda>(hs', cs3, w).
       Inr (hs @ hs', cs1 @ cs2 @ cs3,
            self\<lparr>sw_sig_stopped := s1, sw_sig_started := s2, sw_thread := t, sw_worker := w\<rparr>)))))"

section \<open>Properties\<close>

lemma run_fails:
  assumes "ready_worker w f" and "w_on_init w \<noteq> NULL" and "u_init u (w_on_init w) \<noteq> 0"
  shows "\<exists>w'. TecWorker_run u w 0 0 h =
       Inr (u_init u (w_on_init w), [Lock 0, Unlock], [h], [Hook (w_on_init w)], w') \<and>
     (worker_made w \<longrightarrow> worker_over w')"
proof -
  obtain w' where w': "TecWorker_run u w 0 0 h =
      Inr (u_init u (w_on_init w), [Lock 0, Unlock], [h], [Hook (w_on_init w)], w')"
    "plain_worker w' f" "w_queue w' = w_queue w" "thr_result (w_thread w') = Some 22"
    using assms
    by (simp add: ready_worker_def TecWorker_run_def TecThread_create_def TecThread_ok_def TecThread_join_def
        read_field_def worker_start_def worker_exit_def plain_worker_def Let_def)
  have "worker_over w'" if "worker_made w"
    using that run_made [OF w'(1)] w'(2-4) assms(1) by (auto simp: worker_over_def ready_worker_def)
  then show ?thesis using w'(1) by blast
qed

lemma run_hook_ready:
  assumes "ready_worker w f" and "w_on_init w \<noteq> NULL" and "u_init u (w_on_init w) = 0"
  obtains w' where "TecWorker_run u w 0 0 h = Inr (0, [Lock 0, Unlock], [], [Hook (w_on_init w)], w')"
    and "in_loop w'" and "plain_worker w' f" and "w_queue w' = w_queue w" and "w_error w' = 0"
    and "w_on_exit w' = w_on_exit w" and "thr_t (w_thread w') = h" and "w_daemon w' = w_daemon w"
  using that assms
  by (simp add: ready_worker_def TecWorker_run_def TecThread_create_def TecThread_ok_def read_field_def
      worker_start_def in_loop_def plain_worker_def Let_def)

text \<open>A service worker that has been created and is ready to run; one that runs; one that is over.\<close>

definition ready_service_worker :: "'s TecServiceWorker \<Rightarrow> bool" where
  "ready_service_worker self \<longleftrightarrow>
     ready_worker (sw_worker self) Map.empty \<and> w_on_init (sw_worker self) = on_init_hook \<and>
     w_on_exit (sw_worker self) = on_exit_hook \<and> q_heap (w_queue (sw_worker self)) = Map.empty"

definition running_service_worker :: "'s TecServiceWorker \<Rightarrow> nat \<Rightarrow> nat \<Rightarrow> bool" where
  "running_service_worker self wh h \<longleftrightarrow>
     plain_worker (sw_worker self) Map.empty \<and> holds_messages (sw_worker self) Map.empty [] [] \<and>
     in_loop (sw_worker self) \<and> w_error (sw_worker self) = 0 \<and>
     d_send (w_daemon (sw_worker self)) \<noteq> None \<and> q_heap (w_queue (sw_worker self)) = Map.empty \<and>
     w_on_exit (sw_worker self) = on_exit_hook \<and> thr_t (w_thread (sw_worker self)) = wh \<and>
     sw_error self = 0 \<and> sw_thread self = \<lparr>thr_result = Some 0, thr_t = h\<rparr>"

definition service_worker_made :: "'s TecServiceWorker \<Rightarrow> bool" where
  "service_worker_made self \<longleftrightarrow> worker_made (sw_worker self) \<and> signal_made (sw_sig_started self) \<and>
     signal_made (sw_sig_stopped self)"

definition service_worker_over :: "'s TecServiceWorker \<Rightarrow> bool" where
  "service_worker_over self \<longleftrightarrow> worker_over (sw_worker self) \<and> signal_made (sw_sig_started self) \<and>
     signal_made (sw_sig_stopped self) \<and> (\<exists>r. thr_result (sw_thread self) = Some r \<and> r \<noteq> 0)"

lemma service_worker_done_over:
  assumes "service_worker_over self"
  shows "\<exists>cs self'. TecServiceWorker_done self = Inr ([], cs, self')"
proof -
  obtain s1 s2 where "TecSignal_done (sw_sig_stopped self) 0 = Inr ([Destroy_cv, Destroy_mutex], s1)"
    "TecSignal_done (sw_sig_started self) 0 = Inr ([Destroy_cv, Destroy_mutex], s2)"
    using assms signal_done_made unfolding service_worker_over_def by metis
  moreover have "TecThread_join (sw_thread self) = Inr ([], sw_thread self)"
    using assms by (auto simp: service_worker_over_def TecThread_join_def TecThread_ok_def read_field_def)
  moreover obtain cs w where "TecWorker_done (sw_worker self) = Inr ([], cs, w)"
    using assms done_over [of "sw_worker self"] by (auto simp: service_worker_over_def)
  ultimately show ?thesis by (simp add: TecServiceWorker_done_def)
qed

context service_contract
begin

lemma on_init_error:
  assumes "fresh (sw_service self)" and "svc_start svc = start"
    and "start (sw_service self) (sw_sig_started self) = Inr (e, sig, s')" and "e \<noteq> 0"
  shows "\<exists>self'. on_init svc self 0 h = Inr (e, [h], self') \<and> sw_worker self' = sw_worker self \<and>
     sw_service self' = s' \<and> thr_result (sw_thread self') = Some 22 \<and>
     signal_made (sw_sig_started self') = signal_made (sw_sig_started self) \<and>
     signal_made (sw_sig_stopped self') = signal_made (sw_sig_stopped self)"
proof -
  have "sig = snd (snd (TecSignal_set (sw_sig_started self) 0 0))"
    using start_spec [OF assms(1), of "sw_sig_started self"] assms(3) by auto
  then show ?thesis
    using assms(2-4)
    by (simp add: on_init_def service_start_func_def TecThread_create_def TecThread_ok_def TecThread_join_def read_field_def Let_def)
qed

lemma on_init_success:
  assumes "fresh (sw_service self)" and "svc_start svc = start"
    and "start (sw_service self) (sw_sig_started self) = Inr (0, sig, s')"
  shows "\<exists>self'. on_init svc self 0 h = Inr (0, [], self') \<and> sw_worker self' = sw_worker self \<and>
     sw_service self' = s' \<and> sw_sig_stopped self' = sw_sig_stopped self \<and> started s' \<and>
     sw_error self' = 0 \<and> sw_thread self' = \<lparr>thr_result = Some 0, thr_t = h\<rparr> \<and>
     signal_made (sw_sig_started self') = signal_made (sw_sig_started self)"
proof -
  have "sig = snd (snd (TecSignal_set (sw_sig_started self) 0 0))" "started s'"
    using start_spec [OF assms(1), of "sw_sig_started self"] assms(3) by auto
  then show ?thesis
    using assms(2,3)
    by (cases "sw_thread self")
      (simp add: on_init_def service_start_func_def TecThread_create_def TecThread_ok_def read_field_def Let_def)
qed

lemma on_exit_success:
  assumes "started (sw_service self)" and "svc_shutdown svc = shutdown"
    and "sw_thread self = \<lparr>thr_result = Some 0, thr_t = h\<rparr>"
  shows "\<exists>self' sig s'. on_exit svc self 0 h' = Inr (sw_error self, [h', h], self') \<and>
     sw_worker self' = sw_worker self \<and>
     shutdown (sw_service self) (sw_sig_stopped self) = Inr (sig, s') \<and> sw_service self' = s' \<and>
     thr_result (sw_thread self') = Some 22 \<and> sw_sig_started self' = sw_sig_started self \<and>
     signal_made (sw_sig_stopped self') = signal_made (sw_sig_stopped self)"
proof -
  obtain s' where "shutdown (sw_service self) (sw_sig_stopped self)
      = Inr (snd (snd (TecSignal_set (sw_sig_stopped self) 0 0)), s')"
    using shutdown_spec [OF assms(1)] by blast
  then show ?thesis
    using assms(2,3)
    by (simp add: on_exit_def service_shutdown_func_def TecThread_create_def TecThread_init_def TecThread_ok_def TecThread_join_def
        read_field_def Let_def)
qed

end

lemma service_worker_runs:
  fixes self :: "'s TecServiceWorker"
  assumes c: "service_contract (svc_start svc) (svc_shutdown svc) fresh started"
    and s: "fresh (sw_service self)" and w: "ready_service_worker self"
    and st: "svc_start svc (sw_service self) (sw_sig_started self) = Inr (e, sig, s')"
  shows "e \<noteq> 0 \<Longrightarrow> \<exists>es self'. TecServiceWorker_run svc u self wh 0 h = Inr (e, [h, wh], es, self') \<and>
       sw_service self' = s' \<and> (service_worker_made self \<longrightarrow> service_worker_over self')"
    and "e = 0 \<Longrightarrow> \<exists>es self'. TecServiceWorker_run svc u self wh 0 h = Inr (0, [], es, self') \<and>
       sw_service self' = s' \<and> started s' \<and> running_service_worker self' wh h \<and>
       sw_sig_stopped self' = sw_sig_stopped self \<and>
       (service_worker_made self \<longrightarrow> service_worker_made self')"
proof -
  let ?w = "sw_worker self"
  have r: "ready_worker ?w Map.empty" "w_on_init ?w = on_init_hook" "w_on_exit ?w = on_exit_hook"
    "w_error ?w = 0" "q_heap (w_queue ?w) = Map.empty" "w_on_init ?w \<noteq> NULL"
    using w by (simp_all add: ready_service_worker_def ready_worker_def on_init_hook_def)
  show "\<exists>es self'. TecServiceWorker_run svc u self wh 0 h = Inr (e, [h, wh], es, self') \<and>
      sw_service self' = s' \<and> (service_worker_made self \<longrightarrow> service_worker_over self')" if e: "e \<noteq> 0"
  proof -
    obtain self' where i: "on_init svc self 0 h = Inr (e, [h], self')" "sw_worker self' = ?w"
      "sw_service self' = s'" "thr_result (sw_thread self') = Some 22"
      "signal_made (sw_sig_started self') = signal_made (sw_sig_started self)"
      "signal_made (sw_sig_stopped self') = signal_made (sw_sig_stopped self)"
      using service_contract.on_init_error [OF c s refl st e] by blast
    obtain w' where w': "TecWorker_run (u\<lparr>u_init := \<lambda>_. e\<rparr>) ?w 0 0 wh
        = Inr (e, [Lock 0, Unlock], [wh], [Hook (w_on_init ?w)], w')" "worker_made ?w \<longrightarrow> worker_over w'"
      using run_fails [OF r(1,6), of "u\<lparr>u_init := \<lambda>_. e\<rparr>" wh] e by auto
    show ?thesis
      using i w' r(4,6)
      by (simp add: TecServiceWorker_run_def service_worker_made_def service_worker_over_def)
  qed
  show "\<exists>es self'. TecServiceWorker_run svc u self wh 0 h = Inr (0, [], es, self') \<and>
      sw_service self' = s' \<and> started s' \<and> running_service_worker self' wh h \<and>
      sw_sig_stopped self' = sw_sig_stopped self \<and>
      (service_worker_made self \<longrightarrow> service_worker_made self')" if e: "e = 0"
  proof -
    obtain self' where i: "on_init svc self 0 h = Inr (0, [], self')" "sw_worker self' = ?w"
      "sw_service self' = s'" "sw_sig_stopped self' = sw_sig_stopped self" "started s'"
      "sw_error self' = 0" "sw_thread self' = \<lparr>thr_result = Some 0, thr_t = h\<rparr>"
      "signal_made (sw_sig_started self') = signal_made (sw_sig_started self)"
      using service_contract.on_init_success [OF c s refl] st e by blast
    obtain w' where w': "TecWorker_run (u\<lparr>u_init := \<lambda>_. 0\<rparr>) ?w 0 0 wh
        = Inr (0, [Lock 0, Unlock], [], [Hook (w_on_init ?w)], w')" "in_loop w'" "plain_worker w' Map.empty"
      "w_queue w' = w_queue ?w" "w_error w' = 0" "w_on_exit w' = on_exit_hook" "thr_t (w_thread w') = wh"
      "w_daemon w' = w_daemon ?w"
      using run_hook_ready [OF r(1,6), of "u\<lparr>u_init := \<lambda>_. 0\<rparr>" wh] r(3) by auto
    have "TecServiceWorker_run svc u self wh 0 h
        = Inr (0, [], [Hook (w_on_init ?w)], self'\<lparr>sw_worker := w'\<rparr>)"
      using i(1,2) w'(1) r(4,6) by (simp add: TecServiceWorker_run_def)
    moreover have "running_service_worker (self'\<lparr>sw_worker := w'\<rparr>) wh h"
      using r(1,5) w' i(6,7)
      by (simp add: running_service_worker_def holds_messages_def ready_worker_def)
    moreover have "service_worker_made self \<longrightarrow> service_worker_made (self'\<lparr>sw_worker := w'\<rparr>)"
      using run_made [OF w'(1)] i(4,8) by (simp add: service_worker_made_def)
    ultimately show ?thesis
      using i(3-5)
      by (intro exI [of _ "[Hook (w_on_init ?w)]"] exI [of _ "self'\<lparr>sw_worker := w'\<rparr>"]) simp
  qed
qed

lemma service_worker_terminates:
  fixes self :: "'s TecServiceWorker"
  assumes c: "service_contract (svc_start svc) (svc_shutdown svc) fresh started"
    and s: "started (sw_service self)" and w: "running_service_worker self wh h" and p: "p \<noteq> NULL"
  shows "\<exists>sig s' self'. svc_shutdown svc (sw_service self) (sw_sig_stopped self) = Inr (sig, s') \<and>
     TecServiceWorker_terminate svc u self Map.empty p 0 h' = Inr (0, [h', h, wh], [Hook on_exit_hook], self') \<and>
     sw_service self' = s' \<and> sig_value (w_sig_terminated (sw_worker self')) = 1 \<and>
     (service_worker_made self \<longrightarrow> service_worker_over self')"
proof -
  let ?w = "sw_worker self"
  have r: "plain_worker ?w Map.empty" "holds_messages ?w Map.empty [] []" "in_loop ?w" "w_error ?w = 0"
    "d_send (w_daemon ?w) \<noteq> None" "fresh_qnode (w_queue ?w) p" "w_on_exit ?w = on_exit_hook"
    "thr_t (w_thread ?w) = wh" "sw_error self = 0" "sw_thread self = \<lparr>thr_result = Some 0, thr_t = h\<rparr>"
    using w p by (simp_all add: running_service_worker_def fresh_qnode_def)
  obtain self2 sig s' where x: "on_exit svc self 0 h' = Inr (0, [h', h], self2)" "sw_worker self2 = ?w"
    "svc_shutdown svc (sw_service self) (sw_sig_stopped self) = Inr (sig, s')" "sw_service self2 = s'"
    "thr_result (sw_thread self2) = Some 22" "sw_sig_started self2 = sw_sig_started self"
    "signal_made (sw_sig_stopped self2) = signal_made (sw_sig_stopped self)"
    using service_contract.on_exit_success [OF c s refl r(10), of h'] r(9) by auto
  obtain w' where w': "TecWorker_terminate (u\<lparr>u_exit := \<lambda>_. 0\<rparr>) ?w Map.empty p
      = Inr (0, [wh], [Hook on_exit_hook], w', Map.empty)" "worker_made ?w \<longrightarrow> worker_over w'"
    "sig_value (w_sig_terminated w') = 1"
    using terminate_after_serving [OF r(1-6), of "u\<lparr>u_exit := \<lambda>_. 0\<rparr>"] r(7,8)
    by (auto simp: on_exit_hook_def)
  have "TecServiceWorker_terminate svc u self Map.empty p 0 h'
      = Inr (0, [h', h, wh], [Hook on_exit_hook], self2\<lparr>sw_worker := w'\<rparr>)"
    using x(1) w'(1) r(3,4,7) by (simp add: TecServiceWorker_terminate_def on_exit_hook_def)
  moreover have "service_worker_made self \<longrightarrow> service_worker_over (self2\<lparr>sw_worker := w'\<rparr>)"
    using x(5-7) w'(2) by (simp add: service_worker_made_def service_worker_over_def)
  ultimately show ?thesis using x(3,4) w'(3) by auto
qed

lemma service_worker_run_terminate:
  fixes self :: "'s TecServiceWorker"
  assumes c: "service_contract (svc_start svc) (svc_shutdown svc) fresh started"
    and s: "fresh (sw_service self)" and w: "ready_service_worker self" and p: "p \<noteq> NULL"
  shows "\<exists>e sig s'. svc_start svc (sw_service self) (sw_sig_started self) = Inr (e, sig, s') \<and>
     (e \<noteq> 0 \<longrightarrow> (\<exists>es self'. TecServiceWorker_run svc u self wh 0 h = Inr (e, [h, wh], es, self') \<and>
        sw_service self' = s')) \<and>
     (e = 0 \<longrightarrow> (\<exists>es self' self'' sig' s''.
        TecServiceWorker_run svc u self wh 0 h = Inr (0, [], es, self') \<and>
        TecServiceWorker_terminate svc u self' Map.empty p 0 h'
          = Inr (0, [h', h, wh], [Hook on_exit_hook], self'') \<and>
        svc_shutdown svc s' (sw_sig_stopped self) = Inr (sig', s'') \<and> sw_service self'' = s''))"
proof -
  obtain e sig s' where st: "svc_start svc (sw_service self) (sw_sig_started self) = Inr (e, sig, s')"
    using service_contract.start_spec [OF c s] by blast
  note run = service_worker_runs [OF c s w st, of u wh h]
  have "\<exists>es self' self'' sig' s''.
      TecServiceWorker_run svc u self wh 0 h = Inr (0, [], es, self') \<and>
      TecServiceWorker_terminate svc u self' Map.empty p 0 h'
        = Inr (0, [h', h, wh], [Hook on_exit_hook], self'') \<and>
      svc_shutdown svc s' (sw_sig_stopped self) = Inr (sig', s'') \<and> sw_service self'' = s''" if e: "e = 0"
  proof -
    obtain es self' where r: "TecServiceWorker_run svc u self wh 0 h = Inr (0, [], es, self')"
      "sw_service self' = s'" "started s'" "running_service_worker self' wh h"
      "sw_sig_stopped self' = sw_sig_stopped self"
      using run(2) [OF e] by blast
    then show ?thesis using service_worker_terminates [OF c _ r(4) p, of u h'] by auto
  qed
  then show ?thesis using st run(1) by blast
qed

text \<open>
  Running a service worker on any service that keeps the contract
  returns the service's start error. When it is not 0, the service's thread and the worker's
  have been joined, once each. When it is 0, a later terminate shuts the service down and
  joins the three threads, once each.
\<close>

theorem service_worker_lifecycle:
  fixes self :: "'s TecServiceWorker"
  assumes c: "service_contract (svc_start svc) (svc_shutdown svc) fresh started"
    and s: "fresh (sw_service self)" and w: "ready_service_worker self" and p: "p \<noteq> NULL"
  shows "\<exists>e sig s'. svc_start svc (sw_service self) (sw_sig_started self) = Inr (e, sig, s') \<and>
     (e \<noteq> 0 \<longrightarrow> (\<exists>es self'. TecServiceWorker_run svc u self wh 0 h = Inr (e, [h, wh], es, self') \<and>
        sw_service self' = s')) \<and>
     (e = 0 \<longrightarrow> (\<exists>es self' self'' sig' s''.
        TecServiceWorker_run svc u self wh 0 h = Inr (0, [], es, self') \<and>
        TecServiceWorker_terminate svc u self' Map.empty p 0 h'
          = Inr (0, [h', h, wh], [Hook on_exit_hook], self'') \<and>
        svc_shutdown svc s' (sw_sig_stopped self) = Inr (sig', s'') \<and> sw_service self'' = s''))"
  using assms by (rule service_worker_run_terminate)

text \<open>On a service that gives its resource back, terminate leaves it given back.\<close>

lemma service_worker_closes:
  assumes c: "closing_service (svc_start svc) (svc_shutdown svc) fresh started closed"
    and s: "fresh (sw_service self)" and w: "ready_service_worker self" and p: "p \<noteq> NULL"
  shows "\<exists>e sig s'. svc_start svc (sw_service self) (sw_sig_started self) = Inr (e, sig, s') \<and>
     (e \<noteq> 0 \<longrightarrow> (\<exists>es self'. TecServiceWorker_run svc u self wh 0 h = Inr (e, [h, wh], es, self') \<and>
        sw_service self' = s')) \<and>
     (e = 0 \<longrightarrow> (\<exists>es self' self''.
        TecServiceWorker_run svc u self wh 0 h = Inr (0, [], es, self') \<and>
        TecServiceWorker_terminate svc u self' Map.empty p 0 h'
          = Inr (0, [h', h, wh], [Hook on_exit_hook], self'') \<and> closed (sw_service self'')))"
  using service_worker_run_terminate [OF closing_service.axioms(1) [OF c] s w p, of u wh h h']
    closing_service.shutdown_closes [OF c] by blast

text \<open>Memory for a service worker, and the service worker on the default service.\<close>

definition unused_sw :: "'s \<Rightarrow> 's TecServiceWorker" where
  "unused_sw s =
     (let sig = \<lparr>sig_value = 0, sig_mtx = \<lparr>mtx_result = None\<rparr>, sig_cnd = \<lparr>cv_result = None\<rparr>\<rparr>
      in \<lparr>sw_worker = unused, sw_error = 0, sw_service = s, sw_sig_started = sig, sw_sig_stopped = sig,
          sw_thread = \<lparr>thr_result = None, thr_t = 0\<rparr>\<rparr>)"

lemma unused_sw_worker: "unused_worker (sw_worker (unused_sw s))"
  using unused_worker_unused by (simp add: unused_sw_def Let_def)

lemma service_worker_init_ready:
  assumes "unused_worker (sw_worker self)"
  obtains self' where "TecServiceWorker_init (\<lambda>_. 0) True self service n = Inr (True, self')"
    and "ready_service_worker self'" and "sw_service self' = service"
    and "thr_result (sw_thread self') = Some 22" and "sig_value (sw_sig_stopped self') = 0"
proof -
  obtain w where w: "TecWorker_init (\<lambda>_. 0) True (sw_worker self) n = Inr (True, w)"
    "ready_worker w Map.empty" "q_heap (w_queue w) = Map.empty"
    using init_ready [OF assms, of n] by metis
  have "\<exists>self'. TecServiceWorker_init (\<lambda>_. 0) True self service n = Inr (True, self') \<and>
      ready_service_worker self' \<and> sw_service self' = service \<and>
      thr_result (sw_thread self') = Some 22 \<and> sig_value (sw_sig_stopped self') = 0"
    using w
    by (simp add: TecServiceWorker_init_def signal_init_ok ready_service_worker_def ready_worker_def
        plain_worker_def TecThread_init_def Let_def)
  then show thesis using that by blast
qed

lemma service_worker_init_made:
  assumes "TecServiceWorker_init (\<lambda>_. 0) True self service n = Inr (True, self')"
  shows "service_worker_made self'"
proof -
  obtain w where w: "TecWorker_init (\<lambda>_. 0) True (sw_worker self) n = Inr (True, w)"
    "sw_worker self' = w\<lparr>w_daemon := w_daemon (sw_worker self'), w_on_init := on_init_hook,
       w_on_exit := on_exit_hook\<rparr>"
    "signal_made (sw_sig_started self')" "signal_made (sw_sig_stopped self')"
    using assms
    by (auto simp: TecServiceWorker_init_def signal_init_ok signal_made_def Let_def bind_outcome_Inr_iff
        split: if_splits)
  have "worker_made (sw_worker self')"
    using init_made [OF w(1)] by (subst w(2)) (simp add: worker_made_def)
  then show ?thesis using w(3,4) by (simp add: service_worker_made_def)
qed

theorem service_worker_lifecycle_witness:
  "\<exists>self self' self'' es. TecServiceWorker_init (\<lambda>_. 0) True (unused_sw ()) () 0 = Inr (True, self) \<and>
     TecServiceWorker_run TecService_init plain_user self 77 0 78 = Inr (0, [], es, self') \<and>
     TecServiceWorker_terminate TecService_init plain_user self' Map.empty 8 0 79
       = Inr (0, [79, 78, 77], [Hook on_exit_hook], self'')"
proof -
  from service_worker_init_ready [OF unused_sw_worker [of "()"], of "()" 0] obtain self where
    self: "TecServiceWorker_init (\<lambda>_. 0) True (unused_sw ()) () 0 = Inr (True, self)" "ready_service_worker self"
    by blast
  have c: "service_contract (svc_start TecService_init) (svc_shutdown TecService_init)
      (\<lambda>_ :: unit. True) (\<lambda>_. True)"
    unfolding TecService_init_def by (simp add: default_service.service_contract_axioms)
  have "(8 :: ptr) \<noteq> NULL" by simp
  from service_worker_lifecycle [OF c TrueI self(2) this, of plain_user 77 78 79] self(1)
  show ?thesis by (fastforce simp: TecService_init_def start_def)
qed

text \<open>
  When the thread that is to stop the service cannot be created, the
  exit hook waits for a signal that nobody sets.
\<close>

theorem exit_thread_failure:
  assumes "crc \<noteq> 0" and "sig_value (sw_sig_stopped self) = 0"
  shows "on_exit svc self crc h = Inl No_return"
  using assms
  by (simp add: on_exit_def TecThread_create_def TecThread_init_def TecThread_ok_def read_field_def
      TecSignal_wait_def Let_def)

theorem exit_thread_failure_witness:
  "\<exists>self. TecServiceWorker_init (\<lambda>_. 0) True (unused_sw ()) () 0 = Inr (True, self) \<and>
     on_exit TecService_init self 11 79 = Inl No_return"
proof -
  from service_worker_init_ready [OF unused_sw_worker [of "()"], of "()" 0] obtain self where
    "TecServiceWorker_init (\<lambda>_. 0) True (unused_sw ()) () 0 = Inr (True, self)"
    "sig_value (sw_sig_stopped self) = 0" by blast
  then show ?thesis using exit_thread_failure [of 11 self TecService_init 79] by auto
qed

end
