(* ===== verification/TecSocket.thy ===== *)
theory TecSocket
  imports TecBuffer
begin

text \<open>
  Models \<open>tecc_socket.c\<close> and \<open>tecc_socket.h\<close>: stream sockets for clients and servers. What
  the system calls return is given as arguments, the calls made are results; the values of
  the system's constants are those of Linux.
\<close>

section \<open>Model\<close>

definition EBADF :: int where "EBADF = 9"
definition EIO :: int where "EIO = 5"
definition EPROTONOSUPPORT :: int where "EPROTONOSUPPORT = 93"
definition ECONNREFUSED :: int where "ECONNREFUSED = 111"
definition SOCK_STREAM :: int where "SOCK_STREAM = 1"
definition AI_PASSIVE :: u32 where "AI_PASSIVE = 1"

definition TECC_SOCK_BUFFER_SIZE :: u64 where
  "TECC_SOCK_BUFFER_SIZE = 1024"

definition kTecAnyAddr :: "u8 list" where "kTecAnyAddr = bytes_of ''0.0.0.0''"
definition kTecLocalAddr :: "u8 list" where "kTecLocalAddr = bytes_of ''127.0.0.1''"
definition kTecLocalHost :: "u8 list" where "kTecLocalHost = bytes_of ''localhost''"
definition kTecAnyAddrIP6 :: "u8 list" where "kTecAnyAddrIP6 = bytes_of ''::''"
definition kTecLocalAddrIP6 :: "u8 list" where "kTecLocalAddrIP6 = bytes_of ''::1''"
definition kTecDefaultPort :: int where "kTecDefaultPort = 4321"
definition kTecDefaultFamily :: int where "kTecDefaultFamily = 0"
definition kTecDefaultSockType :: int where "kTecDefaultSockType = SOCK_STREAM"
definition kTecDefaultProtocol :: int where "kTecDefaultProtocol = 0"
definition kTecDefaultClientFlags :: u32 where "kTecDefaultClientFlags = 0"
definition kTecDefaultServerFlags :: u32 where "kTecDefaultServerFlags = AI_PASSIVE"
definition kTecDefaultOptReuseAddress :: int where "kTecDefaultOptReuseAddress = 0"
definition kTecDefaultOptReusePort :: int where "kTecDefaultOptReusePort = 1"
definition kTecDefaultConnQueueSize :: int where "kTecDefaultConnQueueSize = 4096"

record TecSocketParams =
  par_addr :: "u8 list"
  par_port :: int
  par_family :: int
  par_socktype :: int
  par_protocol :: int
  par_flags :: u32
  par_buffer_size :: u64
  par_queue_size :: int
  par_opt_reuse_addr :: int
  par_opt_reuse_port :: int

definition TecSocketParams_init :: TecSocketParams where
  "TecSocketParams_init =
     \<lparr>par_addr = kTecLocalAddr, par_port = kTecDefaultPort, par_family = kTecDefaultFamily,
      par_socktype = kTecDefaultSockType, par_protocol = kTecDefaultProtocol,
      par_flags = kTecDefaultClientFlags, par_buffer_size = TECC_SOCK_BUFFER_SIZE,
      par_queue_size = kTecDefaultConnQueueSize, par_opt_reuse_addr = kTecDefaultOptReuseAddress,
      par_opt_reuse_port = kTecDefaultOptReusePort\<rparr>"

text \<open>\<open>sk_pai\<close> is the address of the \<open>addrinfo\<close> list; \<open>sk_params\<close> the object it points at.\<close>

record TecSocket =
  sk_fd :: int
  sk_port :: int
  sk_addr :: "u8 list"
  sk_flags :: int
  sk_pai :: ptr
  sk_buf :: TecBuffer
  sk_params :: TecSocketParams

text \<open>The system calls, with the arguments that matter.\<close>

datatype sys_call =
    Sys_getaddrinfo "u8 list" int u32
  | Sys_socket
  | Sys_connect int ptr
  | Sys_reuse_addr int int
  | Sys_reuse_port int int
  | Sys_bind int ptr
  | Sys_listen int int
  | Sys_accept int
  | Sys_shutdown int
  | Sys_close int
  | Sys_freeaddrinfo ptr
  | Sys_write int "u8 list"

text \<open>\<open>TecSocket_init_\<close>; the old contents of the socket play no part.\<close>

definition TecSocket_init :: "buffer_env \<Rightarrow> TecSocketParams \<Rightarrow> TecSocket outcome" where
  "TecSocket_init env params =
     bind_outcome (TecBuffer_init env 0 (par_buffer_size params)) (\<lambda>buf.
       Inr \<lparr>sk_fd = - 1, sk_port = - 1, sk_addr = [], sk_flags = 0, sk_pai = NULL, sk_buf = buf,
            sk_params = params\<rparr>)"

definition TecSocket_init_server :: "buffer_env \<Rightarrow> TecSocketParams \<Rightarrow> TecSocket outcome" where
  "TecSocket_init_server env params =
     TecSocket_init env (params\<lparr>par_flags := par_flags params OR kTecDefaultServerFlags\<rparr>)"

definition TecSocket_is_valid :: "TecSocket \<Rightarrow> bool" where
  "TecSocket_is_valid sock \<longleftrightarrow> sk_fd sock \<noteq> - 1"

definition TecSocket_is_server :: "TecSocket \<Rightarrow> bool" where
  "TecSocket_is_server sock \<longleftrightarrow> par_flags (sk_params sock) AND kTecDefaultServerFlags \<noteq> 0"

definition TecSocket_close :: "TecSocket \<Rightarrow> sys_call list \<times> TecSocket" where
  "TecSocket_close sock =
     (if sk_fd sock \<noteq> - 1 then
        ([Sys_shutdown (sk_fd sock), Sys_close (sk_fd sock)]
           @ (if sk_pai sock \<noteq> NULL then [Sys_freeaddrinfo (sk_pai sock)] else []),
         sock\<lparr>sk_fd := - 1, sk_pai := NULL\<rparr>)
      else ([], sock))"

definition TecSocket_done :: "TecSocket \<Rightarrow> sys_call list \<times> TecSocket" where
  "TecSocket_done sock = TecSocket_close sock"

text \<open>The address and port of a peer, by its address family.\<close>

datatype peer = Inet "u8 list" int | Inet6 "u8 list" int | Other_family

text \<open>\<open>r\<close> is the \<open>errno\<close> of \<open>getpeername\<close> or what it stored.\<close>

definition get_socket_info :: "TecSocket \<Rightarrow> int + peer \<Rightarrow> int \<times> TecSocket" where
  "get_socket_info sock r =
     (let sock = sock\<lparr>sk_port := - 1\<rparr>
      in case r of
           Inl err \<Rightarrow> (err, sock)
         | Inr (Inet addr port) \<Rightarrow> (0, sock\<lparr>sk_addr := addr, sk_port := port\<rparr>)
         | Inr (Inet6 addr port) \<Rightarrow> (0, sock\<lparr>sk_addr := addr, sk_port := port\<rparr>)
         | Inr Other_family \<Rightarrow> (EPROTONOSUPPORT, sock))"

text \<open>\<open>gai\<close>: the code of \<open>getaddrinfo\<close> or its list; \<open>so\<close>: \<open>errno\<close> of \<open>socket\<close> or the descriptor.\<close>

definition TecSocket_open :: "TecSocket \<Rightarrow> int + ptr \<Rightarrow> int + int \<Rightarrow> int \<times> sys_call list \<times> TecSocket" where
  "TecSocket_open sock gai so =
     (let par = sk_params sock;
          resolve = Sys_getaddrinfo (par_addr par) (par_port par) (par_flags par)
      in if par_socktype par \<noteq> SOCK_STREAM then (EPROTONOSUPPORT, [], sock)
         else case gai of
           Inl err \<Rightarrow> (err, [resolve], sock)
         | Inr res \<Rightarrow>
             (case so of
                Inl err \<Rightarrow> (err, [resolve, Sys_socket], sock)
              | Inr fd \<Rightarrow> (0, [resolve, Sys_socket], sock\<lparr>sk_fd := fd, sk_pai := res\<rparr>)))"

text \<open>\<open>ok\<close>: whether \<open>connect\<close> succeeded.\<close>

definition TecSocket_connect :: "TecSocket \<Rightarrow> bool \<Rightarrow> int + peer \<Rightarrow> int \<times> sys_call list \<times> TecSocket" where
  "TecSocket_connect sock ok info =
     (if sk_fd sock = - 1 \<or> sk_pai sock = NULL then (EBADF, [], sock)
      else
        let call = Sys_connect (sk_fd sock) (sk_pai sock)
        in if \<not> ok then let (cs, sock) = TecSocket_close sock in (ECONNREFUSED, call # cs, sock)
           else let (err, sock) = get_socket_info sock info in (err, [call], sock))"

text \<open>\<open>r1\<close>, \<open>r2\<close>: \<open>errno\<close> when the first, the second \<open>setsockopt\<close> fails.\<close>

definition TecSocket_set_options :: "TecSocket \<Rightarrow> int option \<Rightarrow> int option \<Rightarrow> int \<times> sys_call list" where
  "TecSocket_set_options sock r1 r2 =
     (if TecSocket_is_valid sock \<and> TecSocket_is_server sock then
        let err = (case r1 of None \<Rightarrow> 0 | Some e \<Rightarrow> e);
            err = (case r2 of None \<Rightarrow> err | Some e \<Rightarrow> e)
        in (err, [Sys_reuse_addr (sk_fd sock) (par_opt_reuse_addr (sk_params sock)),
                  Sys_reuse_port (sk_fd sock) (par_opt_reuse_port (sk_params sock))])
      else (0, []))"

definition TecSocket_bind :: "TecSocket \<Rightarrow> int option \<Rightarrow> int \<times> sys_call list" where
  "TecSocket_bind sock r =
     (if TecSocket_is_valid sock \<and> sk_pai sock \<noteq> NULL
      then ((case r of None \<Rightarrow> 0 | Some e \<Rightarrow> e), [Sys_bind (sk_fd sock) (sk_pai sock)])
      else (EBADF, []))"

definition TecSocket_listen :: "TecSocket \<Rightarrow> int option \<Rightarrow> int \<times> sys_call list" where
  "TecSocket_listen sock r =
     (if TecSocket_is_valid sock
      then ((case r of None \<Rightarrow> 0 | Some e \<Rightarrow> e),
            [Sys_listen (sk_fd sock) (par_queue_size (sk_params sock))])
      else (EBADF, []))"

text \<open>
  \<open>r\<close>: \<open>errno\<close> of \<open>accept\<close> or the descriptor. The client gets the server's buffer when its
  peer is known.
\<close>

definition TecSocket_accept ::
  "buffer_env \<Rightarrow> TecSocket \<Rightarrow> int + int \<Rightarrow> int + peer \<Rightarrow> (sys_call list \<times> TecSocket) outcome" where
  "TecSocket_accept env sock r info =
     bind_outcome (TecSocket_init env (sk_params sock)) (\<lambda>cli.
       Inr ([Sys_accept (sk_fd sock)],
         case r of
           Inl err \<Rightarrow> cli
         | Inr fd \<Rightarrow>
             let (err, cli) = get_socket_info (cli\<lparr>sk_fd := fd\<rparr>) info
             in if err \<noteq> 0 then cli else cli\<lparr>sk_buf := sk_buf sock\<rparr>))"

text \<open>
  What successive calls of \<open>read\<close> return: bytes, 0 when the peer has closed, or an error. A
  read of 0 bytes returns 0 or an error.
\<close>

datatype read_result = Received "u8 list" | Closed | Failed int

text \<open>The loop of \<open>TecSocket_read\<close>; \<open>None\<close> when the reads given are used up and it blocks.\<close>

fun read_loop ::
  "buffer_env \<Rightarrow> u8 list option \<Rightarrow> u64 \<Rightarrow> TecBuffer \<Rightarrow> read_result list \<Rightarrow> (int \<times> TecBuffer) option outcome" where
  "read_loop env buffer buffer_size dst [] =
     Inr (if buffer_size = 0 then Some (0, dst) else None)"
| "read_loop env buffer buffer_size dst (Failed err # rs) = Inr (Some (err, dst))"
| "read_loop env buffer buffer_size dst (Closed # rs) = Inr (Some (0, dst))"
| "read_loop env buffer buffer_size dst (Received bs # rs) =
     (if buffer_size = 0 \<or> bs = [] then Inr (Some (0, dst))
      else
        bind_outcome (mem_write buffer 0 bs) (\<lambda>buffer.
        bind_outcome (TecBuffer_write env dst (the buffer) (word_of_nat (length bs))) (\<lambda>(n, dst).
          read_loop env buffer buffer_size dst rs)))"

definition TecSocket_read ::
  "buffer_env \<Rightarrow> TecSocket \<Rightarrow> TecBuffer \<Rightarrow> read_result list \<Rightarrow> (int \<times> TecBuffer) option outcome" where
  "TecSocket_read env sock dst rs =
     read_loop env (buf_data (sk_buf sock)) (buf_capacity (sk_buf sock)) dst rs"

text \<open>\<open>r\<close>: \<open>errno\<close> of \<open>write\<close> or the number of bytes sent. The bytes sent are returned.\<close>

definition TecSocket_write ::
  "TecSocket \<Rightarrow> TecBuffer \<Rightarrow> int + nat \<Rightarrow> (int \<times> sys_call list) outcome" where
  "TecSocket_write sock src r =
     (if buf_size src \<noteq> 0 then
        bind_outcome (mem_read (buf_data src) 0 (unat (buf_size src))) (\<lambda>bytes.
          Inr (case r of
                 Inl err \<Rightarrow> (err, [Sys_write (sk_fd sock) []])
               | Inr sent \<Rightarrow>
                   (if unat (buf_size src) \<noteq> sent then EIO else 0,
                    [Sys_write (sk_fd sock) (take sent bytes)])))
      else Inr (0, []))"

text \<open>
  \<open>s\<close> is the string with its terminating zero left out. Its length goes through an \<open>int\<close>.
\<close>

definition TecSocket_write_str ::
  "TecSocket \<Rightarrow> u8 list option \<Rightarrow> int + nat \<Rightarrow> (int \<times> sys_call list) outcome" where
  "TecSocket_write_str sock s r =
     (case s of
        None \<Rightarrow> Inr (0, [])
      | Some s \<Rightarrow>
          let len = word_of_nat (length s) + 1 :: u32
          in TecSocket_write sock
               \<lparr>buf_data = Some (s @ [0]), buf_pos = 0, buf_size = scast len,
                buf_capacity = scast len, buf_block_size = 0\<rparr> r)"

section \<open>Closing\<close>

lemma close_leaves_closed: "TecSocket_close sock = (cs, sock') \<Longrightarrow> sk_fd sock' = - 1"
  by (auto simp: TecSocket_close_def split: if_splits)

lemma close_closed: "sk_fd sock = - 1 \<Longrightarrow> TecSocket_close sock = ([], sock)"
  by (simp add: TecSocket_close_def)

fun close_times :: "nat \<Rightarrow> TecSocket \<Rightarrow> sys_call list \<times> TecSocket" where
  "close_times 0 sock = ([], sock)"
| "close_times (Suc n) sock =
     (let (cs, sock) = TecSocket_close sock; (cs', sock) = close_times n sock in (cs @ cs', sock))"

lemma close_times_closed: "sk_fd sock = - 1 \<Longrightarrow> close_times n sock = ([], sock)"
  by (induction n) (simp_all add: close_closed)

text \<open>
  However often a socket is closed, its descriptor is closed once and its
  address list is freed once; closing a socket that is not open does nothing.
\<close>

theorem close_once:
  "fst (close_times (Suc n) sock) =
     (if sk_fd sock = - 1 then []
      else [Sys_shutdown (sk_fd sock), Sys_close (sk_fd sock)]
        @ (if sk_pai sock = NULL then [] else [Sys_freeaddrinfo (sk_pai sock)]))"
  by (cases "sk_fd sock = - 1")
    (simp_all add: close_times_closed close_closed TecSocket_close_def split: prod.splits)

section \<open>Opening\<close>

text \<open>
  When connecting an open socket fails, the descriptor is closed,
  the address list freed, and the socket can be opened again.
\<close>

theorem connect_failure_releases:
  assumes "TecSocket_open sock (Inr res) (Inr fd) = (0, cs, sock1)" and "fd \<noteq> - 1" and "res \<noteq> NULL"
  shows "\<exists>sock2. TecSocket_connect sock1 False info =
       (ECONNREFUSED, [Sys_connect fd res, Sys_shutdown fd, Sys_close fd, Sys_freeaddrinfo res], sock2) \<and>
     sk_fd sock2 = - 1 \<and> sk_pai sock2 = NULL \<and>
     fst (TecSocket_open sock2 (Inr res) (Inr fd)) = 0"
  using assms
  by (auto simp: TecSocket_open_def TecSocket_connect_def TecSocket_close_def EPROTONOSUPPORT_def Let_def
      split: if_splits)

text \<open>
  When \<open>socket\<close> fails, the address list that was resolved is neither
  kept in the socket nor freed.
\<close>

theorem open_leaks_addrinfo:
  assumes "par_socktype (sk_params sock) = SOCK_STREAM" and "sk_fd sock = - 1"
  shows "\<exists>cs. TecSocket_open sock (Inr res) (Inl err) = (err, cs, sock) \<and>
     Sys_freeaddrinfo res \<notin> set cs \<and> fst (TecSocket_done sock) = []"
  using assms by (simp add: TecSocket_open_def TecSocket_done_def TecSocket_close_def Let_def)

lemma socket_init: "par_buffer_size params \<noteq> 0 \<Longrightarrow> TecSocket_init env params =
  Inr \<lparr>sk_fd = - 1, sk_port = - 1, sk_addr = [], sk_flags = 0, sk_pai = NULL,
       sk_buf = fresh_buffer (par_buffer_size params), sk_params = params\<rparr>"
  by (simp add: TecSocket_init_def TecBuffer_init_def fresh_buffer_def Let_def)

definition closed_socket :: TecSocket where
  "closed_socket = \<lparr>sk_fd = - 1, sk_port = - 1, sk_addr = [], sk_flags = 0, sk_pai = NULL,
     sk_buf = fresh_buffer 1024, sk_params = TecSocketParams_init\<rparr>"

theorem open_leaks_addrinfo_witness:
  "\<exists>cs. TecSocket_open closed_socket (Inr 64) (Inl 24) = (24, cs, closed_socket) \<and>
     Sys_freeaddrinfo 64 \<notin> set cs"
  using open_leaks_addrinfo [of closed_socket 64 24]
  by (auto simp: closed_socket_def TecSocketParams_init_def kTecDefaultSockType_def)

theorem connect_failure_releases_witness:
  "\<exists>cs sock1 sock2. TecSocket_open closed_socket (Inr 64) (Inr 5) = (0, cs, sock1) \<and>
     TecSocket_connect sock1 False (Inr Other_family) =
       (ECONNREFUSED, [Sys_connect 5 64, Sys_shutdown 5, Sys_close 5, Sys_freeaddrinfo 64], sock2) \<and>
     sk_fd sock2 = - 1"
proof -
  have "\<exists>cs sock1. TecSocket_open closed_socket (Inr 64) (Inr 5) = (0, cs, sock1)"
    by (simp add: TecSocket_open_def closed_socket_def TecSocketParams_init_def kTecDefaultSockType_def
        Let_def)
  then show ?thesis using connect_failure_releases [of closed_socket 64 5] by fastforce
qed

section \<open>Reading and writing\<close>

lemma write_prefix:
  assumes "unat len = length bs"
  shows "TecBuffer_write env b (bs @ xs) len = TecBuffer_write env b bs len"
proof -
  have "mem_read (Some (bs @ xs)) 0 (unat len) = mem_read (Some bs) 0 (unat len)"
    using assms by (simp add: mem_read_def)
  then show ?thesis by (simp add: TecBuffer_write_def)
qed

text \<open>The error code with which a read that ends the loop is reported.\<close>

fun end_code :: "read_result \<Rightarrow> int" where
  "end_code (Failed err) = err"
| "end_code _ = 0"

definition chunks_fit :: "u8 list list \<Rightarrow> nat \<Rightarrow> bool" where
  "chunks_fit chunks n \<longleftrightarrow> (\<forall>c \<in> set chunks. c \<noteq> [] \<and> length c \<le> n)"

text \<open>The loop of the socket is a sequence of writes to the buffer.\<close>

lemma read_loop_fold:
  assumes "chunks_fit chunks (length d)" and "bsize \<noteq> 0" and "length d < 2 ^ 64"
    and "\<And>bs. r \<noteq> Received bs"
  shows "read_loop env (Some d) bsize dst (map Received chunks @ r # rs) =
     bind_outcome (fold_outcome (put_bytes env) dst chunks) (\<lambda>dst'. Inr (Some (end_code r, dst')))"
  using assms(1,3)
proof (induction chunks arbitrary: d dst)
  case Nil
  then show ?case
  proof (cases r)
    case (Received bs)
    then show ?thesis using assms(4) by blast
  qed simp_all
next
  case (Cons c cs)
  have c: "c \<noteq> []" "length c \<le> length d" "length c < 2 ^ 64"
    using Cons.prems by (simp_all add: chunks_fit_def)
  define d' where "d' = overlay d 0 c"
  have d': "length d' = length d" "d' = c @ drop (length c) d"
    using c(2) by (simp_all add: d'_def overlay_def)
  have w: "mem_write (Some d) 0 c = Inr (Some d')"
    using c by (simp add: mem_write_def d'_def)
  have len: "unat (word_of_nat (length c) :: u64) = length c" by (rule u64_of_nat [OF c(3)])
  have put: "TecBuffer_write env dst d' (word_of_nat (length c))
      = TecBuffer_write env dst c (word_of_nat (length c))"
    unfolding d'(2) by (rule write_prefix [OF len])
  have "chunks_fit cs (length d')" "length d' < 2 ^ 64" using Cons.prems d'(1) by (simp_all add: chunks_fit_def)
  note IH = Cons.IH [OF this]
  show ?case
  proof (cases "TecBuffer_write env dst c (word_of_nat (length c))")
    case (Inl f)
    then show ?thesis using w c(1) assms(2) by (simp add: put put_bytes_def)
  next
    case (Inr x)
    then show ?thesis using w c(1) assms(2) IH by (cases x) (simp add: put put_bytes_def)
  qed
qed

lemma read_appends:
  assumes "buffer_wf dst" and "room dst (length (concat chunks))"
    and "buf_data (sk_buf sock) = Some d" and "buf_capacity (sk_buf sock) \<noteq> 0" and "length d < 2 ^ 64"
    and "chunks_fit chunks (length d)" and "\<And>bs. r \<noteq> Received bs"
  shows "\<exists>dst'. TecSocket_read (ample h) sock dst (map Received chunks @ r # rs)
       = Inr (Some (end_code r, dst')) \<and>
     buffer_wf dst' \<and> file_of dst' = file_write (file_of dst) (concat chunks)"
  using buffer_stream.put_all [OF assms(1,2), of h]
    read_loop_fold [OF assms(6,4,5,7), of "ample h" dst rs]
  by (auto simp: TecSocket_read_def assms(3))

text \<open>
  C#socket_read_appends: \<open>TecSocket_read\<close> puts everything the peer sent, in order, into the
  destination at its position, as one file write would, and returns 0 when the peer closes
  the connection and the error code when a read fails.
\<close>

theorem socket_read_appends:
  assumes "buffer_wf dst" and "room dst (length (concat chunks))"
    and "buf_data (sk_buf sock) = Some d" and "buf_capacity (sk_buf sock) \<noteq> 0" and "length d < 2 ^ 64"
    and "chunks_fit chunks (length d)" and "\<forall>bs. r \<noteq> Received bs"
  shows "\<exists>dst'. TecSocket_read (ample h) sock dst (map Received chunks @ r # rs)
       = Inr (Some (end_code r, dst')) \<and>
     buffer_wf dst' \<and> file_of dst' = file_write (file_of dst) (concat chunks)"
  using read_appends [OF assms(1-6)] assms(7) by blast

text \<open>A socket with an 8-byte buffer.\<close>

definition open_socket :: TecSocket where
  "open_socket = closed_socket\<lparr>sk_fd := 5, sk_buf := one_block_buffer 8\<rparr>"

lemma open_socket_buf:
  "buf_data (sk_buf open_socket) = Some (replicate 8 0)" "buf_capacity (sk_buf open_socket) \<noteq> 0"
  by (simp_all add: open_socket_def one_block_buffer_def)

lemma one_block_written:
  assumes "file_of b = file_write (file_of (one_block_buffer n)) bs"
  shows "buf_content b = bs"
proof -
  have "file_of (one_block_buffer n) = \<lparr>bf_bytes = [], bf_pos = 0\<rparr>"
    by (simp add: file_of_def buf_content_def buf_bytes_def one_block_buffer_def)
  then have "bf_bytes (file_of b) = bs" using assms by (simp add: file_write_def overlay_def)
  then show ?thesis by (simp add: file_of_def)
qed

theorem socket_read_appends_witness:
  "\<exists>dst'. TecSocket_read (ample None) open_socket (one_block_buffer 4)
       [Received [1, 2, 3], Received [4, 5], Failed 104] = Inr (Some (104, dst')) \<and>
     buf_content dst' = [1, 2, 3, 4, 5]"
proof -
  have "buffer_wf (one_block_buffer 4)" by (rule one_block_buffer_wf) simp_all
  moreover have "room (one_block_buffer 4) (length (concat [[1, 2, 3], [4, 5 :: u8]]))"
    by (simp add: room_def room_at_def one_block_buffer_def)
  ultimately obtain dst' where
    "TecSocket_read (ample None) open_socket (one_block_buffer 4)
       [Received [1, 2, 3], Received [4, 5], Failed 104] = Inr (Some (104, dst'))"
    "file_of dst' = file_write (file_of (one_block_buffer 4)) [1, 2, 3, 4, 5]"
    using socket_read_appends [of "one_block_buffer 4" "[[1, 2, 3], [4, 5]]" open_socket
        "replicate 8 0" "Failed 104" None "[]"] open_socket_buf
    by (auto simp: chunks_fit_def)
  then show ?thesis using one_block_written by blast
qed

text \<open>The bytes handed to the system by \<open>write\<close>.\<close>

definition bytes_sent :: "sys_call list \<Rightarrow> u8 list" where
  "bytes_sent cs = concat (map (\<lambda>c. case c of Sys_write fd bs \<Rightarrow> bs | _ \<Rightarrow> []) cs)"

lemma buffer_read_content:
  assumes "buffer_wf src" and "buf_size src \<noteq> 0"
  shows "mem_read (buf_data src) 0 (unat (buf_size src)) = Inr (buf_content src)"
    and "length (buf_content src) = unat (buf_size src)"
  using assms by (auto simp: buffer_wf_def mem_read_def buf_content_def buf_bytes_def u64_eq_0
      word_le_nat_alt split: option.splits)

lemma write_result:
  assumes "buffer_wf src"
  shows "TecSocket_write sock src (Inl err) =
      Inr (if buf_size src = 0 then (0, []) else (err, [Sys_write (sk_fd sock) []]))"
    and "TecSocket_write sock src (Inr n) =
      Inr (if buf_size src = 0 then (0, [])
           else (if unat (buf_size src) \<noteq> n then EIO else 0,
                 [Sys_write (sk_fd sock) (take n (buf_content src))]))"
  using buffer_read_content [OF assms] by (simp_all add: TecSocket_write_def)

text \<open>
  C#write_all_or_error: \<open>TecSocket_write\<close> returns 0 exactly when the system took the whole
  content of the buffer; a partial write is reported as \<open>EIO\<close>, an error with its code.
\<close>

theorem write_all_or_error:
  assumes "buffer_wf src" and "r \<noteq> Inl 0" and "\<forall>n. r = Inr n \<longrightarrow> n \<le> unat (buf_size src)"
  shows "\<exists>err cs. TecSocket_write sock src r = Inr (err, cs) \<and>
     (err = 0 \<longleftrightarrow> bytes_sent cs = buf_content src) \<and>
     (\<forall>n. r = Inr n \<longrightarrow> bytes_sent cs = take n (buf_content src) \<and>
        err = (if n = unat (buf_size src) then 0 else EIO)) \<and>
     (\<forall>e. r = Inl e \<longrightarrow> err = (if buf_size src = 0 then 0 else e) \<and> bytes_sent cs = [])"
proof (cases "buf_size src = 0")
  case True
  then have "buf_content src = []" by (simp add: buf_content_def)
  then show ?thesis
    using True assms(3) write_result [OF assms(1), of sock] by (cases r) (simp_all add: bytes_sent_def)
next
  case False
  note len = buffer_read_content(2) [OF assms(1) False]
  have nz: "buf_content src \<noteq> []" using len False by (auto simp: u64_eq_0)
  show ?thesis
  proof (cases r)
    case (Inl e)
    then show ?thesis
      using False assms(2) nz write_result(1) [OF assms(1), of sock e] by (auto simp: bytes_sent_def)
  next
    case (Inr n)
    then have "take n (buf_content src) = buf_content src \<longleftrightarrow> n = unat (buf_size src)"
      using assms(3) len by (metis le_antisym length_take min.absorb2 take_all_iff)
    then show ?thesis
      using False Inr write_result(2) [OF assms(1), of sock n]
      by (auto simp: bytes_sent_def EIO_def)
  qed
qed

theorem write_all_or_error_witness:
  "\<exists>b. put_bytes (ample None) (one_block_buffer 4) [1, 2, 3] = Inr b \<and>
     (\<exists>cs. TecSocket_write open_socket b (Inr 2) = Inr (EIO, cs) \<and> bytes_sent cs = [1, 2])"
proof -
  have "buffer_wf (one_block_buffer 4)" by (rule one_block_buffer_wf) simp_all
  moreover have "room (one_block_buffer 4) (length [1, 2, 3 :: u8])"
    by (simp add: room_def room_at_def one_block_buffer_def)
  ultimately obtain b where
    b: "put_bytes (ample None) (one_block_buffer 4) [1, 2, 3] = Inr b" "buffer_wf b"
      "file_of b = file_write (file_of (one_block_buffer 4)) [1, 2, 3]"
    using put_bytes_room [of "one_block_buffer 4" "ample None" "[1, 2, 3]"] by (auto simp: env_ok_def)
  have c: "buf_content b = [1, 2, 3]" using b(3) by (rule one_block_written)
  then have "buf_size b \<noteq> 0" by (auto simp: buf_content_def)
  then have "unat (buf_size b) = 3" using buffer_read_content(2) [OF b(2)] c by simp
  then show ?thesis
    using write_all_or_error [OF b(2), of "Inr 2" open_socket] b(1) c by auto
qed

lemma u32_of_nat: "n < 2 ^ 31 \<Longrightarrow> unat (word_of_nat n :: u32) = n"
  by (simp add: unat_of_nat)

lemma write_str_buffer:
  assumes "length s + 1 < 2 ^ 31"
  shows "unat (scast (word_of_nat (length s) + 1 :: u32) :: u64) = length s + 1"
proof -
  have e: "word_of_nat (length s) + 1 = (word_of_nat (length s + 1) :: u32)" by simp
  note u = u32_of_nat [OF assms]
  show ?thesis unfolding e using scast_nonneg [of "word_of_nat (length s + 1)"] assms unfolding u by blast
qed

text \<open>
  A string sent with \<open>TecSocket_write_str\<close> and read by the peer, in
  whatever pieces the network delivers it, arrives byte for byte with its terminating zero.
\<close>

theorem transfer_roundtrip:
  assumes "length s + 1 < 2 ^ 31" and "concat chunks = s @ [0]"
    and "buf_data (sk_buf peer) = Some d" and "buf_capacity (sk_buf peer) \<noteq> 0" and "length d < 2 ^ 64"
    and "chunks_fit chunks (length d)" and "bs \<noteq> 0" and "unat bs < 2 ^ 63"
  shows "\<exists>cs dst. TecSocket_write_str sock (Some s) (Inr (length s + 1)) = Inr (0, cs) \<and>
     bytes_sent cs = s @ [0] \<and>
     TecSocket_read (ample h) peer (one_block_buffer bs) (map Received chunks @ [Closed])
       = Inr (Some (0, dst)) \<and>
     buf_content dst = s @ [0]"
proof -
  have len: "unat (scast (word_of_nat (length s) + 1 :: u32) :: u64) = Suc (length s)"
    using write_str_buffer [OF assms(1)] by simp
  then have nz: "scast (word_of_nat (length s) + 1 :: u32) \<noteq> (0 :: u64)" by (metis nat.distinct(1) unat_0)
  have w: "TecSocket_write_str sock (Some s) (Inr (length s + 1)) = Inr (0, [Sys_write (sk_fd sock) (s @ [0])])"
    using len nz by (simp add: TecSocket_write_str_def TecSocket_write_def mem_read_def Let_def)
  have "buffer_wf (one_block_buffer bs)" using assms(7,8) by (rule one_block_buffer_wf)
  moreover have "room (one_block_buffer bs) (length (concat chunks))"
    using assms(1,2,7) by (simp add: room_def room_at_def one_block_buffer_def)
  ultimately obtain dst where
    "TecSocket_read (ample h) peer (one_block_buffer bs) (map Received chunks @ [Closed])
       = Inr (Some (0, dst))"
    "file_of dst = file_write (file_of (one_block_buffer bs)) (concat chunks)"
    using read_appends [of "one_block_buffer bs" chunks peer d Closed h "[]"] assms(3-6) by auto
  then show ?thesis using w one_block_written assms(2) by (fastforce simp: bytes_sent_def)
qed

theorem transfer_roundtrip_witness:
  "\<exists>cs dst. TecSocket_write_str open_socket (Some [72, 105]) (Inr 3) = Inr (0, cs) \<and>
     bytes_sent cs = [72, 105, 0] \<and>
     TecSocket_read (ample None) open_socket (one_block_buffer 16) [Received [72], Received [105, 0], Closed]
       = Inr (Some (0, dst)) \<and> buf_content dst = [72, 105, 0]"
proof -
  have l: "length [72, 105 :: u8] + 1 = 3" by simp
  show ?thesis
    using transfer_roundtrip [of "[72, 105]" "[[72], [105, 0]]" open_socket "replicate 8 0" 16
        open_socket None, unfolded l] open_socket_buf
    by (simp add: chunks_fit_def)
qed

section \<open>Descriptors\<close>

text \<open>
  What the system holds for the program: the open descriptors and the address lists. A call
  on the descriptor - 1 fails and touches nothing.
\<close>

record kernel =
  k_fds :: "int set"
  k_lists :: "ptr set"

fun call_ok :: "kernel \<Rightarrow> sys_call \<Rightarrow> bool" where
  "call_ok k (Sys_connect fd res) \<longleftrightarrow> fd \<in> k_fds k \<and> res \<in> k_lists k"
| "call_ok k (Sys_reuse_addr fd _) \<longleftrightarrow> fd \<in> k_fds k"
| "call_ok k (Sys_reuse_port fd _) \<longleftrightarrow> fd \<in> k_fds k"
| "call_ok k (Sys_bind fd res) \<longleftrightarrow> fd \<in> k_fds k \<and> res \<in> k_lists k"
| "call_ok k (Sys_listen fd _) \<longleftrightarrow> fd \<in> k_fds k"
| "call_ok k (Sys_accept fd) \<longleftrightarrow> fd = - 1 \<or> fd \<in> k_fds k"
| "call_ok k (Sys_write fd _) \<longleftrightarrow> fd = - 1 \<or> fd \<in> k_fds k"
| "call_ok k (Sys_shutdown fd) \<longleftrightarrow> fd \<in> k_fds k"
| "call_ok k (Sys_close fd) \<longleftrightarrow> fd \<in> k_fds k"
| "call_ok k (Sys_freeaddrinfo res) \<longleftrightarrow> res \<in> k_lists k"
| "call_ok k (Sys_getaddrinfo _ _ _) \<longleftrightarrow> True"
| "call_ok k Sys_socket \<longleftrightarrow> True"

fun after_call :: "kernel \<Rightarrow> sys_call \<Rightarrow> kernel" where
  "after_call k (Sys_close fd) = k\<lparr>k_fds := k_fds k - {fd}\<rparr>"
| "after_call k (Sys_freeaddrinfo res) = k\<lparr>k_lists := k_lists k - {res}\<rparr>"
| "after_call k _ = k"

fun calls_ok :: "kernel \<Rightarrow> sys_call list \<Rightarrow> bool" where
  "calls_ok k [] \<longleftrightarrow> True"
| "calls_ok k (c # cs) \<longleftrightarrow> call_ok k c \<and> calls_ok (after_call k c) cs"

text \<open>What a call of \<open>TecSocket_open\<close> was granted.\<close>

definition granted :: "int + ptr \<Rightarrow> int + int \<Rightarrow> kernel \<Rightarrow> kernel" where
  "granted gai so k =
     (case gai of
        Inl _ \<Rightarrow> k
      | Inr res \<Rightarrow>
          (case so of
             Inl _ \<Rightarrow> k\<lparr>k_lists := insert res (k_lists k)\<rparr>
           | Inr fd \<Rightarrow> \<lparr>k_fds = insert fd (k_fds k), k_lists = insert res (k_lists k)\<rparr>))"

definition fresh_grant :: "int + ptr \<Rightarrow> int + int \<Rightarrow> kernel \<Rightarrow> bool" where
  "fresh_grant gai so k \<longleftrightarrow>
     (\<forall>res. gai = Inr res \<longrightarrow> res \<noteq> NULL \<and> res \<notin> k_lists k) \<and>
     (\<forall>fd. so = Inr fd \<longrightarrow> 0 \<le> fd \<and> fd \<notin> k_fds k)"

text \<open>
  A client that opens its socket only while it is closed, and otherwise calls what it likes.
\<close>

inductive socket_step :: "TecSocket \<times> kernel \<Rightarrow> sys_call list \<Rightarrow> TecSocket \<times> kernel \<Rightarrow> bool" where
  step_open:
    "TecSocket_open sock gai so = (e, cs, sock') \<Longrightarrow> sk_fd sock = - 1 \<Longrightarrow> fresh_grant gai so k \<Longrightarrow>
     socket_step (sock, k) cs (sock', if cs = [] then k else granted gai so k)"
| step_connect:
    "TecSocket_connect sock ok info = (e, cs, sock') \<Longrightarrow>
     socket_step (sock, k) cs (sock', foldl after_call k cs)"
| step_set_options:
    "TecSocket_set_options sock r1 r2 = (e, cs) \<Longrightarrow> socket_step (sock, k) cs (sock, foldl after_call k cs)"
| step_bind:
    "TecSocket_bind sock r = (e, cs) \<Longrightarrow> socket_step (sock, k) cs (sock, foldl after_call k cs)"
| step_listen:
    "TecSocket_listen sock r = (e, cs) \<Longrightarrow> socket_step (sock, k) cs (sock, foldl after_call k cs)"
| step_write:
    "TecSocket_write sock src n = Inr (e, cs) \<Longrightarrow> socket_step (sock, k) cs (sock, foldl after_call k cs)"
| step_write_str:
    "TecSocket_write_str sock s n = Inr (e, cs) \<Longrightarrow> socket_step (sock, k) cs (sock, foldl after_call k cs)"
| step_close:
    "TecSocket_close sock = (cs, sock') \<Longrightarrow> socket_step (sock, k) cs (sock', foldl after_call k cs)"
| step_done:
    "TecSocket_done sock = (cs, sock') \<Longrightarrow> socket_step (sock, k) cs (sock', foldl after_call k cs)"


inductive socket_reach :: "TecSocket \<times> kernel \<Rightarrow> bool" where
  reach_init: "TecSocket_init env params = Inr sock \<Longrightarrow> socket_reach (sock, \<lparr>k_fds = {}, k_lists = {}\<rparr>)"
| reach_step: "socket_reach s \<Longrightarrow> socket_step s cs s' \<Longrightarrow> socket_reach s'"

text \<open>The type of a socket: its descriptor is the only one open, and it holds its address list.\<close>

fun socket_typed :: "TecSocket \<times> kernel \<Rightarrow> bool" where
  "socket_typed (sock, k) \<longleftrightarrow>
     k_fds k = (if sk_fd sock = - 1 then {} else {sk_fd sock}) \<and>
     (sk_fd sock = - 1 \<longleftrightarrow> sk_pai sock = NULL) \<and> (sk_pai sock \<noteq> NULL \<longrightarrow> sk_pai sock \<in> k_lists k)"

lemma write_calls:
  "TecSocket_write sock src n = Inr (e, cs) \<Longrightarrow> \<forall>c \<in> set cs. \<exists>bs. c = Sys_write (sk_fd sock) bs"
  by (cases n) (auto simp: TecSocket_write_def Let_def bind_outcome_Inr_iff split: if_splits)

lemma write_str_calls:
  "TecSocket_write_str sock s n = Inr (e, cs) \<Longrightarrow> \<forall>c \<in> set cs. \<exists>bs. c = Sys_write (sk_fd sock) bs"
  by (auto simp: TecSocket_write_str_def Let_def split: option.splits dest!: write_calls)

lemma harmless_calls:
  "\<forall>c \<in> set cs. call_ok k c \<and> after_call k c = k \<Longrightarrow> calls_ok k cs \<and> foldl after_call k cs = k"
  by (induction cs) simp_all

lemma writes_typed:
  assumes "\<forall>c \<in> set cs. \<exists>bs. c = Sys_write (sk_fd sock) bs" and "socket_typed (sock, k)"
  shows "calls_ok k cs \<and> foldl after_call k cs = k"
  using assms by (intro harmless_calls) auto

lemma set_options_typed:
  assumes "TecSocket_set_options sock r1 r2 = (e, cs)" and "socket_typed (sock, k)"
  shows "calls_ok k cs \<and> foldl after_call k cs = k"
  using assms
  by (intro harmless_calls) (auto simp: TecSocket_set_options_def TecSocket_is_valid_def Let_def split: if_splits)

lemma bind_typed:
  assumes "TecSocket_bind sock r = (e, cs)" and "socket_typed (sock, k)"
  shows "calls_ok k cs \<and> foldl after_call k cs = k"
  using assms
  by (intro harmless_calls) (auto simp: TecSocket_bind_def TecSocket_is_valid_def split: if_splits)

lemma listen_typed:
  assumes "TecSocket_listen sock r = (e, cs)" and "socket_typed (sock, k)"
  shows "calls_ok k cs \<and> foldl after_call k cs = k"
  using assms
  by (intro harmless_calls) (auto simp: TecSocket_listen_def TecSocket_is_valid_def split: if_splits)

lemma close_typed:
  assumes "socket_typed (sock, k)" and "TecSocket_close sock = (cs, sock')"
  shows "calls_ok k cs \<and> socket_typed (sock', foldl after_call k cs)"
  using assms by (auto simp: TecSocket_close_def split: if_splits)

lemma open_typed:
  assumes "socket_typed (sock, k)" and "TecSocket_open sock gai so = (e, cs, sock')"
    and "sk_fd sock = - 1" and "fresh_grant gai so k"
  shows "calls_ok k cs \<and> socket_typed (sock', if cs = [] then k else granted gai so k)"
  using assms
  by (auto simp: TecSocket_open_def granted_def fresh_grant_def Let_def split: if_splits sum.splits)

lemma connect_typed:
  assumes t: "socket_typed (sock, k)" and c: "TecSocket_connect sock ok info = (e, cs, sock')"
  shows "calls_ok k cs \<and> socket_typed (sock', foldl after_call k cs)"
proof (cases "sk_fd sock = - 1 \<or> sk_pai sock = NULL \<or> ok")
  case True
  then show ?thesis
    using t c
    by (auto simp: TecSocket_connect_def get_socket_info_def Let_def
        split: if_splits sum.splits peer.splits)
next
  case False
  then obtain cs' where "TecSocket_close sock = (cs', sock')"
    "cs = Sys_connect (sk_fd sock) (sk_pai sock) # cs'"
    using c by (auto simp: TecSocket_connect_def Let_def split: prod.splits)
  then show ?thesis using close_typed [OF t, of cs' sock'] t False by auto
qed

lemma step_typed:
  assumes "socket_typed (sock, k)" and "socket_step (sock, k) cs s'"
  shows "calls_ok k cs \<and> socket_typed s'"
  using assms(2)
proof (cases rule: socket_step.cases)
  case step_open
  then show ?thesis using open_typed [OF assms(1)] by simp
next
  case step_connect
  then show ?thesis using connect_typed [OF assms(1)] by simp
next
  case step_write
  then show ?thesis using writes_typed [OF write_calls assms(1)] assms(1) by simp
next
  case step_write_str
  then show ?thesis using writes_typed [OF write_str_calls assms(1)] assms(1) by simp
next
  case step_close
  then show ?thesis using close_typed [OF assms(1)] by simp
next
  case step_done
  then show ?thesis using close_typed [OF assms(1)] by (simp add: TecSocket_done_def)
next
  case step_set_options
  then show ?thesis using set_options_typed [OF _ assms(1)] assms(1) by simp
next
  case step_bind
  then show ?thesis using bind_typed [OF _ assms(1)] assms(1) by simp
next
  case step_listen
  then show ?thesis using listen_typed [OF _ assms(1)] assms(1) by simp
qed

lemma reach_typed: "socket_reach s \<Longrightarrow> socket_typed s"
proof (induction rule: socket_reach.induct)
  case (reach_init env params sock)
  then show ?case by (auto simp: TecSocket_init_def bind_outcome_Inr_iff)
next
  case (reach_step s cs s')
  obtain sock k where s: "s = (sock, k)" by (cases s)
  show ?case
    using step_typed [of sock k cs s'] reach_step.hyps(2) reach_step.IH unfolding s by blast
qed

text \<open>
  C17: whatever a client does with a socket it only opens while it is closed,
  no call uses, closes or frees a descriptor or an address list that is not open or held at
  that moment, and whenever the socket is closed no descriptor is open.
\<close>

theorem socket_typestate:
  assumes "socket_reach (sock, k)"
  shows "(\<forall>cs s'. socket_step (sock, k) cs s' \<longrightarrow> calls_ok k cs) \<and>
     k_fds k = (if TecSocket_is_valid sock then {sk_fd sock} else {})"
proof -
  have t: "socket_typed (sock, k)" by (rule reach_typed [OF assms])
  then have "\<forall>cs s'. socket_step (sock, k) cs s' \<longrightarrow> calls_ok k cs" using step_typed by blast
  with t show ?thesis by (simp add: TecSocket_is_valid_def)
qed

theorem socket_typestate_witness:
  "\<exists>sock k. socket_reach (sock, k) \<and> sk_fd sock = 5 \<and> k_fds k = {5} \<and>
     (\<forall>cs s'. socket_step (sock, k) cs s' \<longrightarrow> calls_ok k cs)"
proof -
  have "TecSocket_init (ample None) TecSocketParams_init = Inr closed_socket"
    by (simp add: socket_init TecSocketParams_init_def TECC_SOCK_BUFFER_SIZE_def closed_socket_def)
  then have "socket_reach (closed_socket, \<lparr>k_fds = {}, k_lists = {}\<rparr>)" by (rule reach_init)
  moreover
  let ?cs = "[Sys_getaddrinfo (par_addr TecSocketParams_init) (par_port TecSocketParams_init)
      (par_flags TecSocketParams_init), Sys_socket]"
  have f: "sk_fd closed_socket = - 1" "par_socktype (sk_params closed_socket) = SOCK_STREAM"
    "sk_params closed_socket = TecSocketParams_init"
    by (simp_all add: closed_socket_def TecSocketParams_init_def kTecDefaultSockType_def)
  have "TecSocket_open closed_socket (Inr 64) (Inr 5) = (0, ?cs, closed_socket\<lparr>sk_fd := 5, sk_pai := 64\<rparr>)"
    using f by (simp add: TecSocket_open_def Let_def)
  from step_open [OF this f(1), of "\<lparr>k_fds = {}, k_lists = {}\<rparr>"]
  have "socket_step (closed_socket, \<lparr>k_fds = {}, k_lists = {}\<rparr>) ?cs
      (closed_socket\<lparr>sk_fd := 5, sk_pai := 64\<rparr>, \<lparr>k_fds = {5}, k_lists = {64}\<rparr>)"
    by (simp add: fresh_grant_def granted_def)
  ultimately have r: "socket_reach (closed_socket\<lparr>sk_fd := 5, sk_pai := 64\<rparr>, \<lparr>k_fds = {5}, k_lists = {64}\<rparr>)"
    by (rule reach_step)
  have "sk_fd (closed_socket\<lparr>sk_fd := 5, sk_pai := 64\<rparr>) = 5" "k_fds \<lparr>k_fds = {5}, k_lists = {64}\<rparr> = {5}"
    by simp_all
  with socket_typestate [OF r] r show ?thesis by blast
qed

end
