(* ===== verification/TecTCPClient.thy ===== *)
theory TecTCPClient
  imports TecSocket TecService
begin

text \<open>
  Models \<open>tecc_tcp_client.c\<close> and \<open>tecc_tcp_client.h\<close>: a client that is a service, with calls
  that send and receive under a lock.
\<close>

section \<open>Model\<close>

text \<open>\<open>cl_calls\<close> collects the system calls \<open>start\<close> and \<open>shutdown\<close> have made.\<close>

record TecTCPClient =
  cl_socket_params :: TecSocketParams
  cl_sock :: TecSocket
  cl_buffer :: TecBuffer
  cl_guard :: TecMutex
  cl_calls :: "sys_call list"

text \<open>What the system does while the client starts.\<close>

record client_env =
  ce_mem :: buffer_env
  ce_gai :: "int + ptr"
  ce_socket :: "int + int"
  ce_connect :: bool
  ce_peer :: "int + peer"

definition TecTCPClient_init :: "buffer_env \<Rightarrow> TecSocketParams \<Rightarrow> int \<Rightarrow> TecTCPClient outcome" where
  "TecTCPClient_init env socket_params mrc =
     bind_outcome (TecSocket_init env socket_params) (\<lambda>sock.
     bind_outcome (TecBuffer_init env 0 (par_buffer_size socket_params)) (\<lambda>buf.
       Inr \<lparr>cl_socket_params = socket_params, cl_sock = sock, cl_buffer = buf,
            cl_guard = TecMutex_init \<lparr>mtx_result = None\<rparr> mrc, cl_calls = []\<rparr>))"

definition client_start ::
  "client_env \<Rightarrow> TecTCPClient \<Rightarrow> TecSignal \<Rightarrow> (int \<times> TecSignal \<times> TecTCPClient) outcome" where
  "client_start ce self sig_started =
     (let (err, cs, sock) = TecSocket_open (cl_sock self) (ce_gai ce) (ce_socket ce);
          (err, cs', sock) =
            (if err = 0 then TecSocket_connect sock (ce_connect ce) (ce_peer ce) else (err, [], sock));
          size = par_buffer_size (cl_socket_params self)
      in bind_outcome (if err = 0 then TecBuffer_init (ce_mem ce) size size else Inr (cl_buffer self))
           (\<lambda>buf.
         Inr (err, snd (snd (TecSignal_set sig_started 0 0)),
              self\<lparr>cl_sock := sock, cl_buffer := buf, cl_calls := cl_calls self @ cs @ cs'\<rparr>)))"

definition client_shutdown :: "TecTCPClient \<Rightarrow> TecSignal \<Rightarrow> (TecSignal \<times> TecTCPClient) outcome" where
  "client_shutdown self sig_stopped =
     (let (cs, sock) = TecSocket_close (cl_sock self)
      in Inr (snd (snd (TecSignal_set sig_stopped 0 0)),
              self\<lparr>cl_sock := sock, cl_calls := cl_calls self @ cs\<rparr>))"

text \<open>
  The calls on the guard are returned with the result. A read that blocks, \<open>None\<close>, does so with
  the guard held.
\<close>

definition guard_calls :: "'a option \<Rightarrow> mon_call list" where
  "guard_calls r = (case r of None \<Rightarrow> [Lock 0] | Some _ \<Rightarrow> [Lock 0, Unlock])"

definition client_send ::
  "TecTCPClient \<Rightarrow> TecBuffer \<Rightarrow> int + nat \<Rightarrow> (int \<times> mon_call list \<times> sys_call list) outcome" where
  "client_send self data r =
     bind_outcome (TecSocket_write (cl_sock self) data r) (\<lambda>(err, cs). Inr (err, [Lock 0, Unlock], cs))"

definition client_send_str ::
  "TecTCPClient \<Rightarrow> u8 list option \<Rightarrow> int + nat \<Rightarrow> (int \<times> mon_call list \<times> sys_call list) outcome" where
  "client_send_str self str r =
     bind_outcome (TecSocket_write_str (cl_sock self) str r) (\<lambda>(err, cs). Inr (err, [Lock 0, Unlock], cs))"

definition client_recv ::
  "buffer_env \<Rightarrow> TecTCPClient \<Rightarrow> TecBuffer \<Rightarrow> read_result list
   \<Rightarrow> ((int \<times> TecBuffer) option \<times> mon_call list) outcome" where
  "client_recv env self data rs =
     bind_outcome (TecSocket_read env (cl_sock self) data rs) (\<lambda>x. Inr (x, guard_calls x))"

definition client_send_recv ::
  "buffer_env \<Rightarrow> TecTCPClient \<Rightarrow> TecBuffer \<Rightarrow> TecBuffer \<Rightarrow> int + nat \<Rightarrow> read_result list
   \<Rightarrow> ((int \<times> TecBuffer) option \<times> mon_call list \<times> sys_call list) outcome" where
  "client_send_recv env self data_in data_out r rs =
     bind_outcome (TecSocket_write (cl_sock self) data_in r) (\<lambda>(error, cs).
       if error \<noteq> 0 then Inr (Some (error, data_out), [Lock 0, Unlock], cs)
       else bind_outcome (TecSocket_read env (cl_sock self) data_out rs) (\<lambda>x. Inr (x, guard_calls x, cs)))"

definition client_send_recv_str ::
  "buffer_env \<Rightarrow> TecTCPClient \<Rightarrow> u8 list option \<Rightarrow> TecBuffer \<Rightarrow> int + nat \<Rightarrow> read_result list
   \<Rightarrow> ((int \<times> TecBuffer) option \<times> mon_call list \<times> sys_call list) outcome" where
  "client_send_recv_str env self str data_out r rs =
     bind_outcome (TecSocket_write_str (cl_sock self) str r) (\<lambda>(error, cs).
       if error \<noteq> 0 then Inr (Some (error, data_out), [Lock 0, Unlock], cs)
       else bind_outcome (TecSocket_read env (cl_sock self) data_out rs) (\<lambda>x. Inr (x, guard_calls x, cs)))"

definition TecTCPClient_done :: "TecTCPClient \<Rightarrow> (mon_call list \<times> TecTCPClient) outcome" where
  "TecTCPClient_done self =
     bind_outcome (TecMutex_destroy (cl_guard self)) (\<lambda>ms.
     let (cs, sock) = TecSocket_done (cl_sock self)
     in Inr (ms, self\<lparr>cl_buffer := TecBuffer_done (cl_buffer self), cl_sock := sock,
                      cl_calls := cl_calls self @ cs\<rparr>))"

definition client_service :: "client_env \<Rightarrow> TecTCPClient TecService" where
  "client_service ce =
     \<lparr>svc_start = client_start ce, svc_shutdown = client_shutdown,
      svc_done = Some (\<lambda>self. bind_outcome (TecTCPClient_done self) (\<lambda>(ms, self). Inr self))\<rparr>"

section \<open>The client keeps the contract of a service\<close>

definition client_ok :: "client_env \<Rightarrow> TecTCPClient \<Rightarrow> bool" where
  "client_ok ce self \<longleftrightarrow> env_ok (ce_mem ce) \<and> par_buffer_size (cl_socket_params self) \<noteq> 0"

lemma client_start_returns:
  assumes "client_ok ce self"
  shows "\<exists>e s'. client_start ce self sig = Inr (e, snd (snd (TecSignal_set sig 0 0)), s')"
  using assms TecBuffer_init_result [of "ce_mem ce"]
  by (auto simp: client_start_def client_ok_def Let_def split: prod.splits)

interpretation tcp_client: closing_service "client_start ce" client_shutdown "client_ok ce" "\<lambda>_. True"
  "\<lambda>self. sk_fd (cl_sock self) = - 1" for ce
proof
  show "\<exists>e s'. client_start ce s sig = Inr (e, snd (snd (TecSignal_set sig 0 0)), s') \<and> True"
    if "client_ok ce s" for s sig
    using client_start_returns [OF that] by auto
  show "\<exists>s'. client_shutdown s sig = Inr (snd (snd (TecSignal_set sig 0 0)), s')" for s sig
    by (simp add: client_shutdown_def split: prod.splits)
  show "sk_fd (cl_sock s') = - 1" if "client_shutdown s sig = Inr (sig', s')" for s sig sig' s'
    using that close_leaves_closed by (auto simp: client_shutdown_def split: prod.splits)
qed

section \<open>Properties\<close>

text \<open>
  The socket of a client that was created and started has no buffer, so
  \<open>recv\<close> asks the system for 0 bytes: it returns 0 with nothing received, whatever the peer
  has sent, and so does a \<open>send_recv\<close> whose send succeeded.
\<close>

theorem client_recv_nothing:
  assumes "TecTCPClient_init env params mrc = Inr self" and "par_buffer_size params \<noteq> 0"
    and "client_start ce self sig = Inr (0, sig', self')"
  shows "client_recv env' self' data (Received bs # rs) = Inr (Some (0, data), [Lock 0, Unlock]) \<and>
     (\<forall>data_in r cs. client_send self' data_in r = Inr (0, [Lock 0, Unlock], cs) \<longrightarrow>
        client_send_recv env' self' data_in data r (Received bs # rs)
          = Inr (Some (0, data), [Lock 0, Unlock], cs))"
proof -
  have self: "sk_buf (cl_sock self) = fresh_buffer (par_buffer_size params)"
    using assms(1,2)
    by (auto simp: TecTCPClient_init_def socket_init bind_outcome_Inr_iff)
  have "sk_buf (cl_sock self') = sk_buf (cl_sock self)"
    using assms(3)
    by (auto simp: client_start_def TecSocket_open_def TecSocket_connect_def TecSocket_close_def
        get_socket_info_def bind_outcome_Inr_iff Let_def split: if_splits sum.splits prod.splits peer.splits)
  then show ?thesis
    by (auto simp: self client_recv_def client_send_def client_send_recv_def guard_calls_def
        TecSocket_read_def fresh_buffer_def bind_outcome_Inr_iff)
qed

definition new_client :: TecTCPClient where
  "new_client = \<lparr>cl_socket_params = TecSocketParams_init, cl_sock = closed_socket,
     cl_buffer = fresh_buffer 1024, cl_guard = \<lparr>mtx_result = Some 0\<rparr>, cl_calls = []\<rparr>"

definition up_env :: client_env where
  "up_env = \<lparr>ce_mem = ample None, ce_gai = Inr 64, ce_socket = Inr 5, ce_connect = True,
     ce_peer = Inr (Inet [49] 4321)\<rparr>"

lemma new_client_init: "TecTCPClient_init (ample None) TecSocketParams_init 0 = Inr new_client"
  by (simp add: TecTCPClient_init_def socket_init TecBuffer_init_result new_client_def closed_socket_def
      TecMutex_init_def TecSocketParams_init_def TECC_SOCK_BUFFER_SIZE_def env_ok_ample)

lemma new_client_start: "\<exists>self. client_start up_env new_client sig =
   Inr (0, snd (snd (TecSignal_set sig 0 0)), self)"
  by (simp add: client_start_def up_env_def new_client_def closed_socket_def TecSocket_open_def
      TecSocket_connect_def get_socket_info_def TecSocketParams_init_def kTecDefaultSockType_def
      TECC_SOCK_BUFFER_SIZE_def TecBuffer_init_result env_ok_ample Let_def)

theorem client_recv_nothing_witness:
  "\<exists>sig' self. client_start up_env new_client \<lparr>sig_value = 0, sig_mtx = \<lparr>mtx_result = Some 0\<rparr>,
       sig_cnd = \<lparr>cv_result = Some 0\<rparr>\<rparr> = Inr (0, sig', self) \<and>
     client_recv (ample None) self (one_block_buffer 4) [Received [72, 105]]
       = Inr (Some (0, one_block_buffer 4), [Lock 0, Unlock])"
  using new_client_start client_recv_nothing [OF new_client_init]
  by (fastforce simp: TecSocketParams_init_def TECC_SOCK_BUFFER_SIZE_def)

text \<open>How often the descriptor and the list have been, or will yet be, released.\<close>

definition released :: "int \<Rightarrow> ptr \<Rightarrow> sys_call list \<Rightarrow> TecSocket \<Rightarrow> bool" where
  "released fd res cs sock \<longleftrightarrow>
     count_list cs (Sys_close fd) = (if sk_fd sock = - 1 then 1 else 0) \<and>
     count_list cs (Sys_freeaddrinfo res) = (if sk_fd sock = - 1 then 1 else 0) \<and>
     (sk_fd sock = - 1 \<or> sk_fd sock = fd \<and> sk_pai sock = res)"

lemma close_released:
  assumes "released fd res cs sock" and "fd \<noteq> - 1" and "res \<noteq> NULL" and "TecSocket_close sock = (cs', sock')"
  shows "released fd res (cs @ cs') sock' \<and> sk_fd sock' = - 1"
  using assms by (auto simp: released_def TecSocket_close_def split: if_splits)

lemma connect_released:
  assumes "TecSocket_connect sock ok info = (err, cs, sock')" and "sk_fd sock = fd" and "sk_pai sock = res"
    and "fd \<noteq> - 1" and "res \<noteq> NULL"
  shows "released fd res cs sock'"
proof (cases ok)
  case True
  obtain e s where g: "get_socket_info sock info = (e, s)" by (cases "get_socket_info sock info")
  have "sk_fd s = sk_fd sock" "sk_pai s = sk_pai sock"
    using g by (auto simp: get_socket_info_def Let_def split: sum.splits peer.splits)
  then show ?thesis using assms True g by (auto simp: TecSocket_connect_def released_def Let_def)
next
  case False
  then show ?thesis using assms by (auto simp: TecSocket_connect_def TecSocket_close_def released_def Let_def)
qed

lemma start_released:
  assumes "client_start ce self sig = Inr (err, sig', self')"
    and "par_socktype (sk_params (cl_sock self)) = SOCK_STREAM" and "cl_calls self = []"
    and "ce_gai ce = Inr res" and "ce_socket ce = Inr fd" and "fd \<noteq> - 1" and "res \<noteq> NULL"
  shows "released fd res (cl_calls self') (cl_sock self')"
proof -
  let ?sock = "(cl_sock self)\<lparr>sk_fd := fd, sk_pai := res\<rparr>"
  obtain e cs sock where c: "TecSocket_connect ?sock (ce_connect ce) (ce_peer ce) = (e, cs, sock)"
    by (cases "TecSocket_connect ?sock (ce_connect ce) (ce_peer ce)")
  have "released fd res cs sock" by (rule connect_released [OF c]) (use assms(6,7) in simp_all)
  then have "released fd res ([x, Sys_socket] @ cs) sock" if "\<exists>a b d. x = Sys_getaddrinfo a b d" for x
    using that by (auto simp: released_def)
  moreover have "\<exists>a b d. cl_calls self' = [Sys_getaddrinfo a b d, Sys_socket] @ cs \<and> cl_sock self' = sock"
    using assms(1-5) c by (auto simp: client_start_def TecSocket_open_def bind_outcome_Inr_iff Let_def)
  ultimately show ?thesis by metis
qed

text \<open>
  Whatever happens while a client starts, after shutdown and \<open>done\<close> the
  descriptor it was given has been closed exactly once and its address list freed once.
\<close>

theorem client_closes_once:
  assumes "TecTCPClient_init env params mrc = Inr self"
    and "par_socktype params = SOCK_STREAM"
    and "client_start ce self sig = Inr (err, sig1, self1)"
    and "ce_gai ce = Inr res" and "ce_socket ce = Inr fd" and "fd \<noteq> - 1" and "res \<noteq> NULL"
    and "client_shutdown self1 sig' = Inr (sig2, self2)"
    and "TecTCPClient_done self2 = Inr (ms, self3)"
  shows "count_list (cl_calls self3) (Sys_close fd) = 1 \<and>
     count_list (cl_calls self3) (Sys_freeaddrinfo res) = 1 \<and> sk_fd (cl_sock self3) = - 1"
proof -
  have self: "sk_params (cl_sock self) = params" "cl_calls self = []"
    using assms(1) by (auto simp: TecTCPClient_init_def TecSocket_init_def bind_outcome_Inr_iff)
  have r1: "released fd res (cl_calls self1) (cl_sock self1)"
    using start_released [OF assms(3) _ self(2) assms(4-7)] assms(2) self(1) by simp
  obtain cs sock where c: "TecSocket_close (cl_sock self1) = (cs, sock)"
    by (cases "TecSocket_close (cl_sock self1)")
  have "released fd res (cl_calls self1 @ cs) sock \<and> sk_fd sock = - 1"
    by (rule close_released [OF r1 assms(6,7) c])
  moreover have "self2 = self1\<lparr>cl_sock := sock, cl_calls := cl_calls self1 @ cs\<rparr>"
    using assms(8) c by (simp add: client_shutdown_def)
  ultimately show ?thesis
    using assms(9)
    by (auto simp: TecTCPClient_done_def TecSocket_done_def close_closed released_def bind_outcome_Inr_iff)
qed

lemma refused_start:
  "\<exists>self1. client_start (up_env\<lparr>ce_connect := False\<rparr>) new_client sig
     = Inr (ECONNREFUSED, snd (snd (TecSignal_set sig 0 0)), self1) \<and> cl_guard self1 = \<lparr>mtx_result = Some 0\<rparr>"
  by (simp add: client_start_def up_env_def new_client_def closed_socket_def TecSocket_open_def
      TecSocket_connect_def TecSocket_close_def TecSocketParams_init_def kTecDefaultSockType_def
      ECONNREFUSED_def Let_def)

definition clear_signal :: TecSignal where
  "clear_signal = \<lparr>sig_value = 0, sig_mtx = \<lparr>mtx_result = Some 0\<rparr>, sig_cnd = \<lparr>cv_result = Some 0\<rparr>\<rparr>"

theorem client_closes_once_witness:
  "\<exists>sig1 self1 sig2 self2 ms self3.
     client_start (up_env\<lparr>ce_connect := False\<rparr>) new_client clear_signal = Inr (ECONNREFUSED, sig1, self1) \<and>
     client_shutdown self1 clear_signal = Inr (sig2, self2) \<and> TecTCPClient_done self2 = Inr (ms, self3) \<and>
     count_list (cl_calls self3) (Sys_close 5) = 1"
proof -
  obtain self1 where 1: "client_start (up_env\<lparr>ce_connect := False\<rparr>) new_client clear_signal
       = Inr (ECONNREFUSED, snd (snd (TecSignal_set clear_signal 0 0)), self1)"
      "cl_guard self1 = \<lparr>mtx_result = Some 0\<rparr>" using refused_start by blast
  obtain cs sock where c: "TecSocket_close (cl_sock self1) = (cs, sock)"
    by (cases "TecSocket_close (cl_sock self1)")
  let ?self2 = "self1\<lparr>cl_sock := sock, cl_calls := cl_calls self1 @ cs\<rparr>"
  have 2: "client_shutdown self1 clear_signal = Inr (snd (snd (TecSignal_set clear_signal 0 0)), ?self2)"
    by (simp add: client_shutdown_def c)
  obtain ms self3 where 3: "TecTCPClient_done ?self2 = Inr (ms, self3)"
    using 1(2)
    by (cases "TecSocket_done sock")
      (simp add: TecTCPClient_done_def TecMutex_destroy_def TecMutex_ok_def read_field_def)
  have "count_list (cl_calls self3) (Sys_close 5) = 1"
    using client_closes_once [OF new_client_init _ 1(1) _ _ _ _ 2 3, of 64 5]
    by (simp add: up_env_def TecSocketParams_init_def kTecDefaultSockType_def)
  then show ?thesis using 1(1) 2 3 by blast
qed

lemma client_init_fields:
  assumes "TecTCPClient_init env params mrc = Inr self"
  shows "cl_socket_params self = params" "sk_params (cl_sock self) = params" "cl_calls self = []"
  using assms by (auto simp: TecTCPClient_init_def TecSocket_init_def bind_outcome_Inr_iff)

text \<open>The error a client reports when it starts: resolving, the socket, connecting, in this order.\<close>

definition start_error :: "client_env \<Rightarrow> int" where
  "start_error ce =
     (case ce_gai ce of
        Inl err \<Rightarrow> err
      | Inr res \<Rightarrow> (case ce_socket ce of
          Inl err \<Rightarrow> err
        | Inr fd \<Rightarrow>
            if fd = - 1 \<or> res = NULL then EBADF
            else if \<not> ce_connect ce then ECONNREFUSED
            else (case ce_peer ce of
              Inl err \<Rightarrow> err
            | Inr Other_family \<Rightarrow> EPROTONOSUPPORT
            | Inr _ \<Rightarrow> 0)))"

lemma start_error_start:
  assumes "client_start ce self sig = Inr (e, sig', self')"
    and "par_socktype (sk_params (cl_sock self)) = SOCK_STREAM"
    and "\<forall>err. ce_gai ce = Inl err \<or> ce_socket ce = Inl err \<or> ce_peer ce = Inl err \<longrightarrow> err \<noteq> 0"
  shows "e = start_error ce"
  using assms
  by (auto simp: client_start_def start_error_def TecSocket_open_def TecSocket_connect_def get_socket_info_def
      TecSocket_close_def bind_outcome_Inr_iff Let_def ECONNREFUSED_def EBADF_def EPROTONOSUPPORT_def
      split: if_splits sum.splits prod.splits peer.splits)

end
