(* ===== verification/TecTCPServer.thy ===== *)
theory TecTCPServer
  imports TecSocket TecService TecPayload
begin

text \<open>
  Models \<open>tecc_tcp_server.c\<close> and \<open>tecc_tcp_server.h\<close>: a listening socket, the loop that
  accepts connections, and their dispatch, in the same thread or through a thread pool.
\<close>

section \<open>Model\<close>

definition TECC_LOG_SVR_CONNECTING :: int where "TECC_LOG_SVR_CONNECTING = 29001"
definition TECC_LOG_SVR_CONN_OK :: int where "TECC_LOG_SVR_CONN_OK = 29002"
definition TECC_LOG_SVR_CONN_FAILED :: int where "TECC_LOG_SVR_CONN_FAILED = 29003"
definition TECC_LOG_SVR_SHUTDOWN :: int where "TECC_LOG_SVR_SHUTDOWN = 29004"

text \<open>What the server does, in order: system calls, connections handled, entries logged.\<close>

datatype server_event = Call sys_call | Handled int | Logged int

text \<open>
  \<open>sv_log\<close>: whether a log function is set; \<open>sv_polling\<close>: whether a thread is in the loop;
  \<open>sv_thread_pool\<close>: the pool the pointer reaches.
\<close>

record TecTCPServer =
  sv_socket_params :: TecSocketParams
  sv_sock :: TecSocket
  sv_running :: bool
  sv_sig_polling_stopped :: TecSignal
  sv_buffer :: TecBuffer
  sv_thread_pool :: "TecThrPool option"
  sv_log :: bool
  sv_polling :: bool
  sv_events :: "server_event list"

text \<open>
  What surrounds the server: memory; the handler of connections as the user wrote it, with
  its status and what it leaves of the socket; the bytes of a socket object and its size.
\<close>

record server_env =
  se_mem :: buffer_env
  se_client_proc :: "TecSocket \<Rightarrow> int \<times> TecSocket"
  se_bytes :: "TecSocket \<Rightarrow> u8 list"
  se_dispatch :: ptr
  se_self :: ptr

definition emit :: "server_event list \<Rightarrow> TecTCPServer \<Rightarrow> TecTCPServer" where
  "emit es self = self\<lparr>sv_events := sv_events self @ es\<rparr>"

text \<open>The default handler.\<close>

definition client_proc :: "TecSocket \<Rightarrow> int \<times> TecSocket" where
  "client_proc sock = (0, sock)"

definition TecTCPServer_init ::
  "buffer_env \<Rightarrow> TecSocketParams \<Rightarrow> int \<Rightarrow> int \<Rightarrow> TecTCPServer outcome" where
  "TecTCPServer_init env socket_params mrc crc =
     bind_outcome (TecSocket_init_server env socket_params) (\<lambda>sock.
     bind_outcome (TecBuffer_init env 0 (par_buffer_size (sk_params sock))) (\<lambda>buf.
     bind_outcome (TecSignal_init \<lparr>sig_value = 0, sig_mtx = \<lparr>mtx_result = None\<rparr>,
         sig_cnd = \<lparr>cv_result = None\<rparr>\<rparr> mrc crc) (\<lambda>(ok, cs, s).
       Inr \<lparr>sv_socket_params = sk_params sock, sv_sock = sock, sv_running = True,
            sv_sig_polling_stopped = s, sv_buffer = buf, sv_thread_pool = None, sv_log = False,
            sv_polling = False, sv_events = []\<rparr>)))"

definition TecTCPServer_use_thread_pool :: "TecTCPServer \<Rightarrow> TecThrPool option \<Rightarrow> TecTCPServer" where
  "TecTCPServer_use_thread_pool self pool = self\<lparr>sv_thread_pool := pool\<rparr>"

definition TecTCPServer_set_client_proc ::
  "server_env \<Rightarrow> (TecSocket \<Rightarrow> int \<times> TecSocket) \<Rightarrow> server_env" where
  "TecTCPServer_set_client_proc se f = se\<lparr>se_client_proc := f\<rparr>"

text \<open>Serving one connection: the events, in order.\<close>

definition dispatch_client :: "server_env \<Rightarrow> bool \<Rightarrow> TecSocket \<Rightarrow> TecBuffer \<Rightarrow> server_event list" where
  "dispatch_client se log sock buf =
     (let sock = sock\<lparr>sk_buf := buf\<rparr>;
          fd = sk_fd sock;
          (status, sock) = se_client_proc se sock
      in [Handled fd] @ (if log then [Logged status] else []) @ map Call (fst (TecSocket_done sock)))"

text \<open>
  What a call of \<open>accept\<close> gives: \<open>errno\<close>, or a descriptor and its peer. \<open>ac_pt\<close> and \<open>ac_pq\<close>
  are what the allocator would give for a task and its queue node.
\<close>

record accepted =
  ac_result :: "int + int"
  ac_peer :: "int + peer"
  ac_pt :: ptr
  ac_pq :: ptr

definition poll_once :: "server_env \<Rightarrow> TecTCPServer \<Rightarrow> accepted \<Rightarrow> TecTCPServer outcome" where
  "poll_once se self a =
     bind_outcome (TecSocket_accept (se_mem se) (sv_sock self) (ac_result a) (ac_peer a)) (\<lambda>(cs, cli).
     let self = emit (map Call cs) self
     in if \<not> TecSocket_is_valid cli then Inr self
        else case sv_thread_pool self of
          Some pool \<Rightarrow>
            bind_outcome (TecThrPool_enqueue pool (se_dispatch se) (Some (se_bytes se cli)) (se_self se)
                (ac_pt a) (ac_pq a))
              (\<lambda>pool. Inr (self\<lparr>sv_thread_pool := Some pool\<rparr>))
        | None \<Rightarrow> Inr (emit (dispatch_client se (sv_log self) cli (sv_buffer self)) self))"

text \<open>The end of the loop.\<close>

definition poll_end :: "TecTCPServer \<Rightarrow> TecTCPServer" where
  "poll_end self = self\<lparr>sv_polling := False,
     sv_sig_polling_stopped := snd (snd (TecSignal_set (sv_sig_polling_stopped self) 0 0))\<rparr>"

text \<open>
  The loop of \<open>poll_\<close> on the results of \<open>accept\<close> that are given; when they are used up and the
  server is running, the thread is blocked in the next \<open>accept\<close>.
\<close>

fun poll :: "server_env \<Rightarrow> TecTCPServer \<Rightarrow> accepted list \<Rightarrow> TecTCPServer outcome" where
  "poll se self [] = Inr (if sv_running self then self else poll_end self)"
| "poll se self (a # as) =
     (if sv_running self then bind_outcome (poll_once se self a) (\<lambda>self. poll se self as)
      else Inr (poll_end self))"

text \<open>What the system does while the server starts.\<close>

record listen_env =
  le_gai :: "int + ptr"
  le_socket :: "int + int"
  le_reuse_addr :: "int option"
  le_reuse_port :: "int option"
  le_bind :: "int option"
  le_listen :: "int option"

text \<open>\<open>open\<close>, \<open>set_options\<close> (its result dropped), \<open>bind\<close>, \<open>listen\<close> up to the first error.\<close>

definition start_listening :: "listen_env \<Rightarrow> TecSocket \<Rightarrow> int \<times> sys_call list \<times> TecSocket" where
  "start_listening le sock =
     (let (err, cs, sock) = TecSocket_open sock (le_gai le) (le_socket le)
      in if err \<noteq> 0 then (err, cs, sock)
         else
           let (_, cs1) = TecSocket_set_options sock (le_reuse_addr le) (le_reuse_port le);
               (err, cs2) = TecSocket_bind sock (le_bind le)
           in if err \<noteq> 0 then (err, cs @ cs1 @ cs2, sock)
              else let (err, cs3) = TecSocket_listen sock (le_listen le)
                   in (err, cs @ cs1 @ cs2 @ cs3, sock))"

text \<open>Up to the signal that the server has started; on success the thread then enters \<open>poll\<close>.\<close>

definition server_start ::
  "server_env \<Rightarrow> listen_env \<Rightarrow> TecTCPServer \<Rightarrow> TecSignal \<Rightarrow> (int \<times> TecSignal \<times> TecTCPServer) outcome" where
  "server_start se le self sig_started =
     (let log = (\<lambda>status self. if sv_log self then emit [Logged status] self else self);
          self = log TECC_LOG_SVR_CONNECTING self;
          (err, cs, sock) = start_listening le (sv_sock self);
          self = emit (map Call cs) (self\<lparr>sv_sock := sock\<rparr>);
          started = snd (snd (TecSignal_set sig_started 0 0))
      in if err \<noteq> 0 then
           let self = log TECC_LOG_SVR_CONN_FAILED self
           in Inr (err, started,
                self\<lparr>sv_sig_polling_stopped := snd (snd (TecSignal_set (sv_sig_polling_stopped self) 0 0))\<rparr>)
         else
           bind_outcome
             (if sv_thread_pool self = None
              then TecBuffer_init (se_mem se) (par_buffer_size (sv_socket_params self))
                     (par_buffer_size (sv_socket_params self))
              else Inr (sv_buffer self))
             (\<lambda>buf. Inr (err, started,
                log TECC_LOG_SVR_CONN_OK (self\<lparr>sv_buffer := buf\<rparr>)\<lparr>sv_polling := True\<rparr>)))"

text \<open>
  A thread in the loop is blocked in \<open>accept\<close> on the listening socket; \<open>TecSocket_close\<close> makes
  that call fail, and the loop then sees that the server is not running.
\<close>

definition server_shutdown ::
  "server_env \<Rightarrow> TecTCPServer \<Rightarrow> TecSignal \<Rightarrow> (TecSignal \<times> TecTCPServer) outcome" where
  "server_shutdown se self sig_stopped =
     (let blocked = (if sv_polling self then [Call (Sys_accept (sk_fd (sv_sock self)))] else []);
          (cs, sock) = TecSocket_close (sv_sock self);
          self = emit (blocked @ map Call cs) (self\<lparr>sv_running := False, sv_sock := sock\<rparr>)
      in bind_outcome (if sv_polling self then poll se self [] else Inr self) (\<lambda>self.
         if TecSignal_wait (sig_value (sv_sig_polling_stopped self)) 0 [] = None then Inl No_return
         else Inr (snd (snd (TecSignal_set sig_stopped 0 0)),
                if sv_log self then emit [Logged TECC_LOG_SVR_SHUTDOWN] self else self)))"

definition TecTCPServer_done :: "TecTCPServer \<Rightarrow> TecTCPServer outcome" where
  "TecTCPServer_done self =
     bind_outcome (TecSignal_done (sv_sig_polling_stopped self) 0) (\<lambda>(ms, s).
     let (cs, sock) = TecSocket_done (sv_sock self)
     in Inr (emit (map Call cs) (self\<lparr>sv_sig_polling_stopped := s, sv_sock := sock,
          sv_buffer := TecBuffer_done (sv_buffer self)\<rparr>)))"

definition server_service :: "server_env \<Rightarrow> listen_env \<Rightarrow> TecTCPServer TecService" where
  "server_service se le =
     \<lparr>svc_start = server_start se le, svc_shutdown = server_shutdown se,
      svc_done = Some TecTCPServer_done\<rparr>"

section \<open>The server keeps the contract of a service\<close>

lemma emit_simps [simp]:
  "sv_sock (emit es self) = sv_sock self" "sv_running (emit es self) = sv_running self"
  "sv_polling (emit es self) = sv_polling self" "sv_log (emit es self) = sv_log self"
  "sv_thread_pool (emit es self) = sv_thread_pool self" "sv_buffer (emit es self) = sv_buffer self"
  "sv_sig_polling_stopped (emit es self) = sv_sig_polling_stopped self"
  "sv_events (emit es self) = sv_events self @ es"
  "sv_socket_params (emit es self) = sv_socket_params self"
  by (simp_all add: emit_def)

definition server_new :: "server_env \<Rightarrow> TecTCPServer \<Rightarrow> bool" where
  "server_new se self \<longleftrightarrow> env_ok (se_mem se)"

definition server_started :: "server_env \<Rightarrow> TecTCPServer \<Rightarrow> bool" where
  "server_started se self \<longleftrightarrow> env_ok (se_mem se) \<and>
     (sv_polling self \<or> sig_value (sv_sig_polling_stopped self) = 1)"

lemma poll_once_failed:
  assumes "env_ok (se_mem se)" and "ac_result a = Inl err"
  shows "poll_once se self a = Inr (emit [Call (Sys_accept (sk_fd (sv_sock self)))] self)"
  using assms TecBuffer_init_result [of "se_mem se"]
  by (simp add: poll_once_def TecSocket_accept_def TecSocket_init_def TecSocket_is_valid_def Let_def)

lemma server_start_returns:
  assumes "server_new se self"
  shows "\<exists>e s'. server_start se le self sig = Inr (e, snd (snd (TecSignal_set sig 0 0)), s') \<and>
     server_started se s'"
  using assms TecBuffer_init_result [of "se_mem se"]
  by (auto simp: server_start_def server_new_def server_started_def Let_def split: prod.splits)

lemma server_shutdown_returns:
  assumes "server_started se self"
  shows "\<exists>s'. server_shutdown se self sig = Inr (snd (snd (TecSignal_set sig 0 0)), s')"
  using assms
  by (auto simp: server_shutdown_def server_started_def poll_once_failed poll_end_def Let_def
      split: prod.splits)

lemma server_shutdown_closes:
  "server_shutdown se self sig = Inr (sig', self') \<Longrightarrow> sk_fd (sv_sock self') = - 1"
  by (auto simp: server_shutdown_def poll_end_def bind_outcome_Inr_iff Let_def
      dest: close_leaves_closed split: prod.splits if_splits)

interpretation tcp_server: closing_service "server_start se le" "server_shutdown se" "server_new se"
  "server_started se" "\<lambda>self. sk_fd (sv_sock self) = - 1" for se le
  by unfold_locales (auto simp: server_start_returns server_shutdown_returns dest: server_shutdown_closes)

section \<open>Accepting connections\<close>

text \<open>The user's handler leaves the descriptor of the connection alone.\<close>

definition keeps_fd :: "server_env \<Rightarrow> bool" where
  "keeps_fd se \<longleftrightarrow> (\<forall>sock. sk_fd (snd (se_client_proc se sock)) = sk_fd sock \<and>
     sk_pai (snd (se_client_proc se sock)) = sk_pai sock)"

lemma keeps_fdD:
  "keeps_fd se \<Longrightarrow> se_client_proc se sock = (status, sock') \<Longrightarrow>
   sk_fd sock' = sk_fd sock \<and> sk_pai sock' = sk_pai sock"
  by (metis keeps_fd_def snd_conv)

lemma accept_result:
  assumes "env_ok env"
  shows "\<exists>cli. TecSocket_accept env sock r info = Inr ([Sys_accept (sk_fd sock)], cli) \<and>
     sk_fd cli = (case r of Inl _ \<Rightarrow> - 1 | Inr fd \<Rightarrow> fd) \<and> sk_pai cli = NULL"
  using assms TecBuffer_init_result [OF assms]
  by (auto simp: TecSocket_accept_def TecSocket_init_def get_socket_info_def Let_def
      split: sum.splits peer.splits prod.splits)

text \<open>
  The specification: what one accepted connection with descriptor \<open>fd\<close> gives rise to, apart
  from an entry in the log.
\<close>

definition connection :: "int \<Rightarrow> int + int \<Rightarrow> server_event list" where
  "connection lfd r =
     Call (Sys_accept lfd) #
     (case r of
        Inl _ \<Rightarrow> []
      | Inr fd \<Rightarrow> (if fd = - 1 then []
          else [Handled fd, Call (Sys_shutdown fd), Call (Sys_close fd)]))"

lemma poll_once_serves:
  assumes "env_ok (se_mem se)" and "keeps_fd se" and "sv_thread_pool self = None" and "\<not> sv_log self"
  shows "poll_once se self a = Inr (emit (connection (sk_fd (sv_sock self)) (ac_result a)) self)"
proof -
  let ?l = "sk_fd (sv_sock self)"
  obtain cli where cli: "TecSocket_accept (se_mem se) (sv_sock self) (ac_result a) (ac_peer a)
      = Inr ([Sys_accept ?l], cli)"
    "sk_fd cli = (case ac_result a of Inl _ \<Rightarrow> - 1 | Inr fd \<Rightarrow> fd)" "sk_pai cli = NULL"
    using accept_result [OF assms(1)] by blast
  obtain status sock' where p: "se_client_proc se (cli\<lparr>sk_buf := sv_buffer self\<rparr>) = (status, sock')"
    by (cases "se_client_proc se (cli\<lparr>sk_buf := sv_buffer self\<rparr>)")
  have "sk_fd sock' = sk_fd cli" "sk_pai sock' = NULL"
    using keeps_fdD [OF assms(2) p] cli(3) by simp_all
  then show ?thesis
    using cli p assms(3,4)
    by (auto simp: poll_once_def dispatch_client_def TecSocket_is_valid_def TecSocket_done_def
        TecSocket_close_def connection_def emit_def Let_def split: sum.splits)
qed

lemma poll_serves:
  assumes "env_ok (se_mem se)" and "keeps_fd se" and "sv_thread_pool self = None" and "\<not> sv_log self"
    and "sv_running self"
  shows "poll se self as
    = Inr (emit (concat (map (\<lambda>a. connection (sk_fd (sv_sock self)) (ac_result a)) as)) self)"
  using assms(3-5)
proof (induction as arbitrary: self)
  case Nil
  then show ?case by (simp add: emit_def)
next
  case (Cons a as)
  let ?s = "emit (connection (sk_fd (sv_sock self)) (ac_result a)) self"
  have "poll se ?s as
      = Inr (emit (concat (map (\<lambda>a. connection (sk_fd (sv_sock ?s)) (ac_result a)) as)) ?s)"
    by (rule Cons.IH) (use Cons.prems in simp_all)
  then show ?case
    using poll_once_serves [OF assms(1,2) Cons.prems(1,2)] Cons.prems(3) by (simp add: emit_def)
qed

text \<open>
  C19: a server without a pool hands every connection it accepts to the
  handler once, in the order of their arrival, and then closes it once; an \<open>accept\<close> that
  fails has no other effect.
\<close>

theorem server_serves_each_once:
  assumes "env_ok (se_mem se)" and "keeps_fd se" and "sv_thread_pool self = None" and "\<not> sv_log self"
    and "sv_running self"
  shows "poll se self as
    = Inr (emit (concat (map (\<lambda>a. connection (sk_fd (sv_sock self)) (ac_result a)) as)) self)"
  using assms by (rule poll_serves)

definition plain_server_env :: server_env where
  "plain_server_env = \<lparr>se_mem = ample None, se_client_proc = client_proc,
     se_bytes = (\<lambda>sock. [word_of_int (sk_fd sock), 0]), se_dispatch = 7, se_self = 9\<rparr>"

definition listening :: TecTCPServer where
  "listening = \<lparr>sv_socket_params = TecSocketParams_init, sv_sock = closed_socket\<lparr>sk_fd := 3, sk_pai := 64\<rparr>,
     sv_running = True,
     sv_sig_polling_stopped = \<lparr>sig_value = 0, sig_mtx = \<lparr>mtx_result = Some 0\<rparr>, sig_cnd = \<lparr>cv_result = Some 0\<rparr>\<rparr>,
     sv_buffer = one_block_buffer 1024, sv_thread_pool = None, sv_log = False, sv_polling = True,
     sv_events = []\<rparr>"

lemma plain_server_env_ok: "env_ok (se_mem plain_server_env)" "keeps_fd plain_server_env"
  by (simp_all add: plain_server_env_def env_ok_ample keeps_fd_def client_proc_def)

theorem server_serves_each_once_witness:
  "\<exists>self. poll plain_server_env listening
       [\<lparr>ac_result = Inr 5, ac_peer = Inr (Inet [49] 80), ac_pt = 0, ac_pq = 0\<rparr>,
        \<lparr>ac_result = Inl 4, ac_peer = Inl 0, ac_pt = 0, ac_pq = 0\<rparr>] = Inr self \<and>
     sv_events self = [Call (Sys_accept 3), Handled 5, Call (Sys_shutdown 5), Call (Sys_close 5),
       Call (Sys_accept 3)]"
proof -
  have l: "sv_thread_pool listening = None" "\<not> sv_log listening" "sv_running listening"
    "sk_fd (sv_sock listening) = 3" "sv_events listening = []"
    by (simp_all add: listening_def closed_socket_def)
  show ?thesis
    unfolding server_serves_each_once [OF plain_server_env_ok l(1-3)]
    by (simp add: connection_def l(4,5))
qed

lemma server_init_fields:
  assumes "TecTCPServer_init env params mrc crc = Inr self"
  shows "sv_polling self = False" "sv_events self = []" "sv_log self = False" "sv_thread_pool self = None"
    "par_socktype (sk_params (sv_sock self)) = par_socktype params"
  using assms
  by (auto simp: TecTCPServer_init_def TecSocket_init_server_def TecSocket_init_def bind_outcome_Inr_iff)

lemma plain_server_exists: "\<exists>self. TecTCPServer_init (ample None) TecSocketParams_init 0 0 = Inr self"
  by (simp add: TecTCPServer_init_def TecSocket_init_server_def socket_init TecBuffer_init_result
      TecSignal_init_def TecMutex_init_def TecMutex_ok_def TecCV_init_def TecCV_ok_def read_field_def
      TecSocketParams_init_def TECC_SOCK_BUFFER_SIZE_def kTecDefaultSockType_def env_ok_ample Let_def)

lemma start_listening_opens:
  assumes "par_socktype (sk_params sock) = SOCK_STREAM" and "le_gai le = Inr res" and "le_socket le = Inr fd"
    and "fd \<noteq> - 1" and "res \<noteq> NULL"
    and "le_bind le = Some err \<and> err \<noteq> 0 \<or> le_bind le = None \<and> le_listen le = Some err \<or>
      le_bind le = None \<and> le_listen le = None \<and> err = 0"
  obtains cs where "start_listening le sock = (err, cs, sock\<lparr>sk_fd := fd, sk_pai := res\<rparr>)"
    and "count_list (map Call cs) (Call (Sys_close fd)) = 0"
    and "count_list (map Call cs) (Call (Sys_freeaddrinfo res)) = 0"
proof -
  let ?sock = "sock\<lparr>sk_fd := fd, sk_pai := res\<rparr>"
  obtain oe os where o: "TecSocket_set_options ?sock (le_reuse_addr le) (le_reuse_port le) = (oe, os)"
    by (cases "TecSocket_set_options ?sock (le_reuse_addr le) (le_reuse_port le)")
  have os: "Sys_close fd \<notin> set os" "Sys_freeaddrinfo res \<notin> set os"
    using o by (auto simp: TecSocket_set_options_def Let_def split: if_splits)
  have "\<exists>cs. start_listening le sock = (err, cs, ?sock) \<and>
      Sys_close fd \<notin> set cs \<and> Sys_freeaddrinfo res \<notin> set cs"
    using assms o os
    by (auto simp: start_listening_def TecSocket_open_def TecSocket_bind_def TecSocket_listen_def
        TecSocket_is_valid_def Let_def)
  then obtain cs where "start_listening le sock = (err, cs, ?sock)"
    "Sys_close fd \<notin> set cs" "Sys_freeaddrinfo res \<notin> set cs" by blast
  then show thesis using that [of cs] by (auto simp: count_list_0_iff)
qed

text \<open>
  When listening cannot be started on a descriptor that was opened, the
  server reports the error, does not poll, and a later shutdown returns and closes the
  descriptor once.
\<close>

theorem server_start_failure:
  assumes "sv_polling self = False" and "sv_events self = []" and "\<not> sv_log self"
    and "par_socktype (sk_params (sv_sock self)) = SOCK_STREAM"
    and "le_gai le = Inr res" and "le_socket le = Inr fd" and "fd \<noteq> - 1" and "res \<noteq> NULL"
    and "le_bind le = Some err \<or> le_bind le = None \<and> le_listen le = Some err" and "err \<noteq> 0"
  shows "\<exists>self1 self2. server_start se le self sig = Inr (err, snd (snd (TecSignal_set sig 0 0)), self1) \<and>
     \<not> sv_polling self1 \<and>
     server_shutdown se self1 sig' = Inr (snd (snd (TecSignal_set sig' 0 0)), self2) \<and>
     count_list (sv_events self2) (Call (Sys_close fd)) = 1 \<and>
     count_list (sv_events self2) (Call (Sys_freeaddrinfo res)) = 1"
proof -
  let ?sock = "(sv_sock self)\<lparr>sk_fd := fd, sk_pai := res\<rparr>"
  obtain cs where cs: "start_listening le (sv_sock self) = (err, cs, ?sock)"
    "count_list (map Call cs) (Call (Sys_close fd)) = 0"
    "count_list (map Call cs) (Call (Sys_freeaddrinfo res)) = 0"
    using start_listening_opens [OF assms(4,5,6,7,8), of err] assms(9,10) by metis
  let ?s1 = "emit (map Call cs) (self\<lparr>sv_sock := ?sock\<rparr>)"
  have start: "server_start se le self sig = Inr (err, snd (snd (TecSignal_set sig 0 0)),
      ?s1\<lparr>sv_sig_polling_stopped := snd (snd (TecSignal_set (sv_sig_polling_stopped self) 0 0))\<rparr>)"
    using cs(1) assms(3,10) by (simp add: server_start_def Let_def)
  show ?thesis
    using assms(1-3,7,8) cs(2,3) unfolding start
    by (simp add: server_shutdown_def TecSocket_close_def Let_def emit_def)
qed

theorem server_start_failure_witness:
  "\<exists>self sig1 self1 sig2 self2. TecTCPServer_init (ample None) TecSocketParams_init 0 0 = Inr self \<and>
     server_start plain_server_env \<lparr>le_gai = Inr 64, le_socket = Inr 5, le_reuse_addr = None,
       le_reuse_port = None, le_bind = Some 98, le_listen = None\<rparr> self (sv_sig_polling_stopped self)
       = Inr (98, sig1, self1) \<and>
     server_shutdown plain_server_env self1 (sv_sig_polling_stopped self) = Inr (sig2, self2) \<and>
     count_list (sv_events self2) (Call (Sys_close 5)) = 1"
proof -
  obtain self where "TecTCPServer_init (ample None) TecSocketParams_init 0 0 = Inr self"
    using plain_server_exists by blast
  then have self: "TecTCPServer_init (ample None) TecSocketParams_init 0 0 = Inr self"
    "sv_polling self = False" "sv_events self = []" "\<not> sv_log self"
    "par_socktype (sk_params (sv_sock self)) = SOCK_STREAM"
    by (simp_all add: server_init_fields TecSocketParams_init_def kTecDefaultSockType_def)
  from server_start_failure [OF self(2-5), of "\<lparr>le_gai = Inr 64, le_socket = Inr 5, le_reuse_addr = None,
       le_reuse_port = None, le_bind = Some 98, le_listen = None\<rparr>" 64 5 98 plain_server_env
       "sv_sig_polling_stopped self" "sv_sig_polling_stopped self"] self(1)
  show ?thesis by auto
qed

text \<open>
  Shutting down a server that is polling closes the listening socket
  once, lets the loop end without handling another connection, and sets both signals.
\<close>

theorem shutdown_stops_polling:
  assumes "sv_polling self" and "\<not> sv_log self" and "sk_fd (sv_sock self) = fd"
    and "fd \<noteq> - 1" and "sk_pai (sv_sock self) = res" and "res \<noteq> NULL"
  shows "\<exists>self'. server_shutdown se self sig = Inr (snd (snd (TecSignal_set sig 0 0)), self') \<and>
     \<not> sv_polling self' \<and> sig_value (sv_sig_polling_stopped self') = 1 \<and>
     sv_events self' = sv_events self @ [Call (Sys_accept fd), Call (Sys_shutdown fd), Call (Sys_close fd),
       Call (Sys_freeaddrinfo res)]"
  using assms by (simp add: server_shutdown_def TecSocket_close_def poll_end_def Let_def)

theorem shutdown_stops_polling_witness:
  "\<exists>self'. server_shutdown plain_server_env listening (sv_sig_polling_stopped listening)
       = Inr (snd (snd (TecSignal_set (sv_sig_polling_stopped listening) 0 0)), self') \<and>
     sv_events self' = [Call (Sys_accept 3), Call (Sys_shutdown 3), Call (Sys_close 3),
       Call (Sys_freeaddrinfo 64)]"
  using shutdown_stops_polling [of listening 3 64 plain_server_env]
  by (auto simp: listening_def closed_socket_def)

section \<open>A server with a pool\<close>

lemma poll_once_enqueues:
  assumes "sv_thread_pool self = Some pool"
    and "TecSocket_accept (se_mem se) (sv_sock self) (ac_result a) (ac_peer a) = Inr (cs, cli)"
    and "sk_fd cli \<noteq> - 1"
    and "TecThrPool_enqueue pool (se_dispatch se) (Some (se_bytes se cli)) (se_self se) (ac_pt a) (ac_pq a)
      = Inr pool'"
  shows "poll_once se self a = Inr (emit (map Call cs) self\<lparr>sv_thread_pool := Some pool'\<rparr>)"
  using assms by (simp add: poll_once_def TecSocket_is_valid_def Let_def)

text \<open>
  When a server whose pool has one thread accepts two connections
  before the thread runs, both tasks call the dispatcher with the bytes of the second socket:
  the first connection is never served or closed, and the second is served twice.
\<close>

theorem pool_loses_connection:
  assumes env: "env_ok (se_mem se)" and size: "\<forall>sock. length (se_bytes se sock) = unat (tp_payload_size pool)"
    and run: "sv_running self" and pool: "sv_thread_pool self = Some pool"
    and ok: "pool_ok pool [ts]" and nt: "tp_nthreads pool = 1" and pay: "tp_payload_arena pool \<noteq> None"
    and a1: "ac_result a1 = Inr fd1" "fd1 \<noteq> - 1" and a2: "ac_result a2 = Inr fd2" "fd2 \<noteq> - 1"
    and h1: "ac_pt a1 \<noteq> NULL"
      "arena_avail (tn_arena (tp_nodes pool ! 0), tn_mem (tp_nodes pool ! 0)) (ac_pt a1)"
      "fresh_qnode (tn_q (tp_nodes pool ! 0)) (ac_pq a1)"
    and first: "poll_once se self a1 = Inr self1" "sv_thread_pool self1 = Some pool1"
    and h2: "ac_pt a2 \<noteq> NULL"
      "arena_avail (tn_arena (tp_nodes pool1 ! 0), tn_mem (tp_nodes pool1 ! 0)) (ac_pt a2)"
      "fresh_qnode (tn_q (tp_nodes pool1 ! 0)) (ac_pq a2)"
  shows "\<exists>self2 pool2 t1 t2 c1 c2 cli. poll se self [a1, a2] = Inr self2 \<and>
     sv_thread_pool self2 = Some pool2 \<and> pool_ok pool2 [ts @ [t1, t2]] \<and>
     call_of pool2 t1 = Inr c1 \<and> call_of pool2 t2 = Inr c2 \<and>
     call_func c1 = se_dispatch se \<and> call_func c2 = se_dispatch se \<and>
     call_payload c1 = Some (se_bytes se cli) \<and> call_payload c2 = Some (se_bytes se cli) \<and> sk_fd cli = fd2"
proof -
  obtain cli1 where c1: "TecSocket_accept (se_mem se) (sv_sock self) (ac_result a1) (ac_peer a1)
      = Inr ([Sys_accept (sk_fd (sv_sock self))], cli1)" "sk_fd cli1 \<noteq> - 1"
    using accept_result [OF env] a1 by (metis sum.case(2))
  let ?b1 = "se_bytes se cli1"
  have e1: "TecThrPool_enqueue pool (se_dispatch se) (Some ?b1) (se_self se) (ac_pt a1) (ac_pq a1) = Inr pool1"
    using first c1 pool
    by (auto simp: poll_once_def TecSocket_is_valid_def Let_def bind_outcome_Inr_iff)
  have s1: "self1 = emit (map Call [Sys_accept (sk_fd (sv_sock self))]) self\<lparr>sv_thread_pool := Some pool1\<rparr>"
    using poll_once_enqueues [OF pool c1 e1] first(1) by simp
  obtain cli2 where c2: "TecSocket_accept (se_mem se) (sv_sock self1) (ac_result a2) (ac_peer a2)
      = Inr ([Sys_accept (sk_fd (sv_sock self1))], cli2)" "sk_fd cli2 = fd2"
    using accept_result [OF env] a2 by (metis sum.case(2))
  let ?b2 = "se_bytes se cli2"
  have l: "length ?b1 = unat (tp_payload_size pool)" "length ?b2 = unat (tp_payload_size pool)"
    using size by simp_all
  obtain pool2 t1 t2 k1 k2 where
    e2: "TecThrPool_enqueue pool1 (se_dispatch se) (Some ?b2) (se_self se) (ac_pt a2) (ac_pq a2) = Inr pool2"
    and r: "pool_ok pool2 [ts @ [t1, t2]]" "call_of pool2 t1 = Inr k1" "call_of pool2 t2 = Inr k2"
      "call_func k1 = se_dispatch se" "call_func k2 = se_dispatch se"
      "call_payload k1 = Some ?b2" "call_payload k2 = Some ?b2"
    using second_task_overwrites [OF ok nt pay l h1 e1 h2] by blast
  have "sk_fd cli2 \<noteq> - 1" using c2(2) a2(2) by simp
  note s2 = poll_once_enqueues [OF first(2) c2(1) this e2]
  have "sv_running self1" using run by (simp add: s1)
  then have "\<exists>self2. poll se self [a1, a2] = Inr self2 \<and> sv_thread_pool self2 = Some pool2"
    using run first(1) s2 by simp
  with r c2(2) show ?thesis by blast
qed

theorem pool_loses_connection_witness:
  "\<exists>pool self2 pool2 t1 t2 c1.
     TecThrPool_init 1 8 2 4 (True, True, True) (\<lambda>_ _. 0) (\<lambda>n. 4096) = Inr pool \<and>
     poll plain_server_env (TecTCPServer_use_thread_pool listening (Some pool))
       [\<lparr>ac_result = Inr 5, ac_peer = Inr Other_family, ac_pt = 65536, ac_pq = 8\<rparr>,
        \<lparr>ac_result = Inr 6, ac_peer = Inr Other_family, ac_pt = 131072, ac_pq = 16\<rparr>] = Inr self2 \<and>
     sv_thread_pool self2 = Some pool2 \<and> pool_ok pool2 [[t1, t2]] \<and>
     call_of pool2 t1 = Inr c1 \<and> call_payload c1 = Some [6, 0]"
proof -
  obtain pool where p: "TecThrPool_init 1 8 2 4 (True, True, True) (\<lambda>_ _. 0) (\<lambda>n. 4096) = Inr pool"
    "one_thread_pool pool" using one_thread_pool_exists by blast
  let ?self = "TecTCPServer_use_thread_pool listening (Some pool)"
  let ?a1 = "\<lparr>ac_result = Inr 5, ac_peer = Inr Other_family, ac_pt = 65536, ac_pq = 8\<rparr>"
  let ?a2 = "\<lparr>ac_result = Inr 6, ac_peer = Inr Other_family, ac_pt = 131072, ac_pq = 16\<rparr>"
  have f: "tp_payload_size pool = 2" "tp_nthreads pool = 1" "tp_payload_arena pool \<noteq> None"
    using p(2) by (simp_all add: one_thread_pool_def)
  have self: "sv_running ?self" "sv_thread_pool ?self = Some pool"
    by (simp_all add: TecTCPServer_use_thread_pool_def listening_def)
  have size: "\<forall>sock. length (se_bytes plain_server_env sock) = unat (tp_payload_size pool)"
    using f by (simp add: plain_server_env_def)
  obtain cli where cli: "TecSocket_accept (se_mem plain_server_env) (sv_sock ?self) (ac_result ?a1) (ac_peer ?a1)
      = Inr ([Sys_accept (sk_fd (sv_sock ?self))], cli)" "sk_fd cli \<noteq> - 1"
    using accept_result [OF plain_server_env_ok(1), of "sv_sock ?self" "ac_result ?a1" "ac_peer ?a1"] by auto
  have "\<forall>s. Some (se_bytes plain_server_env cli) = Some s \<longrightarrow> unat (tp_payload_size pool) \<le> length s"
    using size by simp
  from enqueue_ok [OF one_thread_enqueue [OF p(2)] this, of "se_dispatch plain_server_env" "se_self plain_server_env"]
  obtain pool1 where e1: "TecThrPool_enqueue pool (se_dispatch plain_server_env)
      (Some (se_bytes plain_server_env cli)) (se_self plain_server_env) 65536 8 = Inr pool1" by blast
  have e1': "TecThrPool_enqueue pool (se_dispatch plain_server_env) (Some (se_bytes plain_server_env cli))
      (se_self plain_server_env) (ac_pt ?a1) (ac_pq ?a1) = Inr pool1" using e1 by simp
  note first = poll_once_enqueues [OF self(2) cli e1']
  have room: "arena_avail (tn_arena (tp_nodes pool1 ! 0), tn_mem (tp_nodes pool1 ! 0)) (ac_pt ?a2)"
    "fresh_qnode (tn_q (tp_nodes pool1 ! 0)) (ac_pq ?a2)" using room_for_second [OF p(2) e1] by auto
  have *: "ac_result ?a1 = Inr 5" "(5 :: int) \<noteq> - 1" "ac_result ?a2 = Inr 6" "(6 :: int) \<noteq> - 1"
    "ac_pt ?a1 \<noteq> NULL" "ac_pt ?a2 \<noteq> NULL"
    using one_thread_enqueue(4) [OF p(2)] by simp_all
  have h1: "arena_avail (tn_arena (tp_nodes pool ! 0), tn_mem (tp_nodes pool ! 0)) (ac_pt ?a1)"
    "fresh_qnode (tn_q (tp_nodes pool ! 0)) (ac_pq ?a1)"
    using one_thread_enqueue(5,6) [OF p(2)] by simp_all
  obtain self2 pool2 t1 t2 c1 cli2 where r: "poll plain_server_env ?self [?a1, ?a2] = Inr self2"
    "sv_thread_pool self2 = Some pool2" "pool_ok pool2 [[] @ [t1, t2]]" "call_of pool2 t1 = Inr c1"
    "call_payload c1 = Some (se_bytes plain_server_env cli2)" "sk_fd cli2 = 6"
    using pool_loses_connection [OF plain_server_env_ok(1) size self one_thread_enqueue(1) [OF p(2)] f(2,3)
        *(1-4) *(5) h1 first _ *(6) room] by auto
  have "se_bytes plain_server_env cli2 = [6, 0]" using r(6) by (simp add: plain_server_env_def)
  with r p(1) show ?thesis by auto
qed

text \<open>A system on which the address can be bound, on descriptor 5.\<close>

definition free_address :: listen_env where
  "free_address = \<lparr>le_gai = Inr 64, le_socket = Inr 5, le_reuse_addr = None, le_reuse_port = None,
     le_bind = None, le_listen = None\<rparr>"

section \<open>A server that was started and shut down\<close>

lemma server_starts:
  assumes "env_ok (se_mem se)" and "sv_events self = []" and "sv_log self = False"
    and "par_socktype (sk_params (sv_sock self)) = SOCK_STREAM"
    and "le_gai le = Inr res" and "le_socket le = Inr fd" and "fd \<noteq> - 1" and "res \<noteq> NULL"
    and "le_bind le = None" and "le_listen le = None"
    and "server_start se le self sig = Inr (e, sig1, self1)"
  obtains cs where "e = 0" and "sv_polling self1" and "sk_fd (sv_sock self1) = fd"
    and "sk_pai (sv_sock self1) = res" and "\<not> sv_log self1" and "sv_events self1 = map Call cs"
    and "Sys_close fd \<notin> set cs" and "Sys_freeaddrinfo res \<notin> set cs"
    and "sv_running self1 = sv_running self" and "sv_thread_pool self1 = sv_thread_pool self"
    and "sv_sig_polling_stopped self1 = sv_sig_polling_stopped self"
    and "sv_sock self1 = (sv_sock self)\<lparr>sk_fd := fd, sk_pai := res\<rparr>"
proof -
  obtain cs where cs: "start_listening le (sv_sock self) = (0, cs, (sv_sock self)\<lparr>sk_fd := fd, sk_pai := res\<rparr>)"
    "count_list (map Call cs) (Call (Sys_close fd)) = 0"
    "count_list (map Call cs) (Call (Sys_freeaddrinfo res)) = 0"
    using start_listening_opens [OF assms(4-8), of 0] assms(9,10) by metis
  have "e = 0 \<and> sv_polling self1 \<and> sk_fd (sv_sock self1) = fd \<and> sk_pai (sv_sock self1) = res \<and>
      \<not> sv_log self1 \<and> sv_events self1 = map Call cs \<and> sv_running self1 = sv_running self \<and>
      sv_thread_pool self1 = sv_thread_pool self \<and>
      sv_sig_polling_stopped self1 = sv_sig_polling_stopped self \<and>
      sv_sock self1 = (sv_sock self)\<lparr>sk_fd := fd, sk_pai := res\<rparr>"
    using assms(2,3,11) cs(1)
    by (auto simp: server_start_def emit_def bind_outcome_Inr_iff Let_def split: if_splits)
  moreover have "Sys_close fd \<notin> set cs" "Sys_freeaddrinfo res \<notin> set cs"
    using cs(2,3) by (auto simp: count_list_0_iff)
  ultimately show thesis using that by blast
qed

lemma server_stops:
  assumes "sv_polling self" and "\<not> sv_log self" and "sk_fd (sv_sock self) = fd" and "fd \<noteq> - 1"
    and "sk_pai (sv_sock self) = res" and "res \<noteq> NULL"
    and "server_shutdown se self sig = Inr (sig', self')"
  shows "\<not> sv_polling self'" and "sk_fd (sv_sock self') = - 1"
    and "sv_events self' = sv_events self @
       [Call (Sys_accept fd), Call (Sys_shutdown fd), Call (Sys_close fd), Call (Sys_freeaddrinfo res)]"
    and "sv_sig_polling_stopped self' = snd (snd (TecSignal_set (sv_sig_polling_stopped self) 0 0))"
    and "sv_thread_pool self' = sv_thread_pool self" and "\<not> sv_log self'"
  using assms
  by (auto simp: server_shutdown_def TecSocket_close_def poll_end_def emit_def bind_outcome_Inr_iff Let_def)

lemma server_start_shutdown:
  assumes "env_ok (se_mem se)" and "sv_events self = []" and "sv_log self = False"
    and "par_socktype (sk_params (sv_sock self)) = SOCK_STREAM"
    and "le_gai le = Inr res" and "le_socket le = Inr fd" and "fd \<noteq> - 1" and "res \<noteq> NULL"
    and "le_bind le = None" and "le_listen le = None"
    and "server_start se le self sig = Inr (e, sig1, self1)"
    and "server_shutdown se self1 sig' = Inr (sig2, self2)"
  shows "e = 0 \<and> \<not> sv_polling self2 \<and> sk_fd (sv_sock self2) = - 1 \<and>
     count_list (sv_events self2) (Call (Sys_close fd)) = 1 \<and>
     count_list (sv_events self2) (Call (Sys_freeaddrinfo res)) = 1"
proof -
  obtain cs where s: "e = 0" "sv_polling self1" "sk_fd (sv_sock self1) = fd" "sk_pai (sv_sock self1) = res"
    "\<not> sv_log self1" "sv_events self1 = map Call cs" "Sys_close fd \<notin> set cs" "Sys_freeaddrinfo res \<notin> set cs"
    by (rule server_starts [OF assms(1-11)])
  have "count_list (map Call cs) (Call (Sys_close fd)) = 0"
    "count_list (map Call cs) (Call (Sys_freeaddrinfo res)) = 0"
    using s(7,8) by (auto simp: count_list_0_iff)
  then show ?thesis
    using server_stops [OF s(2,5,3) assms(7) s(4) assms(8,12)] s(1,6) by simp
qed

section \<open>A server whose pool has a thread for every waiting connection\<close>

text \<open>The socket \<open>accept\<close> gives, and the request for the pool that carries it.\<close>

definition accepted_socket :: "server_env \<Rightarrow> TecSocket \<Rightarrow> accepted \<Rightarrow> TecSocket" where
  "accepted_socket se sock a =
     (case TecSocket_accept (se_mem se) sock (ac_result a) (ac_peer a) of
        Inl _ \<Rightarrow> sock | Inr (_, cli) \<Rightarrow> cli)"

definition connection_request :: "server_env \<Rightarrow> TecSocket \<Rightarrow> accepted \<Rightarrow> request" where
  "connection_request se sock a =
     \<lparr>rq_func = se_dispatch se, rq_payload = se_bytes se (accepted_socket se sock a),
      rq_args = se_self se, rq_pt = ac_pt a, rq_pq = ac_pq a\<rparr>"

lemma accepted_socket_fd:
  assumes "env_ok (se_mem se)" and "ac_result a = Inr fd"
  shows "TecSocket_accept (se_mem se) sock (ac_result a) (ac_peer a)
      = Inr ([Sys_accept (sk_fd sock)], accepted_socket se sock a)"
    and "sk_fd (accepted_socket se sock a) = fd" and "sk_pai (accepted_socket se sock a) = NULL"
proof -
  obtain cli where "TecSocket_accept (se_mem se) sock (ac_result a) (ac_peer a)
      = Inr ([Sys_accept (sk_fd sock)], cli)" "sk_fd cli = fd" "sk_pai cli = NULL"
    using accept_result [OF assms(1), of sock "ac_result a" "ac_peer a"] assms(2) by auto
  then show "TecSocket_accept (se_mem se) sock (ac_result a) (ac_peer a)
      = Inr ([Sys_accept (sk_fd sock)], accepted_socket se sock a)"
    "sk_fd (accepted_socket se sock a) = fd" "sk_pai (accepted_socket se sock a) = NULL"
    by (simp_all add: accepted_socket_def)
qed

lemma poll_requests:
  assumes "env_ok (se_mem se)" and "\<forall>a \<in> set as. \<exists>fd. ac_result a = Inr fd \<and> fd \<noteq> - 1"
    and "sv_running self" and "sv_thread_pool self = Some pool"
  shows "poll se self as =
     bind_outcome (fold_outcome enqueue_request pool (map (connection_request se (sv_sock self)) as))
       (\<lambda>pool'. Inr (emit (map (\<lambda>_. Call (Sys_accept (sk_fd (sv_sock self)))) as)
         self\<lparr>sv_thread_pool := Some pool'\<rparr>))"
  using assms(2-)
proof (induction as arbitrary: self pool)
  case Nil
  then show ?case by (simp add: emit_def)
next
  case (Cons a as)
  obtain fd where fd: "ac_result a = Inr fd" "fd \<noteq> - 1" using Cons.prems(1) by auto
  let ?call = "Call (Sys_accept (sk_fd (sv_sock self)))"
  note acc = accepted_socket_fd [OF assms(1) fd(1), of "sv_sock self"]
  have once: "poll_once se self a = bind_outcome (enqueue_request pool (connection_request se (sv_sock self) a))
      (\<lambda>pool1. Inr (emit [?call] self\<lparr>sv_thread_pool := Some pool1\<rparr>))"
    using acc fd(2) Cons.prems(3)
    by (simp add: poll_once_def TecSocket_is_valid_def enqueue_request_def connection_request_def Let_def)
  show ?case
  proof (cases "enqueue_request pool (connection_request se (sv_sock self) a)")
    case (Inl f)
    then show ?thesis using once Cons.prems(2) by simp
  next
    case (Inr pool1)
    let ?self1 = "emit [?call] self\<lparr>sv_thread_pool := Some pool1\<rparr>"
    have "sv_running ?self1" "sv_thread_pool ?self1 = Some pool1" using Cons.prems(2) by simp_all
    with Cons.IH [OF _ this] Cons.prems(1,2) once Inr show ?thesis by (simp add: emit_def)
  qed
qed



end
