(* ===== verification/TecTrace.thy ===== *)
theory TecTrace
  imports TecBufferDump TecThreads TecTime
begin

text \<open>
  Models \<open>tecc_trace.c\<close> and \<open>tecc_trace.h\<close> for POSIX, where \<open>level\<close> is one variable for all
  threads: the text each call prints, its indentation and the mutex that guards both.
\<close>

section \<open>Model\<close>

record TecTracer =
  trc_name :: "u8 list"
  trc_start_time :: TecTimePoint

text \<open>\<open>trc_guard\<close> is \<open>guard_\<close> of the source; \<open>guard_alive\<close>: the mutex is initialised and not destroyed.\<close>

record trace_state =
  trc_guard :: TecMutex
  guard_alive :: bool
  level :: int
  printed :: "u8 list"

definition shift :: int where "shift = 2"

definition trace_boot :: trace_state where
  "trace_boot = \<lparr>trc_guard = \<lparr>mtx_result = Some 22\<rparr>, guard_alive = False, level = 0, printed = []\<rparr>"

text \<open>\<open>rc\<close>: the result of \<open>pthread_mutex_init\<close>.\<close>

definition tec_trace_init :: "int \<Rightarrow> trace_state \<Rightarrow> trace_state" where
  "tec_trace_init rc s = s\<lparr>trc_guard := TecMutex_init (trc_guard s) rc, guard_alive := rc = 0\<rparr>"

definition tec_trace_done :: "trace_state \<Rightarrow> trace_state outcome" where
  "tec_trace_done s =
     bind_outcome (TecMutex_destroy (trc_guard s)) (\<lambda>cs.
       if cs = [] then Inr s
       else if guard_alive s then Inr (s\<lparr>guard_alive := False\<rparr>) else Inl Invalid_pointer)"

text \<open>\<open>%*s\<close> with an empty string: a field of blanks, as wide as the absolute value.\<close>

definition pad :: "int \<Rightarrow> u8 list" where
  "pad w = replicate (nat \<bar>w\<bar>) 32"

definition fmt_lld :: "int \<Rightarrow> u8 list" where
  "fmt_lld x = (if x < 0 then [45] else []) @ map digit_byte (digits 10 (nat \<bar>x\<bar>))"

text \<open>
  The body of a traced call between lock and unlock; nothing happens when the guard was not
  initialised, and a destroyed mutex cannot be locked.
\<close>

definition guarded :: "(trace_state \<Rightarrow> trace_state outcome) \<Rightarrow> trace_state \<Rightarrow> trace_state outcome" where
  "guarded body s =
     bind_outcome (TecMutex_ok (trc_guard s)) (\<lambda>ok.
       if \<not> ok then Inr s else if guard_alive s then body s else Inl Invalid_pointer)"

definition say :: "u8 list \<Rightarrow> trace_state \<Rightarrow> trace_state" where
  "say bs s = s\<lparr>printed := printed s @ bs\<rparr>"

text \<open>\<open>tid\<close>: the text \<open>%p\<close> gives for the calling thread.\<close>

definition enter_line :: "int \<Rightarrow> u8 list \<Rightarrow> u8 list \<Rightarrow> u8 list" where
  "enter_line l name tid = pad l @ bytes_of ''+ '' @ name @ bytes_of '' entered @TID='' @ tid @ bytes_of ''.'' @ [10]"

definition exit_line :: "int \<Rightarrow> u8 list \<Rightarrow> int \<Rightarrow> int \<Rightarrow> u8 list" where
  "exit_line l name ms us = pad l @ bytes_of ''- '' @ name @ bytes_of '' completed in '' @ fmt_lld ms @
     bytes_of ''ms/'' @ fmt_lld us @ bytes_of ''us.'' @ [10]"

definition tec_trace_enter :: "u8 list \<Rightarrow> TecTracer \<Rightarrow> trace_state \<Rightarrow> trace_state outcome" where
  "tec_trace_enter tid tr = guarded (\<lambda>s.
     bind_outcome (signed32 (level s + shift)) (\<lambda>l.
       Inr ((say (enter_line (level s) (trc_name tr) tid) s)\<lparr>level := l\<rparr>)))"

text \<open>\<open>now\<close>: what the clock gives at that moment.\<close>

definition tec_trace_exit :: "timespec option \<Rightarrow> TecTracer \<Rightarrow> trace_state \<Rightarrow> trace_state outcome" where
  "tec_trace_exit now tr = guarded (\<lambda>s.
     bind_outcome (signed32 (level s - shift)) (\<lambda>l.
     bind_outcome (tec_tp_now now) (\<lambda>t.
     bind_outcome (signed64 (t - trc_start_time tr)) (\<lambda>diff_time_ns.
     let diff_time_ms = diff_time_ns sdiv 1000000;
         diff_time_us = diff_time_ns sdiv 1000
     in Inr (say (exit_line l (trc_name tr) diff_time_ms diff_time_us) (s\<lparr>level := l\<rparr>))))))"

text \<open>\<open>msg\<close>: the text \<open>vprintf\<close> gives for the format and its arguments.\<close>

definition tec_trace :: "u8 list \<Rightarrow> TecTracer \<Rightarrow> trace_state \<Rightarrow> trace_state outcome" where
  "tec_trace msg tr = guarded (\<lambda>s.
     Inr (say (pad (level s) @ bytes_of ''* '' @ trc_name tr @ bytes_of '': '' @ msg) s))"

text \<open>
  \<open>TECC_TRACE_ENTER\<close> in a build with \<open>TECC_TRACE_ON\<close>: it makes the tracer of the block and
  enters it.
\<close>

definition TECC_TRACE_ENTER ::
  "u8 list \<Rightarrow> u8 list \<Rightarrow> timespec option \<Rightarrow> trace_state \<Rightarrow> (TecTracer \<times> trace_state) outcome" where
  "TECC_TRACE_ENTER tid name now s =
     bind_outcome (tec_tp_now now) (\<lambda>t.
       let tr = \<lparr>trc_name = name, trc_start_time = t\<rparr>
       in bind_outcome (tec_trace_enter tid tr s) (\<lambda>s. Inr (tr, s)))"

section \<open>Nested blocks\<close>

text \<open>
  The blocks of one thread: each has a name, the clock at its two ends, and what happens
  inside, blocks and messages.
\<close>

datatype block =
    Block "u8 list" timespec timespec "block list"
  | Note "u8 list"

text \<open>The calls the macros of a block make; \<open>tr\<close> is the tracer of the block around it.\<close>

fun run_block :: "u8 list \<Rightarrow> TecTracer \<Rightarrow> block \<Rightarrow> trace_state \<Rightarrow> trace_state outcome" and
  run_blocks :: "u8 list \<Rightarrow> TecTracer \<Rightarrow> block list \<Rightarrow> trace_state \<Rightarrow> trace_state outcome" where
  "run_block tid _ (Block name t0 t1 bs) s =
     bind_outcome (TECC_TRACE_ENTER tid name (Some t0) s) (\<lambda>(tr, s).
     bind_outcome (run_blocks tid tr bs s) (\<lambda>s. tec_trace_exit (Some t1) tr s))"
| "run_block tid tr (Note msg) s = tec_trace msg tr s"
| "run_blocks tid tr [] s = Inr s"
| "run_blocks tid tr (b # bs) s = bind_outcome (run_block tid tr b s) (run_blocks tid tr bs)"

text \<open>
  The specification: the text of a block at a depth, written by recursion on the nesting, its
  durations the whole milli- and microseconds between the ends.
\<close>

definition ns :: "timespec \<Rightarrow> int" where
  "ns t = tv_sec t * 1000000000 + tv_nsec t"

fun block_text :: "u8 list \<Rightarrow> nat \<Rightarrow> u8 list \<Rightarrow> block \<Rightarrow> u8 list" and
  blocks_text :: "u8 list \<Rightarrow> nat \<Rightarrow> u8 list \<Rightarrow> block list \<Rightarrow> u8 list" where
  "block_text tid d _ (Block name t0 t1 bs) =
     enter_line (2 * int d) name tid @ blocks_text tid (Suc d) name bs @
     exit_line (2 * int d) name ((ns t1 - ns t0) div 1000000) ((ns t1 - ns t0) div 1000)"
| "block_text tid d name (Note msg) = replicate (2 * d) 32 @ bytes_of ''* '' @ name @ bytes_of '': '' @ msg"
| "blocks_text tid d name [] = []"
| "blocks_text tid d name (b # bs) = block_text tid d name b @ blocks_text tid d name bs"

text \<open>The clock does not run backwards and stays in range; nesting stays below \<open>2 ^ 30 - 1\<close>.\<close>

definition good_time :: "timespec \<Rightarrow> bool" where
  "good_time t \<longleftrightarrow> 0 \<le> tv_sec t \<and> 0 \<le> tv_nsec t \<and> tv_nsec t < 1000000000 \<and> ns t < 2 ^ 63"

fun good_block :: "nat \<Rightarrow> block \<Rightarrow> bool" and good_blocks :: "nat \<Rightarrow> block list \<Rightarrow> bool" where
  "good_block d (Block name t0 t1 bs) \<longleftrightarrow>
     d < 2 ^ 30 - 1 \<and> good_time t0 \<and> good_time t1 \<and> ns t0 \<le> ns t1 \<and> good_blocks (Suc d) bs"
| "good_block d (Note msg) \<longleftrightarrow> True"
| "good_blocks d [] \<longleftrightarrow> True"
| "good_blocks d (b # bs) \<longleftrightarrow> good_block d b \<and> good_blocks d bs"

definition tracing :: "trace_state \<Rightarrow> bool" where
  "tracing s \<longleftrightarrow> mtx_result (trc_guard s) = Some 0 \<and> guard_alive s"

lemma guarded_tracing: "tracing s \<Longrightarrow> guarded body s = body s"
  by (simp add: tracing_def guarded_def TecMutex_ok_def read_field_def)

lemma tracing_say [simp]:
  "tracing (say bs s) = tracing s" "tracing (s\<lparr>level := l\<rparr>) = tracing s"
  "level (say bs s) = level s"
  "say bs (say cs s) = say (cs @ bs) s"
  "say bs s\<lparr>level := l\<rparr> = say bs (s\<lparr>level := l\<rparr>)"
  "say [] s = s"
  by (simp_all add: tracing_def say_def)

lemma now_good: "good_time t \<Longrightarrow> tec_tp_now (Some t) = Inr (ns t)"
  by (simp add: good_time_def tec_tp_now_def tec_ts_to_tp_def ns_def signed64_def in_s64_def)

lemma block_prints:
  "tracing s \<Longrightarrow> level s = 2 * int d \<Longrightarrow> good_block d b \<Longrightarrow>
   run_block tid tr b s = Inr (say (block_text tid d (trc_name tr) b) s)"
  "tracing s \<Longrightarrow> level s = 2 * int d \<Longrightarrow> good_blocks d bs \<Longrightarrow>
   run_blocks tid tr bs s = Inr (say (blocks_text tid d (trc_name tr) bs) s)"
proof (induction tid d "trc_name tr" b and tid d "trc_name tr" bs arbitrary: tr s and tr s
    rule: block_text_blocks_text.induct)
  case (1 tid d name t0 t1 bs)
  let ?tr = "\<lparr>trc_name = name, trc_start_time = ns t0\<rparr>"
  let ?s = "say (enter_line (2 * int d) name tid) (s\<lparr>level := 2 * int d + 2\<rparr>)"
  have g: "good_time t0" "good_time t1" "ns t0 \<le> ns t1" "good_blocks (Suc d) bs" "d < 2 ^ 30 - 1"
    using "1.prems"(3) by simp_all
  have enter: "TECC_TRACE_ENTER tid name (Some t0) s = Inr (?tr, ?s)"
    using "1.prems"(1,2) g(1,5)
    by (simp add: TECC_TRACE_ENTER_def tec_trace_enter_def guarded_tracing now_good signed32_def
        in_s32_def shift_def)
  have inner: "run_blocks tid ?tr bs ?s = Inr (say (blocks_text tid (Suc d) name bs) ?s)"
    using "1.hyps" [of ?tr ?s] "1.prems"(1) g(4) by simp
  have diff: "0 \<le> ns t1 - ns t0" "in_s64 (ns t1 - ns t0)"
    using g(1-3) by (auto simp: good_time_def in_s64_def ns_def)
  then have sd: "(ns t1 - ns t0) sdiv 1000000 = (ns t1 - ns t0) div 1000000"
    "(ns t1 - ns t0) sdiv 1000 = (ns t1 - ns t0) div 1000"
    by (simp_all add: signed_divide_int_def sgn_if)
  have l: "s\<lparr>level := 2 * int d\<rparr> = s" using "1.prems"(2) by simp
  show ?case
    using "1.prems"(1,2) g(2,5) enter inner diff
    by (simp add: tec_trace_exit_def guarded_tracing now_good signed32_def in_s32_def shift_def sd l
        del: tracing_say(5) add: tracing_say(5) [symmetric])
next
  case (2 tid d msg)
  then show ?case by (simp add: tec_trace_def guarded_tracing pad_def nat_mult_distrib)
next
  case (3 tid d)
  then show ?case by simp
next
  case (4 tid d b bs)
  then show ?case by simp
qed

section \<open>Properties\<close>

text \<open>
  When tracing is on, the blocks of a thread print, line by line, the text
  given by recursion on their nesting: every block is entered and left at the indentation of
  its depth, with the duration between its ends, and the level is restored afterwards.
\<close>

theorem trace_nesting:
  assumes "mtx_result (trc_guard s) = Some 0" and "guard_alive s" and "level s = 2 * int d"
    and "good_blocks d bs"
  shows "run_blocks tid tr bs s = Inr (s\<lparr>printed := printed s @ blocks_text tid d (trc_name tr) bs\<rparr>)"
  using block_prints(2) [of s d bs tid tr] assms by (simp add: tracing_def say_def)

theorem trace_nesting_witness:
  "run_blocks [49] \<lparr>trc_name = [], trc_start_time = 0\<rparr>
     [Block [102] \<lparr>tv_sec = 1, tv_nsec = 0\<rparr> \<lparr>tv_sec = 1, tv_nsec = 2500000\<rparr> [Note [120, 10]]]
     (tec_trace_init 0 trace_boot)
   = Inr ((tec_trace_init 0 trace_boot)\<lparr>printed :=
       enter_line 0 [102] [49] @ [32, 32, 42, 32, 102, 58, 32, 120, 10] @ exit_line 0 [102] 2 2500\<rparr>)"
proof -
  let ?s = "tec_trace_init 0 trace_boot"
  have s: "mtx_result (trc_guard ?s) = Some 0" "guard_alive ?s" "level ?s = 2 * int 0"
    by (simp_all add: tec_trace_init_def trace_boot_def TecMutex_init_def)
  show ?thesis
    by (subst trace_nesting [OF s])
       (simp_all add: good_time_def ns_def tec_trace_init_def trace_boot_def bytes_of_def of_char_def
         replicate_2)
qed

text \<open>
  Before \<open>tec_trace_init\<close>, or when it failed, the three calls print and
  change nothing; after \<open>tec_trace_done\<close> the result field of the mutex still says it is
  usable, and each of them locks a destroyed mutex.
\<close>

theorem trace_guarded:
  assumes "tec_trace_done (tec_trace_init rc trace_boot) = Inr s"
  shows "call \<in> {tec_trace_enter tid tr, tec_trace_exit now tr, tec_trace msg tr} \<Longrightarrow>
     call trace_boot = Inr trace_boot \<and>
     call s = (if rc = 0 then Inl Invalid_pointer else Inr s)"
  using assms
  by (auto simp: tec_trace_done_def tec_trace_init_def trace_boot_def TecMutex_init_def
      TecMutex_destroy_def TecMutex_ok_def read_field_def tec_trace_enter_def tec_trace_exit_def
      tec_trace_def guarded_def split: if_splits)

theorem trace_guarded_witness:
  "\<exists>s. tec_trace_done (tec_trace_init 0 trace_boot) = Inr s \<and>
     tec_trace [72] \<lparr>trc_name = [], trc_start_time = 0\<rparr> s = Inl Invalid_pointer"
proof -
  obtain s where s: "tec_trace_done (tec_trace_init 0 trace_boot) = Inr s"
    by (simp add: tec_trace_done_def tec_trace_init_def trace_boot_def TecMutex_init_def
        TecMutex_destroy_def TecMutex_ok_def read_field_def)
  let ?tr = "\<lparr>trc_name = [], trc_start_time = 0\<rparr> :: TecTracer"
  have "tec_trace [72] ?tr \<in> {tec_trace_enter [49] ?tr, tec_trace_exit None ?tr, tec_trace [72] ?tr}"
    by simp
  from trace_guarded [OF s this] s show ?thesis by auto
qed

end
