(* ===== verification/ExSocket.thy ===== *)
theory ExSocket
  imports TecTCPClient TecTCPServer TecServiceWorker
begin

text \<open>
  Models the example programs \<open>examples/socket/*.c\<close>: a client and a server on the bare socket
  API, a client and a single-threaded server on the service API, and the handler of the
  multi-threaded server. What the system and the peers do is an argument; the result is the
  exit code, the system calls in order, and the lines printed.
\<close>

section \<open>The C library\<close>

text \<open>\<open>puts\<close> on the bytes a pointer reaches: it reads on until a zero byte.\<close>

definition puts :: "u8 list option \<Rightarrow> u8 list outcome" where
  "puts s =
     (case s of
        None \<Rightarrow> Inl Null_deref
      | Some d \<Rightarrow> if 0 \<in> set d then Inr (takeWhile (\<lambda>c. c \<noteq> 0) d) else Inl Out_of_bounds)"

fun digits_value :: "u8 list \<Rightarrow> int \<Rightarrow> int" where
  "digits_value [] n = n"
| "digits_value (c # cs) n =
     (if 48 \<le> c \<and> c \<le> 57 then digits_value cs (10 * n + (uint c - 48)) else n)"

text \<open>A value that does not fit an \<open>int\<close> is undefined.\<close>

definition atoi :: "u8 list \<Rightarrow> int outcome" where
  "atoi s =
     (case dropWhile (\<lambda>c. c \<in> {32, 9, 10, 11, 12, 13}) s of
        [] \<Rightarrow> Inr 0
      | c # cs \<Rightarrow>
          if c = 45 then signed32 (- digits_value cs 0)
          else if c = 43 then signed32 (digits_value cs 0)
          else signed32 (digits_value (c # cs) 0))"

text \<open>All the programs have this function. \<open>argv\<close> includes the name of the program.\<close>

definition parse_args :: "u8 list list \<Rightarrow> TecSocketParams \<Rightarrow> TecSocketParams outcome" where
  "parse_args argv params =
     (let params = (if 1 < length argv then params\<lparr>par_addr := argv ! 1\<rparr> else params)
      in if 2 < length argv
         then bind_outcome (atoi (argv ! 2)) (\<lambda>port. Inr (params\<lparr>par_port := port\<rparr>))
         else Inr params)"

text \<open>A signal in memory nobody has initialised.\<close>

definition raw_signal :: TecSignal where
  "raw_signal = \<lparr>sig_value = 0, sig_mtx = \<lparr>mtx_result = None\<rparr>, sig_cnd = \<lparr>cv_result = None\<rparr>\<rparr>"

section \<open>client.c\<close>

definition test_str :: "u8 list" where
  "test_str = bytes_of
     (''Lorem ipsum dolor sit amet, consectetuer adipiscing elit.  '' @
      ''Donec hendrerit tempor tellus.  Donec pretium posuere tellus.  '' @
      ''Proin quam nisl, tincidunt et, mattis eget, convallis nec, purus.  '' @
      ''Cum sociis natoque penatibus et magnis dis parturient montes, '' @
      ''nascetur ridiculus mus.  Nulla posuere.  Donec vitae dolor.  '' @
      ''Nullam tristique diam non turpis.  Cras placerat accumsan nulla.  '' @
      ''Nullam rutrum.  Nam vestibulum accumsan nisl.'' @ [CHR 0x0A])"

definition test :: "TecTCPClient \<Rightarrow> int + nat \<Rightarrow> (int \<times> mon_call list \<times> sys_call list) outcome" where
  "test cli r = client_send_str cli (Some test_str) r"

text \<open>\<open>r\<close> is what \<open>write\<close> returns. The exit code and the system calls.\<close>

definition client_main ::
  "client_env \<Rightarrow> u8 list list \<Rightarrow> int + nat \<Rightarrow> (int \<times> sys_call list) outcome" where
  "client_main ce argv r =
     bind_outcome (TecSignal_init raw_signal 0 0) (\<lambda>(_, _, sig_started).
     bind_outcome (TecSignal_init raw_signal 0 0) (\<lambda>(_, _, sig_stopped).
     bind_outcome (parse_args argv TecSocketParams_init) (\<lambda>socket_params.
     bind_outcome (TecTCPClient_init (ce_mem ce) socket_params 0) (\<lambda>cli.
     bind_outcome (TecService_start (client_service ce) cli sig_started) (\<lambda>(error, sig_started, cli).
     if TecSignal_wait (sig_value sig_started) 0 [] = None then Inl No_return
     else
       bind_outcome
         (if error = 0 then
            bind_outcome (test cli r) (\<lambda>(error, _, cs).
            bind_outcome (TecService_shutdown (client_service ce) (cli\<lparr>cl_calls := cl_calls cli @ cs\<rparr>)
              sig_stopped) (\<lambda>(sig_stopped, cli).
            if TecSignal_wait (sig_value sig_stopped) 0 [] = None then Inl No_return
            else Inr (error, sig_stopped, cli)))
          else Inr (error, sig_stopped, cli))
         (\<lambda>(error, sig_stopped, cli).
       bind_outcome (TecSignal_done sig_stopped 0) (\<lambda>_.
       bind_outcome (TecSignal_done sig_started 0) (\<lambda>_.
       bind_outcome (TecTCPClient_done cli) (\<lambda>(_, cli).
         Inr (error, cl_calls cli)))))))))) "

section \<open>socket.c\<close>

text \<open>The system's side of one socket: what each call returns.\<close>

record socket_env =
  so_mem :: buffer_env
  so_gai :: "int + ptr"
  so_socket :: "int + int"
  so_reuse_addr :: "int option"
  so_reuse_port :: "int option"
  so_connect :: bool
  so_peer :: "int + peer"
  so_write :: "int + nat"

definition run :: "socket_env \<Rightarrow> TecSocket \<Rightarrow> (int \<times> sys_call list \<times> TecSocket) outcome" where
  "run so sock =
     (let (err, cs1, sock) = TecSocket_open sock (so_gai so) (so_socket so);
          (err, cs2, sock) =
            (if err = 0 then
               let (_, cs2) = TecSocket_set_options sock (so_reuse_addr so) (so_reuse_port so);
                   (err, cs3, sock) = TecSocket_connect sock (so_connect so) (so_peer so)
               in (err, cs2 @ cs3, sock)
             else (err, [], sock))
      in if err \<noteq> 0 then
           let (cs3, sock) = TecSocket_close sock in Inr (err, cs1 @ cs2 @ cs3, sock)
         else
           bind_outcome (TecSocket_write_str sock (Some test_str) (so_write so)) (\<lambda>(err, cs3).
             Inr (err, cs1 @ cs2 @ cs3, sock)))"

definition socket_main :: "socket_env \<Rightarrow> u8 list list \<Rightarrow> (int \<times> sys_call list) outcome" where
  "socket_main so argv =
     bind_outcome (parse_args argv TecSocketParams_init) (\<lambda>params.
     bind_outcome (TecSocket_init (so_mem so) params) (\<lambda>sock.
     bind_outcome (run so sock) (\<lambda>(err, cs, sock).
       Inr (err, cs @ fst (TecSocket_done sock)))))"

section \<open>ssocket.c\<close>

text \<open>What a call of \<open>accept\<close> gives, and what the client then sends.\<close>

record visit =
  vi_result :: "int + int"
  vi_peer :: "int + peer"
  vi_reads :: "read_result list"

text \<open>The handler of \<open>SIGINT\<close>: the value of \<open>running\<close> and the listening socket.\<close>

definition ssocket_handle_sigint :: "TecSocket option \<Rightarrow> bool \<times> sys_call list \<times> TecSocket option" where
  "ssocket_handle_sigint listening_socket =
     (case listening_socket of
        None \<Rightarrow> (False, [], None)
      | Some sock \<Rightarrow> let (cs, sock) = TecSocket_close sock in (False, cs, Some sock))"

text \<open>
  The loop on the connections given; then the signal arrives while the program is blocked in
  \<open>accept\<close>, which fails because the socket is closed. The lines, the calls, the socket, the
  buffer.
\<close>

fun polling ::
  "buffer_env \<Rightarrow> TecSocket \<Rightarrow> TecBuffer \<Rightarrow> visit list
   \<Rightarrow> (u8 list list \<times> sys_call list \<times> TecSocket \<times> TecBuffer) outcome" where
  "polling env sock str [] =
     (let (running, cs, s) = ssocket_handle_sigint (Some sock)
      in Inr ([], Sys_accept (sk_fd sock) # cs, the s, str))"
| "polling env sock str (v # vs) =
     bind_outcome (TecSocket_accept env sock (vi_result v) (vi_peer v)) (\<lambda>(cs, cli).
       if TecSocket_is_valid cli then
         bind_outcome (TecSocket_read env cli (TecBuffer_rewind str) (vi_reads v)) (\<lambda>r.
           case r of
             None \<Rightarrow> Inl No_return
           | Some (_, str) \<Rightarrow>
               bind_outcome (puts (buf_data str)) (\<lambda>line.
               let (cs1, cli) = TecSocket_close cli;
                   (cs2, cli) = TecSocket_done cli
               in bind_outcome (polling env sock str vs) (\<lambda>(lines, cs', sock, str).
                    Inr (line # lines, cs @ cs1 @ cs2 @ cs', sock, str))))
       else bind_outcome (polling env sock str vs) (\<lambda>(lines, cs', sock, str).
              Inr (lines, cs @ cs', sock, str)))"

definition run_server ::
  "buffer_env \<Rightarrow> listen_env \<Rightarrow> TecSocket \<Rightarrow> visit list
   \<Rightarrow> (int \<times> u8 list list \<times> sys_call list \<times> TecSocket) outcome" where
  "run_server env le sock vs =
     (let (err, cs1, sock) = TecSocket_open sock (le_gai le) (le_socket le);
          (err, cs2) =
            (if err = 0 then
               let (_, cs) = TecSocket_set_options sock (le_reuse_addr le) (le_reuse_port le);
                   (err, cs') = TecSocket_bind sock (le_bind le)
               in (err, cs @ cs')
             else (err, []));
          (err, cs3) = (if err = 0 then TecSocket_listen sock (le_listen le) else (err, []))
      in if err \<noteq> 0 then Inr (err, [], cs1 @ cs2 @ cs3, sock)
         else
           let bufsize = par_buffer_size (sk_params sock)
           in bind_outcome (TecBuffer_init env bufsize bufsize) (\<lambda>buf.
              bind_outcome (TecBuffer_init env 80 0) (\<lambda>str.
              bind_outcome (polling env (sock\<lparr>sk_buf := buf\<rparr>) str vs) (\<lambda>(lines, cs, sock, str).
                Inr (err, lines, cs1 @ cs2 @ cs3 @ cs, sock\<lparr>sk_buf := TecBuffer_done (sk_buf sock)\<rparr>)))))"

definition ssocket_main ::
  "buffer_env \<Rightarrow> listen_env \<Rightarrow> u8 list list \<Rightarrow> visit list \<Rightarrow> (int \<times> u8 list list \<times> sys_call list) outcome" where
  "ssocket_main env le argv vs =
     bind_outcome (parse_args argv TecSocketParams_init) (\<lambda>params.
     bind_outcome (TecSocket_init_server env params) (\<lambda>sock.
     bind_outcome (run_server env le sock vs) (\<lambda>(err, lines, cs, sock).
       Inr (err, lines, cs @ fst (TecSocket_done sock)))))"

section \<open>server.c\<close>

definition handle_sigint :: "TecSignal \<Rightarrow> TecSignal" where
  "handle_sigint sig_quit = snd (snd (TecSignal_set sig_quit 0 0))"

text \<open>
  The handler of connections, with the static buffer \<open>data\<close>: its result, the line it prints
  and the buffer.
\<close>

definition process_str ::
  "buffer_env \<Rightarrow> TecSocket \<Rightarrow> TecBuffer \<Rightarrow> read_result list
   \<Rightarrow> (int \<times> u8 list list \<times> TecBuffer) outcome" where
  "process_str env sock data rs =
     bind_outcome (TecSocket_read env sock (TecBuffer_rewind data) rs) (\<lambda>r.
       case r of
         None \<Rightarrow> Inl No_return
       | Some (err, data) \<Rightarrow>
           if err = 0 then bind_outcome (puts (buf_data data)) (\<lambda>line. Inr (err, [line], data))
           else Inr (err, [], data))"

text \<open>
  The program: \<open>proc\<close> stands for the handler's result (it leaves the socket as it is, see
  \<open>process_str\<close>); \<open>as\<close> are the connections accepted before \<open>SIGINT\<close>. \<open>h1\<close>, \<open>h2\<close>, \<open>h3\<close> are the
  handles of the three threads, \<open>p\<close> a queue node. The exit code, the threads joined, what the
  server did.
\<close>

definition server_main ::
  "server_env \<Rightarrow> (TecSocket \<Rightarrow> int) \<Rightarrow> listen_env \<Rightarrow> u8 list list \<Rightarrow> accepted list
   \<Rightarrow> user_code \<Rightarrow> nat \<Rightarrow> nat \<Rightarrow> nat \<Rightarrow> ptr \<Rightarrow> (int \<times> nat list \<times> server_event list) outcome" where
  "server_main se proc le argv as u h1 h2 h3 p =
     bind_outcome (TecSignal_init raw_signal 0 0) (\<lambda>(_, _, sig_quit).
     bind_outcome (TecBuffer_init (se_mem se) 1024 1024) (\<lambda>data.
     bind_outcome (parse_args argv (TecSocketParams_init\<lparr>par_addr := kTecAnyAddr\<rparr>)) (\<lambda>socket_params.
     bind_outcome (TecTCPServer_init (se_mem se) socket_params 0 0) (\<lambda>server.
     let se = TecTCPServer_set_client_proc se (\<lambda>sock. (proc sock, sock));
         svc = server_service se le
     in bind_outcome (TecServiceWorker_init (\<lambda>_. 0) True (unused_sw server) server 1) (\<lambda>(_, sw).
     bind_outcome (TecServiceWorker_run svc u sw h1 0 h2) (\<lambda>(error, hs, _, sw).
     bind_outcome
       (if error = 0 then
          bind_outcome (poll se (sw_service sw) as) (\<lambda>server.
          let sig_quit = handle_sigint sig_quit
          in if TecSignal_wait (sig_value sig_quit) 0 [] = None then Inl No_return
             else
               bind_outcome (TecServiceWorker_terminate svc u (sw\<lparr>sw_service := server\<rparr>) Map.empty p 0 h3)
                 (\<lambda>(_, hs', _, sw).
               if TecSignal_wait (sig_value (w_sig_terminated (sw_worker sw))) 0 [] = None then Inl No_return
               else Inr (hs @ hs', sig_quit, sw)))
        else Inr (hs, sig_quit, sw))
       (\<lambda>(hs, sig_quit, sw).
     bind_outcome (TecTCPServer_done (sw_service sw)) (\<lambda>server.
     bind_outcome (TecServiceWorker_done sw) (\<lambda>(hs', _, _).
     bind_outcome (TecSignal_done sig_quit 0) (\<lambda>_.
       Inr (error, hs @ hs', sv_events server)))))))))))"

section \<open>mt_server.c\<close>

definition process_data ::
  "buffer_env \<Rightarrow> TecSocket \<Rightarrow> read_result list \<Rightarrow> (int \<times> u8 list list) outcome" where
  "process_data env sock rs =
     bind_outcome (TecBuffer_create env 1024 0) (\<lambda>data.
     bind_outcome (TecSocket_read env sock data rs) (\<lambda>r.
       case r of
         None \<Rightarrow> Inl No_return
       | Some (err, data) \<Rightarrow>
           if err = 0 then bind_outcome (puts (buf_data data)) (\<lambda>line. Inr (err, [line]))
           else Inr (err, [])))"

section \<open>What the handlers print\<close>

text \<open>A buffer that has memory, as every buffer the programs read into has.\<close>

definition usable :: "TecBuffer \<Rightarrow> bool" where
  "usable b \<longleftrightarrow> buffer_wf b \<and> buf_capacity b \<noteq> 0"

lemma usable_one_block: "bs \<noteq> 0 \<Longrightarrow> unat bs < 2 ^ 63 \<Longrightarrow> usable (one_block_buffer bs)"
  using one_block_buffer_wf [of bs] by (simp add: usable_def one_block_buffer_def)

text \<open>The peer of \<open>sock\<close> sends \<open>bs\<close>, in pieces that the system delivers as it likes, and closes.\<close>

definition sends_all :: "TecSocket \<Rightarrow> u8 list \<Rightarrow> read_result list \<Rightarrow> bool" where
  "sends_all sock bs rs \<longleftrightarrow> length bs \<le> 2 ^ 61 \<and>
     (\<exists>d chunks. buf_data (sk_buf sock) = Some d \<and> buf_capacity (sk_buf sock) \<noteq> 0 \<and>
        length d < 2 ^ 64 \<and> chunks_fit chunks (length d) \<and> concat chunks = bs \<and>
        rs = map Received chunks @ [Closed])"

lemma rewind_usable: "usable b \<Longrightarrow> usable (TecBuffer_rewind b)"
  by (simp add: usable_def buffer_wf_def TecBuffer_rewind_def buf_bytes_def)

lemma rewind_room: "usable b \<Longrightarrow> n \<le> 2 ^ 61 \<Longrightarrow> room (TecBuffer_rewind b) n"
  by (simp add: usable_def TecBuffer_rewind_def room_def room_at_def)

lemma reads_all:
  assumes b: "usable b" and s: "sends_all sock bs rs"
  obtains b' where "TecSocket_read (ample h) sock (TecBuffer_rewind b) rs = Inr (Some (0, b'))"
    and "usable b'" and "buf_content b' = overlay (buf_content b) 0 bs" and "bs = [] \<Longrightarrow> b' = TecBuffer_rewind b"
proof -
  obtain d chunks where c: "buf_data (sk_buf sock) = Some d" "buf_capacity (sk_buf sock) \<noteq> 0"
    "length d < 2 ^ 64" "chunks_fit chunks (length d)" "concat chunks = bs" "rs = map Received chunks @ [Closed]"
    "length bs \<le> 2 ^ 61"
    using s by (auto simp: sends_all_def)
  let ?b = "TecBuffer_rewind b"
  have wf: "buffer_wf ?b" "buf_capacity ?b \<noteq> 0" using rewind_usable [OF b] by (simp_all add: usable_def)
  have content: "buf_content ?b = buf_content b" "unat (buf_pos ?b) = 0"
    by (simp_all add: TecBuffer_rewind_def buf_content_def buf_bytes_def)
  have "room ?b (length (concat chunks))" using rewind_room [OF b c(7)] c(5) by simp
  from read_appends [OF wf(1) this c(1-4), of Closed h "[]"] obtain b' where
    b': "TecSocket_read (ample h) sock ?b rs = Inr (Some (0, b'))" "buffer_wf b'"
    "file_of b' = file_write (file_of ?b) bs"
    using c(5,6) by auto
  have over: "buf_content b' = overlay (buf_content b) 0 bs"
    using b'(3) content by (simp add: file_of_def file_write_def)
  show thesis
  proof (cases "bs = []")
    case True
    then have "chunks = []" using c(4,5) by (cases chunks) (auto simp: chunks_fit_def)
    then have "b' = ?b" using b'(1) c(6) by (simp add: TecSocket_read_def)
    then show thesis using that b' over rewind_usable [OF b] by blast
  next
    case False
    then have "buf_content b' \<noteq> []" using over by (simp add: overlay_def)
    then have "buf_data b' \<noteq> None" by (auto simp: buf_content_def buf_bytes_def split: option.splits)
    then have "usable b'" using b'(2) by (auto simp: usable_def buffer_wf_def)
    then show thesis using that b' over False by blast
  qed
qed

lemma usable_data:
  assumes "usable b"
  obtains rest where "buf_data b = Some (buf_content b @ rest)"
  using assms by (auto simp: usable_def buffer_wf_def buf_content_def buf_bytes_def split: option.splits)
    (metis append_take_drop_id)

lemma puts_line: "0 \<notin> set s \<Longrightarrow> puts (Some (s @ 0 # xs)) = Inr s"
  by (induction s) (auto simp: puts_def split: if_splits)

lemma process_str_line:
  assumes "usable data" and "sends_all sock (s @ [0]) rs" and "0 \<notin> set s"
  obtains data' where "process_str (ample h) sock data rs = Inr (0, [s], data')" and "usable data'"
proof -
  obtain b where b: "TecSocket_read (ample h) sock (TecBuffer_rewind data) rs = Inr (Some (0, b))"
    "usable b" "buf_content b = overlay (buf_content data) 0 (s @ [0])"
    by (rule reads_all [OF assms(1,2)])
  obtain rest where "buf_data b = Some (buf_content b @ rest)" by (rule usable_data [OF b(2)])
  then have "\<exists>xs. buf_data b = Some (s @ 0 # xs)" using b(3) by (auto simp: overlay_def)
  then have "puts (buf_data b) = Inr s" using puts_line [OF assms(3)] by auto
  then show thesis using that b(1,2) by (simp add: process_str_def)
qed

text \<open>The handler on one connection after the other.\<close>

fun process_all ::
  "buffer_env \<Rightarrow> TecBuffer \<Rightarrow> (TecSocket \<times> read_result list) list \<Rightarrow> (u8 list list \<times> TecBuffer) outcome" where
  "process_all env data [] = Inr ([], data)"
| "process_all env data ((sock, rs) # cs) =
     bind_outcome (process_str env sock data rs) (\<lambda>(_, lines, data).
     bind_outcome (process_all env data cs) (\<lambda>(lines', data). Inr (lines @ lines', data)))"

text \<open>
  The handler of \<open>server.c\<close>, which reads every connection into the same
  buffer, prints exactly the string each client sent (with its terminating zero), in the
  order of the connections, whatever the earlier ones left in the buffer.
\<close>

theorem server_prints:
  assumes "usable data" and "list_all2 (\<lambda>(sock, rs) s. sends_all sock (s @ [0]) rs \<and> 0 \<notin> set s) conns strs"
  shows "\<exists>data'. process_all (ample h) data conns = Inr (strs, data')"
  using assms(2,1)
proof (induction conns strs arbitrary: data rule: list_all2_induct)
  case Nil
  then show ?case by simp
next
  case (Cons c cs s ss)
  obtain sock rs where c: "c = (sock, rs)" by (cases c)
  have s: "sends_all sock (s @ [0]) rs" "0 \<notin> set s" using Cons.hyps(1) c by simp_all
  obtain data1 where d1: "process_str (ample h) sock data rs = Inr (0, [s], data1)" "usable data1"
    by (rule process_str_line [OF Cons.prems s])
  obtain data2 where "process_all (ample h) data1 cs = Inr (ss, data2)" using Cons.IH [OF d1(2)] by blast
  then show ?case using d1(1) c by simp
qed

text \<open>
  C38: a client that does not terminate its string: what the handler of \<open>server.c\<close>
  prints is the bytes of this client followed by the rest of the string of the client before
  it, since the buffer is rewound and not emptied.
\<close>

theorem stale_data:
  assumes "usable data" and "sends_all sock1 (s @ [0]) rs1" and "0 \<notin> set s"
    and "sends_all sock2 bs rs2" and "0 \<notin> set bs" and "length bs \<le> length s"
  shows "\<exists>data'. process_all (ample h) data [(sock1, rs1), (sock2, rs2)]
     = Inr ([s, bs @ drop (length bs) s], data')"
proof -
  obtain b where b: "TecSocket_read (ample h) sock1 (TecBuffer_rewind data) rs1 = Inr (Some (0, b))"
    "usable b" "buf_content b = overlay (buf_content data) 0 (s @ [0])"
    by (rule reads_all [OF assms(1,2)])
  obtain rest where r: "buf_data b = Some (buf_content b @ rest)" by (rule usable_data [OF b(2)])
  have "\<exists>xs. buf_content b = s @ 0 # xs" using b(3) by (simp add: overlay_def)
  then obtain xs where xs: "buf_content b = s @ 0 # xs" by blast
  have p1: "process_str (ample h) sock1 data rs1 = Inr (0, [s], b)"
    using b(1) r xs puts_line [OF assms(3)] by (simp add: process_str_def)
  obtain b2 where b2: "TecSocket_read (ample h) sock2 (TecBuffer_rewind b) rs2 = Inr (Some (0, b2))"
    "usable b2" "buf_content b2 = overlay (buf_content b) 0 bs"
    by (rule reads_all [OF b(2) assms(4)])
  obtain rest2 where r2: "buf_data b2 = Some (buf_content b2 @ rest2)" by (rule usable_data [OF b2(2)])
  have "buf_content b2 = (bs @ drop (length bs) s) @ 0 # xs"
    using b2(3) xs assms(6) by (simp add: overlay_def)
  moreover have "0 \<notin> set (bs @ drop (length bs) s)" using assms(3,5) by (auto dest: in_set_dropD)
  ultimately have "puts (buf_data b2) = Inr (bs @ drop (length bs) s)"
    unfolding r2 using puts_line [of "bs @ drop (length bs) s" "xs @ rest2"] by simp
  then show ?thesis using p1 b2(1) by (simp add: process_str_def)
qed

lemma process_data_line:
  assumes "sends_all sock (s @ [0]) rs" and "0 \<notin> set s"
  shows "process_data (ample h) sock rs = Inr (0, [s])"
proof -
  have b: "TecBuffer_create (ample h) 1024 0 = Inr (one_block_buffer 80)"
    by (simp add: TecBuffer_create_def TecBuffer_init_result TECC_BUFFER_BLOCK_SIZE_def)
  have r: "TecBuffer_rewind (one_block_buffer 80) = one_block_buffer 80"
    by (simp add: TecBuffer_rewind_def one_block_buffer_def)
  have "usable (one_block_buffer 80)" by (rule usable_one_block) simp_all
  then obtain data where "process_str (ample h) sock (one_block_buffer 80) rs = Inr (0, [s], data)"
    by (rule process_str_line [OF _ assms])
  then obtain x where "TecSocket_read (ample h) sock (one_block_buffer 80) rs = Inr (Some (0, x))"
    "puts (buf_data x) = Inr s"
    by (auto simp: process_str_def r bind_outcome_Inr_iff split: option.splits if_splits)
  then show ?thesis by (simp add: process_data_def b)
qed

text \<open>
  The handler of \<open>mt_server.c\<close> prints exactly the string its client sent,
  also when it is longer than the block of 80 bytes its buffer starts with.
\<close>

theorem mt_server_prints:
  assumes "sends_all sock (s @ [0]) rs" and "0 \<notin> set s"
  shows "process_data (ample h) sock rs = Inr (0, [s])"
  using assms by (rule process_data_line)

lemma read_exact:
  assumes "length bs = unat k" and "k \<noteq> 0" and "buf_data (sk_buf sock) = Some d"
    and "buf_capacity (sk_buf sock) \<noteq> 0" and "length bs \<le> length d"
  shows "\<exists>b. TecSocket_read env sock (one_block_buffer k) [Received bs, Closed] = Inr (Some (0, b)) \<and>
     buf_data b = Some bs"
proof -
  have len: "word_of_nat (length bs) = k" using assms(1) by simp
  have n: "bs \<noteq> []" using assms(1,2) by (auto simp: u64_eq_0)
  have cap: "ensure_capacity env (one_block_buffer k) 0 k = Inr (one_block_buffer k)"
    by (simp add: ensure_capacity_def one_block_buffer_def)
  have "mem_write (Some d) 0 bs = Inr (Some (overlay d 0 bs))" using assms(5) by (simp add: mem_write_def)
  moreover have "mem_read (Some (overlay d 0 bs)) 0 (unat k) = Inr bs"
    using assms(1,5) by (auto simp: mem_read_def overlay_def)
  moreover have "mem_write (Some (replicate (unat k) 0)) 0 bs = Inr (Some bs)"
    using assms(1) n by (simp add: mem_write_def overlay_whole)
  moreover have "unat k \<noteq> 0" using assms(2) by (simp add: u64_eq_0)
  ultimately show ?thesis
    using assms(2-4) n cap
    by (simp add: TecSocket_read_def len TecBuffer_write_def one_block_buffer_def Let_def)
qed

text \<open>
  C39: a client that sends exactly as many bytes as the handler's buffer
  holds (80 for \<open>mt_server.c\<close>, 1024 for \<open>server.c\<close>) with no zero among them makes the handler's
  \<open>puts\<close> read behind the end of the buffer.
\<close>

theorem unterminated_overread:
  assumes "buf_data (sk_buf sock) = Some d" and "buf_capacity (sk_buf sock) \<noteq> 0" and "1024 \<le> length d"
    and "length bs = 80" and "0 \<notin> set bs" and "length cs = 1024" and "0 \<notin> set cs"
  shows "process_data (ample h) sock [Received bs, Closed] = Inl Out_of_bounds \<and>
     process_str (ample h) sock (one_block_buffer 1024) [Received cs, Closed] = Inl Out_of_bounds"
proof
  have b: "TecBuffer_create (ample h) 1024 0 = Inr (one_block_buffer 80)"
    by (simp add: TecBuffer_create_def TecBuffer_init_result TECC_BUFFER_BLOCK_SIZE_def)
  show "process_data (ample h) sock [Received bs, Closed] = Inl Out_of_bounds"
    using read_exact [of bs 80 sock d "ample h"] assms(1-5)
    by (auto simp: process_data_def b puts_def)
  have r: "TecBuffer_rewind (one_block_buffer 1024) = one_block_buffer 1024"
    by (simp add: TecBuffer_rewind_def one_block_buffer_def)
  show "process_str (ample h) sock (one_block_buffer 1024) [Received cs, Closed] = Inl Out_of_bounds"
    using read_exact [of cs 1024 sock d "ample h"] assms(1-3,6,7)
    by (auto simp: process_str_def r puts_def)
qed

section \<open>The two clients\<close>

lemma parse_args_fields:
  assumes "parse_args argv params = Inr params'"
  shows "par_socktype params' = par_socktype params" "par_buffer_size params' = par_buffer_size params"
    "par_flags params' = par_flags params"
  using assms by (auto simp: parse_args_def Let_def bind_outcome_Inr_iff split: if_splits)

definition client_env_of :: "socket_env \<Rightarrow> client_env" where
  "client_env_of so = \<lparr>ce_mem = so_mem so, ce_gai = so_gai so, ce_socket = so_socket so,
     ce_connect = so_connect so, ce_peer = so_peer so\<rparr>"

text \<open>
  The specification: the exit code and the calls of a client that sends \<open>s\<close> with its zero, for
  all the system may answer.
\<close>

definition transcript :: "TecSocketParams \<Rightarrow> socket_env \<Rightarrow> u8 list \<Rightarrow> int \<times> sys_call list" where
  "transcript params so s =
     (let resolve = Sys_getaddrinfo (par_addr params) (par_port params) (par_flags params)
      in case so_gai so of
           Inl err \<Rightarrow> (err, [resolve])
         | Inr res \<Rightarrow>
             (case so_socket so of
                Inl err \<Rightarrow> (err, [resolve, Sys_socket])
              | Inr fd \<Rightarrow>
                  let close = [Sys_shutdown fd, Sys_close fd, Sys_freeaddrinfo res];
                      peer_err = fst (get_socket_info undefined (so_peer so));
                      (err, sent) =
                        (if \<not> so_connect so then (ECONNREFUSED, [])
                         else if peer_err \<noteq> 0 then (peer_err, [])
                         else case so_write so of
                                Inl err \<Rightarrow> (err, [Sys_write fd []])
                              | Inr n \<Rightarrow> (if n = length s + 1 then 0 else EIO,
                                         [Sys_write fd (take n (s @ [0]))]))
                  in (err, [resolve, Sys_socket, Sys_connect fd res] @ sent @ close)))"

lemma peer_error: "fst (get_socket_info sock info) = fst (get_socket_info undefined info)"
  by (simp add: get_socket_info_def Let_def split: sum.splits peer.splits)

lemma peer_keeps: "sk_fd (snd (get_socket_info sock info)) = sk_fd sock"
  "sk_pai (snd (get_socket_info sock info)) = sk_pai sock"
  by (simp_all add: get_socket_info_def Let_def split: sum.splits peer.splits)

text \<open>What the system answers when it answers sensibly.\<close>

definition sane :: "socket_env \<Rightarrow> bool" where
  "sane so \<longleftrightarrow> env_ok (so_mem so) \<and> (\<forall>res. so_gai so = Inr res \<longrightarrow> res \<noteq> NULL) \<and>
     (\<forall>fd. so_socket so = Inr fd \<longrightarrow> fd \<noteq> - 1) \<and>
     (\<forall>err. so_gai so = Inl err \<or> so_socket so = Inl err \<or> so_write so = Inl err \<longrightarrow> err \<noteq> 0)"

lemma write_str_result:
  assumes "length s + 1 < 2 ^ 31"
  shows "TecSocket_write_str sock (Some s) r = Inr (case r of
      Inl err \<Rightarrow> (err, [Sys_write (sk_fd sock) []])
    | Inr n \<Rightarrow> (if n = length s + 1 then 0 else EIO, [Sys_write (sk_fd sock) (take n (s @ [0]))]))"
proof -
  have len: "unat (scast (word_of_nat (length s) + 1 :: u32) :: u64) = Suc (length s)"
    using write_str_buffer [OF assms] by simp
  then have nz: "scast (word_of_nat (length s) + 1 :: u32) \<noteq> (0 :: u64)" by (metis nat.distinct(1) unat_0)
  show ?thesis
    using len nz
    by (auto simp: TecSocket_write_str_def TecSocket_write_def mem_read_def Let_def split: sum.splits)
qed

lemma test_str_length: "length test_str = 424"
  by (simp add: test_str_def bytes_of_def)

lemma socket_main_calls:
  assumes "sane so" and "parse_args argv TecSocketParams_init = Inr params"
  shows "socket_main so argv = Inr (transcript params so test_str)"
proof -
  have p: "par_socktype params = SOCK_STREAM" "par_buffer_size params \<noteq> 0" "par_flags params = 0"
    using parse_args_fields [OF assms(2)]
    by (simp_all add: TecSocketParams_init_def kTecDefaultSockType_def TECC_SOCK_BUFFER_SIZE_def
        kTecDefaultClientFlags_def)
  let ?sock = "\<lparr>sk_fd = - 1, sk_port = - 1, sk_addr = [], sk_flags = 0, sk_pai = NULL,
      sk_buf = fresh_buffer (par_buffer_size params), sk_params = params\<rparr>"
  have i: "TecSocket_init (so_mem so) params = Inr ?sock" using p(2) by (rule socket_init)
  have l: "length test_str + 1 < 2 ^ 31" by (simp add: test_str_length)
  show ?thesis
  proof (cases "so_gai so")
    case (Inl err)
    then show ?thesis
      using assms p(1) i
      by (simp add: socket_main_def run_def TecSocket_open_def TecSocket_close_def TecSocket_done_def
          transcript_def sane_def Let_def)
  next
    case gai: (Inr res)
    show ?thesis
    proof (cases "so_socket so")
      case (Inl err)
      then show ?thesis
        using assms p(1) i gai
        by (simp add: socket_main_def run_def TecSocket_open_def TecSocket_close_def TecSocket_done_def
            transcript_def sane_def Let_def)
    next
      case (Inr fd)
      let ?s = "?sock\<lparr>sk_fd := fd, sk_pai := res\<rparr>"
      have fd: "fd \<noteq> - 1" "res \<noteq> NULL" using assms(1) gai Inr by (auto simp: sane_def)
      have o: "TecSocket_open ?sock (so_gai so) (so_socket so)
          = (0, [Sys_getaddrinfo (par_addr params) (par_port params) (par_flags params), Sys_socket], ?s)"
        using p(1) gai Inr by (simp add: TecSocket_open_def Let_def)
      have so: "TecSocket_set_options ?s r1 r2 = (0, [])" for r1 r2
        using p(3) by (simp add: TecSocket_set_options_def TecSocket_is_server_def)
      obtain pe s' where g: "get_socket_info ?s (so_peer so) = (pe, s')"
        by (cases "get_socket_info ?s (so_peer so)")
      have s': "sk_fd s' = fd" "sk_pai s' = res" using peer_keeps [of ?s "so_peer so"] unfolding g by simp_all
      have pe: "pe = fst (get_socket_info undefined (so_peer so))"
        using peer_error [of ?s "so_peer so"] unfolding g by simp
      show ?thesis
        using assms(2) i fd o so g s' pe gai Inr
        by (auto simp: socket_main_def run_def TecSocket_connect_def TecSocket_close_def TecSocket_done_def
            transcript_def write_str_result [OF l] Let_def ECONNREFUSED_def split: sum.splits)
    qed
  qed
qed

text \<open>
  C#socket_main_transcript: \<open>socket.c\<close> for every answer of the system: its exit code is 0
  exactly when it connected, learned the peer's address and the whole string was taken; a
  descriptor it was given is shut down and closed once, as its last act, and the address
  list freed once.
\<close>

theorem socket_main_transcript:
  assumes "sane so" and "parse_args argv TecSocketParams_init = Inr params"
  shows "socket_main so argv = Inr (transcript params so test_str)"
  using assms by (rule socket_main_calls)

lemma guard_done: "TecMutex_destroy (TecMutex_init m 0) = Inr [Destroy_mutex]"
  by (simp add: TecMutex_destroy_def TecMutex_init_def TecMutex_ok_def read_field_def)

lemma raw_signal_init: "TecSignal_init raw_signal 0 0 = Inr (True, [],
    \<lparr>sig_value = 0, sig_mtx = \<lparr>mtx_result = Some 0\<rparr>, sig_cnd = \<lparr>cv_result = Some 0\<rparr>\<rparr>)"
  by (simp add: signal_init_ok raw_signal_def)

lemma client_main_calls:
  assumes "sane so" and "parse_args argv TecSocketParams_init = Inr params"
  shows "client_main (client_env_of so) argv (so_write so) = Inr (transcript params so test_str)"
proof -
  have p: "par_socktype params = SOCK_STREAM" "par_buffer_size params \<noteq> 0"
    using parse_args_fields [OF assms(2)]
    by (simp_all add: TecSocketParams_init_def kTecDefaultSockType_def TECC_SOCK_BUFFER_SIZE_def)
  have mem: "env_ok (so_mem so)" using assms(1) by (simp add: sane_def)
  let ?sock = "\<lparr>sk_fd = - 1, sk_port = - 1, sk_addr = [], sk_flags = 0, sk_pai = NULL,
      sk_buf = fresh_buffer (par_buffer_size params), sk_params = params\<rparr>"
  have i: "TecSocket_init (so_mem so) params = Inr ?sock" using p(2) by (rule socket_init)
  have l: "length test_str + 1 < 2 ^ 31" by (simp add: test_str_length)
  note defs = client_main_def client_env_of_def TecTCPClient_init_def TecService_start_def TecService_shutdown_def
    client_service_def client_start_def client_shutdown_def test_def client_send_str_def TecTCPClient_done_def
    raw_signal_init TecBuffer_init_result [OF mem] guard_done TecSignal_set_def TecSignal_wait_def
    TecSignal_done_def TecCV_destroy_def TecCV_ok_def TecMutex_destroy_def TecMutex_init_def TecMutex_ok_def
    read_field_def TecSocket_close_def TecSocket_done_def transcript_def write_str_result [OF l] Let_def
  show ?thesis
  proof (cases "so_gai so")
    case (Inl err)
    then show ?thesis
      using assms p i by (simp add: defs TecSocket_open_def sane_def)
  next
    case gai: (Inr res)
    show ?thesis
    proof (cases "so_socket so")
      case (Inl err)
      then show ?thesis
        using assms p i gai by (simp add: defs TecSocket_open_def sane_def)
    next
      case (Inr fd)
      let ?s = "?sock\<lparr>sk_fd := fd, sk_pai := res\<rparr>"
      have fd: "fd \<noteq> - 1" "res \<noteq> NULL" using assms(1) gai Inr by (auto simp: sane_def)
      have o: "TecSocket_open ?sock (so_gai so) (so_socket so)
          = (0, [Sys_getaddrinfo (par_addr params) (par_port params) (par_flags params), Sys_socket], ?s)"
        using p(1) gai Inr by (simp add: TecSocket_open_def Let_def)
      obtain pe s' where g: "get_socket_info ?s (so_peer so) = (pe, s')"
        by (cases "get_socket_info ?s (so_peer so)")
      have s': "sk_fd s' = fd" "sk_pai s' = res" using peer_keeps [of ?s "so_peer so"] unfolding g by simp_all
      have pe: "pe = fst (get_socket_info undefined (so_peer so))"
        using peer_error [of ?s "so_peer so"] unfolding g by simp
      show ?thesis
        using assms(2) p i fd o g s' pe gai Inr
        by (auto simp: defs TecSocket_connect_def ECONNREFUSED_def split: sum.splits)
    qed
  qed
qed

text \<open>
  C26: the client on the service API and the client on the bare sockets make the
  same system calls in the same order and return the same code, whatever the system answers.
\<close>

theorem clients_agree:
  assumes "sane so" and "parse_args argv TecSocketParams_init \<noteq> Inl Signed_overflow"
  shows "client_main (client_env_of so) argv (so_write so) = socket_main so argv"
proof (cases "parse_args argv TecSocketParams_init")
  case (Inl f)
  then have "f = Signed_overflow"
    by (auto simp: parse_args_def atoi_def signed32_def Let_def split: if_splits list.splits)
  then show ?thesis using Inl assms(2) by simp
next
  case (Inr params)
  then show ?thesis using client_main_calls socket_main_calls assms(1) by simp
qed

section \<open>A client and a server\<close>

lemma test_str_zero: "0 \<notin> set test_str"
  by (simp add: test_str_def bytes_of_def)

lemma transcript_sent:
  assumes "fst (transcript params so s) = 0" and "sane so"
  shows "bytes_sent (snd (transcript params so s)) = s @ [0]"
  using assms
  by (auto simp: transcript_def bytes_sent_def sane_def ECONNREFUSED_def EIO_def Let_def
      split: sum.splits if_splits)

text \<open>
  C3: when \<open>client.c\<close> returns 0, the bytes it has sent make each of the three
  servers print the string of the client, in whatever pieces the network delivers them.
\<close>

theorem client_to_server:
  assumes "sane so" and "client_main (client_env_of so) argv (so_write so) = Inr (0, calls)"
    and "sends_all sock (bytes_sent calls) rs" and "usable data"
  shows "process_data (ample h) sock rs = Inr (0, [test_str]) \<and>
    (\<exists>data'. process_str (ample h) sock data rs = Inr (0, [test_str], data')) \<and>
    (\<exists>str'. TecSocket_read (ample h) sock (TecBuffer_rewind data) rs = Inr (Some (0, str')) \<and>
       puts (buf_data str') = Inr test_str)"
proof -
  obtain params where params: "parse_args argv TecSocketParams_init = Inr params"
    using assms(2) by (auto simp: client_main_def raw_signal_init bind_outcome_Inr_iff)
  have "transcript params so test_str = (0, calls)"
    using client_main_calls [OF assms(1) params] assms(2) by simp
  then have "bytes_sent calls = test_str @ [0]"
    using transcript_sent [of params so test_str] assms(1) by simp
  then have s: "sends_all sock (test_str @ [0]) rs" using assms(3) by simp
  obtain data' where d: "process_str (ample h) sock data rs = Inr (0, [test_str], data')"
    by (rule process_str_line [OF assms(4) s test_str_zero])
  then have "\<exists>str'. TecSocket_read (ample h) sock (TecBuffer_rewind data) rs = Inr (Some (0, str')) \<and>
      puts (buf_data str') = Inr test_str"
    by (auto simp: process_str_def bind_outcome_Inr_iff split: option.splits if_splits)
  moreover have "process_data (ample h) sock rs = Inr (0, [test_str])"
    by (rule process_data_line [OF s test_str_zero])
  ultimately show ?thesis using d by blast
qed

text \<open>A client whose peer is known gets the server's buffer.\<close>

lemma accept_known:
  assumes "env_ok env" and "fst (get_socket_info undefined info) = 0"
  obtains cli where "TecSocket_accept env sock (Inr fd) info = Inr ([Sys_accept (sk_fd sock)], cli)"
    and "sk_fd cli = fd" and "sk_pai cli = NULL" and "sk_buf cli = sk_buf sock"
proof -
  define buf where "buf = fresh_buffer (if par_buffer_size (sk_params sock) = 0 then TECC_BUFFER_BLOCK_SIZE
    else par_buffer_size (sk_params sock))"
  have b: "TecBuffer_init env 0 (par_buffer_size (sk_params sock)) = Inr buf"
    unfolding buf_def TecBuffer_init_result [OF assms(1)] by (simp add: Let_def)
  let ?c = "\<lparr>sk_fd = fd, sk_port = - 1, sk_addr = [], sk_flags = 0, sk_pai = NULL, sk_buf = buf,
      sk_params = sk_params sock\<rparr>"
  obtain e c where g: "get_socket_info ?c info = (e, c)" by (cases "get_socket_info ?c info")
  have "e = 0" "sk_fd c = fd" "sk_pai c = NULL"
    using peer_error [of ?c info] peer_keeps [of ?c info] assms(2) unfolding g by simp_all
  then show thesis
    using b g by (intro that [of "c\<lparr>sk_buf := sk_buf sock\<rparr>"]) (simp_all add: TecSocket_accept_def TecSocket_init_def)
qed

text \<open>A visitor of \<open>ssocket.c\<close> on descriptor \<open>fd\<close> that sends \<open>s\<close> with its zero.\<close>

definition sends_str :: "TecBuffer \<Rightarrow> visit \<Rightarrow> u8 list \<Rightarrow> bool" where
  "sends_str buf v s \<longleftrightarrow> (\<exists>fd. vi_result v = Inr fd \<and> fd \<noteq> - 1) \<and>
     fst (get_socket_info undefined (vi_peer v)) = 0 \<and> 0 \<notin> set s \<and>
     (\<forall>sock. sk_buf sock = buf \<longrightarrow> sends_all sock (s @ [0]) (vi_reads v))"

definition visit_calls :: "int \<Rightarrow> visit \<Rightarrow> sys_call list" where
  "visit_calls lfd v =
     (case vi_result v of
        Inl _ \<Rightarrow> [Sys_accept lfd]
      | Inr fd \<Rightarrow> [Sys_accept lfd, Sys_shutdown fd, Sys_close fd])"

lemma visit_calls_Inr: "vi_result v = Inr fd \<Longrightarrow>
    visit_calls lfd v = [Sys_accept lfd, Sys_shutdown fd, Sys_close fd]"
  by (simp add: visit_calls_def)

lemma polling_prints:
  assumes "list_all2 (sends_str (sk_buf sock)) vs strs" and "usable str" and "sk_fd sock = lfd" and "lfd \<noteq> - 1"
    and "sk_pai sock = res" and "res \<noteq> NULL"
  shows "\<exists>sock' str'. polling (ample h) sock str vs =
     Inr (strs, concat (map (visit_calls lfd) vs)
        @ [Sys_accept lfd, Sys_shutdown lfd, Sys_close lfd, Sys_freeaddrinfo res], sock', str') \<and>
     sk_fd sock' = - 1"
  using assms(1,2)
proof (induction vs strs arbitrary: str rule: list_all2_induct)
  case Nil
  then show ?case
    using assms(3-6) by (simp add: ssocket_handle_sigint_def TecSocket_close_def Let_def)
next
  case (Cons v vs s ss)
  obtain fd where v: "vi_result v = Inr fd" "fd \<noteq> - 1" "fst (get_socket_info undefined (vi_peer v)) = 0"
    "0 \<notin> set s" "\<And>c. sk_buf c = sk_buf sock \<Longrightarrow> sends_all c (s @ [0]) (vi_reads v)"
    using Cons.hyps(1) by (auto simp: sends_str_def)
  obtain cli where cli: "TecSocket_accept (ample h) sock (Inr fd) (vi_peer v) = Inr ([Sys_accept lfd], cli)"
    "sk_fd cli = fd" "sk_pai cli = NULL" "sk_buf cli = sk_buf sock"
    using accept_known [OF env_ok_ampleI v(3)] assms(3) by metis
  obtain str1 where r: "TecSocket_read (ample h) cli (TecBuffer_rewind str) (vi_reads v) = Inr (Some (0, str1))"
    "usable str1" "buf_content str1 = overlay (buf_content str) 0 (s @ [0])"
    by (rule reads_all [OF Cons.prems v(5) [OF cli(4)]])
  obtain rest where "buf_data str1 = Some (buf_content str1 @ rest)" by (rule usable_data [OF r(2)])
  then have "\<exists>xs. buf_data str1 = Some (s @ 0 # xs)" using r(3) by (auto simp: overlay_def)
  then have line: "puts (buf_data str1) = Inr s" using puts_line [OF v(4)] by auto
  obtain sock' str' where IH: "polling (ample h) sock str1 vs =
      Inr (ss, concat (map (visit_calls lfd) vs)
        @ [Sys_accept lfd, Sys_shutdown lfd, Sys_close lfd, Sys_freeaddrinfo res], sock', str')"
    "sk_fd sock' = - 1"
    using Cons.IH [OF r(2)] by blast
  have "TecSocket_is_valid cli" using cli(2) v(2) by (simp add: TecSocket_is_valid_def)
  then show ?case
    using v(1,2) cli r(1) line IH
    by (simp add: TecSocket_close_def TecSocket_done_def visit_calls_Inr [OF v(1)])
qed


section \<open>The single-threaded server\<close>

lemma server_init_ok:
  assumes "env_ok env"
  obtains srv where "TecTCPServer_init env params 0 0 = Inr srv" and "sv_running srv"
    and "signal_made (sv_sig_polling_stopped srv)"
  using assms
  by (simp add: TecTCPServer_init_def TecSocket_init_server_def TecSocket_init_def TecBuffer_init_result
      signal_init_ok signal_made_def Let_def split: if_splits)

lemma server_done_closed:
  assumes "signal_made (sv_sig_polling_stopped srv)" and "sk_fd (sv_sock srv) = - 1"
  shows "\<exists>srv'. TecTCPServer_done srv = Inr srv' \<and> sv_events srv' = sv_events srv \<and>
     sv_thread_pool srv' = sv_thread_pool srv \<and> sv_log srv' = sv_log srv"
  using signal_done_made [OF assms(1)] assms(2)
  by (auto simp: TecTCPServer_done_def TecSocket_done_def TecSocket_close_def)

text \<open>A server that runs in its service worker, on the descriptor \<open>lfd\<close> it has opened.\<close>

lemma server_worker_runs:
  assumes mem: "env_ok (se_mem se)"
    and srv: "sv_events srv = []" "sv_log srv = False" "par_socktype (sk_params (sv_sock srv)) = SOCK_STREAM"
    and sys: "le_gai le = Inr res" "le_socket le = Inr lfd" "lfd \<noteq> - 1" "res \<noteq> NULL"
      "le_bind le = None" "le_listen le = None"
    and sw: "TecServiceWorker_init (\<lambda>_. 0) True (unused_sw srv) srv n = Inr (True, sw0)"
  obtains es sw1 cs where
    "TecServiceWorker_run (server_service se le) u sw0 h1 0 h2 = Inr (0, [], es, sw1)"
    and "running_service_worker sw1 h1 h2" and "service_worker_made sw1"
    and "sv_polling (sw_service sw1)" and "\<not> sv_log (sw_service sw1)"
    and "sk_fd (sv_sock (sw_service sw1)) = lfd" and "sk_pai (sv_sock (sw_service sw1)) = res"
    and "sv_events (sw_service sw1) = map Call cs" and "Sys_close lfd \<notin> set cs" and "Sys_freeaddrinfo res \<notin> set cs"
    and "sv_running (sw_service sw1) = sv_running srv" and "sv_thread_pool (sw_service sw1) = sv_thread_pool srv"
    and "sv_sig_polling_stopped (sw_service sw1) = sv_sig_polling_stopped srv"
    and "sv_sock (sw_service sw1) = (sv_sock srv)\<lparr>sk_fd := lfd, sk_pai := res\<rparr>"
proof -
  let ?svc = "server_service se le"
  have ready: "ready_service_worker sw0" "sw_service sw0 = srv" "service_worker_made sw0"
    using service_worker_init_ready [OF unused_sw_worker, of srv srv n] sw service_worker_init_made [OF sw]
    by (metis Inr_inject Pair_inject)+
  have contract: "service_contract (svc_start ?svc) (svc_shutdown ?svc) (server_new se) (server_started se)"
    unfolding server_service_def by (simp add: tcp_server.service_contract_axioms)
  have new: "server_new se (sw_service sw0)" using mem by (simp add: server_new_def)
  obtain e s1 where st: "server_start se le srv (sw_sig_started sw0)
      = Inr (e, snd (snd (TecSignal_set (sw_sig_started sw0) 0 0)), s1)"
    using server_start_returns new ready(2) by metis
  obtain cs where s1: "e = 0" "sv_polling s1" "sk_fd (sv_sock s1) = lfd" "sk_pai (sv_sock s1) = res"
    "\<not> sv_log s1" "sv_events s1 = map Call cs" "Sys_close lfd \<notin> set cs" "Sys_freeaddrinfo res \<notin> set cs"
    "sv_running s1 = sv_running srv" "sv_thread_pool s1 = sv_thread_pool srv"
    "sv_sig_polling_stopped s1 = sv_sig_polling_stopped srv"
    "sv_sock s1 = (sv_sock srv)\<lparr>sk_fd := lfd, sk_pai := res\<rparr>"
    by (rule server_starts [OF mem srv sys st])
  have st': "svc_start ?svc (sw_service sw0) (sw_sig_started sw0)
      = Inr (0, snd (snd (TecSignal_set (sw_sig_started sw0) 0 0)), s1)"
    using st s1(1) ready(2) by (simp add: server_service_def)
  obtain es sw1 where r: "TecServiceWorker_run ?svc u sw0 h1 0 h2 = Inr (0, [], es, sw1)"
    "sw_service sw1 = s1" "running_service_worker sw1 h1 h2" "service_worker_made sw1"
    using service_worker_runs(2) [OF contract new ready(1) st' refl, of u h1 h2] ready(3) by blast
  show thesis by (rule that [OF r(1,3,4)]) (use s1 r(2) in simp_all)
qed

text \<open>Its end.\<close>

lemma server_worker_stops:
  assumes mem: "env_ok (se_mem se)" and sw1: "running_service_worker sw1 h1 h2" "service_worker_made sw1"
    and srv: "sv_polling srv" "\<not> sv_log srv" "sk_fd (sv_sock srv) = lfd" "lfd \<noteq> - 1"
      "sk_pai (sv_sock srv) = res" "res \<noteq> NULL" "signal_made (sv_sig_polling_stopped srv)"
    and p: "p \<noteq> NULL"
  obtains sw2 where
    "TecServiceWorker_terminate (server_service se le) u (sw1\<lparr>sw_service := srv\<rparr>) Map.empty p 0 h3
      = Inr (0, [h3, h2, h1], [Hook on_exit_hook], sw2)"
    and "sig_value (w_sig_terminated (sw_worker sw2)) = 1" and "service_worker_over sw2"
    and "sk_fd (sv_sock (sw_service sw2)) = - 1" and "signal_made (sv_sig_polling_stopped (sw_service sw2))"
    and "sv_events (sw_service sw2) = sv_events srv
        @ [Call (Sys_accept lfd), Call (Sys_shutdown lfd), Call (Sys_close lfd), Call (Sys_freeaddrinfo res)]"
    and "sv_thread_pool (sw_service sw2) = sv_thread_pool srv" and "\<not> sv_log (sw_service sw2)"
proof -
  let ?svc = "server_service se le"
  let ?sw1 = "sw1\<lparr>sw_service := srv\<rparr>"
  have contract: "service_contract (svc_start ?svc) (svc_shutdown ?svc) (server_new se) (server_started se)"
    unfolding server_service_def by (simp add: tcp_server.service_contract_axioms)
  have run1: "running_service_worker ?sw1 h1 h2" "service_worker_made ?sw1"
    using sw1 by (simp_all add: running_service_worker_def service_worker_made_def)
  have "server_started se (sw_service ?sw1)" using mem srv(1) by (simp add: server_started_def)
  from service_worker_terminates [OF contract this run1(1) p, of u h3] obtain sig s2 sw2 where
    t: "svc_shutdown ?svc srv (sw_sig_stopped sw1) = Inr (sig, s2)"
    "TecServiceWorker_terminate ?svc u ?sw1 Map.empty p 0 h3 = Inr (0, [h3, h2, h1], [Hook on_exit_hook], sw2)"
    "sw_service sw2 = s2" "sig_value (w_sig_terminated (sw_worker sw2)) = 1" "service_worker_over sw2"
    using run1(2) by auto
  have "server_shutdown se srv (sw_sig_stopped sw1) = Inr (sig, s2)"
    using t(1) by (simp add: server_service_def)
  note stop = server_stops [OF srv(1-6) this]
  show thesis by (rule that [OF t(2,4,5)]) (use stop srv(7) t(3) in simp_all)
qed


text \<open>
  When the address cannot be bound, \<open>server.c\<close> returns the system's error
  without waiting for \<open>SIGINT\<close>; both threads have been joined, and the listening socket is
  closed and its address list freed once.
\<close>

theorem server_main_failure:
  assumes mem: "env_ok (se_mem se)"
    and args: "parse_args argv (TecSocketParams_init\<lparr>par_addr := kTecAnyAddr\<rparr>) = Inr params"
    and sys: "le_gai le = Inr res" "le_socket le = Inr lfd" "lfd \<noteq> - 1" "res \<noteq> NULL"
      "le_bind le = Some err" "err \<noteq> 0"
  shows "\<exists>cs. server_main se proc le argv as u h1 h2 h3 p = Inr (err, [h2, h1], map Call cs
        @ [Call (Sys_shutdown lfd), Call (Sys_close lfd), Call (Sys_freeaddrinfo res)]) \<and>
     Sys_close lfd \<notin> set cs \<and> Sys_freeaddrinfo res \<notin> set cs"
proof -
  let ?se = "TecTCPServer_set_client_proc se (\<lambda>sock. (proc sock, sock))"
  let ?svc = "server_service ?se le"
  have mem': "env_ok (se_mem ?se)" "se_mem ?se = se_mem se"
    using mem by (simp_all add: TecTCPServer_set_client_proc_def)
  have tcp: "par_socktype params = SOCK_STREAM"
    using parse_args_fields(1) [OF args] by (simp add: TecSocketParams_init_def kTecDefaultSockType_def)
  obtain srv where srv: "TecTCPServer_init (se_mem ?se) params 0 0 = Inr srv" "sv_running srv"
    "signal_made (sv_sig_polling_stopped srv)"
    by (rule server_init_ok [OF mem'(1)])
  note f = server_init_fields [OF srv(1)]
  obtain sw0 where sw0: "TecServiceWorker_init (\<lambda>_. 0) True (unused_sw srv) srv 1 = Inr (True, sw0)"
    using service_worker_init_ready [OF unused_sw_worker] by metis
  have ready: "ready_service_worker sw0" "sw_service sw0 = srv" "service_worker_made sw0"
    using service_worker_init_ready [OF unused_sw_worker, of srv srv 1] sw0 service_worker_init_made [OF sw0]
    by (metis Inr_inject Pair_inject)+
  have contract: "service_contract (svc_start ?svc) (svc_shutdown ?svc) (server_new ?se) (server_started ?se)"
    unfolding server_service_def by (simp add: tcp_server.service_contract_axioms)
  have new: "server_new ?se (sw_service sw0)" using mem' by (simp add: server_new_def)
  let ?sock = "(sv_sock srv)\<lparr>sk_fd := lfd, sk_pai := res\<rparr>"
  have stcp: "par_socktype (sk_params (sv_sock srv)) = SOCK_STREAM" using f(5) tcp by simp
  have "le_bind le = Some err \<and> err \<noteq> 0 \<or> le_bind le = None \<and> le_listen le = Some err \<or>
      le_bind le = None \<and> le_listen le = None \<and> err = 0"
    using sys(5,6) by simp
  then obtain cs where cs: "start_listening le (sv_sock srv) = (err, cs, ?sock)"
    "count_list (map Call cs) (Call (Sys_close lfd)) = 0"
    "count_list (map Call cs) (Call (Sys_freeaddrinfo res)) = 0"
    by (rule start_listening_opens [OF stcp sys(1-4)])
  let ?stopped = "snd (snd (TecSignal_set (sv_sig_polling_stopped srv) 0 0))"
  let ?s1 = "(emit (map Call cs) (srv\<lparr>sv_sock := ?sock\<rparr>))\<lparr>sv_sig_polling_stopped := ?stopped\<rparr>"
  have st: "svc_start ?svc (sw_service sw0) (sw_sig_started sw0)
      = Inr (err, snd (snd (TecSignal_set (sw_sig_started sw0) 0 0)), ?s1)"
    using cs(1) f(3) sys(6) ready(2) by (simp add: server_service_def server_start_def Let_def)
  obtain es sw1 where r: "TecServiceWorker_run ?svc u sw0 h1 0 h2 = Inr (err, [h2, h1], es, sw1)"
    "sw_service sw1 = ?s1" "service_worker_over sw1"
    using service_worker_runs(1) [OF contract new ready(1) st sys(6), of u h1 h2] ready(3) by blast
  have "signal_made ?stopped" using srv(3) by simp
  from signal_done_made [OF this] obtain x where
    x: "TecSignal_done ?stopped 0 = Inr ([Destroy_cv, Destroy_mutex], x)" by blast
  have "\<exists>srv2. TecTCPServer_done ?s1 = Inr srv2 \<and> sv_events srv2 = map Call cs
      @ [Call (Sys_shutdown lfd), Call (Sys_close lfd), Call (Sys_freeaddrinfo res)]"
    using x sys(3,4) f(2)
    by (simp add: TecTCPServer_done_def TecSocket_done_def TecSocket_close_def emit_def)
  then obtain srv2 where srv2: "TecTCPServer_done (sw_service sw1) = Inr srv2" "sv_events srv2 = map Call cs
      @ [Call (Sys_shutdown lfd), Call (Sys_close lfd), Call (Sys_freeaddrinfo res)]"
    using r(2) by metis
  obtain mcs sw3 where sw3: "TecServiceWorker_done sw1 = Inr ([], mcs, sw3)"
    using service_worker_done_over [OF r(3)] by blast
  let ?sig = "\<lparr>sig_value = 0, sig_mtx = \<lparr>mtx_result = Some 0\<rparr>, sig_cnd = \<lparr>cv_result = Some 0\<rparr>\<rparr>"
  have "signal_made ?sig" by (simp add: signal_made_def)
  from signal_done_made [OF this] obtain s' where
    s': "TecSignal_done ?sig 0 = Inr ([Destroy_cv, Destroy_mutex], s')" by blast
  have "server_main se proc le argv as u h1 h2 h3 p = Inr (err, [h2, h1], sv_events srv2)"
    using args srv(1) sw0 r(1) srv2(1) sw3 s' sys(6) TecBuffer_init_result [OF mem, of 1024 1024]
    unfolding mem'(2)
    by (simp add: server_main_def raw_signal_init Let_def)
  then show ?thesis using cs(2,3) srv2(2) by (auto simp: count_list_0_iff)
qed

section \<open>The signal handler\<close>

text \<open>
  The handler of \<open>SIGINT\<close> in \<open>server.c\<close> and \<open>mt_server.c\<close> sets the signal the
  main thread waits for. When it interrupts the main thread (0) while that holds the mutex
  of the signal, in \<open>TecSignal_wait\<close> between its lock and its wait, the handler (1) can store
  the value and then waits for the mutex for ever, since the main thread goes on only when
  the handler has returned.
\<close>

theorem handler_deadlock:
  assumes "sig_reach s" and "ss_pc s 0 \<in> {W_test, W_wait}" and "ss_pc s 1 = S_store"
    and "\<forall>t. t \<notin> {0, 1} \<longrightarrow> ss_pc s t = Returned"
  shows "\<exists>s1. sig_step s s1 \<and> ss_pc s1 0 = ss_pc s 0 \<and> ss_pc s1 1 = S_lock \<and>
    (\<forall>s2. sig_step s1 s2 \<longrightarrow> ss_pc s2 0 \<noteq> ss_pc s 0)"
proof -
  let ?s1 = "(goto s 1 S_lock)\<lparr>ss_value := 1\<rparr>"
  have step: "sig_step s ?s1" using assms(3) by (rule sig_step.set_store)
  have own: "ss_owner s = Some 0" using sig_invD(1) [OF sig_reach_inv [OF assms(1)], of 0] assms(2) by auto
  have pc: "ss_pc ?s1 t = (if t = 0 then ss_pc s 0 else if t = 1 then S_lock else Returned)" for t
    using assms(4) by auto
  have "ss_pc s2 0 \<noteq> ss_pc s 0" if "sig_step ?s1 s2" for s2
    using that
  proof cases
    case (set_lock t)
    then show ?thesis using own by simp
  qed (use assms(2) pc own in \<open>auto split: if_splits\<close>)
  then show ?thesis using step assms(3) pc by (intro exI [of _ ?s1]) auto
qed

theorem handler_deadlock_witness:
  "\<exists>s s1. sig_reach s \<and> ss_owner s = Some 0 \<and> ss_pc s 0 = W_test \<and> sig_step s s1 \<and> ss_pc s1 1 = S_lock \<and>
     (\<forall>s2. sig_step s1 s2 \<longrightarrow> ss_pc s2 0 \<noteq> W_test)"
proof -
  define pc where "pc t = (if t = 0 then W_load else if t = Suc 0 then S_store else Returned)" for t
  let ?s0 = "\<lparr>ss_value = 0, ss_owner = None, ss_pc = pc\<rparr>"
  have r0: "sig_reach ?s0" by (rule sig_reach.start) (simp add: pc_def)
  have "sig_step ?s0 (goto ?s0 0 W_lock)" by (rule sig_step.wait_slow) (simp_all add: pc_def)
  with r0 have r1: "sig_reach (goto ?s0 0 W_lock)" by (rule sig_reach.step)
  let ?s1 = "(goto (goto ?s0 0 W_lock) 0 W_test)\<lparr>ss_owner := Some 0\<rparr>"
  have "sig_step (goto ?s0 0 W_lock) ?s1" by (rule sig_step.wait_lock) simp_all
  with r1 have r2: "sig_reach ?s1" by (rule sig_reach.step)
  have "ss_pc ?s1 0 \<in> {W_test, W_wait}" "ss_pc ?s1 1 = S_store"
    "\<forall>t. t \<notin> {0, 1} \<longrightarrow> ss_pc ?s1 t = Returned"
    by (simp_all add: pc_def)
  from handler_deadlock [OF r2 this] obtain s where "sig_step ?s1 s" "ss_pc s 1 = S_lock"
    "\<forall>s2. sig_step s s2 \<longrightarrow> ss_pc s2 0 \<noteq> ss_pc ?s1 0" by blast
  then show ?thesis using r2 by (intro exI [of _ ?s1] exI [of _ s]) simp
qed

section \<open>Witnesses\<close>

definition good_system :: socket_env where
  "good_system = \<lparr>so_mem = ample None, so_gai = Inr 64, so_socket = Inr 5, so_reuse_addr = None,
     so_reuse_port = None, so_connect = True, so_peer = Inr (Inet [49] 4321), so_write = Inr 425\<rparr>"

lemma good_system_sane: "sane good_system"
  by (simp add: sane_def good_system_def)

lemma no_args: "parse_args [] params = Inr params"
  by (simp add: parse_args_def)

lemma open_socket_sendsI:
  "chunks_fit chunks 8 \<Longrightarrow> length (concat chunks) \<le> 2 ^ 61 \<Longrightarrow>
   sends_all open_socket (concat chunks) (map Received chunks @ [Closed])"
  using open_socket_buf by (auto simp: sends_all_def)

lemma open_socket_sends:
  "sends_all open_socket [72, 105, 0] [Received [72, 105, 0], Closed]"
  "sends_all open_socket [89, 0] [Received [89], Received [0], Closed]"
  "sends_all open_socket [89] [Received [89], Closed]"
  using open_socket_sendsI [of "[[72, 105, 0]]"] open_socket_sendsI [of "[[89], [0]]"]
    open_socket_sendsI [of "[[89]]"]
  by (simp_all add: chunks_fit_def)

lemma usable_1024: "usable (one_block_buffer 1024)"
  by (rule usable_one_block) simp_all

theorem server_prints_witness:
  "\<exists>data'. process_all (ample None) (one_block_buffer 1024)
     [(open_socket, [Received [72, 105, 0], Closed]), (open_socket, [Received [89], Received [0], Closed])]
     = Inr ([[72, 105], [89]], data')"
  by (rule server_prints [OF usable_1024]) (simp add: open_socket_sends)

theorem stale_data_witness:
  "\<exists>data'. process_all (ample None) (one_block_buffer 1024)
     [(open_socket, [Received [72, 105, 0], Closed]), (open_socket, [Received [89], Closed])]
     = Inr ([[72, 105], [89, 105]], data')"
  using stale_data [OF usable_1024, of open_socket "[72, 105]" _ open_socket "[89]"] open_socket_sends
  by simp

theorem mt_server_prints_witness:
  "process_data (ample None) open_socket [Received [72, 105, 0], Closed] = Inr (0, [[72, 105]])"
  using mt_server_prints [of open_socket "[72, 105]"] open_socket_sends by simp

definition big_socket :: TecSocket where
  "big_socket = closed_socket\<lparr>sk_fd := 5, sk_buf := one_block_buffer 1024\<rparr>"

lemma big_socket_buf: "buf_data (sk_buf big_socket) = Some (replicate 1024 0)"
  "buf_capacity (sk_buf big_socket) \<noteq> 0" "sk_buf big_socket = one_block_buffer 1024"
  by (simp_all add: big_socket_def one_block_buffer_def)

theorem unterminated_overread_witness:
  "process_data (ample None) big_socket [Received (replicate 80 65), Closed] = Inl Out_of_bounds \<and>
   process_str (ample None) big_socket (one_block_buffer 1024) [Received (replicate 1024 65), Closed]
     = Inl Out_of_bounds"
  using unterminated_overread [OF big_socket_buf(1,2), of "replicate 80 65" "replicate 1024 65" None] by simp

theorem socket_main_transcript_witness:
  "socket_main good_system [] = Inr (0, [Sys_getaddrinfo kTecLocalAddr 4321 0, Sys_socket, Sys_connect 5 64,
     Sys_write 5 (test_str @ [0]), Sys_shutdown 5, Sys_close 5, Sys_freeaddrinfo 64])"
  using socket_main_transcript [OF good_system_sane no_args]
  by (simp add: transcript_def good_system_def get_socket_info_def test_str_length TecSocketParams_init_def
      kTecDefaultPort_def kTecDefaultClientFlags_def Let_def)

theorem clients_agree_witness:
  "client_main (client_env_of good_system) [] (Inr 425) = socket_main good_system [] \<and>
   client_main (client_env_of (good_system\<lparr>so_connect := False\<rparr>)) [] (Inr 425)
     = socket_main (good_system\<lparr>so_connect := False\<rparr>) []"
proof -
  have "sane (good_system\<lparr>so_connect := False\<rparr>)" using good_system_sane by (simp add: sane_def)
  then show ?thesis
    using clients_agree [OF good_system_sane, of "[]"] clients_agree [of "good_system\<lparr>so_connect := False\<rparr>" "[]"]
      no_args by (simp add: good_system_def)
qed

lemma big_socket_receives:
  "sk_buf sock = one_block_buffer 1024 \<Longrightarrow>
   sends_all sock (test_str @ [0]) [Received (test_str @ [0]), Closed]"
  by (auto simp: sends_all_def chunks_fit_def one_block_buffer_def test_str_length
      intro: exI [of _ "[test_str @ [0]]"])

theorem client_to_server_witness:
  "\<exists>calls. client_main (client_env_of good_system) [] (Inr 425) = Inr (0, calls) \<and>
     process_data (ample None) big_socket [Received (bytes_sent calls), Closed] = Inr (0, [test_str])"
proof -
  let ?t = "transcript TecSocketParams_init good_system test_str"
  have w: "so_write good_system = Inr 425" by (simp add: good_system_def)
  have z: "fst ?t = 0"
    by (simp add: transcript_def good_system_def get_socket_info_def test_str_length Let_def)
  then have c: "client_main (client_env_of good_system) [] (so_write good_system) = Inr (0, snd ?t)"
    using client_main_calls [OF good_system_sane no_args] by (metis prod.collapse)
  have b: "bytes_sent (snd ?t) = test_str @ [0]" by (rule transcript_sent [OF z good_system_sane])
  have "sends_all big_socket (bytes_sent (snd ?t)) [Received (bytes_sent (snd ?t)), Closed]"
    unfolding b by (rule big_socket_receives [OF big_socket_buf(3)])
  from client_to_server [OF good_system_sane c this usable_1024] c show ?thesis unfolding w by blast
qed



theorem server_main_failure_witness:
  "\<exists>cs. server_main plain_server_env (\<lambda>_. 0) (free_address\<lparr>le_bind := Some 98\<rparr>) [] [] plain_user 77 78 79 8
     = Inr (98, [78, 77], map Call cs
        @ [Call (Sys_shutdown 5), Call (Sys_close 5), Call (Sys_freeaddrinfo 64)])"
proof -
  have "env_ok (se_mem plain_server_env)" by (rule plain_server_env_ok(1))
  then show ?thesis
    using server_main_failure [OF _ no_args, of plain_server_env "free_address\<lparr>le_bind := Some 98\<rparr>" 64 5 98
        "\<lambda>_. 0" "[]" plain_user 77 78 79 8]
    by (auto simp: free_address_def)
qed

end
