(* ===== verification/ExMtServer.thy ===== *)
theory ExMtServer
  imports ExSocket TecPoolLife
begin

text \<open>
  Models the program \<open>examples/socket/mt_server.c\<close>: a TCP server that hands its connections to
  a thread pool, in a service worker. Its handler is \<open>process_data\<close>.
\<close>

section \<open>Model\<close>

text \<open>
  What a thread of the pool does with a task: the only function that is ever queued is the
  dispatcher of the server. \<open>decode\<close> reads a socket from the bytes of its object.
\<close>

definition run_call :: "server_env \<Rightarrow> TecTCPServer \<Rightarrow> (u8 list option \<Rightarrow> TecSocket) \<Rightarrow> task_call \<Rightarrow> server_event list" where
  "run_call se self decode c =
     (if call_func c = se_dispatch se
      then dispatch_client se (sv_log self) (decode (call_payload c)) (call_buf c) else [])"

text \<open>
  The program: \<open>proc\<close> stands for the handler's result, \<open>as\<close> are the connections accepted before
  \<open>SIGINT\<close>, \<open>sizeof_socket\<close> is the size the compiler gives a \<open>TecSocket\<close>. The pool has its
  memory from \<open>pt\<close>, its threads have the handles \<open>hp\<close>, \<open>ps\<close> are the queue nodes for their
  \<open>NULL\<close> tasks; \<open>h1\<close>, \<open>h2\<close>, \<open>h3\<close> are the threads of the service worker. The exit code, the threads
  joined, what the server did, what each thread of the pool did.
\<close>

definition mt_server_main ::
  "server_env \<Rightarrow> (TecSocket \<Rightarrow> int) \<Rightarrow> listen_env \<Rightarrow> u8 list list \<Rightarrow> accepted list \<Rightarrow> user_code
   \<Rightarrow> u64 \<Rightarrow> (u8 list option \<Rightarrow> TecSocket) \<Rightarrow> (nat \<Rightarrow> ptr) \<Rightarrow> nat list \<Rightarrow> ptr list
   \<Rightarrow> nat \<Rightarrow> nat \<Rightarrow> nat \<Rightarrow> ptr \<Rightarrow> (int \<times> nat list \<times> server_event list \<times> server_event list list) outcome" where
  "mt_server_main se proc le argv as u sizeof_socket decode pt hp ps h1 h2 h3 p =
     bind_outcome (TecSignal_init raw_signal 0 0) (\<lambda>(_, _, sig_quit).
     bind_outcome (parse_args argv (TecSocketParams_init\<lparr>par_addr := kTecAnyAddrIP6\<rparr>)) (\<lambda>socket_params.
     bind_outcome (TecThrPool_init 8 (par_buffer_size socket_params) sizeof_socket 32 (True, True, True)
       (\<lambda>_ _. 0) pt) (\<lambda>thread_pool.
     bind_outcome (TecThrPool_run thread_pool (map (\<lambda>h. (0, h)) hp)) (\<lambda>(_, thread_pool).
     bind_outcome (TecTCPServer_init (se_mem se) socket_params 0 0) (\<lambda>server.
     let server = TecTCPServer_use_thread_pool server (Some thread_pool);
         se = TecTCPServer_set_client_proc se (\<lambda>sock. (proc sock, sock));
         svc = server_service se le
     in bind_outcome (TecServiceWorker_init (\<lambda>_. 0) True (unused_sw server) server 1) (\<lambda>(_, sw).
     bind_outcome (TecServiceWorker_run svc u sw h1 0 h2) (\<lambda>(error, hs, _, sw).
     bind_outcome
       (if error = 0 then
          bind_outcome (poll se (sw_service sw) as) (\<lambda>server.
          let sig_quit = handle_sigint sig_quit
          in if TecSignal_wait (sig_value sig_quit) 0 [] = None then Inl No_return
             else
               bind_outcome (TecServiceWorker_terminate svc u (sw\<lparr>sw_service := server\<rparr>) Map.empty p 0 h3)
                 (\<lambda>(_, hs', _, sw).
               if TecSignal_wait (sig_value (w_sig_terminated (sw_worker sw))) 0 [] = None then Inl No_return
               else Inr (hs @ hs', sig_quit, sw)))
        else Inr (hs, sig_quit, sw))
       (\<lambda>(hs, sig_quit, sw).
     bind_outcome (TecTCPServer_done (sw_service sw)) (\<lambda>server.
     case sv_thread_pool server of
       None \<Rightarrow> Inl Null_deref
     | Some thread_pool \<Rightarrow>
         bind_outcome (TecThrPool_done thread_pool ps) (\<lambda>(callss, hs_pool).
         bind_outcome (TecServiceWorker_done sw) (\<lambda>(hs', _, _).
         bind_outcome (TecSignal_done sig_quit 0) (\<lambda>_.
           Inr (error, hs @ hs_pool @ hs', sv_events server,
                map (\<lambda>calls. concat (map (run_call se server decode) calls)) callss)))))))))))))"

section \<open>Connections as jobs of the pool\<close>

text \<open>The memory for the task and the queue node of every connection is free.\<close>

definition memory_of :: "accepted \<Rightarrow> job" where
  "memory_of a = \<lparr>jb_func = NULL, jb_payload = None, jb_args = NULL, jb_pt = ac_pt a, jb_pq = ac_pq a\<rparr>"

lemma jobs_fit_cong:
  "jobs_fit p n len (map f past) (map f as) = jobs_fit p n len (map g past) (map g as)"
  if eq: "\<And>x. jb_pt (f x) = jb_pt (g x) \<and> jb_pq (f x) = jb_pq (g x)" for f g :: "'a \<Rightarrow> job"
proof (induction as arbitrary: past)
  case (Cons a as)
  have "job_fits p n len (map f past) (f a) = job_fits p n len (map g past) (g a)"
    using eq by (simp add: job_fits_def)
  then show ?case using Cons [of "past @ [a]"] by simp
qed simp

lemma connections_fit:
  "jobs_fit p n len [] (map memory_of as) \<Longrightarrow>
   jobs_fit p n len [] (map request_job (map (connection_request se sock) as))"
  using jobs_fit_cong [of memory_of "request_job \<circ> connection_request se sock" p n len "[]" as]
  by (simp add: memory_of_def connection_request_def request_job_def)

text \<open>What accepting a connection gives depends on the parameters and the buffer of the listening socket only.\<close>

lemma accepted_socket_moved:
  assumes "env_ok (se_mem se)"
  shows "accepted_socket (TecTCPServer_set_client_proc se f) (s\<lparr>sk_fd := x, sk_pai := y\<rparr>) a = accepted_socket se s a"
proof -
  obtain c where "TecSocket_init (se_mem se) (sk_params s) = Inr c"
    using assms by (cases "TecSocket_init (se_mem se) (sk_params s)")
      (simp_all add: TecSocket_init_def TecBuffer_init_result split: if_splits)
  moreover have buf: "sk_buf (s\<lparr>sk_fd := x, sk_pai := y\<rparr>) = sk_buf s" by simp
  moreover have "se_mem (TecTCPServer_set_client_proc se f) = se_mem se" by (simp add: TecTCPServer_set_client_proc_def)
  ultimately show ?thesis unfolding accepted_socket_def TecSocket_accept_def buf by simp
qed

text \<open>A thread of the pool that is given a connection handles it and closes it.\<close>

lemma run_call_handles:
  assumes "env_ok (se_mem se)" and "se_client_proc se = (\<lambda>sock. (proc sock, sock))" and "\<not> sv_log self"
    and "call_func c = se_dispatch se" and "decode (call_payload c) = accepted_socket se sock a"
    and "ac_result a = Inr fd" and "fd \<noteq> - 1"
  shows "run_call se self decode c = [Handled fd, Call (Sys_shutdown fd), Call (Sys_close fd)]"
  using assms(2-5,7) accepted_socket_fd(2,3) [OF assms(1,6), of sock]
  by (simp add: run_call_def dispatch_client_def TecSocket_done_def TecSocket_close_def Let_def)

text \<open>What the threads do when the k-th of them is given the k-th call.\<close>

lemma threads_do:
  assumes "\<And>k. k < length fds \<Longrightarrow> g (calls ! k) = e (fds ! k)" and "length fds \<le> n"
  shows "map (\<lambda>calls. concat (map g calls)) (map (\<lambda>i. if i < length fds then [calls ! i] else []) [0 ..< n])
    = map e fds @ replicate (n - length fds) []"
  using assms by (intro nth_equalityI) (auto simp: nth_append)

lemma sigint_signal:
  obtains s' where "TecSignal_done (handle_sigint \<lparr>sig_value = 0, sig_mtx = \<lparr>mtx_result = Some 0\<rparr>,
      sig_cnd = \<lparr>cv_result = Some 0\<rparr>\<rparr>) 0 = Inr ([Destroy_cv, Destroy_mutex], s')"
    and "sig_value (handle_sigint \<lparr>sig_value = 0, sig_mtx = \<lparr>mtx_result = Some 0\<rparr>, sig_cnd = \<lparr>cv_result = Some 0\<rparr>\<rparr>) = 1"
proof -
  let ?sig = "\<lparr>sig_value = 0, sig_mtx = \<lparr>mtx_result = Some 0\<rparr>, sig_cnd = \<lparr>cv_result = Some 0\<rparr>\<rparr>"
  have "signal_made (handle_sigint ?sig)" by (simp add: handle_sigint_def signal_made_set) (simp add: signal_made_def)
  then obtain s' where "TecSignal_done (handle_sigint ?sig) 0 = Inr ([Destroy_cv, Destroy_mutex], s')"
    using signal_done_made by blast
  moreover have "sig_value (handle_sigint ?sig) = 1" by (simp add: handle_sigint_def)
  ultimately show thesis using that by blast
qed

text \<open>
  The service worker of the program, from its creation to its destruction: the server is given
  the pool, its loop gives the connections to it, and the server is released.
\<close>

lemma pool_server_life:
  assumes mem: "env_ok (se_mem se)" and tcp: "par_socktype params = SOCK_STREAM"
    and sys: "le_gai le = Inr res" "le_socket le = Inr lfd" "lfd \<noteq> - 1" "res \<noteq> NULL"
      "le_bind le = None" "le_listen le = None"
    and p: "p \<noteq> NULL" and sock: "TecSocket_init_server (se_mem se) params = Inr sock"
    and valid: "\<forall>a \<in> set as. \<exists>fd. ac_result a = Inr fd \<and> fd \<noteq> - 1"
    and enq: "fold_outcome enqueue_request pool
        (map (connection_request se (sock\<lparr>sk_fd := lfd, sk_pai := res\<rparr>)) as) = Inr pool'"
  shows "\<exists>srv0 sw0 es sw1 srv1 sw2 srv2 mcs sw3 cs.
    TecTCPServer_init (se_mem se) params 0 0 = Inr srv0 \<and>
    TecServiceWorker_init (\<lambda>_. 0) True (unused_sw (TecTCPServer_use_thread_pool srv0 (Some pool)))
      (TecTCPServer_use_thread_pool srv0 (Some pool)) 1 = Inr (True, sw0) \<and>
    TecServiceWorker_run (server_service se le) u sw0 h1 0 h2 = Inr (0, [], es, sw1) \<and>
    poll se (sw_service sw1) as = Inr srv1 \<and>
    TecServiceWorker_terminate (server_service se le) u (sw1\<lparr>sw_service := srv1\<rparr>) Map.empty p 0 h3
      = Inr (0, [h3, h2, h1], [Hook on_exit_hook], sw2) \<and>
    sig_value (w_sig_terminated (sw_worker sw2)) = 1 \<and>
    TecTCPServer_done (sw_service sw2) = Inr srv2 \<and> TecServiceWorker_done sw2 = Inr ([], mcs, sw3) \<and>
    sv_thread_pool srv2 = Some pool' \<and> \<not> sv_log srv2 \<and>
    sv_events srv2 = map Call cs @ map (\<lambda>_. Call (Sys_accept lfd)) as
      @ [Call (Sys_accept lfd), Call (Sys_shutdown lfd), Call (Sys_close lfd), Call (Sys_freeaddrinfo res)] \<and>
    Sys_close lfd \<notin> set cs \<and> Sys_freeaddrinfo res \<notin> set cs"
proof -
  obtain srv0 where srv0: "TecTCPServer_init (se_mem se) params 0 0 = Inr srv0" "sv_running srv0"
    "signal_made (sv_sig_polling_stopped srv0)"
    by (rule server_init_ok [OF mem])
  note f = server_init_fields [OF srv0(1)]
  let ?srv = "TecTCPServer_use_thread_pool srv0 (Some pool)"
  have srv: "sv_running ?srv" "sv_thread_pool ?srv = Some pool"
    "sv_sig_polling_stopped ?srv = sv_sig_polling_stopped srv0" "sv_sock ?srv = sock"
    using srv0(1,2) sock
    by (auto simp: TecTCPServer_use_thread_pool_def TecTCPServer_init_def bind_outcome_Inr_iff)
  obtain sw0 where sw0: "TecServiceWorker_init (\<lambda>_. 0) True (unused_sw ?srv) ?srv 1 = Inr (True, sw0)"
    using service_worker_init_ready [OF unused_sw_worker] by metis
  obtain es sw1 cs where m:
    "TecServiceWorker_run (server_service se le) u sw0 h1 0 h2 = Inr (0, [], es, sw1)"
    "running_service_worker sw1 h1 h2" "service_worker_made sw1"
    "sv_polling (sw_service sw1)" "\<not> sv_log (sw_service sw1)"
    "sk_fd (sv_sock (sw_service sw1)) = lfd" "sk_pai (sv_sock (sw_service sw1)) = res"
    "sv_events (sw_service sw1) = map Call cs" "Sys_close lfd \<notin> set cs" "Sys_freeaddrinfo res \<notin> set cs"
    "sv_running (sw_service sw1) = sv_running ?srv" "sv_thread_pool (sw_service sw1) = sv_thread_pool ?srv"
    "sv_sig_polling_stopped (sw_service sw1) = sv_sig_polling_stopped ?srv"
    "sv_sock (sw_service sw1) = (sv_sock ?srv)\<lparr>sk_fd := lfd, sk_pai := res\<rparr>"
    by (rule server_worker_runs [OF mem _ _ _ sys sw0])
      (use f(2,3,5) tcp in \<open>simp_all add: TecTCPServer_use_thread_pool_def\<close>)
  let ?srv1 = "emit (map (\<lambda>_. Call (Sys_accept lfd)) as) (sw_service sw1)\<lparr>sv_thread_pool := Some pool'\<rparr>"
  have poll: "poll se (sw_service sw1) as = Inr ?srv1"
    using poll_requests [OF mem valid, of "sw_service sw1" pool] m(6,11,12,14) srv enq by simp
  obtain sw2 where t:
    "TecServiceWorker_terminate (server_service se le) u (sw1\<lparr>sw_service := ?srv1\<rparr>) Map.empty p 0 h3
      = Inr (0, [h3, h2, h1], [Hook on_exit_hook], sw2)"
    "sig_value (w_sig_terminated (sw_worker sw2)) = 1" "service_worker_over sw2"
    "sk_fd (sv_sock (sw_service sw2)) = - 1" "signal_made (sv_sig_polling_stopped (sw_service sw2))"
    "sv_events (sw_service sw2) = sv_events ?srv1
        @ [Call (Sys_accept lfd), Call (Sys_shutdown lfd), Call (Sys_close lfd), Call (Sys_freeaddrinfo res)]"
    "sv_thread_pool (sw_service sw2) = sv_thread_pool ?srv1" "\<not> sv_log (sw_service sw2)"
    by (rule server_worker_stops [OF mem m(2,3) _ _ _ sys(3) _ sys(4) _ p, of ?srv1])
      (use m(4-7,13) srv(3) srv0(3) in simp_all)
  obtain srv2 where srv2: "TecTCPServer_done (sw_service sw2) = Inr srv2"
    "sv_events srv2 = sv_events (sw_service sw2)" "sv_thread_pool srv2 = Some pool'" "\<not> sv_log srv2"
    using server_done_closed [OF t(5,4)] t(7,8) by auto
  obtain mcs sw3 where "TecServiceWorker_done sw2 = Inr ([], mcs, sw3)"
    using service_worker_done_over [OF t(3)] by blast
  moreover have "sv_events srv2 = map Call cs @ map (\<lambda>_. Call (Sys_accept lfd)) as
      @ [Call (Sys_accept lfd), Call (Sys_shutdown lfd), Call (Sys_close lfd), Call (Sys_freeaddrinfo res)]"
    using srv2(2) t(6) m(8) by simp
  ultimately show ?thesis using srv0(1) sw0 m(1,9,10) poll t(1,2) srv2(1,3,4) by blast
qed


section \<open>Witness\<close>

lemma two_connections_fit:
  "jobs_fit (\<lambda>i. 4096 * Suc i) 8 1536 []
     (map memory_of [\<lparr>ac_result = Inr 5, ac_peer = Inr Other_family, ac_pt = 65536, ac_pq = 8\<rparr>,
        \<lparr>ac_result = Inr 6, ac_peer = Inr Other_family, ac_pt = 131072, ac_pq = 16\<rparr>])"
  by (simp add: job_fits_def memory_of_def)


end
