(* ===== verification/ExWorker.thy ===== *)
theory ExWorker
  imports TecWorker TecPoolLife TecTrace
begin

text \<open>
  Models the example programs \<open>examples/worker/*.c\<close>: a worker that is sent two kinds of
  messages, a worker that answers a remote call, and a thread pool given tasks without a
  function. The result of a program is its exit code, the threads joined and the text printed.
\<close>

section \<open>worker.c\<close>

text \<open>What follows the header of the two messages.\<close>

datatype user_msg = MsgPoint int int | MsgStr80 "u8 list"

definition MsgPoint_msg :: "u8 list" where "MsgPoint_msg = bytes_of ''MsgPoint''"

definition MsgStr80_msg :: "u8 list" where "MsgStr80_msg = bytes_of ''MsgStr80''"

text \<open>The callbacks print one line; the object they get must be of their type.\<close>

definition on_point :: "u8 list \<Rightarrow> user_msg \<Rightarrow> u8 list outcome" where
  "on_point tag msg =
     (case msg of
        MsgPoint x y \<Rightarrow> Inr (tag @ bytes_of '': {x='' @ fmt_lld x @ bytes_of '', y='' @ fmt_lld y @ bytes_of ''}'' @ [10])
      | MsgStr80 s \<Rightarrow> Inl Invalid_pointer)"

definition on_str80 :: "u8 list \<Rightarrow> user_msg \<Rightarrow> u8 list outcome" where
  "on_str80 tag msg =
     (case msg of
        MsgPoint x y \<Rightarrow> Inl Invalid_pointer
      | MsgStr80 s \<Rightarrow> Inr (tag @ bytes_of '': '' @ [34] @ c_string s @ [34, 10]))"

definition on_init :: int where "on_init = 1000"

definition on_exit :: int where "on_exit = 1234"

text \<open>The addresses of the callbacks and of the hook, and what they do to the library's objects.\<close>

definition on_point_fn :: ptr where "on_point_fn = 1"

definition on_str80_fn :: ptr where "on_str80_fn = 2"

definition on_exit_fn :: ptr where "on_exit_fn = 3"

definition worker_code :: user_code where
  "worker_code = \<lparr>u_init = (\<lambda>_. on_init), u_exit = (\<lambda>_. on_exit), u_msg = (\<lambda>_ m. m), u_rpc = (\<lambda>_ r. rpc_error r)\<rparr>"

text \<open>
  What the callbacks print when the worker has done \<open>es\<close>: \<open>body\<close> holds the messages, with their
  tag, until they are freed.
\<close>

fun printed_by :: "(ptr \<Rightarrow> (u8 list \<times> user_msg) option) \<Rightarrow> event list \<Rightarrow> u8 list list outcome" where
  "printed_by body [] = Inr []"
| "printed_by body (Called f p # es) =
     (case body p of
        None \<Rightarrow> Inl Invalid_pointer
      | Some (tag, msg) \<Rightarrow>
          bind_outcome (if f = on_point_fn then on_point tag msg else on_str80 tag msg) (\<lambda>line.
          bind_outcome (printed_by body es) (\<lambda>lines. Inr (line # lines))))"
| "printed_by body (Freed p # es) = printed_by (body(p := None)) es"
| "printed_by body (e # es) = printed_by body es"

definition code_line :: "string \<Rightarrow> int \<Rightarrow> u8 list" where
  "code_line s code = [10] @ bytes_of ''*** '' @ bytes_of s @ bytes_of '' with code '' @ fmt_lld code @ bytes_of '' ***'' @ [10]"

text \<open>
  The program. \<open>w\<close> is the uninitialised worker, \<open>n1\<close> and \<open>n2\<close> are table nodes, \<open>m1\<close> and \<open>m2\<close> the two
  messages, \<open>q1\<close> to \<open>q3\<close> queue nodes; \<open>crc\<close> is the result of \<open>pthread_create\<close>, \<open>h\<close> the handle.
\<close>

definition worker_main ::
  "TecWorker \<Rightarrow> ptr \<Rightarrow> ptr \<Rightarrow> int \<Rightarrow> nat \<Rightarrow> ptr \<Rightarrow> ptr \<Rightarrow> ptr \<Rightarrow> ptr \<Rightarrow> ptr
   \<Rightarrow> (int \<times> nat list \<times> u8 list list) outcome" where
  "worker_main w n1 n2 crc h m1 m2 q1 q2 q3 =
     bind_outcome (TecWorker_init (\<lambda>_. 0) True w 3) (\<lambda>(_, w).
     bind_outcome (TecWorker_register w MsgPoint_msg on_point_fn n1) (\<lambda>(_, w).
     bind_outcome (TecWorker_register w MsgStr80_msg on_str80_fn n2) (\<lambda>(_, w).
     bind_outcome (TecWorker_run worker_code (TecWorker_set_on_exit w on_exit_fn) 0 crc h) (\<lambda>(error, _, hs, _, w).
     if error \<noteq> 0 then
       bind_outcome (TecWorker_done w) (\<lambda>(hs', _, _). Inr (error, hs @ hs', [code_line ''Inited'' error]))
     else if TecSignal_wait (sig_value (w_sig_running w)) 0 [] = None then Inl No_return
     else
       bind_outcome (TecMsg_new Map.empty MsgPoint_msg m1) (\<lambda>mem.
       bind_outcome (TecDaemon_send w m1 q1) (\<lambda>w.
       bind_outcome (TecMsg_new mem MsgStr80_msg m2) (\<lambda>mem.
       bind_outcome (c_sprintf 80 (bytes_of ''Hello world!'')) (\<lambda>s.
       bind_outcome (TecDaemon_send w m2 q2) (\<lambda>w.
       let body = [m1 \<mapsto> (MsgPoint_msg, MsgPoint 1 42), m2 \<mapsto> (MsgStr80_msg, MsgStr80 (s @ [0]))]
       in bind_outcome (TecWorker_terminate worker_code w mem q3) (\<lambda>(error, hs', es, w, _).
       if TecSignal_wait (sig_value (w_sig_terminated w)) 0 [] = None then Inl No_return
       else
         bind_outcome (TecWorker_done w) (\<lambda>(hs'', _, _).
         bind_outcome (printed_by body es) (\<lambda>lines.
           Inr (error, hs @ hs' @ hs'', lines @ [code_line ''Exited'' error])))))))))))))"

section \<open>request.c\<close>

text \<open>The temperature is a \<open>double\<close> that is only ever 0.0 or 36.7: it is kept in tenths.\<close>

record GaugeRequest =
  gq_id :: u32
  gq_units :: u8

record GaugeReply =
  gr_id :: u32
  gr_units :: u8
  gr_temperature :: int

definition GaugeRequest_msg :: "u8 list" where "GaugeRequest_msg = bytes_of ''GaugeRequest''"

definition on_gauge_request :: "GaugeRequest \<Rightarrow> GaugeReply \<Rightarrow> GaugeReply" where
  "on_gauge_request request reply = reply\<lparr>gr_id := gq_id request, gr_units := 67, gr_temperature := 367\<rparr>"

text \<open>\<open>%3.1f\<close> of a number of tenths.\<close>

definition fmt_tenths :: "int \<Rightarrow> u8 list" where
  "fmt_tenths t =
     (let s = (if t < 0 then [45] else []) @ map digit_byte (digits 10 (nat \<bar>t\<bar> div 10)) @ [46, digit_byte (nat \<bar>t\<bar> mod 10)]
      in replicate (3 - length s) 32 @ s)"

definition analyze :: "GaugeReply \<Rightarrow> int \<Rightarrow> u8 list" where
  "analyze reply error =
     bytes_of ''Gauge #'' @ zero_pad 3 (map digit_byte (digits 10 (unat (gr_id reply)))) @ bytes_of '': temp='' @
     fmt_tenths (gr_temperature reply) @ [gr_units reply] @ bytes_of '' error='' @ fmt_lld error @ [10]"

definition on_gauge_request_fn :: ptr where "on_gauge_request_fn = 1"

text \<open>The handler leaves \<open>rpc->error\<close> alone.\<close>

definition request_code :: user_code where
  "request_code = \<lparr>u_init = (\<lambda>_. 0), u_exit = (\<lambda>_. 0), u_msg = (\<lambda>_ m. m), u_rpc = (\<lambda>_ r. rpc_error r)\<rparr>"

text \<open>
  \<open>reply\<close>, \<open>rpc\<close> and \<open>sig\<close> are addresses in the frames of this function and of the call, \<open>q\<close> a
  queue node. The line printed and the worker.
\<close>

definition query_gauge ::
  "u32 \<Rightarrow> TecWorker \<Rightarrow> ptr \<Rightarrow> ptr \<Rightarrow> ptr \<Rightarrow> ptr \<Rightarrow> (u8 list \<times> TecWorker) outcome" where
  "query_gauge gid w reply_p rpc sig q =
     (let header = TecMsg_init GaugeRequest_msg \<lparr>msg_tag = [], msg_done = NULL\<rparr>;
          request = \<lparr>gq_id = gid, gq_units = 67\<rparr>;
          reply = \<lparr>gr_id = 0, gr_units = 63, gr_temperature = 0\<rparr>
      in bind_outcome (TecWorker_rpc request_code w Map.empty (Some header) reply_p rpc sig q) (\<lambda>(error, es, w, _).
         let reply = (if Called on_gauge_request_fn rpc \<in> set es then on_gauge_request request reply else reply)
         in Inr (analyze reply error, w)))"

text \<open>\<open>run\<close>: the result, the threads joined, the text, the worker.\<close>

definition run_queries ::
  "TecWorker \<Rightarrow> int \<Rightarrow> nat \<Rightarrow> ptr \<Rightarrow> ptr \<Rightarrow> ptr \<Rightarrow> ptr
   \<Rightarrow> (int \<times> nat list \<times> u8 list list \<times> TecWorker) outcome" where
  "run_queries d crc h reply_p rpc sig q =
     bind_outcome (TecWorker_run request_code d 0 crc h) (\<lambda>(error, _, hs, _, d).
     if error \<noteq> 0 then
       Inr (error, hs, [[10] @ bytes_of ''*** Inited with code '' @ fmt_lld error @ [10]], d)
     else if TecSignal_wait (sig_value (w_sig_running d)) 0 [] = None then Inl No_return
     else bind_outcome (query_gauge 12 d reply_p rpc sig q) (\<lambda>(line, d). Inr (error, hs, [line], d)))"

definition request_main ::
  "TecWorker \<Rightarrow> ptr \<Rightarrow> int \<Rightarrow> nat \<Rightarrow> ptr \<Rightarrow> ptr \<Rightarrow> ptr \<Rightarrow> ptr \<Rightarrow> ptr
   \<Rightarrow> (int \<times> nat list \<times> u8 list list) outcome" where
  "request_main w n crc h reply_p rpc sig q1 q2 =
     bind_outcome (TecWorker_init (\<lambda>_. 0) True w 1) (\<lambda>(_, w).
     bind_outcome (TecWorker_register w GaugeRequest_msg on_gauge_request_fn n) (\<lambda>(_, w).
     bind_outcome (run_queries w crc h reply_p rpc sig q1) (\<lambda>(_, hs, lines, w).
     bind_outcome (TecWorker_terminate request_code w Map.empty q2) (\<lambda>(error, hs', _, w, _).
     if TecSignal_wait (sig_value (w_sig_terminated w)) 0 [] = None then Inl No_return
     else
       bind_outcome (TecWorker_done w) (\<lambda>(hs'', _, _).
         Inr (error, hs @ hs' @ hs'', lines @ [[10] @ bytes_of ''*** Exited with code '' @ fmt_lld error @ [10]]))))))"

section \<open>thrpool.c\<close>

text \<open>
  \<open>p\<close> gives the memory of the nodes, \<open>hs\<close> the handles of the threads, \<open>mem\<close> the memory for the
  64 tasks and their queue nodes, \<open>ps\<close> the queue nodes of the \<open>NULL\<close> tasks.
\<close>

definition test_pool ::
  "(nat \<Rightarrow> ptr) \<Rightarrow> nat list \<Rightarrow> (nat \<Rightarrow> ptr \<times> ptr) \<Rightarrow> ptr list \<Rightarrow> (task_call list list \<times> nat list) outcome" where
  "test_pool p hs mem ps =
     bind_outcome (TecThrPool_init 8 1024 0 32 (True, True, True) (\<lambda>_ _. 0) p) (\<lambda>pool.
     bind_outcome (TecThrPool_run pool (map (\<lambda>h. (0, h)) hs)) (\<lambda>(_, pool).
     bind_outcome (fold_outcome (\<lambda>pool i. TecThrPool_enqueue pool NULL None NULL (fst (mem i)) (snd (mem i)))
       pool [0 ..< 64]) (\<lambda>pool.
       TecThrPool_done pool ps)))"

section \<open>What they print\<close>

lemma fmt_values:
  "fmt_lld 0 = bytes_of ''0''" "fmt_lld 1 = bytes_of ''1''" "fmt_lld 42 = bytes_of ''42''" "fmt_lld 1234 = bytes_of ''1234''"
  by (simp_all add: fmt_lld_def digits.simps digit_byte_def bytes_of_def)

definition the_lines :: "u8 list list" where
  "the_lines = [bytes_of ''MsgPoint: {x=1, y=42}'' @ [10],
     bytes_of ''MsgStr80: '' @ [34] @ bytes_of ''Hello world!'' @ [34, 10]]"

definition the_callbacks :: "u8 list \<Rightarrow> ptr option" where
  "the_callbacks = [MsgPoint_msg \<mapsto> on_point_fn, MsgStr80_msg \<mapsto> on_str80_fn]"

definition the_messages :: "ptr \<Rightarrow> ptr \<Rightarrow> (ptr \<times> message) list" where
  "the_messages m1 m2 = [(m1, Msg \<lparr>msg_tag = MsgPoint_msg, msg_done = NULL\<rparr>),
     (m2, Msg \<lparr>msg_tag = MsgStr80_msg, msg_done = NULL\<rparr>)]"

definition the_bodies :: "ptr \<Rightarrow> ptr \<Rightarrow> ptr \<Rightarrow> (u8 list \<times> user_msg) option" where
  "the_bodies m1 m2 = [m1 \<mapsto> (MsgPoint_msg, MsgPoint 1 42),
     m2 \<mapsto> (MsgStr80_msg, MsgStr80 (bytes_of ''Hello world!'' @ [0]))]"

lemma tags_differ: "MsgPoint_msg \<noteq> MsgStr80_msg" "MsgPoint_msg \<noteq> TecRPC_msg" "MsgStr80_msg \<noteq> TecRPC_msg"
  by (simp_all add: MsgPoint_msg_def MsgStr80_msg_def TecRPC_msg_def bytes_of_def)

lemma printed_lines:
  assumes "m1 \<noteq> m2" and "\<And>f m. u_msg u f m = m"
  shows "printed_by (the_bodies m1 m2) (all_served u the_callbacks (the_messages m1 m2) @ [Hook h]) = Inr the_lines"
    and "printed_by (the_bodies m1 m2) (all_served u the_callbacks (the_messages m1 m2)) = Inr the_lines"
proof -
  have c: "c_string (bytes_of ''Hello world!'' @ [0]) = bytes_of ''Hello world!''"
    by (simp add: c_string_def bytes_of_def)
  have cb: "the_callbacks MsgPoint_msg = Some on_point_fn" "the_callbacks MsgStr80_msg = Some on_str80_fn"
    using tags_differ by (simp_all add: the_callbacks_def)
  show "printed_by (the_bodies m1 m2) (all_served u the_callbacks (the_messages m1 m2) @ [Hook h]) = Inr the_lines"
    "printed_by (the_bodies m1 m2) (all_served u the_callbacks (the_messages m1 m2)) = Inr the_lines"
    using assms cb c
    by (simp_all add: the_messages_def the_bodies_def the_lines_def on_point_def on_str80_def fmt_values value_of_def
        on_point_fn_def on_str80_fn_def, simp_all add: MsgPoint_msg_def MsgStr80_msg_def bytes_of_def)
qed

text \<open>The worker of the program before it runs.\<close>

lemma worker_created:
  assumes w: "unused_worker w" and n: "n1 \<noteq> NULL" "n2 \<noteq> NULL" "n1 \<noteq> n2"
  obtains w0 w1 w2 where "TecWorker_init (\<lambda>_. 0) True w 3 = Inr (True, w0)"
    and "TecWorker_register w0 MsgPoint_msg on_point_fn n1 = Inr ([Lock 0, Unlock], w1)"
    and "TecWorker_register w1 MsgStr80_msg on_str80_fn n2 = Inr ([Lock 0, Unlock], w2)"
    and "ready_worker (TecWorker_set_on_exit w2 on_exit_fn) the_callbacks"
    and "worker_made (TecWorker_set_on_exit w2 on_exit_fn)" and "w_on_init w2 = NULL"
    and "q_heap (w_queue w2) = Map.empty"
proof -
  obtain w0 where w0: "TecWorker_init (\<lambda>_. 0) True w 3 = Inr (True, w0)" "ready_worker w0 Map.empty"
    "w_on_init w0 = NULL" "map_heap (w_callbacks w0) = Map.empty" "q_heap (w_queue w0) = Map.empty"
    using init_ready [OF w, of 3] by metis
  have "fresh_node (w_callbacks w0) n1" using w0(4) n by (simp add: fresh_node_def)
  from register_ready [OF w0(2) this, of MsgPoint_msg on_point_fn] obtain w1 where
    w1: "TecWorker_register w0 MsgPoint_msg on_point_fn n1 = Inr ([Lock 0, Unlock], w1)"
    "ready_worker w1 [MsgPoint_msg \<mapsto> on_point_fn]" "worker_made w1 = worker_made w0"
    "w_on_init w1 = NULL" "w_queue w1 = w_queue w0"
    "map_heap (w_callbacks w1) n2 = None"
    using n(3) w0(3,4) by (metis (no_types, lifting))
  have "fresh_node (w_callbacks w1) n2" using w1(6) n by (simp add: fresh_node_def)
  from register_ready [OF w1(2) this, of MsgStr80_msg on_str80_fn] obtain w2 where
    w2: "TecWorker_register w1 MsgStr80_msg on_str80_fn n2 = Inr ([Lock 0, Unlock], w2)"
    "ready_worker w2 the_callbacks" "worker_made w2 = worker_made w1" "w_on_init w2 = NULL" "w_queue w2 = w_queue w1"
    using w1(4) unfolding the_callbacks_def by metis
  show thesis
    by (rule that [OF w0(1) w1(1) w2(1)])
      (use w2 w1(3,5) w0(5) init_made [OF w0(1)] in
        \<open>simp_all add: TecWorker_set_on_exit_def ready_worker_def worker_made_def plain_worker_def\<close>)
qed

text \<open>Its two messages, once they are sent to a worker that waits.\<close>

definition the_memory :: "ptr \<Rightarrow> ptr \<Rightarrow> msg_mem" where
  "the_memory m1 m2 = [m1 \<mapsto> Msg \<lparr>msg_tag = MsgPoint_msg, msg_done = NULL\<rparr>, m2 \<mapsto> Msg \<lparr>msg_tag = MsgStr80_msg, msg_done = NULL\<rparr>]"

lemma messages_sent:
  assumes w: "queue_holds (w_queue w) []" "d_send (w_daemon w) \<noteq> None" "q_heap (w_queue w) = Map.empty"
    and m: "m1 \<noteq> NULL" "m2 \<noteq> NULL" "m1 \<noteq> m2"
    and q: "q1 \<noteq> NULL" "q2 \<noteq> NULL" "q3 \<noteq> NULL" "distinct [q1, q2, q3]"
  obtains w1 w2 where "TecDaemon_send w m1 q1 = Inr w1" and "TecDaemon_send w1 m2 q2 = Inr w2" and "queue_only w w2"
    and "fresh_qnode (w_queue w2) q3" and "holds_messages w2 (the_memory m1 m2) (the_messages m1 m2) []"
proof -
  have idle: "holds_messages w Map.empty [] []" using w(1) by (simp add: holds_messages_def)
  have "fresh_qnode (w_queue w) q1" using w(3) q(1) by (simp add: fresh_qnode_def)
  from send_message [OF idle this w(2), of m1] obtain w1 where
    w1: "TecDaemon_send w m1 q1 = Inr w1" "queue_only w w1" "queue_holds (w_queue w1) [m1]" by auto
  have one: "holds_messages w1 (the_memory m1 m2) [(m1, Msg \<lparr>msg_tag = MsgPoint_msg, msg_done = NULL\<rparr>)] []"
    using w1(3) m(1,3) tags_differ by (simp add: holds_messages_def the_memory_def)
  have "fresh_qnode (w_queue w1) q2" "d_send (w_daemon w1) \<noteq> None"
    using send_heap [OF w1(1)] queue_onlyD(8) [OF w1(2)] w(2,3) q(2,4) by (simp_all add: fresh_qnode_def)
  from send_message [OF one this, of m2] obtain w2 where
    w2: "TecDaemon_send w1 m2 q2 = Inr w2" "queue_only w1 w2" "queue_holds (w_queue w2) [m1, m2]" by auto
  have "fresh_qnode (w_queue w2) q3"
    using send_heap [OF w2(1)] send_heap [OF w1(1)] w(3) q(3,4) by (simp add: fresh_qnode_def)
  moreover have "holds_messages w2 (the_memory m1 m2) (the_messages m1 m2) []"
    using w2(3) m tags_differ by (simp add: holds_messages_def the_messages_def the_memory_def)
  ultimately show thesis using that w1(1,2) w2(1,2) queue_only_trans by blast
qed


text \<open>
  When the thread cannot be created, \<open>worker.c\<close> returns the system's
  error and says so; nothing is joined, and the worker is destroyed without a fault.
\<close>

theorem worker_main_no_thread:
  assumes "unused_worker w" and "n1 \<noteq> NULL" and "n2 \<noteq> NULL" and "n1 \<noteq> n2" and "crc \<noteq> 0"
  shows "worker_main w n1 n2 crc h m1 m2 q1 q2 q3 = Inr (crc, [], [code_line ''Inited'' crc])"
proof -
  obtain w0 w1 w2 where
    c: "TecWorker_init (\<lambda>_. 0) True w 3 = Inr (True, w0)"
    "TecWorker_register w0 MsgPoint_msg on_point_fn n1 = Inr ([Lock 0, Unlock], w1)"
    "TecWorker_register w1 MsgStr80_msg on_str80_fn n2 = Inr ([Lock 0, Unlock], w2)"
    and r: "ready_worker (TecWorker_set_on_exit w2 on_exit_fn) the_callbacks"
    "worker_made (TecWorker_set_on_exit w2 on_exit_fn)" "w_on_init w2 = NULL" "q_heap (w_queue w2) = Map.empty"
    by (rule worker_created [OF assms(1-4)])
  obtain w3 where "TecWorker_run worker_code (TecWorker_set_on_exit w2 on_exit_fn) 0 crc h
      = Inr (crc, [Lock 0, Unlock], [], [], w3)" "worker_over w3"
    using run_no_thread [OF r(1) assms(5), of worker_code h] r(2) by metis
  moreover from done_over [OF this(2)] obtain cs w4 where "TecWorker_done w3 = Inr ([], cs, w4)" by blast
  ultimately show ?thesis using c assms(5) by (simp add: worker_main_def)
qed

section \<open>The remote call\<close>

lemma request_created:
  assumes w: "unused_worker w" and n: "n \<noteq> NULL"
  obtains w0 w1 where "TecWorker_init (\<lambda>_. 0) True w 1 = Inr (True, w0)"
    and "TecWorker_register w0 GaugeRequest_msg on_gauge_request_fn n = Inr ([Lock 0, Unlock], w1)"
    and "ready_worker w1 [GaugeRequest_msg \<mapsto> on_gauge_request_fn]" and "worker_made w1"
    and "w_on_init w1 = NULL" and "w_on_exit w1 = NULL"
proof -
  obtain w0 where w0: "TecWorker_init (\<lambda>_. 0) True w 1 = Inr (True, w0)" "ready_worker w0 Map.empty"
    "w_on_init w0 = NULL" "w_on_exit w0 = NULL" "map_heap (w_callbacks w0) = Map.empty"
    using init_ready [OF w, of 1] by metis
  have "fresh_node (w_callbacks w0) n" using w0(5) n by (simp add: fresh_node_def)
  from register_ready [OF w0(2) this, of GaugeRequest_msg on_gauge_request_fn] that w0 init_made [OF w0(1)]
  show thesis by metis
qed

lemma empty_queue_fresh: "queue_holds q [] \<Longrightarrow> p \<noteq> NULL \<Longrightarrow> fresh_qnode q p"
  by (auto simp: queue_holds_def queue_layout_def fresh_qnode_def)

text \<open>
  C#request_main_prints: \<open>request.c\<close> prints the reply of the handler, which was filled in by the
  thread of the worker while the caller was waiting, and returns 0; the thread is joined once.
\<close>

theorem request_main_prints:
  assumes "unused_worker w" and "n \<noteq> NULL" and "rpc \<noteq> NULL" and "sig \<noteq> NULL" and "q1 \<noteq> NULL" and "q2 \<noteq> NULL"
  shows "request_main w n 0 h reply_p rpc sig q1 q2 = Inr (0, [h],
     [bytes_of ''Gauge #012: temp=36.7C error=0'' @ [10], [10] @ bytes_of ''*** Exited with code 0'' @ [10]])"
proof -
  obtain w0 w1 where
    c: "TecWorker_init (\<lambda>_. 0) True w 1 = Inr (True, w0)"
    "TecWorker_register w0 GaugeRequest_msg on_gauge_request_fn n = Inr ([Lock 0, Unlock], w1)"
    and r: "ready_worker w1 [GaugeRequest_msg \<mapsto> on_gauge_request_fn]" "worker_made w1"
      "w_on_init w1 = NULL" "w_on_exit w1 = NULL"
    by (rule request_created [OF assms(1,2)])
  let ?f = "[GaugeRequest_msg \<mapsto> on_gauge_request_fn] :: u8 list \<Rightarrow> ptr option"
  obtain w2 where w2: "TecWorker_run request_code w1 0 0 h = Inr (0, [Lock 0, Unlock], [], [], w2)"
    "plain_worker w2 ?f" "queue_holds (w_queue w2) []" "in_loop w2" "w_error w2 = 0"
    "d_send (w_daemon w2) = Some Worker_send" "w_queue w2 = w_queue w1" "w_on_exit w2 = w_on_exit w1"
    "thr_t (w_thread w2) = h" "sig_value (w_sig_running w2) = 1" "worker_made w2 = worker_made w1"
    by (rule run_in_loop [OF r(1,3)])
  let ?hdr = "TecMsg_init GaugeRequest_msg \<lparr>msg_tag = [], msg_done = NULL\<rparr>"
  have hdr: "value_of (?f (msg_tag ?hdr)) = on_gauge_request_fn" "on_gauge_request_fn \<noteq> NULL"
    by (simp_all add: TecMsg_init_def value_of_def on_gauge_request_fn_def)
  have idle: "holds_messages w2 Map.empty [] []" using w2(3) by (simp add: holds_messages_def)
  have q1: "fresh_qnode (w_queue w2) q1" using w2(3) assms(5) by (rule empty_queue_fresh)
  have d: "d_send (w_daemon w2) \<noteq> None" using w2(6) by simp
  obtain w3 mem where w3: "TecWorker_rpc request_code w2 Map.empty (Some ?hdr) reply_p rpc sig q1
      = Inr (0, [Called on_gauge_request_fn rpc, Signalled sig], w3, mem)"
    "queue_only w2 w3" "holds_messages w3 mem [] []"
    using rpc_serves [OF w2(2) idle w2(4) d q1 assms(3) _ assms(4), of request_code ?hdr reply_p] hdr
    by (auto simp: request_code_def TecRPC_init_def Let_def)
  have w3': "plain_worker w3 ?f" "in_loop w3" "w_error w3 = 0" "d_send (w_daemon w3) \<noteq> None"
    "w_on_exit w3 = NULL" "thr_t (w_thread w3) = h" "worker_made w3"
    using queue_onlyD(1-3,6,8,9) [OF w3(2)] queue_only_made [OF w3(2)] w2 r(2,4) by auto
  have "holds_messages w3 Map.empty [] []" "fresh_qnode (w_queue w3) q2"
    using w3(3) assms(6) empty_queue_fresh by (auto simp: holds_messages_def)
  from terminate_after_serving [OF w3'(1) this(1) w3'(2-4) this(2), of request_code] obtain w4 where
    w4: "TecWorker_terminate request_code w3 Map.empty q2 = Inr (0, [h], [], w4, Map.empty)"
    "worker_over w4" "sig_value (w_sig_terminated w4) = 1"
    using w3'(5-7) by auto
  obtain cs w5 where w5: "TecWorker_done w4 = Inr ([], cs, w5)" using done_over [OF w4(2)] by blast
  have "analyze \<lparr>gr_id = 12, gr_units = 67, gr_temperature = 367\<rparr> 0
      = bytes_of ''Gauge #012: temp=36.7C error=0'' @ [10]"
    by (simp add: analyze_def fmt_tenths_def fmt_lld_def digits.simps digit_byte_def zero_pad_def bytes_of_def Let_def)
  then have "query_gauge 12 w2 reply_p rpc sig q1 = Inr (bytes_of ''Gauge #012: temp=36.7C error=0'' @ [10], w3)"
    using w3(1) by (simp add: query_gauge_def on_gauge_request_def Let_def)
  then have "run_queries w1 0 h reply_p rpc sig q1
      = Inr (0, [], [bytes_of ''Gauge #012: temp=36.7C error=0'' @ [10]], w3)"
    using w2(1,10) by (simp add: run_queries_def TecSignal_wait_def)
  then have "request_main w n 0 h reply_p rpc sig q1 q2 = Inr (0, [h],
      [bytes_of ''Gauge #012: temp=36.7C error=0'' @ [10], [10] @ bytes_of ''*** Exited with code '' @ fmt_lld 0 @ [10]])"
    using c w4(1,3) w5 by (simp add: request_main_def TecSignal_wait_def)
  then show ?thesis by (simp add: fmt_values) (simp add: bytes_of_def)
qed

text \<open>
  C40: when the thread cannot be created, \<open>request.c\<close>, which drops the result
  of \<open>run\<close>, waits for ever for a thread that does not exist to terminate.
\<close>

theorem request_main_hangs:
  assumes "unused_worker w" and "n \<noteq> NULL" and "q2 \<noteq> NULL" and "crc \<noteq> 0"
  shows "request_main w n crc h reply_p rpc sig q1 q2 = Inl No_return"
proof -
  obtain w0 w1 where
    c: "TecWorker_init (\<lambda>_. 0) True w 1 = Inr (True, w0)"
    "TecWorker_register w0 GaugeRequest_msg on_gauge_request_fn n = Inr ([Lock 0, Unlock], w1)"
    and r: "ready_worker w1 [GaugeRequest_msg \<mapsto> on_gauge_request_fn]" "worker_made w1"
      "w_on_init w1 = NULL" "w_on_exit w1 = NULL"
    by (rule request_created [OF assms(1,2)])
  obtain w2 where w2: "TecWorker_run request_code w1 0 crc h = Inr (crc, [Lock 0, Unlock], [], [], w2)"
    "\<not> in_loop w2" "queue_holds (w_queue w2) []" "d_send (w_daemon w2) = Some Worker_send"
    "sig_value (w_sig_terminated w2) = 0"
    using run_no_thread [OF r(1) assms(4), of request_code h] by metis
  have "holds_messages w2 Map.empty [] []" using w2(3) by (simp add: holds_messages_def)
  from send_message [OF this empty_queue_fresh [OF w2(3) assms(3)], of NULL] w2(4) obtain w3 where
    w3: "TecDaemon_send w2 NULL q2 = Inr w3" "queue_only w2 w3" by auto
  have "\<not> in_loop w3" "sig_value (w_sig_terminated w3) = 0"
    using queue_onlyD(5,9) [OF w3(2)] w2(2,5) by simp_all
  then have "TecWorker_terminate request_code w2 Map.empty q2 = Inl No_return"
    using w3(1) by (simp add: TecWorker_terminate_def TecSignal_wait_def)
  then show ?thesis using c w2(1) assms(4) by (simp add: request_main_def run_queries_def)
qed

section \<open>The pool\<close>

definition empty_job :: "(nat \<Rightarrow> ptr \<times> ptr) \<Rightarrow> nat \<Rightarrow> job" where
  "empty_job mem i = \<lparr>jb_func = NULL, jb_payload = None, jb_args = NULL, jb_pt = fst (mem i), jb_pq = snd (mem i)\<rparr>"

lemma fold_outcome_map: "fold_outcome f s (map g xs) = fold_outcome (\<lambda>s x. f s (g x)) s xs"
  by (induction xs arbitrary: s) simp_all

lemma test_pool_life:
  "test_pool p hs mem ps = pool_life 8 1024 0 32 p hs (map (empty_job mem) [0 ..< 64]) ps"
proof -
  have "fold_outcome enqueue_job pool (map (empty_job mem) is)
      = fold_outcome (\<lambda>pool i. TecThrPool_enqueue pool NULL None NULL (fst (mem i)) (snd (mem i))) pool is" for pool "is"
    by (simp add: fold_outcome_map enqueue_job_def empty_job_def)
  then show ?thesis by (simp add: test_pool_def pool_life_def)
qed

text \<open>
  C#test_pool_joins: \<open>thrpool.c\<close>: the 64 tasks without a function are taken and given back by the
  eight threads, no function is called, every thread is joined once, nothing faults.
\<close>

theorem test_pool_joins:
  assumes "\<forall>i < 8. calloc_fresh (tn_mem zero_node) (p i) 1536" and "length hs = 8"
    and "jobs_fit p 8 1536 [] (map (empty_job mem) [0 ..< 64])"
    and "length ps = 8" and "\<forall>q \<in> set ps. q \<noteq> NULL \<and> (\<forall>i < 64. q \<noteq> snd (mem i))"
  shows "test_pool p hs mem ps = Inr (replicate 8 [], hs)"
proof -
  let ?js = "map (empty_job mem) [0 ..< 64]"
  have ps: "\<forall>q \<in> set ps. q \<noteq> NULL \<and> q \<notin> jb_pq ` set ?js" using assms(5) by (force simp: empty_job_def)
  have none: "node_calls pool i (dealt 8 ?js i) = []" for pool i
    using set_dealt [of 8 ?js i] by (auto simp: node_calls_def empty_job_def filter_empty_conv)
  show ?thesis
    using pool_life_ends [of 8 8 32 p hs ?js 0 ps 1024] assms(1-4) ps
    by (auto simp: test_pool_life none map_replicate_const)
qed

section \<open>Witnesses\<close>


theorem worker_main_no_thread_witness:
  "worker_main unused 64 128 11 77 1000 2000 8 16 24 = Inr (11, [], [code_line ''Inited'' 11])"
  by (rule worker_main_no_thread [OF unused_worker_unused]) simp_all

theorem request_main_prints_witness:
  "request_main unused 64 0 77 3000 1000 2000 8 16 = Inr (0, [77],
     [bytes_of ''Gauge #012: temp=36.7C error=0'' @ [10], [10] @ bytes_of ''*** Exited with code 0'' @ [10]])"
  by (rule request_main_prints [OF unused_worker_unused]) simp_all

theorem request_main_hangs_witness:
  "request_main unused 64 11 77 3000 1000 2000 8 16 = Inl No_return"
  by (rule request_main_hangs [OF unused_worker_unused]) simp_all

text \<open>Tasks at equal distances fit.\<close>

lemma spaced_jobs_fit:
  assumes "\<forall>i < n. p i + len \<le> b" and "b + 48 * (m + k) < 2 ^ 64" and "b \<noteq> 0"
  shows "jobs_fit p n len (map (empty_job (\<lambda>i. (b + 48 * i, Suc i))) [0 ..< m])
     (map (empty_job (\<lambda>i. (b + 48 * i, Suc i))) [m ..< m + k])"
  using assms(2)
proof (induction k arbitrary: m)
  case (Suc k)
  let ?J = "empty_job (\<lambda>i. (b + 48 * i, Suc i))"
  have "[m ..< m + Suc k] = m # [Suc m ..< Suc m + k]" by (simp add: upt_conv_Cons)
  moreover have "job_fits p n len (map ?J [0 ..< m]) (?J m)"
    using assms(1,3) Suc.prems by (auto simp: job_fits_def empty_job_def trans_le_add1)
  moreover have "jobs_fit p n len (map ?J [0 ..< Suc m]) (map ?J [Suc m ..< Suc m + k])"
    using Suc.prems by (intro Suc.IH) simp
  ultimately show ?case by simp
qed simp

theorem test_pool_joins_witness:
  "test_pool (\<lambda>i. 4096 * Suc i) [11, 12, 13, 14, 15, 16, 17, 18] (\<lambda>i. (65536 + 48 * i, Suc i))
     [101, 102, 103, 104, 105, 106, 107, 108] = Inr (replicate 8 [], [11, 12, 13, 14, 15, 16, 17, 18])"
proof -
  have "jobs_fit (\<lambda>i. 4096 * Suc i) 8 1536 [] (map (empty_job (\<lambda>i. (65536 + 48 * i, Suc i))) [0 ..< 64])"
    using spaced_jobs_fit [of 8 "\<lambda>i. 4096 * Suc i" 1536 65536 0 64] by simp
  then show ?thesis
    by (intro test_pool_joins) (simp_all add: calloc_fresh_def zero_node_def)
qed

end
