(* ===== verification/ExBuffer.thy ===== *)
theory ExBuffer
  imports TecBufferDump
begin

text \<open>
  Models the example program \<open>examples/misc/buffer.c\<close>: three strings are put into a buffer one
  after the other, which is printed as JSON, as a string, as hexadecimal text and as tables.
\<close>

section \<open>Model\<close>

text \<open>What \<open>%s\<close> prints: a block must hold a terminator.\<close>

definition c_str :: "u8 list option \<Rightarrow> u8 list outcome" where
  "c_str blk =
     (case blk of
        None \<Rightarrow> Inl Null_deref
      | Some d \<Rightarrow> if 0 \<in> set d then Inr (c_string d) else Inl Out_of_bounds)"

text \<open>\<open>addr\<close> is the value of the \<open>data\<close> pointer.\<close>

definition dump_buffer :: "buffer_env \<Rightarrow> bool \<Rightarrow> u64 \<Rightarrow> TecBuffer \<Rightarrow> u8 list outcome" where
  "dump_buffer env sc addr buf =
     bind_outcome (TecBuffer_json env buf addr (Some (bytes_of ''TecBuffer'')) 0) (\<lambda>json.
     bind_outcome (TecBuffer_as_hex env sc buf 0 0) (\<lambda>hex.
     bind_outcome (c_str (buf_data json)) (\<lambda>j.
     bind_outcome (if buf_data buf \<noteq> None then c_str (buf_data buf) else Inr []) (\<lambda>s.
     bind_outcome (if buf_data hex \<noteq> None then c_str (buf_data hex) else Inr []) (\<lambda>h.
       Inr ([10] @ j @ [10] @ [34] @ s @ [34, 10] @ [91] @ h @ [93, 10]))))))"

definition table_title :: "u64 \<Rightarrow> u64 \<Rightarrow> u8 list" where
  "table_title start len =
     [10] @ bytes_of ''=== start='' @ fmt_ld start @ bytes_of '' len='' @ fmt_lu len @ bytes_of '' ==='' @ [10]"

definition dump_table :: "buffer_env \<Rightarrow> bool \<Rightarrow> TecBuffer \<Rightarrow> u64 \<Rightarrow> u64 \<Rightarrow> u8 list outcome" where
  "dump_table env sc buf start len =
     bind_outcome (TecBuffer_as_table env sc buf start len) (\<lambda>tbl.
     bind_outcome (c_str (buf_data tbl)) (\<lambda>t. Inr (table_title start len @ t @ [10])))"

text \<open>The texts printed, and the buffer; \<open>addr\<close> gives the pointer at each of the four dumps.\<close>

definition buffer_test ::
  "buffer_env \<Rightarrow> bool \<Rightarrow> (nat \<Rightarrow> u64) \<Rightarrow> TecBuffer \<Rightarrow> (u8 list list \<times> TecBuffer) outcome" where
  "buffer_test env sc addr buf =
     bind_outcome (dump_buffer env sc (addr 0) buf) (\<lambda>t0.
     bind_outcome (dump_table env sc buf 0 0) (\<lambda>t1.
     bind_outcome (TecBuffer_puts env buf (Some (bytes_of ''Hello, world!''))) (\<lambda>(_, buf).
     bind_outcome (dump_buffer env sc (addr 1) buf) (\<lambda>t2.
     bind_outcome (TecBuffer_puts env buf (Some (bytes_of '' Appended string.''))) (\<lambda>(_, buf).
     bind_outcome (dump_buffer env sc (addr 2) buf) (\<lambda>t3.
     bind_outcome (TecBuffer_puts env buf (Some (bytes_of '' The quick brown fox jumps over the lazy dog.''))) (\<lambda>(_, buf).
     bind_outcome (dump_buffer env sc (addr 3) buf) (\<lambda>t4.
     bind_outcome (dump_table env sc buf 0 0) (\<lambda>t5.
     bind_outcome (dump_table env sc buf 6 8) (\<lambda>t6.
     bind_outcome (dump_table env sc buf 31 100) (\<lambda>t7.
     bind_outcome (dump_table env sc buf 90 100) (\<lambda>t8.
       Inr ([t0, t1, t2, t3, t4, t5, t6, t7, t8], buf)))))))))))))"

definition buffer_main :: "buffer_env \<Rightarrow> bool \<Rightarrow> (nat \<Rightarrow> u64) \<Rightarrow> (u8 list list \<times> TecBuffer) outcome" where
  "buffer_main env sc addr =
     bind_outcome (TecBuffer_init env 0 0) (\<lambda>buf.
     bind_outcome (buffer_test env sc addr buf) (\<lambda>(texts, buf).
       Inr (texts, TecBuffer_done buf)))"

section \<open>What is printed of a buffer\<close>

lemma c_str_terminated:
  assumes "buf_content b = s @ [0]" and "0 \<notin> set s"
  shows "c_str (buf_data b) = Inr s"
proof -
  obtain d where d: "buf_data b = Some d" using assms(1) by (cases "buf_data b") (auto simp: buf_content_def buf_bytes_def)
  then have "take (unat (buf_size b)) d = s @ [0]" using assms(1) by (simp add: buf_content_def buf_bytes_def)
  then have split: "d = s @ [0] @ drop (unat (buf_size b)) d" by (metis append_assoc append_take_drop_id)
  have "c_string d = s" using string_end [OF assms(2)] by (subst split) simp
  moreover have "0 \<in> set d" by (subst split) simp
  ultimately show ?thesis by (simp add: c_str_def d)
qed

lemma c_str_hex:
  assumes "buf_content b = hex_text bs" and "buf_bytes b ! (2 * length bs) = 0" and "2 * length bs < length (buf_bytes b)"
    and "length (buf_content b) = unat (buf_size b)"
  shows "c_str (buf_data b) = Inr (hex_text bs)"
proof -
  obtain d where d: "buf_data b = Some d" using assms(3) by (cases "buf_data b") (auto simp: buf_bytes_def)
  have n: "unat (buf_size b) = 2 * length bs" using assms(1,4) by simp
  have t: "take (2 * length bs) d = hex_text bs" using assms(1) n d by (simp add: buf_content_def buf_bytes_def)
  have "d = take (2 * length bs) d @ d ! (2 * length bs) # drop (Suc (2 * length bs)) d"
    using assms(3) d by (simp add: buf_bytes_def id_take_nth_drop)
  then have split: "d = hex_text bs @ 0 # drop (Suc (2 * length bs)) d" using assms(2) t d by (simp add: buf_bytes_def)
  have "0 \<notin> set (hex_text bs)" using hex_pair_nonzero by (auto simp: hex_text_def)
  then have "c_string d = hex_text bs" by (subst split) (rule string_end)
  moreover have "0 \<in> set d" by (subst split) simp
  ultimately show ?thesis by (simp add: c_str_def d)
qed

section \<open>Putting strings into one block\<close>

lemma write_keeps:
  assumes "TecBuffer_write env b src n = Inr (k, b')" and "buf_pos b + n \<le> buf_capacity b"
  shows "buf_capacity b' = buf_capacity b"
  using assms by (auto simp: TecBuffer_write_def ensure_capacity_def bind_outcome_Inr_iff Let_def split: if_splits)

lemma ensure_one_block:
  assumes "env_ok env" and "buf_capacity b = 80 \<or> buf_capacity b = 0 \<and> buf_block_size b = 80"
    and "pos + n \<le> 80" and "pos + n \<noteq> 0" and "ensure_capacity env b pos n = Inr b1"
  shows "buf_capacity b1 = 80"
proof (cases "buf_capacity b = 80")
  case True
  then show ?thesis using assms(3,5) by (simp add: ensure_capacity_def)
next
  case False
  then have c: "buf_capacity b = 0" "buf_block_size b = 80" using assms(2) by simp_all
  then have g: "grow_capacity b 80 = Inr 80" by (simp add: grow_capacity_done)
  have "bind_outcome (realloc_buffer env b 80) (\<lambda>(ok, b'). Inr (if ok then b' else ON_ERROR env b')) = Inr b1"
    using assms(4,5) c g by (simp add: ensure_capacity_def Let_def)
  then show ?thesis
    using assms(1) c(1) by (auto simp: realloc_buffer_def env_ok_def bind_outcome_Inr_iff Let_def)
qed

lemma puts_capacity:
  assumes env: "env_ok env" and cap: "buf_capacity b = 80 \<or> buf_capacity b = 0 \<and> buf_block_size b = 80"
    and fits: "unat (buf_pos b) + length s + 1 \<le> 80" and s: "s \<noteq> []"
    and run: "TecBuffer_puts env b (Some s) = Inr (k, b')"
  shows "buf_capacity b' = 80"
proof -
  let ?n = "word_of_nat (length s + 1) :: u64"
  have n: "unat ?n = length s + 1" using fits by (intro u64_of_nat) simp
  have len: "sint (word_of_nat (length s) :: u32) = int (length s)"
    using fits by (simp add: signed_of_nat signed_take_bit_int_eq_self)
  have n32: "signed32 (int (length s) + 1) = Inr (int (length s + 1))"
    using fits by (simp add: signed32_def in_s32_def)
  have wn: "word_of_int (int (length s + 1)) = ?n" by simp
  have le: "p + ?n \<le> 80" "p + ?n \<noteq> 0" if "unat p \<le> unat (buf_pos b)" for p
  proof -
    have "unat (p + ?n) = unat p + (length s + 1)" using fits that n by (subst u64_add) simp_all
    then show "p + ?n \<le> 80" "p + ?n \<noteq> 0" using fits that by (simp_all add: word_le_nat_alt u64_eq_0)
  qed
  let ?rest = "\<lambda>b1 last. let (pos, b) =
      (if last = [0] then (buf_pos b - 1, if buf_size b1 \<noteq> 0 then b1\<lparr>buf_size := buf_size b1 - 1\<rparr> else b1)
       else (buf_pos b, b1)); b = b\<lparr>buf_pos := pos\<rparr>
    in TecBuffer_write env b (s @ [0]) ?n"
  have "bind_outcome (ensure_capacity env b (buf_pos b) ?n) (\<lambda>b1.
      bind_outcome (if 0 < sint (buf_pos b) then mem_read (buf_data b1) (sint (buf_pos b) - 1) 1 else Inr [1])
        (?rest b1)) = Inr (k, b')"
    using run s unfolding TecBuffer_puts_def option.case len n32 bind_outcome.simps wn Let_def by simp
  then obtain b1 last where b1: "ensure_capacity env b (buf_pos b) ?n = Inr b1"
    and rd: "(if 0 < sint (buf_pos b) then mem_read (buf_data b1) (sint (buf_pos b) - 1) 1 else Inr [1]) = Inr last"
    and rest: "?rest b1 last = Inr (k, b')"
    unfolding bind_outcome_Inr_iff by blast
  have c1: "buf_capacity b1 = 80" using ensure_one_block [OF env cap le(1,2) b1] by simp
  show ?thesis
  proof (cases "last = [0]")
    case True
    then have "buf_pos b \<noteq> 0" using rd by auto
    then have "1 \<le> buf_pos b" by (simp add: word_le_nat_alt u64_eq_0)
    then have "unat (buf_pos b - 1) \<le> unat (buf_pos b)" by (simp add: u64_sub)
    from le(1) [OF this] show ?thesis
      using rest True c1 write_keeps [of env _ "s @ [0]" ?n k b'] by (auto simp: Let_def split: if_splits)
  next
    case False
    with rest have "TecBuffer_write env (b1\<lparr>buf_pos := buf_pos b\<rparr>) (s @ [0]) ?n = Inr (k, b')"
      by (simp add: Let_def)
    from write_keeps [OF this] show ?thesis using le(1) [OF order_refl] c1 by simp
  qed
qed

lemma puts_appends:
  assumes "buffer_wf b" and "env_ok env" and "buf_pos b = buf_size b" and "buf_block_size b = 80"
    and "buf_capacity b = 80 \<or> buf_capacity b = 0" and "unat (buf_pos b) + length s + 1 \<le> 80" and "s \<noteq> []"
  obtains b' k where "TecBuffer_puts env b (Some s) = Inr (k, b')" and "buffer_wf b'" and "buf_pos b' = buf_size b'"
    and "buf_block_size b' = 80" and "buf_capacity b' = 80" and "buf_content b' = unterminated (buf_content b) @ s @ [0]"
proof -
  have room: "room b (length s + 1)" using assms(4,6) by (simp add: room_def room_at_def)
  have len: "length s + 1 < 2 ^ 31" using assms(6) by simp
  obtain b' where b': "put_string env b s = Inr b'" "buffer_wf b'" "buf_pos b' = buf_size b'"
    "buf_content b' = unterminated (buf_content b) @ s @ [0]"
    using put_string_end [OF assms(1,2,3) room assms(7) len] by metis
  obtain k b2 where b2: "TecBuffer_puts env b (Some s) = Inr (k, b2)" "buf_block_size b2 = 80"
    using puts_file_write [OF assms(1,2) room assms(7) len] assms(4) by metis
  have "b2 = b'" using b'(1) b2(1) by (simp add: put_string_def)
  moreover have "buf_capacity b2 = 80" using puts_capacity [OF assms(2) _ assms(6,7) b2(1)] assms(4,5) by blast
  ultimately show thesis using that b' b2 by metis
qed

section \<open>The texts\<close>

lemma hex_nothing:
  assumes "env_ok env" and "buf_size b = 0 \<or> 0 \<le> sint start \<and> buf_size b < start"
  shows "TecBuffer_as_hex env sc b start len = Inr (fresh_buffer 256)"
  using TecBuffer_init_result [OF assms(1), of 0 256] assms(2)
  by (auto simp: TecBuffer_as_hex_def TecBuffer_create_def hex_buffer_block_size_def Let_def)

lemma table_nothing:
  assumes "env_ok env" and "0 \<le> sint start" and "buf_size b = 0 \<or> buf_size b < start"
  shows "\<exists>dst. TecBuffer_as_table env sc b start len = Inr dst \<and>
    buf_content dst = hex_table_header @ row_prefix (start div 32 * 32) @ [0]"
proof -
  have hex: "TecBuffer_as_hex env sc b start len = Inr (fresh_buffer 256)"
    using hex_nothing [OF assms(1)] assms(2,3) by blast
  have create: "TecBuffer_create env 258 258 = Inr (one_block_buffer 258)"
    using TecBuffer_init_result [OF assms(1), of 258 258] by (simp add: TecBuffer_create_def)
  let ?ss = "[hex_table_header, row_prefix (start div 32 * 32)]"
  have "bind_outcome m Inr = m" for m :: "TecBuffer outcome" by (cases m) simp_all
  then have "TecBuffer_as_table env sc b start len = fold_outcome (put_string env) (one_block_buffer 258) ?ss"
    using hex assms(2) create row_prefix_fits [of "start div 32 * 32"]
    by (simp add: TecBuffer_as_table_def fresh_buffer_def hex_table_block_size_def bytes_per_line_def Let_def not_less)
  moreover have "\<exists>b'. fold_outcome (put_string env) (one_block_buffer 258) ?ss = Inr b' \<and> buffer_wf b' \<and>
      buf_pos b' = buf_size b' \<and> buf_content b' = unterminated (buf_content (one_block_buffer 258)) @ concat ?ss @ [0]"
  proof (intro fold_put_string)
    have l: "length hex_table_header \<le> 200" "hex_table_header \<noteq> []" by (simp_all add: hex_table_header_def bytes_of_def)
    show "\<forall>s \<in> set ?ss. s \<noteq> [] \<and> length s + 1 < 2 ^ 31" using l length_row_prefix [of "start div 32 * 32"] by auto
    show "unat (buf_pos (one_block_buffer 258)) + length (concat ?ss) + length ?ss \<le> 2 ^ 61"
      using l length_row_prefix [of "start div 32 * 32"] by (simp add: one_block_buffer_def)
  qed (use assms(1) one_block_buffer_wf [of 258] in \<open>simp_all add: one_block_buffer_def\<close>)
  ultimately show ?thesis by (auto simp: unterminated_def buf_content_def one_block_buffer_def)
qed

text \<open>What a dump of a buffer that holds the string \<open>s\<close> prints.\<close>

definition dump_text :: "TecBuffer \<Rightarrow> u64 \<Rightarrow> u8 list \<Rightarrow> u8 list" where
  "dump_text b addr s =
     [10] @ json_name (bytes_of ''TecBuffer'') @ json_text b addr @ [10, 34] @ s @ [34, 10, 91] @
     hex_text (buf_content b) @ [93, 10]"

lemma json_printed:
  assumes "buffer_wf b" and "env_ok env" and "unat (buf_capacity b) \<le> 80" and "unat (buf_block_size b) = 80"
  shows "\<exists>json. TecBuffer_json env b addr (Some (bytes_of ''TecBuffer'')) 0 = Inr json \<and>
    c_str (buf_data json) = Inr (json_name (bytes_of ''TecBuffer'') @ json_text b addr)"
proof -
  let ?t = "json_name (bytes_of ''TecBuffer'') @ json_text b addr"
  obtain json where json: "TecBuffer_json env b addr (Some (bytes_of ''TecBuffer'')) 0 = Inr json"
    "buf_content json = ?t @ [0]"
    using json_output [OF assms(1,2), of "bytes_of ''TecBuffer''" addr 0] assms(3,4) by (auto simp: bytes_of_def)
  have "0 \<notin> set ?t"
    using text_nonzero by (simp add: json_name_def json_text_def ENQUOTE_def bytes_of_def)
  with json show ?thesis using c_str_terminated by blast
qed

lemma dump_empty:
  assumes "env_ok env"
  shows "dump_buffer env sc addr (fresh_buffer 80) = Inr (dump_text (fresh_buffer 80) addr [])"
proof -
  obtain json where "TecBuffer_json env (fresh_buffer 80) addr (Some (bytes_of ''TecBuffer'')) 0 = Inr json"
    "c_str (buf_data json) = Inr (json_name (bytes_of ''TecBuffer'') @ json_text (fresh_buffer 80) addr)"
    using json_printed [OF fresh_buffer_wf assms, of 80 addr] by (auto simp: fresh_buffer_def)
  moreover have "TecBuffer_as_hex env sc (fresh_buffer 80) 0 0 = Inr (fresh_buffer 256)"
    by (rule hex_nothing [OF assms]) (simp add: fresh_buffer_def)
  ultimately show ?thesis
    by (simp add: dump_buffer_def dump_text_def fresh_buffer_def buf_content_def buf_bytes_def hex_text_def)
qed

text \<open>The buffer after a string: one block, the position at the end.\<close>

definition holds_string :: "TecBuffer \<Rightarrow> u8 list \<Rightarrow> bool" where
  "holds_string b s \<longleftrightarrow>
     buffer_wf b \<and> buf_pos b = buf_size b \<and> buf_block_size b = 80 \<and> buf_capacity b = 80 \<and> buf_content b = s @ [0]"

definition plain_text :: "u8 list \<Rightarrow> bool" where
  "plain_text s \<longleftrightarrow> (\<forall>c \<in> set s. c \<noteq> 0 \<and> unat c < 128)"

lemma holds_size:
  assumes "holds_string b s"
  shows "unat (buf_size b) = length s + 1" and "unat (buf_size b) \<le> 80"
  using assms length_buf_content [of b] buffer_wfD(1) [of b] by (simp_all add: holds_string_def)

lemma dump_holds:
  assumes "holds_string b s" and "plain_text s" and env: "env_ok env"
  shows "dump_buffer env sc addr b = Inr (dump_text b addr s)"
proof -
  have b: "buffer_wf b" "buf_content b = s @ [0]" "unat (buf_capacity b) \<le> 80" "unat (buf_block_size b) = 80"
    using assms(1) by (simp_all add: holds_string_def)
  obtain json where json: "TecBuffer_json env b addr (Some (bytes_of ''TecBuffer'')) 0 = Inr json"
    "c_str (buf_data json) = Inr (json_name (bytes_of ''TecBuffer'') @ json_text b addr)"
    using json_printed [OF b(1) env b(3,4)] by blast
  have sh: "shown b 0 0 = s @ [0]" by (simp add: shown_def b(2))
  have d: "\<forall>c \<in> set (shown b 0 0). dumpable sc c" using assms(2) by (auto simp: sh plain_text_def dumpable_def)
  obtain hex where hex: "buffer_wf hex" "TecBuffer_as_hex env sc b 0 0 = Inr hex"
    "buf_content hex = hex_text (s @ [0])" "buf_bytes hex ! (2 * length (s @ [0])) = 0"
    "length (buf_bytes hex) > 2 * length (s @ [0])"
  proof -
    have "unat (buf_size b) < 2 ^ 60" "unat (0 :: u64) < 2 ^ 63" "nat (sint (0 :: u64)) < unat (buf_size b)"
      using holds_size [OF assms(1)] by simp_all
    from as_hex_run [OF b(1) env this, of sc] d that show thesis unfolding sh by metis
  qed
  have "c_str (buf_data hex) = Inr (hex_text (s @ [0]))"
    using c_str_hex [OF hex(3,4)] hex(5) length_buf_content [OF hex(1)] by simp
  moreover have "buf_data hex \<noteq> None" using hex(5) by (cases "buf_data hex") (simp_all add: buf_bytes_def)
  moreover have "0 \<notin> set s" using assms(2) by (auto simp: plain_text_def)
  then have "c_str (buf_data b) = Inr s" using c_str_terminated [OF b(2)] by blast
  moreover have "buf_data b \<noteq> None" using b(2) by (cases "buf_data b") (simp_all add: buf_content_def buf_bytes_def)
  ultimately show ?thesis using json hex(2) by (simp add: dump_buffer_def dump_text_def b(2))
qed

lemma table_holds:
  assumes "holds_string b s" and "plain_text s" and env: "env_ok env" and "unat start \<le> length s" and "unat len < 2 ^ 63"
  shows "dump_table env sc b start len = Inr (table_title start len @ hex_table_header @
    concat (table_rows (start div 32 * 32) 0 (table_cells (unat start) (shown b start len))) @ [10])"
proof -
  let ?rows = "concat (table_rows (start div 32 * 32) 0 (table_cells (unat start) (shown b start len)))"
  have b: "buffer_wf b" "buf_content b = s @ [0]" using assms(1) by (simp_all add: holds_string_def)
  have sz: "unat (buf_size b) < 2 ^ 50" "unat start < unat (buf_size b)"
    using holds_size [OF assms(1)] assms(4) by simp_all
  have "set (shown b start len) \<subseteq> set (s @ [0])"
    unfolding shown_def b(2) Let_def by (auto dest!: in_set_takeD in_set_dropD)
  then have "\<forall>c \<in> set (shown b start len). dumpable sc c"
    using assms(2) by (auto simp: plain_text_def dumpable_def)
  from as_table_text [OF b(1) env sz(1) assms(5) sz(2) this] obtain tbl where
    tbl: "TecBuffer_as_table env sc b start len = Inr tbl" "buf_content tbl = (hex_table_header @ ?rows) @ [0]" by auto
  have "0 \<notin> set (hex_table_header @ ?rows)" using text_nonzero(5) rows_nonzero [OF cells_nonzero] by simp
  from c_str_terminated [OF tbl(2) this] show ?thesis using tbl(1) by (simp add: dump_table_def)
qed

lemma table_outside:
  assumes "env_ok env" and "0 \<le> sint start" and "buf_size b = 0 \<or> buf_size b < start"
  shows "dump_table env sc b start len = Inr (table_title start len @ hex_table_header @ row_prefix (start div 32 * 32) @ [10])"
proof -
  obtain tbl where tbl: "TecBuffer_as_table env sc b start len = Inr tbl"
    "buf_content tbl = (hex_table_header @ row_prefix (start div 32 * 32)) @ [0]"
    using table_nothing [OF assms] by auto
  have "0 \<notin> set (hex_table_header @ row_prefix (start div 32 * 32))" using text_nonzero(4,5) by simp
  from c_str_terminated [OF tbl(2) this] show ?thesis using tbl(1) by (simp add: dump_table_def)
qed

lemma puts_holds:
  assumes "holds_string b s" and "env_ok env" and "length s + length t + 2 \<le> 80" and "t \<noteq> []"
  obtains b' k where "TecBuffer_puts env b (Some t) = Inr (k, b')" and "holds_string b' (s @ t)"
proof -
  have b: "buffer_wf b" "buf_pos b = buf_size b" "buf_block_size b = 80" "buf_capacity b = 80"
    "buf_content b = s @ [0]" using assms(1) by (simp_all add: holds_string_def)
  have "unat (buf_pos b) + length t + 1 \<le> 80" using holds_size(1) [OF assms(1)] b(2) assms(3) by simp
  from puts_appends [OF b(1) assms(2) b(2,3) disjI1 [OF b(4)] this assms(4)] obtain b' k where
    "TecBuffer_puts env b (Some t) = Inr (k, b')" "buffer_wf b'" "buf_pos b' = buf_size b'"
    "buf_block_size b' = 80" "buf_capacity b' = 80" "buf_content b' = unterminated (buf_content b) @ t @ [0]"
    by blast
  with that [of k b'] b(5) show thesis by (simp add: holds_string_def)
qed

lemma first_puts:
  assumes "env_ok env" and "length t + 1 \<le> 80" and "t \<noteq> []"
  obtains b' k where "TecBuffer_puts env (fresh_buffer 80) (Some t) = Inr (k, b')" and "holds_string b' t"
proof -
  have f: "buffer_wf (fresh_buffer 80)" "buf_pos (fresh_buffer 80) = buf_size (fresh_buffer 80)"
    "buf_block_size (fresh_buffer 80) = 80" "buf_capacity (fresh_buffer 80) = 0" "buf_content (fresh_buffer 80) = []"
    using fresh_buffer_wf [of 80] by (simp_all add: fresh_buffer_def buf_content_def buf_bytes_def)
  have "unat (buf_pos (fresh_buffer 80)) + length t + 1 \<le> 80" using assms(2) by (simp add: fresh_buffer_def)
  from puts_appends [OF f(1) assms(1) f(2,3) disjI2 [OF f(4)] this assms(3)] obtain b' k where
    "TecBuffer_puts env (fresh_buffer 80) (Some t) = Inr (k, b')" "buffer_wf b'" "buf_pos b' = buf_size b'"
    "buf_block_size b' = 80" "buf_capacity b' = 80"
    "buf_content b' = unterminated (buf_content (fresh_buffer 80)) @ t @ [0]"
    by blast
  with that [of k b'] f(5) show thesis by (simp add: holds_string_def unterminated_def)
qed

section \<open>Properties\<close>

definition hello :: "u8 list" where "hello = bytes_of ''Hello, world!''"

definition appended :: "u8 list" where "appended = bytes_of ''Hello, world! Appended string.''"

definition fox :: "u8 list" where
  "fox = bytes_of ''Hello, world! Appended string. The quick brown fox jumps over the lazy dog.''"

definition table_of :: "u64 \<Rightarrow> u64 \<Rightarrow> u8 list list \<Rightarrow> u8 list" where
  "table_of start len rows = table_title start len @ hex_table_header @ concat rows @ [10]"

text \<open>
  C#buffer_main_prints: \<open>buffer.c\<close> runs without a fault. It prints the empty buffer, then the
  buffer with the one, two and three strings put so far, each as JSON, as a string and as
  hexadecimal text, and the tables of the whole, of eight bytes from 6 and of the rest from 31;
  a table that starts behind the end has a label and no cells. The block is released.
\<close>

theorem buffer_main_prints:
  assumes "env_ok env"
  shows "\<exists>b1 b2 b3. buf_content b1 = hello @ [0] \<and> buf_content b2 = appended @ [0] \<and> buf_content b3 = fox @ [0] \<and>
    buffer_main env sc addr = Inr
      ([dump_text (fresh_buffer 80) (addr 0) [], table_of 0 0 [row_prefix 0],
        dump_text b1 (addr 1) hello, dump_text b2 (addr 2) appended, dump_text b3 (addr 3) fox,
        table_of 0 0 (table_rows 0 0 (table_cells 0 (fox @ [0]))),
        table_of 6 8 (table_rows 0 0 (table_cells 6 (take 8 (drop 6 fox)))),
        table_of 31 100 (table_rows 0 0 (table_cells 31 (drop 31 (fox @ [0])))),
        table_of 90 100 [row_prefix 64]], fresh_buffer 80)"
proof -
  have plain: "plain_text hello" "plain_text appended" "plain_text fox"
    by (simp_all add: plain_text_def hello_def appended_def fox_def bytes_of_def)
  have len: "length hello = 13" "length appended = 30" "length fox = 75"
    by (simp_all add: hello_def appended_def fox_def bytes_of_def)
  let ?s2 = "bytes_of '' Appended string.''" and ?s3 = "bytes_of '' The quick brown fox jumps over the lazy dog.''"
  have app: "hello @ ?s2 = appended" "appended @ ?s3 = fox"
    by (simp_all add: hello_def appended_def fox_def bytes_of_def)
  have l: "length ?s2 = 17" "length ?s3 = 45" "?s2 \<noteq> []" "?s3 \<noteq> []" by (simp_all add: bytes_of_def)
  have "hello \<noteq> []" "length hello + 1 \<le> 80" using len by auto
  then obtain b1 k1 where b1: "TecBuffer_puts env (fresh_buffer 80) (Some hello) = Inr (k1, b1)" "holds_string b1 hello"
    using first_puts [OF assms] by metis
  have "length hello + length ?s2 + 2 \<le> 80" using len l by simp
  from puts_holds [OF b1(2) assms this l(3)] obtain b2 k2 where
    b2: "TecBuffer_puts env b1 (Some ?s2) = Inr (k2, b2)" "holds_string b2 appended" unfolding app(1) by blast
  have "length appended + length ?s3 + 2 \<le> 80" using len l by simp
  from puts_holds [OF b2(2) assms this l(4)] obtain b3 k3 where
    b3: "TecBuffer_puts env b2 (Some ?s3) = Inr (k3, b3)" "holds_string b3 fox" unfolding app(2) by blast
  have c3: "buf_content b3 = fox @ [0]" "unat (buf_size b3) = 76" "buf_block_size b3 = 80"
    using b3(2) holds_size(1) [OF b3(2)] len(3) by (simp_all add: holds_string_def)
  have sh: "shown b3 0 0 = fox @ [0]" "shown b3 6 8 = take 8 (drop 6 fox)" "shown b3 31 100 = drop 31 (fox @ [0])"
    using len(3) by (simp_all add: shown_def c3(1))
  have t: "dump_table env sc b3 0 0 = Inr (table_of 0 0 (table_rows 0 0 (table_cells 0 (fox @ [0]))))"
    "dump_table env sc b3 6 8 = Inr (table_of 6 8 (table_rows 0 0 (table_cells 6 (take 8 (drop 6 fox)))))"
    "dump_table env sc b3 31 100 = Inr (table_of 31 100 (table_rows 0 0 (table_cells 31 (drop 31 (fox @ [0])))))"
    using table_holds [OF b3(2) plain(3) assms, of 0 0 sc] table_holds [OF b3(2) plain(3) assms, of 6 8 sc]
      table_holds [OF b3(2) plain(3) assms, of 31 100 sc] len(3) sh by (simp_all add: table_of_def)
  have "buf_size b3 < 90" using c3(2) by (simp add: word_less_nat_alt)
  then have t90: "dump_table env sc b3 90 100 = Inr (table_of 90 100 [row_prefix 64])"
    using table_outside [OF assms, of 90 b3 sc 100] by (simp add: table_of_def)
  have t0: "dump_table env sc (fresh_buffer 80) 0 0 = Inr (table_of 0 0 [row_prefix 0])"
    using table_outside [OF assms, of 0 "fresh_buffer 80" sc 0] by (simp add: table_of_def fresh_buffer_def)
  have init: "TecBuffer_init env 0 0 = Inr (fresh_buffer 80)"
    using TecBuffer_init_result [OF assms, of 0 0] by (simp add: TECC_BUFFER_BLOCK_SIZE_def)
  have over: "TecBuffer_done b3 = fresh_buffer 80" using c3(3) by (simp add: TecBuffer_done_def fresh_buffer_def)
  note d = dump_empty [OF assms, of sc] dump_holds [OF b1(2) plain(1) assms, of sc]
    dump_holds [OF b2(2) plain(2) assms, of sc] dump_holds [OF b3(2) plain(3) assms, of sc]
  have "buffer_main env sc addr = Inr
      ([dump_text (fresh_buffer 80) (addr 0) [], table_of 0 0 [row_prefix 0],
        dump_text b1 (addr 1) hello, dump_text b2 (addr 2) appended, dump_text b3 (addr 3) fox,
        table_of 0 0 (table_rows 0 0 (table_cells 0 (fox @ [0]))),
        table_of 6 8 (table_rows 0 0 (table_cells 6 (take 8 (drop 6 fox)))),
        table_of 31 100 (table_rows 0 0 (table_cells 31 (drop 31 (fox @ [0])))),
        table_of 90 100 [row_prefix 64]], fresh_buffer 80)"
    unfolding buffer_main_def buffer_test_def init hello_def [symmetric] bind_outcome.simps d t0 t t90 b1(1) b2(1) b3(1)
      prod.case over by simp
  then show ?thesis using b1(2) b2(2) c3(1) by (auto simp: holds_string_def)
qed

theorem buffer_main_prints_witness:
  "\<exists>texts. buffer_main (ample None) True (\<lambda>_. 4096) = Inr (texts, fresh_buffer 80) \<and> length texts = 9 \<and>
     last texts = table_of 90 100 [row_prefix 64]"
proof -
  have "env_ok (ample None)" by (simp add: env_ok_def)
  from buffer_main_prints [OF this, of True "\<lambda>_. 4096"] show ?thesis by fastforce
qed

end
