(* ===== verification/ExMap.thy ===== *)
theory ExMap
  imports TecMap TecBufferDump
begin

text \<open>
  Models the example program \<open>examples/misc/map.c\<close>: a hash table is filled, changed, emptied and
  destroyed, its lookups are asserted, and after each operation an iterator prints it.
\<close>

section \<open>Model\<close>

text \<open>
  The loop of \<open>dump\<close> follows the iterator; \<open>None\<close> is a loop that does not end. What a round
  prints: the position, the key and the value of the entry.
\<close>

partial_function (option) dump_loop ::
  "TecMap \<Rightarrow> TecMapIter \<Rightarrow> ptr \<Rightarrow> (u64 \<times> u8 list \<times> ptr) list \<Rightarrow> (u64 \<times> u8 list \<times> ptr) list outcome option" where
  "dump_loop m it p out =
     (if p = NULL then Some (Inr out)
      else case node_at (map_heap m) p of
        Inl f \<Rightarrow> Some (Inl f)
      | Inr n \<Rightarrow>
          (case TecMapIter_next it m of
             Inl f \<Rightarrow> Some (Inl f)
           | Inr (q, it') \<Rightarrow>
               dump_loop m it' q (out @ [(iter_pos it, kv_key (node_pair n), kv_value (node_pair n))])))"

text \<open>\<open>mp\<close> is the address of the map, \<open>it\<close> the uninitialised iterator. The size and the entries.\<close>

definition dump :: "TecMapIter \<Rightarrow> ptr \<Rightarrow> TecMap \<Rightarrow> (u64 \<times> (u64 \<times> u8 list \<times> ptr) list) outcome" where
  "dump it mp m =
     bind_outcome (TecMapIter_begin it mp m) (\<lambda>(p, it).
     bind_outcome (case dump_loop m it p [] of None \<Rightarrow> Inl No_return | Some r \<Rightarrow> r) (\<lambda>es.
       Inr (map_size m, es)))"

text \<open>The text of a dump; the platform's \<open>%p\<close> is an argument.\<close>

definition dump_text :: "(ptr \<Rightarrow> u8 list) \<Rightarrow> u64 \<times> (u64 \<times> u8 list \<times> ptr) list \<Rightarrow> u8 list" where
  "dump_text fmt_p d =
     bytes_of ''size='' @ fmt_lu (fst d) @ [10] @ bytes_of ''{'' @
     concat (map (\<lambda>(pos, key, value). [10] @ bytes_of ''  ['' @ fmt_lu pos @ bytes_of ''] key='' @ key @
       bytes_of '' value='' @ fmt_p value) (snd d)) @ [10] @ bytes_of ''}'' @ [10, 10]"

text \<open>\<open>assert\<close>: \<open>None\<close> is an abort.\<close>

definition assert_then :: "bool \<Rightarrow> 'a option outcome \<Rightarrow> 'a option outcome" where
  "assert_then b rest = (if b then rest else Inr None)"

text \<open>\<open>TecMap_set\<close> with the lookup, the assertion and the dump that follow it.\<close>

definition set_and_dump ::
  "TecMapIter \<Rightarrow> ptr \<Rightarrow> TecMap \<Rightarrow> u8 list \<Rightarrow> ptr \<Rightarrow> ptr
   \<Rightarrow> ((u64 \<times> (u64 \<times> u8 list \<times> ptr) list) \<times> TecMap) option outcome" where
  "set_and_dump it mp m key v cell =
     bind_outcome (TecMap_set m key v cell) (\<lambda>(_, m).
     bind_outcome (TecMap_get m key) (\<lambda>p.
     assert_then (p \<noteq> NULL)
       (bind_outcome (dump it mp m) (\<lambda>d. Inr (Some (d, m))))))"

text \<open>\<open>TecMap_remove\<close> with its assertion and dump.\<close>

definition remove_and_dump ::
  "TecMapIter \<Rightarrow> ptr \<Rightarrow> TecMap \<Rightarrow> u8 list \<Rightarrow> bool
   \<Rightarrow> ((u64 \<times> (u64 \<times> u8 list \<times> ptr) list) \<times> TecMap) option outcome" where
  "remove_and_dump it mp m key present =
     bind_outcome (TecMap_remove m key) (\<lambda>(p, m).
     assert_then ((p \<noteq> NULL) = present)
       (bind_outcome (dump it mp m) (\<lambda>d. Inr (Some (d, m)))))"

definition bind_both :: "'a option outcome \<Rightarrow> ('a \<Rightarrow> 'b option outcome) \<Rightarrow> 'b option outcome" where
  "bind_both r k = bind_outcome r (\<lambda>x. case x of None \<Rightarrow> Inr None | Some y \<Rightarrow> k y)"

definition puts :: "string \<Rightarrow> u8 list" where
  "puts s = bytes_of s @ [10]"

text \<open>The program: the parts of its text. \<open>cell\<close> gives the memory of nodes.\<close>

definition map_main ::
  "(ptr \<Rightarrow> u8 list) \<Rightarrow> TecMap \<Rightarrow> TecMapIter \<Rightarrow> ptr \<Rightarrow> (nat \<Rightarrow> ptr) \<Rightarrow> u8 list list option outcome" where
  "map_main fmt_p m it mp cell =
     (let (_, m) = TecMap_init True m 17; text = (\<lambda>s d. puts s @ dump_text fmt_p d)
      in bind_both (set_and_dump it mp m (bytes_of ''h1'') 0x111111 (cell 0)) (\<lambda>(d1, m).
         bind_both (set_and_dump it mp m (bytes_of ''h2'') 0x222222 (cell 1)) (\<lambda>(d2, m).
         bind_both (set_and_dump it mp m (bytes_of ''h3'') 0x333333 (cell 2)) (\<lambda>(d3, m).
         bind_both (set_and_dump it mp m (bytes_of ''h2'') 0xFFFFFF (cell 3)) (\<lambda>(d4, m).
         bind_both (remove_and_dump it mp m (bytes_of ''not existing'') False) (\<lambda>(d5, m).
         bind_both (remove_and_dump it mp m (bytes_of ''h2'') True) (\<lambda>(d6, m).
         bind_both (remove_and_dump it mp m (bytes_of ''h1'') True) (\<lambda>(d7, m).
         bind_outcome (TecMap_done m) (\<lambda>m.
         bind_outcome (dump it mp m) (\<lambda>d8.
           Inr (Some [text ''TecMap_set: h1'' d1, text ''TecMap_set: h2'' d2, text ''TecMap_set: h3'' d3,
             text ''TecMap_set: h2 - change value'' d4, text ''TecMap_remove: not existing'' d5,
             text ''TecMap_remove: h2'' d6, text ''TecMap_remove: h1'' d7, text ''TecMap_done'' d8])))))))))))"

section \<open>A dump lists the finite map\<close>

lemma dump_loop_visits:
  assumes "visit fuel m it p = Inr ps" and "set ps \<subseteq> dom (map_heap m)"
  shows "\<exists>ls. dump_loop m it p out = Some (Inr (out @ ls)) \<and> map snd ls = map (entry (map_heap m)) ps"
  using assms
proof (induction fuel arbitrary: it p ps out)
  case 0
  then have "p = NULL" "ps = []" by (auto simp: visit.simps split: if_splits)
  then show ?case by (simp add: dump_loop.simps)
next
  case (Suc fuel)
  show ?case
  proof (cases "p = NULL")
    case True
    with Suc.prems show ?thesis by (simp add: visit.simps dump_loop.simps)
  next
    case False
    then obtain q it' qs where v: "TecMapIter_next it m = Inr (q, it')" "visit fuel m it' q = Inr qs" "ps = p # qs"
      using Suc.prems(1) by (auto simp: visit.simps [of "Suc fuel"] bind_outcome_Inr_iff)
    then obtain n where n: "map_heap m p = Some n" using Suc.prems(2) by auto
    let ?e = "(iter_pos it, kv_key (node_pair n), kv_value (node_pair n))"
    from Suc.IH [OF v(2), of "out @ [?e]"] Suc.prems(2) v(3) obtain ls where
      ls: "dump_loop m it' q (out @ [?e]) = Some (Inr (out @ ?e # ls))" "map snd ls = map (entry (map_heap m)) qs"
      by auto
    have "dump_loop m it p out = Some (Inr (out @ ?e # ls))"
      using False n v(1) ls(1) by (subst dump_loop.simps) (simp add: node_at_def)
    moreover have "map snd (?e # ls) = map (entry (map_heap m)) ps"
      using ls(2) n v(3) by (simp add: entry_def key_at_def value_at_def)
    ultimately show ?thesis by blast
  qed
qed

text \<open>
  What a dump shows of the finite map: every key once, with its value, and the number of keys.
\<close>

definition shows_map :: "u64 \<times> (u64 \<times> u8 list \<times> ptr) list \<Rightarrow> (u8 list \<Rightarrow> ptr option) \<Rightarrow> bool" where
  "shows_map d f \<longleftrightarrow>
     map_of (map snd (snd d)) = f \<and> distinct (map (fst \<circ> snd) (snd d)) \<and> fst d = word_of_nat (length (snd d))"

lemma dump_layout:
  assumes "represents m f"
  shows "\<exists>d. dump it mp m = Inr d \<and> shows_map d f"
proof -
  obtain xss where L: "map_layout m xss" and f: "f = (\<lambda>k. bucket_map (map_heap m) (xss ! slot m k) k)"
    using assms(1) by (auto simp: represents_def)
  obtain p it' where v: "TecMapIter_begin it mp m = Inr (p, it')"
    "visit (length (concat xss)) m it' p = Inr (concat xss)"
    using begin_layout [OF L order_refl] by blast
  obtain ls where ls: "dump_loop m it' p [] = Some (Inr ls)" "map snd ls = map (entry (map_heap m)) (concat xss)"
    using dump_loop_visits [OF v(2), of "[]"] layoutD(5) [OF L] by auto
  have "map_of (map snd ls) = f" using layout_entries(2) [OF L] f unfolding ls(2) by (simp only: fun_eq_iff) simp
  moreover have "map (fst \<circ> snd) ls = map (key_at (map_heap m)) (concat xss)"
  proof -
    have "map fst (map snd ls) = map (key_at (map_heap m)) (concat xss)" unfolding ls(2) by (simp add: entry_def)
    then show ?thesis by simp
  qed
  moreover have "length ls = length (concat xss)" using ls(2) by (metis length_map)
  ultimately have "shows_map (map_size m, ls) f"
    using layout_entries(1) [OF L] layoutD(6) [OF L] by (simp add: shows_map_def)
  then show ?thesis using v(1) ls(1) by (simp add: dump_def)
qed

text \<open>The steps of the program; a cell that is free stays free unless the step is given it.\<close>

lemma set_and_dump_spec:
  assumes R: "represents m f" and fresh: "fresh_node m c" and v: "v \<noteq> NULL"
  obtains d m' where "set_and_dump it mp m key v c = Inr (Some (d, m'))" and "shows_map d (f(key \<mapsto> v))"
    and "represents m' (f(key \<mapsto> v))" and "\<And>x. fresh_node m x \<Longrightarrow> x \<noteq> c \<Longrightarrow> fresh_node m' x"
proof -
  obtain m' where m': "TecMap_set m key v c = Inr (value_of (f key), m')" "represents m' (f(key \<mapsto> v))"
    using tec_map.put_spec [OF R fresh] by blast
  obtain d where d: "dump it mp m' = Inr d" "shows_map d (f(key \<mapsto> v))" using dump_layout [OF m'(2)] by blast
  have "set_and_dump it mp m key v c = Inr (Some (d, m'))"
    using m'(1) d(1) v tec_map.get_spec [OF m'(2), of key]
    by (simp add: set_and_dump_def assert_then_def value_of_def)
  moreover have "fresh_node m' x" if "fresh_node m x" "x \<noteq> c" for x
    using set_heap [OF m'(1)] that by (simp add: fresh_node_def)
  ultimately show thesis using that d(2) m'(2) by blast
qed

lemma remove_and_dump_spec:
  assumes R: "represents m f" and present: "(value_of (f key) \<noteq> NULL) = present"
  obtains d m' where "remove_and_dump it mp m key present = Inr (Some (d, m'))" and "shows_map d (f(key := None))"
    and "represents m' (f(key := None))"
proof -
  obtain m' where m': "TecMap_remove m key = Inr (value_of (f key), m')" "represents m' (f(key := None))"
    using tec_map.del_spec [OF R] by blast
  obtain d where d: "dump it mp m' = Inr d" "shows_map d (f(key := None))" using dump_layout [OF m'(2)] by blast
  have "remove_and_dump it mp m key present = Inr (Some (d, m'))"
    using m'(1) d(1) present by (simp add: remove_and_dump_def assert_then_def)
  then show thesis using that d(2) m'(2) by blast
qed

lemma dump_after_done:
  assumes "represents m f"
  obtains m' where "TecMap_done m = Inr m'" and "dump it mp m' = Inr (0, [])"
proof -
  let ?m = "(empty_map (map_capacity m))\<lparr>map_nodes := None, map_capacity := 0\<rparr>"
  have "TecMap_done m = Inr ?m" using clear_result [OF assms] by (simp add: TecMap_done_def)
  moreover have "dump it mp ?m = Inr (0, [])"
    by (simp add: dump_def TecMapIter_begin_def scan_buckets_def dump_loop.simps empty_map_def)
  ultimately show thesis using that by blast
qed

text \<open>The maps that the program goes through.\<close>

definition the_maps :: "(u8 list \<Rightarrow> ptr option) list" where
  "the_maps =
     (let h1 = bytes_of ''h1''; h2 = bytes_of ''h2''; h3 = bytes_of ''h3''
      in [[h1 \<mapsto> 0x111111], [h1 \<mapsto> 0x111111, h2 \<mapsto> 0x222222],
          [h1 \<mapsto> 0x111111, h2 \<mapsto> 0x222222, h3 \<mapsto> 0x333333],
          [h1 \<mapsto> 0x111111, h2 \<mapsto> 0xFFFFFF, h3 \<mapsto> 0x333333],
          [h1 \<mapsto> 0x111111, h2 \<mapsto> 0xFFFFFF, h3 \<mapsto> 0x333333],
          [h1 \<mapsto> 0x111111, h3 \<mapsto> 0x333333], [h3 \<mapsto> 0x333333], Map.empty])"

definition the_titles :: "string list" where
  "the_titles = [''TecMap_set: h1'', ''TecMap_set: h2'', ''TecMap_set: h3'', ''TecMap_set: h2 - change value'',
     ''TecMap_remove: not existing'', ''TecMap_remove: h2'', ''TecMap_remove: h1'', ''TecMap_done'']"

section \<open>Properties\<close>

text \<open>
  C31: no assertion of \<open>map.c\<close> fails, nothing faults, and each of its eight dumps
  ends and lists exactly the finite map after the operations so far: every key once, with its
  value, and the right size; after \<open>TecMap_done\<close> it is empty.
\<close>

theorem map_main_prints:
  assumes "map_heap m = Map.empty" and "\<And>i. i < 4 \<Longrightarrow> cell i \<noteq> NULL" and "inj_on cell {..< 4}"
  shows "\<exists>ds. map_main fmt_p m it mp cell
      = Inr (Some (map (\<lambda>(s, d). puts s @ dump_text fmt_p d) (zip the_titles ds))) \<and>
    list_all2 shows_map ds the_maps"
proof -
  let ?h1 = "bytes_of ''h1''" and ?h2 = "bytes_of ''h2''" and ?h3 = "bytes_of ''h3''" and ?n = "bytes_of ''not existing''"
  let ?full = "[?h1 \<mapsto> 0x111111, ?h2 \<mapsto> 0xFFFFFF, ?h3 \<mapsto> 0x333333]"
  have keys: "distinct [?h1, ?h2, ?h3, ?n]" "distinct [?n, ?h3, ?h2, ?h1]" by (simp_all add: bytes_of_def)
  have v: "(0x111111 :: ptr) \<noteq> NULL" "(0x222222 :: ptr) \<noteq> NULL" "(0x333333 :: ptr) \<noteq> NULL" "(0xFFFFFF :: ptr) \<noteq> NULL"
    by simp_all
  let ?m0 = "empty_map 17"
  have R0: "represents ?m0 Map.empty" by (rule empty_map_represents) simp
  have cells: "fresh_node ?m0 (cell i)" if "i < 4" for i
    using assms(2) [OF that] by (simp add: fresh_node_def empty_map_def)
  have ne: "cell i \<noteq> cell j" if "i < 4" "j < 4" "i \<noteq> j" for i j using assms(3) that by (auto dest: inj_onD)
  obtain d1 m1 where m1: "set_and_dump it mp ?m0 ?h1 0x111111 (cell 0) = Inr (Some (d1, m1))"
    "shows_map d1 [?h1 \<mapsto> 0x111111]" "represents m1 [?h1 \<mapsto> 0x111111]"
    "\<And>x. fresh_node ?m0 x \<Longrightarrow> x \<noteq> cell 0 \<Longrightarrow> fresh_node m1 x"
    by (rule set_and_dump_spec [OF R0 cells [of 0] v(1), of it mp ?h1]) simp_all
  have f1: "fresh_node m1 (cell i)" if "i = 1 \<or> i = 2 \<or> i = 3" for i using m1(4) cells ne that by auto
  obtain d2 m2 where m2: "set_and_dump it mp m1 ?h2 0x222222 (cell 1) = Inr (Some (d2, m2))"
    "shows_map d2 [?h1 \<mapsto> 0x111111, ?h2 \<mapsto> 0x222222]" "represents m2 [?h1 \<mapsto> 0x111111, ?h2 \<mapsto> 0x222222]"
    "\<And>x. fresh_node m1 x \<Longrightarrow> x \<noteq> cell 1 \<Longrightarrow> fresh_node m2 x"
    by (rule set_and_dump_spec [OF m1(3) f1 [of 1] v(2), of it mp ?h2]) simp_all
  have f2: "fresh_node m2 (cell i)" if "i = 2 \<or> i = 3" for i using m2(4) f1 ne that by auto
  obtain d3 m3 where m3: "set_and_dump it mp m2 ?h3 0x333333 (cell 2) = Inr (Some (d3, m3))"
    "shows_map d3 [?h1 \<mapsto> 0x111111, ?h2 \<mapsto> 0x222222, ?h3 \<mapsto> 0x333333]"
    "represents m3 [?h1 \<mapsto> 0x111111, ?h2 \<mapsto> 0x222222, ?h3 \<mapsto> 0x333333]"
    "\<And>x. fresh_node m2 x \<Longrightarrow> x \<noteq> cell 2 \<Longrightarrow> fresh_node m3 x"
    by (rule set_and_dump_spec [OF m2(3) f2 [of 2] v(3), of it mp ?h3]) simp_all
  have upd: "[?h1 \<mapsto> 0x111111, ?h2 \<mapsto> 0x222222, ?h3 \<mapsto> 0x333333, ?h2 \<mapsto> 0xFFFFFF] = ?full"
    "?full(?n := None) = ?full" "?full(?h2 := None) = [?h1 \<mapsto> 0x111111, ?h3 \<mapsto> 0x333333]"
    "[?h1 \<mapsto> 0x111111, ?h3 \<mapsto> 0x333333](?h1 := None) = [?h3 \<mapsto> 0x333333 :: ptr]"
    using keys by (auto simp: fun_eq_iff)
  have f3: "fresh_node m3 (cell 3)" using m3(4) f2 ne by auto
  obtain d4 m4 where m4: "set_and_dump it mp m3 ?h2 0xFFFFFF (cell 3) = Inr (Some (d4, m4))"
    "shows_map d4 ?full" "represents m4 ?full"
    by (rule set_and_dump_spec [OF m3(3) f3 v(4), of it mp ?h2]) (simp only: upd(1))
  have "(value_of (?full ?n) \<noteq> NULL) = False" using keys by (simp add: value_of_def)
  from remove_and_dump_spec [OF m4(3) this, of it mp] obtain d5 m5 where
    m5: "remove_and_dump it mp m4 ?n False = Inr (Some (d5, m5))" "shows_map d5 ?full" "represents m5 ?full"
    unfolding upd(2) by blast
  have "(value_of (?full ?h2) \<noteq> NULL) = True" using keys by (simp add: value_of_def)
  from remove_and_dump_spec [OF m5(3) this, of it mp] obtain d6 m6 where
    m6: "remove_and_dump it mp m5 ?h2 True = Inr (Some (d6, m6))"
    "shows_map d6 [?h1 \<mapsto> 0x111111, ?h3 \<mapsto> 0x333333]" "represents m6 [?h1 \<mapsto> 0x111111, ?h3 \<mapsto> 0x333333]"
    unfolding upd(3) by blast
  have "(value_of ([?h1 \<mapsto> 0x111111, ?h3 \<mapsto> 0x333333] ?h1) \<noteq> NULL) = True" using keys by (simp add: value_of_def)
  from remove_and_dump_spec [OF m6(3) this, of it mp] obtain d7 m7 where
    m7: "remove_and_dump it mp m6 ?h1 True = Inr (Some (d7, m7))" "shows_map d7 [?h3 \<mapsto> 0x333333]"
    "represents m7 [?h3 \<mapsto> 0x333333]"
    unfolding upd(4) by blast
  obtain m8 where m8: "TecMap_done m7 = Inr m8" "dump it mp m8 = Inr (0, [])" by (rule dump_after_done [OF m7(3)])
  have "map_main fmt_p m it mp cell = Inr (Some (map (\<lambda>(s, d). puts s @ dump_text fmt_p d)
      (zip the_titles [d1, d2, d3, d4, d5, d6, d7, (0, [])])))"
    using init_empty [OF assms(1), of 17] m1(1) m2(1) m3(1) m4(1) m5(1) m6(1) m7(1) m8
    by (simp add: map_main_def bind_both_def the_titles_def)
  moreover have "list_all2 shows_map [d1, d2, d3, d4, d5, d6, d7, (0, [])] the_maps"
    using m1(2) m2(2) m3(2) m4(2) m5(2) m6(2) m7(2) by (simp add: the_maps_def Let_def shows_map_def)
  ultimately show ?thesis by blast
qed

theorem map_main_prints_witness:
  "\<exists>ds. map_main (\<lambda>v. if v = 0x111111 then [49] else [50]) (empty_map 3) \<lparr>iter_map = 0, iter_pos = 0, iter_cur = 0\<rparr> 1 Suc
      = Inr (Some (map (\<lambda>(s, d). puts s @ dump_text (\<lambda>v. if v = 0x111111 then [49] else [50]) d) (zip the_titles ds))) \<and>
    fst (ds ! 0) = 1 \<and> length ds = 8"
proof -
  let ?fmt = "\<lambda>v :: ptr. if v = 0x111111 then [49] else [50 :: u8]"
  obtain ds where ds: "map_main ?fmt (empty_map 3) \<lparr>iter_map = 0, iter_pos = 0, iter_cur = 0\<rparr> 1 Suc
      = Inr (Some (map (\<lambda>(s, d). puts s @ dump_text ?fmt d) (zip the_titles ds)))" "list_all2 shows_map ds the_maps"
    using map_main_prints [of "empty_map 3" Suc ?fmt "\<lparr>iter_map = 0, iter_pos = 0, iter_cur = 0\<rparr>" 1]
    by (auto simp: empty_map_def inj_on_def)
  have len: "length ds = 8" using list_all2_lengthD [OF ds(2)] by (simp add: the_maps_def Let_def)
  then have d: "shows_map (ds ! 0) [bytes_of ''h1'' \<mapsto> 0x111111]"
    using list_all2_nthD [OF ds(2), of 0] by (simp add: the_maps_def Let_def)
  let ?es = "snd (ds ! 0)"
  have dist: "distinct (map fst (map snd ?es))" using d by (simp add: shows_map_def)
  have "map_of (map snd ?es) = [bytes_of ''h1'' \<mapsto> 0x111111]" using d by (simp add: shows_map_def)
  then have "fst ` set (map snd ?es) = {bytes_of ''h1''}" by (metis dom_empty dom_fun_upd dom_map_of_conv_image_fst option.distinct(1))
  then have "card {bytes_of ''h1''} = length (map fst (map snd ?es))" using distinct_card [OF dist] by (simp only: set_map)
  then have "length ?es = 1" by simp
  then have "fst (ds ! 0) = 1" using d by (simp add: shows_map_def)
  then show ?thesis using ds(1) len by blast
qed

end
