(* ===== verification/ExQueue.thy ===== *)
theory ExQueue
  imports TecQueue TecMessage TecTrace
begin

text \<open>
  Models the example program \<open>examples/misc/queue.c\<close>: the main thread pushes twenty messages and
  \<open>NULL\<close>, a second thread pops them, prints and frees them. The two threads interleave: a step
  is a step inside the queue, or what a thread does between two of its calls.
\<close>

section \<open>Model\<close>

text \<open>What follows the header of the two messages.\<close>

datatype queue_msg = MsgPoint int int | MsgStr80 "u8 list"

definition MsgPoint_tag :: "u8 list" where "MsgPoint_tag = bytes_of ''MsgPoint''"

definition MsgStr80_tag :: "u8 list" where "MsgStr80_tag = bytes_of ''MsgStr80''"

type_synonym bodies = "ptr \<Rightarrow> queue_msg option"

text \<open>
  The body of the loop of \<open>main\<close>: the message number \<open>k\<close> is the point or the string of round
  \<open>k div 2\<close>, in memory at \<open>p\<close>; after the rounds, \<open>NULL\<close>. The object to push.
\<close>

definition make_point :: "nat \<Rightarrow> msg_mem \<Rightarrow> bodies \<Rightarrow> ptr \<Rightarrow> (ptr \<times> msg_mem \<times> bodies) outcome" where
  "make_point i mem body p =
     bind_outcome (TecMsg_new mem MsgPoint_tag p) (\<lambda>mem.
     bind_outcome (signed32 (int i + 42)) (\<lambda>y.
       Inr (p, mem, body(p \<mapsto> MsgPoint (int i) y))))"

definition make_str80 :: "nat \<Rightarrow> msg_mem \<Rightarrow> bodies \<Rightarrow> ptr \<Rightarrow> (ptr \<times> msg_mem \<times> bodies) outcome" where
  "make_str80 i mem body p =
     bind_outcome (TecMsg_new mem MsgStr80_tag p) (\<lambda>mem.
     bind_outcome (signed32 (int i + 1)) (\<lambda>n.
     bind_outcome (c_sprintf 80 (bytes_of ''('' @ fmt_lld n @ bytes_of '') Hello world!'')) (\<lambda>s.
       Inr (p, mem, body(p \<mapsto> MsgStr80 (s @ [0]))))))"

definition next_push :: "nat \<Rightarrow> msg_mem \<Rightarrow> bodies \<Rightarrow> ptr \<Rightarrow> (ptr \<times> msg_mem \<times> bodies) outcome" where
  "next_push k mem body p =
     (if k < 20 then (if even k then make_point (k div 2) mem body p else make_str80 (k div 2) mem body p)
      else Inr (NULL, mem, body))"

text \<open>
  The body of the loop of \<open>test1\<close> once \<open>TecQueue_pop\<close> has returned \<open>msg\<close>: the line printed, the
  counter and the memory, or \<open>None\<close> when the loop is left.
\<close>

definition print_msg :: "int \<Rightarrow> TecMsg \<Rightarrow> queue_msg option \<Rightarrow> u8 list outcome" where
  "print_msg counter m body =
     bind_outcome
       (if TecMsg_typeof MsgPoint_tag m then
          (case body of
             Some (MsgPoint x y) \<Rightarrow> Inr (bytes_of ''{x='' @ fmt_lld x @ bytes_of '', y='' @ fmt_lld y @ bytes_of ''}'' @ [10])
           | _ \<Rightarrow> Inl Invalid_pointer)
        else if TecMsg_typeof MsgStr80_tag m then
          (case body of
             Some (MsgStr80 s) \<Rightarrow> Inr ([34] @ c_string s @ [34, 10])
           | _ \<Rightarrow> Inl Invalid_pointer)
        else Inr (bytes_of ''Unknown message type.'' @ [10]))
       (\<lambda>text. Inr (msg_tag m @ bytes_of '' #'' @ zero_pad 2 (fmt_lld counter) @ bytes_of '': '' @ text))"

definition test1_body ::
  "msg_mem \<Rightarrow> bodies \<Rightarrow> int \<Rightarrow> ptr \<Rightarrow> (u8 list \<times> int \<times> msg_mem) option outcome" where
  "test1_body mem body counter msg =
     (if msg = NULL then Inr None
      else
        bind_outcome (signed32 (counter + 1)) (\<lambda>counter.
        bind_outcome (msg_at mem msg) (\<lambda>m.
        bind_outcome (print_msg counter (hdr m) (body msg)) (\<lambda>line.
        bind_outcome (TecMsg_free mem msg) (\<lambda>(_, mem).
          Inr (Some (line, counter, mem)))))))"

text \<open>
  The state of the process. Thread 0 is \<open>main\<close>, thread 1 runs \<open>test1\<close>. \<open>dm_sent\<close> is the number of
  pushes \<open>main\<close> has begun; \<open>dm_result\<close> is set when it returns: the threads joined, the queue.
\<close>

record demo =
  dm_mon :: mon_state
  dm_mem :: msg_mem
  dm_body :: bodies
  dm_sent :: nat
  dm_counter :: int
  dm_out :: "u8 list list"
  dm_ended :: bool
  dm_thread :: TecThread
  dm_result :: "(nat list \<times> TecQueue) option"

inductive demo_step :: "demo \<Rightarrow> demo \<Rightarrow> bool" where
  inside: "queue_step (dm_mon s) m \<Longrightarrow> demo_step s (s\<lparr>dm_mon := m\<rparr>)"
| send: "ms_pc (dm_mon s) 0 = Q_returned \<Longrightarrow> dm_sent s \<le> 20 \<Longrightarrow> p \<noteq> NULL \<Longrightarrow> dm_mem s p = None \<Longrightarrow>
    next_push (dm_sent s) (dm_mem s) (dm_body s) p = Inr (x, mem, body) \<Longrightarrow>
    demo_step s (s\<lparr>dm_mon := at_pc (dm_mon s) 0 (P_lock x), dm_mem := mem, dm_body := body,
      dm_sent := Suc (dm_sent s)\<rparr>)"
| print_one: "ms_pc (dm_mon s) 1 = Q_returned \<Longrightarrow> \<not> dm_ended s \<Longrightarrow>
    test1_body (dm_mem s) (dm_body s) (dm_counter s) (last (ms_out (dm_mon s))) = Inr (Some (line, counter, mem)) \<Longrightarrow>
    demo_step s (s\<lparr>dm_mon := at_pc (dm_mon s) 1 C_lock, dm_mem := mem, dm_counter := counter,
      dm_out := dm_out s @ [line]\<rparr>)"
| leave: "ms_pc (dm_mon s) 1 = Q_returned \<Longrightarrow> \<not> dm_ended s \<Longrightarrow>
    test1_body (dm_mem s) (dm_body s) (dm_counter s) (last (ms_out (dm_mon s))) = Inr None \<Longrightarrow>
    demo_step s (s\<lparr>dm_ended := True\<rparr>)"
| join: "ms_pc (dm_mon s) 0 = Q_returned \<Longrightarrow> dm_sent s = 21 \<Longrightarrow> dm_ended s \<Longrightarrow> dm_result s = None \<Longrightarrow>
    TecThread_join (dm_thread s) = Inr (hs, t) \<Longrightarrow> TecQueue_done (ms_queue (dm_mon s)) 0 = Inr (cs, q) \<Longrightarrow>
    demo_step s (s\<lparr>dm_thread := t, dm_result := Some (hs, q)\<rparr>)"

text \<open>
  The process once the thread, with handle \<open>h\<close>, has been created; \<open>q\<close> and \<open>t\<close> are the
  uninitialised queue and thread objects. A thread that sleeps may wake by itself.
\<close>

definition demo_start :: "TecQueue \<Rightarrow> TecThread \<Rightarrow> nat \<Rightarrow> demo" where
  "demo_start q t h =
     \<lparr>dm_mon = \<lparr>ms_queue = snd (TecQueue_init q 0 0), ms_owner = None,
        ms_pc = (\<lambda>_. Q_returned)(1 := C_lock), ms_in = [], ms_out = []\<rparr>,
      dm_mem = Map.empty, dm_body = Map.empty, dm_sent = 0, dm_counter = 0, dm_out = [],
      dm_ended = False, dm_thread = TecThread_create (TecThread_init t) 0 h, dm_result = None\<rparr>"

inductive demo_reach :: "nat \<Rightarrow> demo \<Rightarrow> bool" for h where
  d_start: "q_heap q = Map.empty \<Longrightarrow> demo_reach h (demo_start q t h)"
| d_step: "demo_reach h s \<Longrightarrow> demo_step s s' \<Longrightarrow> demo_reach h s'"
| d_spurious: "demo_reach h s \<Longrightarrow> ms_pc (dm_mon s) t = C_asleep \<Longrightarrow>
    demo_reach h (s\<lparr>dm_mon := at_pc (dm_mon s) t C_relock\<rparr>)"

section \<open>The messages and their lines\<close>

definition msg_of :: "nat \<Rightarrow> TecMsg \<times> queue_msg" where
  "msg_of k =
     (if even k then (\<lparr>msg_tag = MsgPoint_tag, msg_done = NULL\<rparr>, MsgPoint (int (k div 2)) (int (k div 2) + 42))
      else (\<lparr>msg_tag = MsgStr80_tag, msg_done = NULL\<rparr>,
        MsgStr80 (bytes_of ''('' @ fmt_lld (int (k div 2) + 1) @ bytes_of '') Hello world!'' @ [0])))"

definition line_of :: "nat \<Rightarrow> u8 list" where
  "line_of k = bytes_of (if even k then ''MsgPoint #'' else ''MsgStr80 #'') @ zero_pad 2 (fmt_lld (int k + 1)) @
     bytes_of '': '' @
     (if even k then bytes_of ''{x='' @ fmt_lld (int (k div 2)) @ bytes_of '', y='' @ fmt_lld (int (k div 2) + 42) @ bytes_of ''}''
      else [34] @ bytes_of ''('' @ fmt_lld (int (k div 2) + 1) @ bytes_of '') Hello world!'' @ [34]) @ [10]"

text \<open>The object pushed as number \<open>k\<close>, while it has not been freed.\<close>

definition carries :: "msg_mem \<Rightarrow> bodies \<Rightarrow> nat \<Rightarrow> ptr \<Rightarrow> bool" where
  "carries mem body k p \<longleftrightarrow>
     (if k = 20 then p = NULL
      else p \<noteq> NULL \<and> mem p = Some (Msg (fst (msg_of k))) \<and> body p = Some (snd (msg_of k)))"

lemma queue_tags_differ: "MsgPoint_tag \<noteq> MsgStr80_tag"
  by (simp add: MsgPoint_tag_def MsgStr80_tag_def bytes_of_def)

lemma number_text:
  assumes "n < 100"
  shows "length (fmt_lld (int n)) \<le> 2" and "0 \<notin> set (fmt_lld (int n))"
proof -
  have d: "digits 10 n = (if n < 10 then [n] else [n div 10, n mod 10])"
  proof (cases "n < 10")
    case False
    have "n div 10 < 10" using assms by simp
    then show ?thesis
      using False digits.simps [of 10 n] digits.simps [of 10 "n div 10"] by simp
  qed (simp add: digits.simps [of 10 n])
  then show "length (fmt_lld (int n)) \<le> 2" by (simp add: fmt_lld_def)
  show "0 \<notin> set (fmt_lld (int n))" using digits_nonzero [of 10 n] by (simp add: fmt_lld_def)
qed

lemma hello_text:
  assumes "n < 100"
  shows "c_sprintf 80 (bytes_of ''('' @ fmt_lld (int n) @ bytes_of '') Hello world!'')
      = Inr (bytes_of ''('' @ fmt_lld (int n) @ bytes_of '') Hello world!'')"
    and "c_string (bytes_of ''('' @ fmt_lld (int n) @ bytes_of '') Hello world!'' @ [0])
      = bytes_of ''('' @ fmt_lld (int n) @ bytes_of '') Hello world!''"
proof -
  show "c_sprintf 80 (bytes_of ''('' @ fmt_lld (int n) @ bytes_of '') Hello world!'')
      = Inr (bytes_of ''('' @ fmt_lld (int n) @ bytes_of '') Hello world!'')"
    using number_text(1) [OF assms] by (simp add: c_sprintf_def bytes_of_def)
  have "0 \<notin> set (bytes_of ''('' @ fmt_lld (int n) @ bytes_of '') Hello world!'')"
    using number_text(2) [OF assms] by (simp add: bytes_of_def)
  from string_end [OF this, of "[]"]
  show "c_string (bytes_of ''('' @ fmt_lld (int n) @ bytes_of '') Hello world!'' @ [0])
      = bytes_of ''('' @ fmt_lld (int n) @ bytes_of '') Hello world!''"
    by simp
qed

lemma next_push_carries:
  assumes "k < 20" and "p \<noteq> NULL"
  shows "next_push k mem body p = Inr (p, mem(p \<mapsto> Msg (fst (msg_of k))), body(p \<mapsto> snd (msg_of k)))"
proof -
  have r: "signed32 (int (k div 2) + 42) = Inr (int (k div 2) + 42)"
    "signed32 (int (k div 2) + 1) = Inr (int (k div 2 + 1))"
    using assms(1) by (simp_all add: signed32_def in_s32_def)
  have "k div 2 + 1 < 100" using assms(1) by simp
  from hello_text(1) [OF this] show ?thesis
    using assms r by (simp add: next_push_def make_point_def make_str80_def TecMsg_new_def TecMsg_init_def msg_of_def add.commute)
qed

lemma test1_body_line:
  assumes "carries mem body k p" and "k < 20"
  shows "test1_body mem body (int k) p = Inr (Some (line_of k, int k + 1, mem(p := None)))"
proof -
  have p: "p \<noteq> NULL" "mem p = Some (Msg (fst (msg_of k)))" "body p = Some (snd (msg_of k))"
    using assms by (simp_all add: carries_def)
  have c: "signed32 (int k + 1) = Inr (int k + 1)" using assms(2) by (simp add: signed32_def in_s32_def)
  have "k div 2 + 1 < 100" using assms(2) by simp
  note str = hello_text(2) [OF this]
  have "print_msg (int k + 1) (fst (msg_of k)) (Some (snd (msg_of k))) = Inr (line_of k)"
    using queue_tags_differ str
    by (simp add: print_msg_def msg_of_def line_of_def TecMsg_typeof_def add.commute,
        simp add: MsgPoint_tag_def MsgStr80_tag_def bytes_of_def)
  moreover have "msg_done (fst (msg_of k)) = NULL" by (simp add: msg_of_def)
  ultimately show ?thesis using p c by (simp add: test1_body_def TecMsg_free_def)
qed

section \<open>Invariant\<close>

text \<open>The main thread only pushes, the other only pops, and there are no more.\<close>

fun producing :: "q_pc \<Rightarrow> bool" where
  "producing (P_lock x) = True"
| "producing (P_link x) = True"
| "producing P_signal = True"
| "producing P_unlock = True"
| "producing pc = (pc = Q_returned)"

definition consuming :: "q_pc \<Rightarrow> bool" where
  "consuming pc \<longleftrightarrow> pc = Q_returned \<or> \<not> producing pc"

definition roles :: "mon_state \<Rightarrow> bool" where
  "roles m \<longleftrightarrow> producing (ms_pc m 0) \<and> consuming (ms_pc m 1) \<and> (\<forall>t. t \<noteq> 0 \<and> t \<noteq> 1 \<longrightarrow> ms_pc m t = Q_returned)"

text \<open>The objects whose push has begun; the number of objects popped and not dealt with.\<close>

fun pending :: "q_pc \<Rightarrow> ptr list" where
  "pending (P_lock x) = [x]"
| "pending (P_link x) = [x]"
| "pending pc = []"

definition pushed :: "mon_state \<Rightarrow> ptr list" where
  "pushed m = ms_in m @ pending (ms_pc m 0)"

definition popping :: "mon_state \<Rightarrow> nat" where
  "popping m = (if ms_pc m 1 = C_unlock \<or> ms_pc m 1 = Q_returned then 1 else 0)"

lemma role_of:
  assumes "roles m"
  shows "ms_pc m t = P_lock x \<Longrightarrow> t = 0" "ms_pc m t = P_link x \<Longrightarrow> t = 0" "ms_pc m t = P_signal \<Longrightarrow> t = 0"
    "ms_pc m t = P_unlock \<Longrightarrow> t = 0" "ms_pc m t = C_lock \<Longrightarrow> t = 1" "ms_pc m t = C_test \<Longrightarrow> t = 1"
    "ms_pc m t = C_asleep \<Longrightarrow> t = 1" "ms_pc m t = C_relock \<Longrightarrow> t = 1" "ms_pc m t = C_unlock \<Longrightarrow> t = 1"
  using assms by (cases "t = 0"; cases "t = 1"; force simp: roles_def consuming_def)+

text \<open>A weight that every step inside the queue lowers.\<close>

fun weight :: "q_pc \<Rightarrow> nat" where
  "weight (P_lock x) = 9" | "weight (P_link x) = 8" | "weight P_signal = 7" | "weight P_unlock = 2"
| "weight C_lock = 5" | "weight C_relock = 5" | "weight C_test = 4" | "weight C_asleep = 3"
| "weight C_unlock = 2" | "weight Q_returned = 1"

definition mon_weight :: "mon_state \<Rightarrow> nat" where
  "mon_weight m = weight (ms_pc m 0) + weight (ms_pc m 1)"

definition step_kept :: "mon_state \<Rightarrow> mon_state \<Rightarrow> bool" where
  "step_kept m m' \<longleftrightarrow> roles m' \<and> pushed m' = pushed m \<and>
     length (ms_out m') + popping m = length (ms_out m) + popping m' \<and> mon_weight m' < mon_weight m \<and>
     (\<forall>t. ms_pc m t = Q_returned \<longrightarrow> ms_pc m' t = Q_returned) \<and>
     q_mtx (ms_queue m') = q_mtx (ms_queue m) \<and> q_cv (ms_queue m') = q_cv (ms_queue m)"

lemma queue_step_kept:
  assumes "queue_step m m'" and r: "roles m"
  shows "step_kept m m'"
  using assms(1)
proof cases
  case (push_lock t x)
  with r role_of(1) [OF r, of t x] show ?thesis
    by (simp add: step_kept_def roles_def pushed_def popping_def mon_weight_def)
next
  case (push_link t x p q')
  with r role_of(2) [OF r, of t x] push_monitor show ?thesis
    by (simp add: step_kept_def roles_def pushed_def popping_def mon_weight_def)
next
  case (push_signal t u)
  with r role_of(3) [OF r, of t] role_of(7) [OF r, of u] show ?thesis
    by (simp add: step_kept_def roles_def pushed_def popping_def mon_weight_def consuming_def)
next
  case (push_signal_nobody t)
  with r role_of(3) [OF r, of t] show ?thesis
    by (simp add: step_kept_def roles_def pushed_def popping_def mon_weight_def)
next
  case (push_unlock t)
  with r role_of(4) [OF r, of t] show ?thesis
    by (simp add: step_kept_def roles_def pushed_def popping_def mon_weight_def)
next
  case (pop_lock t)
  with r role_of(5) [OF r, of t] show ?thesis
    by (simp add: step_kept_def roles_def pushed_def popping_def mon_weight_def consuming_def)
next
  case (pop_wait t)
  with r role_of(6) [OF r, of t] show ?thesis
    by (simp add: step_kept_def roles_def pushed_def popping_def mon_weight_def consuming_def)
next
  case (pop_take t x q')
  with r role_of(6) [OF r, of t] pop_monitor show ?thesis
    by (simp add: step_kept_def roles_def pushed_def popping_def mon_weight_def consuming_def)
next
  case (pop_relock t)
  with r role_of(8) [OF r, of t] show ?thesis
    by (simp add: step_kept_def roles_def pushed_def popping_def mon_weight_def consuming_def)
next
  case (pop_unlock t)
  with r role_of(9) [OF r, of t] show ?thesis
    by (simp add: step_kept_def roles_def pushed_def popping_def mon_weight_def consuming_def)
qed

text \<open>
  The objects that have been pushed and not dealt with are the messages in order, each in
  memory with its content; the lines are those of the others.
\<close>

definition handled :: "demo \<Rightarrow> nat" where
  "handled s = length (dm_out s) + (if dm_ended s then 1 else 0)"

definition under_way :: "demo \<Rightarrow> ptr list" where
  "under_way s = drop (handled s) (pushed (dm_mon s))"

definition messages_inv :: "demo \<Rightarrow> bool" where
  "messages_inv s \<longleftrightarrow>
     handled s \<le> dm_sent s \<and> dm_sent s \<le> 21 \<and> length (pushed (dm_mon s)) = dm_sent s \<and>
     length (ms_out (dm_mon s)) + (if dm_ended s then 1 else 0) = handled s + popping (dm_mon s) \<and>
     list_all2 (carries (dm_mem s) (dm_body s)) [handled s ..< dm_sent s] (under_way s) \<and>
     distinct (under_way s) \<and> dom (dm_mem s) = set (under_way s) - {NULL}"

definition lines_inv :: "demo \<Rightarrow> bool" where
  "lines_inv s \<longleftrightarrow>
     dm_out s = map line_of [0 ..< length (dm_out s)] \<and> dm_counter s = int (length (dm_out s)) \<and>
     length (dm_out s) \<le> 20 \<and> (dm_ended s \<longrightarrow> length (dm_out s) = 20 \<and> ms_pc (dm_mon s) 1 = Q_returned)"

definition main_inv :: "nat \<Rightarrow> demo \<Rightarrow> bool" where
  "main_inv h s \<longleftrightarrow>
     mtx_result (q_mtx (ms_queue (dm_mon s))) = Some 0 \<and> cv_result (q_cv (ms_queue (dm_mon s))) = Some 0 \<and>
     (case dm_result s of
        None \<Rightarrow> thr_result (dm_thread s) = Some 0 \<and> thr_t (dm_thread s) = h
      | Some r \<Rightarrow> dm_sent s = 21 \<and> dm_ended s \<and> fst r = [h] \<and> q_heap (snd r) = Map.empty)"

definition demo_inv :: "nat \<Rightarrow> demo \<Rightarrow> bool" where
  "demo_inv h s \<longleftrightarrow> queue_inv (dm_mon s) \<and> roles (dm_mon s) \<and> messages_inv s \<and> lines_inv s \<and> main_inv h s"

lemma out_prefix:
  assumes "queue_inv m"
  shows "\<exists>os. queue_holds (ms_queue m) os \<and> pushed m = ms_out m @ os @ pending (ms_pc m 0)"
  using assms by (auto simp: queue_inv_def pushed_def)

text \<open>What the second thread has in its hands when its call has returned.\<close>

lemma in_hand:
  assumes inv: "queue_inv (dm_mon s)" "messages_inv s" and pc: "ms_pc (dm_mon s) 1 = Q_returned" "\<not> dm_ended s"
  obtains ps where "under_way s = last (ms_out (dm_mon s)) # ps" and "handled s < dm_sent s"
    and "carries (dm_mem s) (dm_body s) (handled s) (last (ms_out (dm_mon s)))"
    and "list_all2 (carries (dm_mem s) (dm_body s)) [Suc (handled s) ..< dm_sent s] ps"
    and "drop (Suc (handled s)) (pushed (dm_mon s)) = ps"
    and "length (ms_out (dm_mon s)) = Suc (handled s)"
proof -
  let ?m = "dm_mon s"
  obtain os where os: "pushed ?m = ms_out ?m @ os" using out_prefix [OF inv(1)] by blast
  have len: "length (ms_out ?m) = Suc (handled s)" using inv(2) pc by (simp add: messages_inv_def popping_def)
  then obtain xs x where x: "ms_out ?m = xs @ [x]" "length xs = handled s" by (metis length_Suc_conv_rev)
  then have u: "under_way s = x # os" by (simp add: under_way_def os)
  have lt: "handled s < dm_sent s" using inv(2) len os by (simp add: messages_inv_def)
  have all: "list_all2 (carries (dm_mem s) (dm_body s)) [handled s ..< dm_sent s] (x # os)"
    using inv(2) u by (simp add: messages_inv_def)
  have "[handled s ..< dm_sent s] = handled s # [Suc (handled s) ..< dm_sent s]"
    using lt by (rule upt_conv_Cons)
  with all have c: "carries (dm_mem s) (dm_body s) (handled s) x"
    "list_all2 (carries (dm_mem s) (dm_body s)) [Suc (handled s) ..< dm_sent s] os" by simp_all
  have "drop (Suc (handled s)) (pushed ?m) = os" using x by (simp add: os)
  with that [of os] u lt c x len show thesis by simp
qed

lemma demo_start_inv:
  assumes "q_heap q = Map.empty"
  shows "demo_inv h (demo_start q t h)"
proof -
  have "queue_holds (snd (TecQueue_init q 0 0)) []" by (rule init_holds [OF assms])
  from queue_reach.q_call [OF q_start [OF this], of 1 C_lock NULL]
  have "queue_reach (dm_mon (demo_start q t h))" by (simp add: demo_start_def)
  from queue_reach_inv [OF this] show ?thesis
    by (simp add: demo_inv_def demo_start_def roles_def consuming_def messages_inv_def lines_inv_def main_inv_def
        handled_def under_way_def pushed_def popping_def TecQueue_init_def TecMutex_init_def TecCV_init_def
        TecThread_create_def)
qed

lemma inside_inv:
  assumes "queue_step (dm_mon s) m" and "demo_inv h s"
  shows "demo_inv h (s\<lparr>dm_mon := m\<rparr>)"
proof -
  have k: "step_kept (dm_mon s) m" using assms by (simp add: demo_inv_def queue_step_kept)
  then have eq: "pushed m = pushed (dm_mon s)" "roles m"
    "length (ms_out m) + popping (dm_mon s) = length (ms_out (dm_mon s)) + popping m"
    "ms_pc (dm_mon s) t = Q_returned \<Longrightarrow> ms_pc m t = Q_returned"
    "q_mtx (ms_queue m) = q_mtx (ms_queue (dm_mon s))" "q_cv (ms_queue m) = q_cv (ms_queue (dm_mon s))" for t
    by (simp_all add: step_kept_def)
  have "messages_inv (s\<lparr>dm_mon := m\<rparr>)"
    using assms(2) eq(1,3) by (simp add: demo_inv_def messages_inv_def handled_def under_way_def)
  moreover have "lines_inv (s\<lparr>dm_mon := m\<rparr>)"
    using assms(2) eq(4) by (simp add: demo_inv_def lines_inv_def)
  moreover have "main_inv h (s\<lparr>dm_mon := m\<rparr>)"
    using assms(2) eq(5,6) by (cases "dm_result s") (auto simp: demo_inv_def main_inv_def)
  moreover have "queue_inv m" using assms by (auto simp: demo_inv_def intro: queue_inv_step)
  ultimately show ?thesis using eq(2) by (simp add: demo_inv_def)
qed

lemma carries_new:
  assumes "list_all2 (carries mem body) ks ps" and "mem p = None" and "p \<noteq> NULL"
  shows "list_all2 (carries (mem(p \<mapsto> m)) (body(p \<mapsto> b))) ks ps"
  using assms by (elim list_all2_mono) (auto simp: carries_def split: if_splits)

lemma carries_freed:
  assumes "list_all2 (carries mem body) ks ps" and "p \<notin> set ps"
  shows "list_all2 (carries (mem(p := None)) body) ks ps"
  using assms unfolding list_all2_conv_all_nth
  by (auto simp: carries_def split: if_splits)

lemma carries_not_NULL:
  assumes "list_all2 (carries mem body) [a ..< b] ps" and "b \<le> 20"
  shows "NULL \<notin> set ps"
proof
  assume "NULL \<in> set ps"
  then obtain i where i: "i < length ps" "ps ! i = NULL" by (auto simp: in_set_conv_nth)
  with assms have "carries mem body (a + i) NULL" "a + i < 20"
    by (auto simp: list_all2_conv_all_nth)
  then show False by (simp add: carries_def)
qed

lemma send_inv:
  assumes inv: "demo_inv h s" and pc: "ms_pc (dm_mon s) 0 = Q_returned" and sent: "dm_sent s \<le> 20"
    and p: "p \<noteq> NULL" "dm_mem s p = None"
    and x: "next_push (dm_sent s) (dm_mem s) (dm_body s) p = Inr (x, mem, body)"
  shows "demo_inv h (s\<lparr>dm_mon := at_pc (dm_mon s) 0 (P_lock x), dm_mem := mem, dm_body := body,
    dm_sent := Suc (dm_sent s)\<rparr>)" (is "demo_inv h ?s")
proof -
  have I: "queue_inv (dm_mon s)" "roles (dm_mon s)" "messages_inv s" "lines_inv s" "main_inv h s"
    using inv by (simp_all add: demo_inv_def)
  have new: "carries mem body (dm_sent s) x" "list_all2 (carries mem body) [handled s ..< dm_sent s] (under_way s)"
    "dom mem = insert x (dom (dm_mem s)) - {NULL}" "x \<notin> set (under_way s)"
  proof -
    have all: "list_all2 (carries (dm_mem s) (dm_body s)) [handled s ..< dm_sent s] (under_way s)"
      and dom: "dom (dm_mem s) = set (under_way s) - {NULL}" using I(3) by (simp_all add: messages_inv_def)
    consider "dm_sent s < 20" | "dm_sent s = 20" using sent by linarith
    then have "carries mem body (dm_sent s) x \<and> list_all2 (carries mem body) [handled s ..< dm_sent s] (under_way s) \<and>
      dom mem = insert x (dom (dm_mem s)) - {NULL} \<and> x \<notin> set (under_way s)"
    proof cases
      case 1
      with next_push_carries [OF 1 p(1)] x have "x = p" "mem = (dm_mem s)(p \<mapsto> Msg (fst (msg_of (dm_sent s))))"
        "body = (dm_body s)(p \<mapsto> snd (msg_of (dm_sent s)))" by auto
      with carries_new [OF all p(2,1)] dom p 1 show ?thesis by (auto simp: carries_def)
    next
      case 2
      with x have "x = NULL" "mem = dm_mem s" "body = dm_body s" by (simp_all add: next_push_def)
      moreover have "NULL \<notin> set (under_way s)"
        using carries_not_NULL [OF all] 2 by simp
      ultimately show ?thesis using 2 all dom by (auto simp: carries_def)
    qed
    then show "carries mem body (dm_sent s) x" "list_all2 (carries mem body) [handled s ..< dm_sent s] (under_way s)"
      "dom mem = insert x (dom (dm_mem s)) - {NULL}" "x \<notin> set (under_way s)" by blast+
  qed
  have "pushed (dm_mon ?s) = pushed (dm_mon s) @ [x]" using pc by (simp add: pushed_def)
  moreover have "handled s \<le> length (pushed (dm_mon s))" using I(3) by (simp add: messages_inv_def)
  ultimately have u: "under_way ?s = under_way s @ [x]" by (simp add: under_way_def handled_def)
  have "messages_inv ?s"
    using I(3) u new \<open>pushed (dm_mon ?s) = _\<close> sent
    by (auto simp: messages_inv_def handled_def popping_def upt_Suc_append intro!: list_all2_appendI)
  moreover have "main_inv h ?s"
    using I(5) sent by (cases "dm_result s") (simp_all add: main_inv_def)
  moreover have "roles (dm_mon ?s)" using I(2) by (simp add: roles_def)
  moreover have "queue_inv (dm_mon ?s)" using queue_inv_call [OF I(1) pc] by simp
  moreover have "lines_inv ?s" using I(4) by (simp add: lines_inv_def)
  ultimately show ?thesis by (simp add: demo_inv_def)
qed

lemma print_inv:
  assumes inv: "demo_inv h s" and pc: "ms_pc (dm_mon s) 1 = Q_returned" "\<not> dm_ended s"
    and body: "test1_body (dm_mem s) (dm_body s) (dm_counter s) (last (ms_out (dm_mon s))) = Inr (Some (line, counter, mem))"
  shows "demo_inv h (s\<lparr>dm_mon := at_pc (dm_mon s) 1 C_lock, dm_mem := mem, dm_counter := counter,
    dm_out := dm_out s @ [line]\<rparr>)" (is "demo_inv h ?s")
    and "length (dm_out s) < 20"
proof -
  have I: "queue_inv (dm_mon s)" "roles (dm_mon s)" "messages_inv s" "lines_inv s" "main_inv h s"
    using inv by (simp_all add: demo_inv_def)
  let ?x = "last (ms_out (dm_mon s))"
  obtain ps where ps: "under_way s = ?x # ps" "handled s < dm_sent s"
    "carries (dm_mem s) (dm_body s) (handled s) ?x"
    "list_all2 (carries (dm_mem s) (dm_body s)) [Suc (handled s) ..< dm_sent s] ps"
    "drop (Suc (handled s)) (pushed (dm_mon s)) = ps" "length (ms_out (dm_mon s)) = Suc (handled s)"
    by (rule in_hand [OF I(1,3) pc])
  have k: "handled s = length (dm_out s)" "dm_counter s = int (handled s)" "handled s \<le> 20"
    using I(4) pc(2) by (simp_all add: handled_def lines_inv_def)
  have "?x \<noteq> NULL"
  proof
    assume "?x = NULL"
    then have "test1_body (dm_mem s) (dm_body s) (dm_counter s) ?x = Inr None" by (simp add: test1_body_def)
    with body show False by simp
  qed
  then have lt: "handled s < 20" using ps(3) k(3) by (cases "handled s = 20") (simp_all add: carries_def)
  then show "length (dm_out s) < 20" using k(1) by simp
  have new: "line = line_of (handled s)" "counter = int (handled s) + 1" "mem = (dm_mem s)(?x := None)"
    using test1_body_line [OF ps(3) lt] body k(2) by simp_all
  have dist: "distinct (?x # ps)" "dom (dm_mem s) = set (?x # ps) - {NULL}"
    using I(3) ps(1) by (simp_all add: messages_inv_def)
  have h: "handled ?s = Suc (handled s)" using pc(2) by (simp add: handled_def)
  have same: "pushed (dm_mon ?s) = pushed (dm_mon s)" by (simp add: pushed_def)
  then have u: "under_way ?s = ps" unfolding under_way_def h using ps(5) by simp
  have "list_all2 (carries mem (dm_body s)) [Suc (handled s) ..< dm_sent s] ps"
    using carries_freed [OF ps(4)] dist(1) new(3) by simp
  moreover have "dom mem = set ps - {NULL}" using dist new(3) by auto
  ultimately have "messages_inv ?s"
    using I(3) u h same ps(2,6) dist(1) pc by (simp add: messages_inv_def popping_def)
  moreover have "lines_inv ?s" using I(4) new(1,2) k lt pc(2) by (simp add: lines_inv_def)
  moreover have "main_inv h ?s" using I(5) pc(2) by (cases "dm_result s") (simp_all add: main_inv_def)
  moreover have "roles (dm_mon ?s)" using I(2) by (simp add: roles_def consuming_def)
  moreover have "queue_inv (dm_mon ?s)" using queue_inv_call [OF I(1) pc(1)] by simp
  ultimately show "demo_inv h ?s" by (simp add: demo_inv_def)
qed

lemma leave_inv:
  assumes inv: "demo_inv h s" and pc: "ms_pc (dm_mon s) 1 = Q_returned" "\<not> dm_ended s"
    and body: "test1_body (dm_mem s) (dm_body s) (dm_counter s) (last (ms_out (dm_mon s))) = Inr None"
  shows "demo_inv h (s\<lparr>dm_ended := True\<rparr>)" (is "demo_inv h ?s") and "length (dm_out s) = 20"
proof -
  have I: "queue_inv (dm_mon s)" "roles (dm_mon s)" "messages_inv s" "lines_inv s" "main_inv h s"
    using inv by (simp_all add: demo_inv_def)
  let ?x = "last (ms_out (dm_mon s))"
  obtain ps where ps: "under_way s = ?x # ps" "handled s < dm_sent s"
    "carries (dm_mem s) (dm_body s) (handled s) ?x"
    "list_all2 (carries (dm_mem s) (dm_body s)) [Suc (handled s) ..< dm_sent s] ps"
    "drop (Suc (handled s)) (pushed (dm_mon s)) = ps" "length (ms_out (dm_mon s)) = Suc (handled s)"
    by (rule in_hand [OF I(1,3) pc])
  have k: "handled s = length (dm_out s)" "dm_counter s = int (handled s)" "handled s \<le> 20"
    using I(4) pc(2) by (simp_all add: handled_def lines_inv_def)
  have full: "handled s = 20" using test1_body_line [OF ps(3)] body k(2,3) by (cases "handled s = 20") auto
  then show len: "length (dm_out s) = 20" using k(1) by simp
  have x: "?x = NULL" using ps(3) full by (simp add: carries_def)
  have h: "handled ?s = Suc (handled s)" using pc(2) by (simp add: handled_def)
  then have u: "under_way ?s = ps" unfolding under_way_def h using ps(5) by simp
  have "distinct (?x # ps)" "dom (dm_mem s) = set (?x # ps) - {NULL}"
    using I(3) ps(1) by (simp_all add: messages_inv_def)
  then have "distinct ps" "dom (dm_mem s) = set ps - {NULL}" using x by auto
  then have "messages_inv ?s"
    using I(3) u h ps(2,4,6) pc by (simp add: messages_inv_def popping_def)
  moreover have "lines_inv ?s" using I(4) len pc(1) by (simp add: lines_inv_def)
  moreover have "main_inv h ?s" using I(5) by (cases "dm_result s") (simp_all add: main_inv_def)
  ultimately show "demo_inv h ?s" using I by (simp add: demo_inv_def)
qed

lemma join_inv:
  assumes inv: "demo_inv h s" and "dm_sent s = 21" "dm_ended s" "dm_result s = None"
    and thr: "TecThread_join (dm_thread s) = Inr (hs, t)" and q: "TecQueue_done (ms_queue (dm_mon s)) 0 = Inr (cs, q)"
  shows "demo_inv h (s\<lparr>dm_thread := t, dm_result := Some (hs, q)\<rparr>)" (is "demo_inv h ?s")
proof -
  have I: "queue_inv (dm_mon s)" "messages_inv s" "lines_inv s" "main_inv h s"
    using inv by (simp_all add: demo_inv_def)
  obtain os where os: "queue_holds (ms_queue (dm_mon s)) os" using out_prefix [OF I(1)] by blast
  have m: "mtx_result (q_mtx (ms_queue (dm_mon s))) = Some 0" "cv_result (q_cv (ms_queue (dm_mon s))) = Some 0"
    "thr_result (dm_thread s) = Some 0" "thr_t (dm_thread s) = h"
    using I(4) assms(4) by (simp_all add: main_inv_def)
  have "hs = [h]" using thr m(3,4) by (simp add: TecThread_join_def TecThread_ok_def read_field_def)
  moreover have "q_heap q = Map.empty" using done_empties [OF os m(1,2), of 0] q by auto
  ultimately have "main_inv h ?s" using assms(2,3) m(1,2) by (simp add: main_inv_def)
  moreover have "messages_inv ?s" using I(2) by (simp add: messages_inv_def handled_def under_way_def)
  moreover have "lines_inv ?s" using I(3) by (simp add: lines_inv_def)
  ultimately show ?thesis using inv by (simp add: demo_inv_def)
qed

lemma wake_inv:
  assumes inv: "demo_inv h s" and pc: "ms_pc (dm_mon s) t = C_asleep"
  shows "demo_inv h (s\<lparr>dm_mon := at_pc (dm_mon s) t C_relock\<rparr>)" (is "demo_inv h ?s")
proof -
  have I: "queue_inv (dm_mon s)" "roles (dm_mon s)" "messages_inv s" "lines_inv s" "main_inv h s"
    using inv by (simp_all add: demo_inv_def)
  have t: "t = 1" using role_of(7) [OF I(2) pc] .
  have "messages_inv ?s"
    using I(3) pc by (simp add: messages_inv_def handled_def under_way_def pushed_def popping_def t)
  moreover have "lines_inv ?s" using I(4) pc by (auto simp: lines_inv_def t)
  moreover have "main_inv h ?s" using I(5) by (cases "dm_result s") (simp_all add: main_inv_def)
  moreover have "roles (dm_mon ?s)" using I(2) by (simp add: roles_def consuming_def t)
  moreover have "queue_inv (dm_mon ?s)" using queue_inv_wake [OF I(1) pc] by simp
  ultimately show ?thesis by (simp add: demo_inv_def)
qed

text \<open>The rank of a state: every step lowers it.\<close>

definition demo_rank :: "demo \<Rightarrow> nat" where
  "demo_rank s = 10 * (21 - dm_sent s) + 10 * (21 - handled s) + mon_weight (dm_mon s) +
     (if dm_result s = None then 1 else 0)"

lemma demo_step_inv:
  assumes "demo_step s s'" and inv: "demo_inv h s"
  shows "demo_inv h s' \<and> demo_rank s' < demo_rank s"
  using assms(1)
proof cases
  case (inside m)
  then have "step_kept (dm_mon s) m" using inv by (simp add: demo_inv_def queue_step_kept)
  with inside inside_inv [OF inside(2) inv] show ?thesis
    by (simp add: step_kept_def demo_rank_def handled_def)
next
  case (send p x mem body)
  with send_inv [OF inv] show ?thesis by (simp add: demo_rank_def handled_def mon_weight_def)
next
  case (print_one line counter mem)
  with print_inv [OF inv] show ?thesis by (simp add: demo_rank_def handled_def mon_weight_def)
next
  case leave
  with leave_inv [OF inv] show ?thesis by (simp add: demo_rank_def handled_def)
next
  case (join hs t cs q)
  with join_inv [OF inv] show ?thesis by (simp add: demo_rank_def handled_def)
qed

lemma demo_reach_inv: "demo_reach h s \<Longrightarrow> demo_inv h s"
  by (induction rule: demo_reach.induct) (use demo_start_inv demo_step_inv wake_inv in blast)+

lemma send_enabled:
  assumes inv: "demo_inv h s" and pc: "ms_pc (dm_mon s) 0 = Q_returned" and sent: "dm_sent s \<le> 20"
  shows "\<exists>s'. demo_step s s'"
proof -
  have "finite (insert NULL (dom (dm_mem s)))" using inv by (simp add: demo_inv_def messages_inv_def)
  then obtain p where "p \<notin> insert NULL (dom (dm_mem s))"
    using ex_new_if_finite infinite_UNIV_nat by blast
  then have p: "p \<noteq> NULL" "dm_mem s p = None" by auto
  obtain x mem body where "next_push (dm_sent s) (dm_mem s) (dm_body s) p = Inr (x, mem, body)"
    using next_push_carries [of "dm_sent s", OF _ p(1)] by (cases "dm_sent s < 20") (auto simp: next_push_def)
  from demo_step.send [OF pc sent p this] show ?thesis by blast
qed

lemma handle_enabled:
  assumes inv: "demo_inv h s" and pc: "ms_pc (dm_mon s) 1 = Q_returned" "\<not> dm_ended s"
  shows "\<exists>s'. demo_step s s'"
proof -
  have I: "queue_inv (dm_mon s)" "messages_inv s" "lines_inv s" using inv by (simp_all add: demo_inv_def)
  have k: "dm_counter s = int (handled s)" "handled s \<le> 20"
    using I(3) pc(2) by (simp_all add: handled_def lines_inv_def)
  obtain ps where c: "carries (dm_mem s) (dm_body s) (handled s) (last (ms_out (dm_mon s)))"
    by (rule in_hand [OF I(1,2) pc])
  show ?thesis
  proof (cases "handled s < 20")
    case True
    from test1_body_line [OF c True] print_one [OF pc] k(1) show ?thesis by metis
  next
    case False
    then have "test1_body (dm_mem s) (dm_body s) (dm_counter s) (last (ms_out (dm_mon s))) = Inr None"
      using c k(2) by (simp add: carries_def test1_body_def)
    from demo_step.leave [OF pc this] show ?thesis by blast
  qed
qed

lemma join_enabled:
  assumes inv: "demo_inv h s" and pc: "ms_pc (dm_mon s) 0 = Q_returned"
    and s: "dm_sent s = 21" "dm_ended s" "dm_result s = None"
  shows "\<exists>s'. demo_step s s'"
proof -
  have I: "queue_inv (dm_mon s)" "main_inv h s" using inv by (simp_all add: demo_inv_def)
  obtain os where os: "queue_holds (ms_queue (dm_mon s)) os" using out_prefix [OF I(1)] by blast
  have m: "mtx_result (q_mtx (ms_queue (dm_mon s))) = Some 0" "cv_result (q_cv (ms_queue (dm_mon s))) = Some 0"
    "thr_result (dm_thread s) = Some 0"
    using I(2) s(3) by (simp_all add: main_inv_def)
  obtain q cs where "TecQueue_done (ms_queue (dm_mon s)) 0 = Inr (cs, q)" using done_empties [OF os m(1,2)] by blast
  moreover obtain hs t where "TecThread_join (dm_thread s) = Inr (hs, t)"
    using m(3) by (simp add: TecThread_join_def TecThread_ok_def read_field_def)
  ultimately show ?thesis using demo_step.join [OF pc s] by blast
qed

lemma demo_progress:
  assumes inv: "demo_inv h s" and running: "dm_result s = None"
  shows "\<exists>s'. demo_step s s'"
proof (rule ccontr)
  assume stuck: "\<not> ?thesis"
  let ?m = "dm_mon s"
  have I: "queue_inv ?m" "roles ?m" "messages_inv s" "lines_inv s" using inv by (simp_all add: demo_inv_def)
  have "\<nexists>m. queue_step ?m m" using stuck demo_step.inside by blast
  from queue_stuck [OF I(1) this]
  have idle: "ms_pc ?m t \<in> {Q_returned, C_asleep} \<and> (ms_pc ?m t = C_asleep \<longrightarrow> queue_holds (ms_queue ?m) [])" for t .
  have pc0: "ms_pc ?m 0 = Q_returned" using idle [of 0] I(2) by (auto simp: roles_def)
  then have sent: "dm_sent s = 21" using send_enabled [OF inv] stuck I(3) by (force simp: messages_inv_def)
  consider "ms_pc ?m 1 = Q_returned" | "ms_pc ?m 1 = C_asleep" using idle [of 1] by blast
  then show False
  proof cases
    case 1
    then show False
      using handle_enabled [OF inv 1] join_enabled [OF inv pc0 sent _ running] stuck by blast
  next
    case 2
    then have "queue_holds (ms_queue ?m) []" using idle [of 1] by blast
    then have "TecQueue_pop (ms_queue ?m) = Inr None" by (rule tec_queue.deq_empty)
    moreover obtain os where os: "queue_holds (ms_queue ?m) os" "pushed ?m = ms_out ?m @ os"
      using out_prefix [OF I(1)] pc0 by auto
    ultimately have "os = []" using tec_queue.deq_spec by (cases os) fastforce+
    moreover have "\<not> dm_ended s" using 2 I(4) by (auto simp: lines_inv_def)
    ultimately show False
      using os(2) sent 2 I(3,4) by (simp add: messages_inv_def lines_inv_def handled_def popping_def)
  qed
qed

lemma demo_no_infinite:
  assumes "demo_inv h s"
  shows "\<nexists>f. f 0 = s \<and> (\<forall>i. demo_step (f i) (f (Suc i)))"
proof
  assume "\<exists>f. f 0 = s \<and> (\<forall>i. demo_step (f i) (f (Suc i)))"
  then obtain f where f: "f 0 = s" "\<And>i. demo_step (f i) (f (Suc i))" by blast
  have inv: "demo_inv h (f i)" for i
    by (induction i) (use f assms demo_step_inv in auto)
  then have "(f (Suc i), f i) \<in> measure demo_rank" for i
    using demo_step_inv [OF f(2) [of i] inv [of i]] by simp
  then show False using wf_measure [of demo_rank] unfolding wf_iff_no_infinite_down_chain by blast
qed

lemma demo_ends:
  assumes "demo_reach h s"
  shows "\<exists>s'. demo_reach h s' \<and> dm_result s' \<noteq> None"
  using assms
proof (induction "demo_rank s" arbitrary: s rule: less_induct)
  case less
  show ?case
  proof (cases "dm_result s = None")
    case True
    from demo_progress [OF demo_reach_inv [OF less.prems] this] obtain s' where s': "demo_step s s'" by blast
    then have "demo_rank s' < demo_rank s" using demo_step_inv demo_reach_inv [OF less.prems] by blast
    then show ?thesis using less.hyps d_step [OF less.prems s'] by blast
  qed (use less.prems in blast)
qed

section \<open>Properties\<close>

text \<open>
  C24: however the two threads of \<open>queue.c\<close> interleave, when \<open>main\<close> returns the
  twenty lines have been printed in the order of the pushes, every message and every node of
  the queue has been freed, and the thread has been joined once.
\<close>

theorem queue_main_prints:
  assumes "demo_reach h s" and "dm_result s = Some (hs, q)"
  shows "dm_out s = map line_of [0 ..< 20] \<and> dm_mem s = Map.empty \<and> q_heap q = Map.empty \<and> hs = [h]"
proof -
  have I: "messages_inv s" "lines_inv s" "main_inv h s" using demo_reach_inv [OF assms(1)] by (simp_all add: demo_inv_def)
  have m: "dm_sent s = 21" "dm_ended s" "hs = [h]" "q_heap q = Map.empty"
    using I(3) assms(2) by (simp_all add: main_inv_def)
  have l: "dm_out s = map line_of [0 ..< 20]" "handled s = 21" using I(2) m(2) by (auto simp: lines_inv_def handled_def)
  then have "under_way s = []" using I(1) m(1) by (simp add: messages_inv_def)
  then have "dm_mem s = Map.empty" using I(1) by (simp add: messages_inv_def)
  with l m show ?thesis by simp
qed

theorem queue_main_prints_witness:
  "\<exists>s. demo_reach 7 s \<and> dm_out s = map line_of [0 ..< 20] \<and> dm_mem s = Map.empty \<and>
     hd (dm_out s) = bytes_of ''MsgPoint #01: {x=0, y=42}'' @ [10]"
proof -
  have "demo_reach 7 (demo_start empty_queue \<lparr>thr_result = None, thr_t = 0\<rparr> 7)"
    by (rule d_start) (simp add: empty_queue_def)
  from demo_ends [OF this] obtain s r where s: "demo_reach 7 s" "dm_result s = Some r" by blast
  have "line_of 0 = bytes_of ''MsgPoint #01: {x=0, y=42}'' @ [10]"
    by (simp add: line_of_def zero_pad_def fmt_lld_def digits.simps digit_byte_def bytes_of_def)
  moreover have "hd (map line_of [0 ..< 20]) = line_of 0" by (simp add: hd_map)
  ultimately show ?thesis using queue_main_prints [OF s(1), of "fst r" "snd r"] s by auto
qed

text \<open>
  C25: the two threads of \<open>queue.c\<close> cannot go on for ever, and until \<open>main\<close> has
  returned one of them can take a step: every run ends with the return of \<open>main\<close>.
\<close>

theorem queue_main_ends:
  assumes "demo_reach h s"
  shows "(\<nexists>f. f 0 = s \<and> (\<forall>i. demo_step (f i) (f (Suc i)))) \<and>
     (dm_result s = None \<longrightarrow> (\<exists>s'. demo_step s s'))"
  using demo_no_infinite demo_progress demo_reach_inv [OF assms] by blast

theorem queue_main_ends_witness:
  "\<exists>s'. demo_step (demo_start empty_queue \<lparr>thr_result = None, thr_t = 0\<rparr> 7) s'"
proof -
  have "demo_reach 7 (demo_start empty_queue \<lparr>thr_result = None, thr_t = 0\<rparr> 7)"
    by (rule d_start) (simp add: empty_queue_def)
  from queue_main_ends [OF this] show ?thesis by (simp add: demo_start_def)
qed

end
