(* ===== verification/ExMisc.thy ===== *)
theory ExMisc
  imports TecSignal TecTrace
begin

text \<open>
  Models the example programs \<open>examples/misc/timepoint.c\<close>, which prints three time points, and
  \<open>examples/misc/signal.c\<close>, which waits for a signal with a timeout.
\<close>

section \<open>timepoint.c\<close>

text \<open>
  The platform's \<open>gmtime_r\<close> and \<open>strftime\<close> are arguments; \<open>strftime\<close> gets the size of the array and
  is \<open>None\<close> when the text does not fit, and then the array holds nothing that may be read.
\<close>

definition print_timepoint ::
  "(int \<Rightarrow> 'tm) \<Rightarrow> (nat \<Rightarrow> 'tm \<Rightarrow> u8 list option) \<Rightarrow> TecTimePoint \<Rightarrow> u8 list outcome" where
  "print_timepoint gmtime_r strftime tp =
     (let t = tec_tp_to_tm gmtime_r tp
      in case strftime 80 t of
           None \<Rightarrow> Inl Uninitialised
         | Some s \<Rightarrow> Inr (fmt_lld tp @ bytes_of '' = '' @ s @ [10]))"

text \<open>\<open>now1\<close> and \<open>now2\<close> are what the clock gives.\<close>

definition timepoint_main ::
  "(int \<Rightarrow> 'tm) \<Rightarrow> (nat \<Rightarrow> 'tm \<Rightarrow> u8 list option) \<Rightarrow> timespec option \<Rightarrow> timespec option \<Rightarrow> u8 list list outcome" where
  "timepoint_main gmtime_r strftime now1 now2 =
     bind_outcome (print_timepoint gmtime_r strftime 0) (\<lambda>l0.
     bind_outcome (tec_tp_now now1) (\<lambda>tp1.
     bind_outcome (print_timepoint gmtime_r strftime tp1) (\<lambda>l1.
     bind_outcome (tec_tp_now now2) (\<lambda>tp2.
     bind_outcome (DAYS 2) (\<lambda>d.
     bind_outcome (signed64 (tp2 + d)) (\<lambda>tp2.
     bind_outcome (print_timepoint gmtime_r strftime tp2) (\<lambda>l2.
       Inr [l0, l1, l2])))))))"

section \<open>signal.c\<close>

text \<open>The thread: the time it sleeps, and the signal. \<open>lrc\<close> and \<open>brc\<close> as in \<open>TecSignal_set\<close>.\<close>

definition setter :: "TecSignal \<Rightarrow> int \<Rightarrow> int \<Rightarrow> (timespec \<times> TecSignal) outcome" where
  "setter sg lrc brc =
     bind_outcome (SECONDS 10) (\<lambda>d.
       let (_, _, sg) = TecSignal_set sg lrc brc in Inr (tec_sleep_for d, sg))"

text \<open>
  The program: \<open>sg\<close> and \<open>t\<close> are the uninitialised signal and thread, \<open>h\<close> the handle of the thread,
  which runs until it returns before \<open>main\<close> joins it. \<open>v0\<close>, \<open>now\<close>, \<open>lrc\<close> and \<open>evs\<close> are what
  \<open>TecSignal_wait_for\<close> sees. The text and the handles joined.
\<close>

definition signal_main ::
  "TecSignal \<Rightarrow> TecThread \<Rightarrow> nat \<Rightarrow> int \<Rightarrow> timespec option \<Rightarrow> int \<Rightarrow> (timespec \<Rightarrow> (int \<times> int) list)
   \<Rightarrow> (u8 list \<times> nat list) outcome" where
  "signal_main sg t h v0 now lrc evs =
     bind_outcome (TecSignal_init sg 0 0) (\<lambda>(_, _, sg).
     let t = TecThread_create (TecThread_init t) 0 h
     in bind_outcome (SECONDS 5) (\<lambda>timeout.
        bind_outcome (TecSignal_wait_for v0 now timeout lrc evs) (\<lambda>r.
        case r of
          None \<Rightarrow> Inl No_return
        | Some (err, _) \<Rightarrow>
            let line = bytes_of (if err \<noteq> 0 then ''Signal set.'' else ''Timeout!'') @ [10]
            in bind_outcome (setter sg 0 0) (\<lambda>(_, sg).
               bind_outcome (TecThread_join t) (\<lambda>(hs, _).
               bind_outcome (TecSignal_done sg 0) (\<lambda>_. Inr (line, hs)))))))"

section \<open>Properties\<close>

lemma print_timepoint_text:
  assumes "strftime 80 (gmtime_r (tv_sec (tec_tp_to_ts tp))) = Some s"
  shows "print_timepoint gmtime_r strftime tp = Inr (fmt_lld tp @ bytes_of '' = '' @ s @ [10])"
  using assms by (simp add: print_timepoint_def tec_tp_to_tm_def tec_ts_to_tm_def)

lemma seconds_of:
  assumes "0 \<le> sec" and "0 \<le> nsec" and "nsec < 1000000000"
  shows "tv_sec (tec_tp_to_ts (sec * 1000000000 + nsec)) = sec"
  using assms by (simp add: tec_tp_to_ts_def signed_divide_int_def sgn_if Let_def)

text \<open>
  C#timepoint_main_prints: \<open>timepoint.c\<close> shows the start of the epoch, the time of the clock, and a
  time exactly 172800 seconds later than the clock's, without an overflow, when the clock gives
  a normalised time whose nanoseconds, two days later, fit a time point.
\<close>

theorem timepoint_main_prints:
  fixes gmtime_r :: "int \<Rightarrow> 'tm" and strftime :: "nat \<Rightarrow> 'tm \<Rightarrow> u8 list option"
  assumes fits: "\<And>s. strftime 80 (gmtime_r s) = Some (text s)"
    and n1: "0 \<le> s1" "0 \<le> f1" "f1 < 1000000000" "in_s64 (s1 * 1000000000 + f1)"
    and n2: "0 \<le> s2" "0 \<le> f2" "f2 < 1000000000" "in_s64 ((s2 + 172800) * 1000000000 + f2)"
  shows "timepoint_main gmtime_r strftime (Some \<lparr>tv_sec = s1, tv_nsec = f1\<rparr>) (Some \<lparr>tv_sec = s2, tv_nsec = f2\<rparr>)
    = Inr [bytes_of ''0 = '' @ text 0 @ [10],
           fmt_lld (s1 * 1000000000 + f1) @ bytes_of '' = '' @ text s1 @ [10],
           fmt_lld ((s2 + 172800) * 1000000000 + f2) @ bytes_of '' = '' @ text (s2 + 172800) @ [10]]"
proof -
  have zero: "fmt_lld 0 = [48]" by (simp add: fmt_lld_def digits.simps digit_byte_def)
  have now: "tec_tp_now (Some \<lparr>tv_sec = s1, tv_nsec = f1\<rparr>) = Inr (s1 * 1000000000 + f1)"
    "tec_tp_now (Some \<lparr>tv_sec = s2, tv_nsec = f2\<rparr>) = Inr (s2 * 1000000000 + f2)"
    using n1 n2 by (simp_all add: tec_tp_now_def tec_ts_to_tp_def in_s64_def)
  have days: "DAYS 2 = Inr 172800000000000"
    by (simp add: DAYS_def HOURS_def MINUTES_def SECONDS_def in_s64_def)
  have sum: "s2 * 1000000000 + f2 + 172800000000000 = (s2 + 172800) * 1000000000 + f2" by simp
  have "print_timepoint gmtime_r strftime (s * 1000000000 + f) = Inr (fmt_lld (s * 1000000000 + f) @ bytes_of '' = '' @ text s @ [10])"
    if "0 \<le> s" "0 \<le> f" "f < 1000000000" for s f
    using print_timepoint_text fits seconds_of [OF that] by metis
  from this [of 0 0] this [OF n1(1-3)] this [of "s2 + 172800" f2] show ?thesis
    using n2 now days by (simp add: timepoint_main_def sum zero bytes_of_def)
qed

theorem timepoint_main_prints_witness:
  "timepoint_main (\<lambda>s. s) (\<lambda>n s. Some (fmt_lld s)) (Some \<lparr>tv_sec = 7, tv_nsec = 5\<rparr>) (Some \<lparr>tv_sec = 8, tv_nsec = 0\<rparr>)
    = Inr [bytes_of ''0 = '' @ fmt_lld 0 @ [10], fmt_lld 7000000005 @ bytes_of '' = '' @ fmt_lld 7 @ [10],
           fmt_lld 172808000000000 @ bytes_of '' = '' @ fmt_lld 172808 @ [10]]"
  using timepoint_main_prints [of "\<lambda>n s. Some (fmt_lld s)" "\<lambda>s. s" fmt_lld 7 5 8 0] by (simp add: in_s64_def)

lemma wait_loop_ends:
  "v = 1 \<or> rc \<noteq> 0 \<Longrightarrow> wait_loop (replicate n (0, 0) @ (v, rc) # evs) 0 =
    Some (if v = 1 then 0 else rc, replicate n (Wait 0) @ (if v = 1 then [] else [Wait rc]))"
  by (induction n) auto

text \<open>
  C#signal_main_inverted: \<open>signal.c\<close> takes the result of \<open>TecSignal_wait_for\<close> for a truth value:
  after any number of wake-ups it prints \<open>Timeout!\<close> when the signal has been set, and
  \<open>Signal set.\<close> when the wait has timed out, which its own timing (a set after ten seconds, a
  timeout of five) leads to.
\<close>

theorem signal_main_inverted:
  assumes clock: "tec_tp_now now = Inr tp" "tp \<noteq> 0" "in_s64 (tp + 5000000000)" and v0: "v0 \<noteq> 1"
    and wait: "\<And>deadline. evs deadline = replicate n (0, 0) @ (v, rc) # rest" and over: "v = 1 \<or> rc \<noteq> 0"
  shows "signal_main sg t h v0 now 0 evs = Inr (bytes_of (if v = 1 then ''Timeout!'' else ''Signal set.'') @ [10], [h])"
proof -
  have s: "SECONDS 5 = Inr 5000000000" "SECONDS 10 = Inr 10000000000" by (simp_all add: SECONDS_def in_s64_def)
  obtain err cs where w: "TecSignal_wait_for v0 now 5000000000 0 evs = Inr (Some (err, cs))" "err = 0 \<longleftrightarrow> v = 1"
    using clock v0 wait over wait_loop_ends [OF over, of n rest] by (auto simp: TecSignal_wait_for_def Let_def)
  have i: "TecSignal_init sg 0 0 = Inr (True, [], sg\<lparr>sig_value := 0, sig_mtx := TecMutex_init (sig_mtx sg) 0,
      sig_cnd := TecCV_init (sig_cnd sg) 0\<rparr>)"
    by (simp add: TecSignal_init_def TecMutex_ok_def TecCV_ok_def TecMutex_init_def TecCV_init_def read_field_def Let_def)
  show ?thesis
    using w by (simp add: signal_main_def i s setter_def TecSignal_set_def TecSignal_done_def TecMutex_destroy_def
        TecCV_destroy_def TecMutex_ok_def TecCV_ok_def TecMutex_init_def TecCV_init_def read_field_def
        TecThread_join_def TecThread_ok_def TecThread_create_def TecThread_init_def Let_def)
qed

theorem signal_main_inverted_witness:
  "signal_main \<lparr>sig_value = 0, sig_mtx = \<lparr>mtx_result = None\<rparr>, sig_cnd = \<lparr>cv_result = None\<rparr>\<rparr> \<lparr>thr_result = None, thr_t = 0\<rparr>
     7 0 (Some \<lparr>tv_sec = 1, tv_nsec = 0\<rparr>) 0 (\<lambda>_. [(0, 0), (0, 110)]) = Inr (bytes_of ''Signal set.'' @ [10], [7])"
  using signal_main_inverted [of "Some \<lparr>tv_sec = 1, tv_nsec = 0\<rparr>" 1000000000 0 "\<lambda>_. [(0, 0), (0, 110)]" 1 0 110 "[]"]
  by (simp add: tec_tp_now_def tec_ts_to_tp_def in_s64_def)

end
