(* ===== verification/Spec2Isabelle.thy ===== *)
theory Spec2Isabelle
  imports Prelude TecTime TecBuffer TecBufferDump TecThreads TecMap TecSignal TecQueue TecArena TecThrPool TecPayload
    TecPoolLife TecPoolSteps TecMessage TecDaemon TecWorker TecCallers TecService TecServiceWorker TecSocket
    TecTCPClient TecTCPServer TecTrace ExSocket ExMtServer ExWorker ExBuffer ExMap ExQueue ExMisc
begin

text \<open>
  The tecc library in Isabelle/HOL.

  tecc is a C library for concurrent programs: time points, a byte buffer, a hash table and an
  arena; signals, queues, a thread pool and workers that handle messages; sockets, and a TCP
  client and a TCP server as services that run in a worker. This development models all of its
  components and proves what each of them promises. Every property of the program has a
  theorem after a text block that starts with its number, and a witness theorem that applies it
  to a concrete input.

  How the parts interact. A worker (\<open>tecc_worker.c\<close>) is a daemon (\<open>tecc_daemon.h\<close>): a thread that
  takes messages (\<open>tecc_message.h\<close>) from a queue (\<open>tecc_queue.c\<close>) and calls the callback a hash
  table (\<open>tecc_map.c\<close>) holds for the tag of the message; its start and its end are signals
  (\<open>tecc_signal.c\<close>). A service worker (\<open>tecc_service_worker.c\<close>) is a worker whose init and exit
  hooks run the two methods of a service (\<open>tecc_service.c\<close>) in threads of their own. The TCP
  client and server are services over sockets (\<open>tecc_socket.c\<close>), which read into byte buffers
  (\<open>tecc_buffer.c\<close>). The server hands connections to its handler, or to a thread pool
  (\<open>tecc_thread_pool.c\<close>), whose nodes take tasks from arenas (\<open>tecc_arena.c\<close>) and queue them.

  The theories, each with the state and the operations of its files under the names of the
  source (a trailing underscore is dropped; \<open>start_\<close>, \<open>shutdown_\<close> and the like, which several
  files declare, are prefixed with \<open>client_\<close> or \<open>server_\<close>):

    \<open>Prelude\<close>: C integers, pointers, outcomes of code that may reach undefined behaviour, byte
      blocks, chains of heap nodes; the lemma collection \<open>u64_simps\<close>.
    \<open>TecTime\<close>: \<open>tecc_time\<close>; conversions with C's truncating division and overflow as a fault.
    \<open>TecBuffer\<close>, \<open>TecBufferDump\<close>: \<open>tecc_buffer\<close>; the buffer refines a file with a position, the
      dumps are equal to texts written from the content.
    \<open>TecThreads\<close>: \<open>tecc_threads.h\<close>; the POSIX and the C11 macros, and their equivalence.
    \<open>TecMap\<close>: \<open>tecc_map\<close>; a heap of nodes, which refines a finite map, and the iterator.
    \<open>TecSignal\<close>, \<open>TecQueue\<close>: \<open>tecc_signal\<close>, \<open>tecc_queue\<close>; each as functions call by call and as a
      step relation in which any threads interleave, with the invariants that give order, the
      absence of lost wake-ups and progress.
    \<open>TecArena\<close>: \<open>tecc_arena\<close> on a memory of bytes, since the flags of an object and the link of
      the free list share its first word.
    \<open>TecThrPool\<close>, \<open>TecPayload\<close>, \<open>TecPoolLife\<close>: \<open>tecc_thread_pool\<close>, over the queue and the arena;
      the payloads as one slot per thread; the life of a pool that is given any jobs.
    \<open>TecPoolSteps\<close>: the pool with its threads, any number of callers of \<open>TecThrPool_enqueue\<close> and
      the owner's \<open>TecThrPool_done\<close> as a step relation over the functions of the queue and the
      arena; undisturbed, its steps are the functions of \<open>TecThrPool\<close>.
    \<open>TecMessage\<close>, \<open>TecDaemon\<close>: \<open>tecc_message.h\<close>, \<open>tecc_rpc\<close>, \<open>tecc_daemon.h\<close>.
    \<open>TecWorker\<close>: \<open>tecc_worker\<close>; the message loop and the daemon methods, and the thread with its
      senders as a step relation.
    \<open>TecCallers\<close>: many threads that call \<open>TecWorker_rpc\<close> and \<open>TecWorker_send\<close> at once.
    \<open>TecService\<close>, \<open>TecServiceWorker\<close>: \<open>tecc_service\<close>, \<open>tecc_service_worker\<close>, for any service.
    \<open>TecSocket\<close>: \<open>tecc_socket\<close>; system calls are recorded, their results are arguments.
    \<open>TecTCPClient\<close>, \<open>TecTCPServer\<close>: \<open>tecc_tcp_client\<close>, \<open>tecc_tcp_server\<close>.
    \<open>TecTrace\<close>: \<open>tecc_trace\<close>; the text that is printed and its nesting.
    \<open>ExSocket\<close>, \<open>ExMtServer\<close>: \<open>examples/socket\<close>; the five programs, with the bytes of a client
      through its socket and the server's to the line that the server prints.
    \<open>ExWorker\<close>: \<open>examples/worker\<close>; the three programs.
    \<open>ExBuffer\<close>, \<open>ExMap\<close>, \<open>ExQueue\<close>, \<open>ExMisc\<close>: \<open>examples/misc\<close>; the five programs, \<open>queue.c\<close> with
      its two threads as a step relation over that of the queue.
    This theory: a TCP server and a TCP client from their creation through a service worker's
      run and terminate.

  The interfaces are locales, interpreted on the models: \<open>byte_stream\<close> (the buffer),
  \<open>string_map\<close> (the table), \<open>fifo\<close> (the queue), \<open>object_pool\<close> (the arena), \<open>service_contract\<close> and
  its extension \<open>closing_service\<close> (the default service, the TCP client, the TCP server). The
  worker, the pool, the socket and the service worker rest on the facts of these
  interpretations.

  The groups of lemmas: what an operation does on a well-formed state, and that it keeps it
  well-formed; refinement of an abstract specification (a file, a finite map, a list, the list
  of served messages, the text of nested blocks); invariants of the step relations by rule
  induction, and progress from them; what error paths leave behind; faults the code can reach.

  Conventions. An operation returns \<open>Inl\<close> of a fault when the C code reaches undefined behaviour
  or waits for ever, else \<open>Inr\<close> of its result. What the system gives (results of \<open>malloc\<close>,
  \<open>pthread_create\<close>, \<open>accept\<close>, the clock) is an argument; a property says what it needs of it.
  Calls that others can see (on a mutex, to the system, to a callback) are recorded in order.
  Sizes and capacities are 64-bit words and wrap; signed results out of range are faults.

  Loops over linked lists and queues are partial functions into \<open>option\<close>: \<open>None\<close> is a loop that
  does not end, and the properties show that it does. The other recursions are structural or
  have a measure. Only \<open>visit\<close>, the loop of a client over a table, counts its rounds: as many as
  the table has entries are enough (\<open>dump_loop\<close> of \<open>ExMap\<close> is the same loop without a count).
  A loop that waits for outside events, such as the one that accepts connections, consumes a
  list of them and blocks at its end.

  Not modelled: the payload of messages and what callbacks, hooks and handlers of the user do
  beyond their result (arguments of the models); \<open>tecc_def.h\<close> and \<open>tecc_memory.h\<close> (macros that the
  models expand); the branches for Windows; weak memory: a step of the step relations is one
  lock, unlock, wait or critical section; trace calls inside the other components, which
  change no state but the trace, and in the example programs. A thread pool that could not
  start all its threads, or that is given tasks while it is destroyed, is in the functions of
  \<open>TecThrPool\<close> but not in the steps of \<open>TecPoolSteps\<close>. Two threads that call a worker's
  \<open>run\<close> or \<open>terminate\<close> at the same time: these are modelled from the view of one caller, with
  the worker's thread running while it waits; \<open>send\<close> and \<open>rpc\<close> are modelled for any number of
  callers at once.

  The example programs show how the library is used, and their theorems are what its theorems
  add up to: what a program prints, that it ends, and that it joins each of its threads and
  frees what it made. Where a program is wrong its theorem says what it does instead:
  \<open>signal.c\<close> prints the opposite of what happened, \<open>request.c\<close> hangs without a thread, and the
  handlers of \<open>server.c\<close> and \<open>mt_server.c\<close> print what an earlier client sent, or read behind
  the end of the buffer.
\<close>

section \<open>A TCP server and a TCP client in a service worker\<close>

text \<open>
  C1: a service worker that runs a TCP server, on a system where the
  address can be bound: run returns 0, the later terminate stops the loop of the server and
  returns 0, the two threads of the service and the worker's are joined once each, and the
  listening socket and its address list are released exactly once.
\<close>

theorem server_worker_lifecycle:
  assumes init: "TecTCPServer_init env params mrc crc = Inr srv" and tcp: "par_socktype params = SOCK_STREAM"
    and mem: "env_ok (se_mem se)"
    and sys: "le_gai le = Inr res" "le_socket le = Inr fd" "fd \<noteq> - 1" "res \<noteq> NULL"
      "le_bind le = None" "le_listen le = None"
    and sw: "unused_worker (sw_worker raw)" "TecServiceWorker_init (\<lambda>_. 0) True raw srv n = Inr (True, self)"
    and p: "p \<noteq> NULL"
  shows "\<exists>es self' self''.
     TecServiceWorker_run (server_service se le) u self wh 0 h = Inr (0, [], es, self') \<and>
     TecServiceWorker_terminate (server_service se le) u self' Map.empty p 0 h'
       = Inr (0, [h', h, wh], [Hook on_exit_hook], self'') \<and>
     \<not> sv_polling (sw_service self'') \<and> sk_fd (sv_sock (sw_service self'')) = - 1 \<and>
     count_list (sv_events (sw_service self'')) (Call (Sys_close fd)) = 1 \<and>
     count_list (sv_events (sw_service self'')) (Call (Sys_freeaddrinfo res)) = 1"
proof -
  note srv = server_init_fields [OF init]
  have self: "ready_service_worker self" "sw_service self = srv"
    using service_worker_init_ready [OF sw(1), of srv n] sw(2) by (metis Inr_inject Pair_inject)+
  have contract: "service_contract (svc_start (server_service se le)) (svc_shutdown (server_service se le))
      (server_new se) (server_started se)"
    unfolding server_service_def by (simp add: tcp_server.service_contract_axioms)
  have new: "server_new se (sw_service self)" using mem by (simp add: server_new_def)
  have result: "e = 0 \<and> \<not> sv_polling s2 \<and> sk_fd (sv_sock s2) = - 1 \<and>
      count_list (sv_events s2) (Call (Sys_close fd)) = 1 \<and>
      count_list (sv_events s2) (Call (Sys_freeaddrinfo res)) = 1"
    if "server_start se le srv sig = Inr (e, sig1, s1)" "server_shutdown se s1 sig' = Inr (sig2, s2)"
    for sig e sig1 s1 sig' sig2 s2
    using server_start_shutdown [OF mem srv(2,3) _ sys that] srv(5) tcp by simp
  obtain e sig s1 where st: "server_start se le srv (sw_sig_started self) = Inr (e, sig, s1)"
    "server_started se s1"
    using tcp_server.start_spec new self(2) by metis
  then have e: "e = 0" using result tcp_server.shutdown_spec by metis
  from service_worker_run_terminate [OF contract new self(1) p, of u wh h h'] show ?thesis
    using st(1) e result self(2) by (fastforce simp: server_service_def)
qed

theorem server_worker_lifecycle_witness:
  "\<exists>srv self es self' self''.
     TecTCPServer_init (ample None) TecSocketParams_init 0 0 = Inr srv \<and>
     TecServiceWorker_init (\<lambda>_. 0) True (unused_sw srv) srv 0 = Inr (True, self) \<and>
     TecServiceWorker_run (server_service plain_server_env free_address) plain_user self 77 0 78
       = Inr (0, [], es, self') \<and>
     TecServiceWorker_terminate (server_service plain_server_env free_address) plain_user self' Map.empty 8 0 79
       = Inr (0, [79, 78, 77], [Hook on_exit_hook], self'') \<and>
     count_list (sv_events (sw_service self'')) (Call (Sys_close 5)) = 1"
proof -
  obtain srv where srv: "TecTCPServer_init (ample None) TecSocketParams_init 0 0 = Inr srv"
    using plain_server_exists by blast
  obtain self where self: "TecServiceWorker_init (\<lambda>_. 0) True (unused_sw srv) srv 0 = Inr (True, self)"
    using service_worker_init_ready [OF unused_sw_worker] by metis
  have sys: "par_socktype TecSocketParams_init = SOCK_STREAM" "le_gai free_address = Inr 64"
    "le_socket free_address = Inr 5" "(5 :: int) \<noteq> - 1" "(64 :: ptr) \<noteq> NULL"
    "le_bind free_address = None" "le_listen free_address = None" "(8 :: ptr) \<noteq> NULL"
    by (simp_all add: TecSocketParams_init_def kTecDefaultSockType_def free_address_def)
  from server_worker_lifecycle [OF srv sys(1) plain_server_env_ok(1) sys(2-7) unused_sw_worker self sys(8),
      of plain_user 77 78 79] srv self
  show ?thesis by blast
qed

text \<open>
  C2: a service worker that runs a TCP client: run returns 0 exactly
  when the client is connected, and otherwise the code of the step that failed, with the
  service's and the worker's threads joined once; after a run that returned 0, terminate
  returns 0, the three threads are joined once each and the socket is closed.
\<close>

theorem client_worker_lifecycle:
  assumes init: "TecTCPClient_init env params mrc = Inr cli" and tcp: "par_socktype params = SOCK_STREAM"
    and mem: "env_ok (ce_mem ce)" "par_buffer_size params \<noteq> 0"
    and errno: "\<forall>err. ce_gai ce = Inl err \<or> ce_socket ce = Inl err \<or> ce_peer ce = Inl err \<longrightarrow> err \<noteq> 0"
    and sw: "unused_worker (sw_worker raw)" "TecServiceWorker_init (\<lambda>_. 0) True raw cli n = Inr (True, self)"
    and p: "p \<noteq> NULL"
  shows "\<exists>es self'. TecServiceWorker_run (client_service ce) u self wh 0 h
       = Inr (start_error ce, if start_error ce = 0 then [] else [h, wh], es, self') \<and>
     (start_error ce = 0 \<longrightarrow> (\<exists>self''.
        TecServiceWorker_terminate (client_service ce) u self' Map.empty p 0 h'
          = Inr (0, [h', h, wh], [Hook on_exit_hook], self'') \<and>
        sk_fd (cl_sock (sw_service self'')) = - 1))"
proof -
  note cli = client_init_fields [OF init]
  have self: "ready_service_worker self" "sw_service self = cli"
    using service_worker_init_ready [OF sw(1), of cli n] sw(2) by (metis Inr_inject Pair_inject)+
  have contract: "closing_service (svc_start (client_service ce)) (svc_shutdown (client_service ce))
      (client_ok ce) (\<lambda>_. True) (\<lambda>self. sk_fd (cl_sock self) = - 1)"
    unfolding client_service_def by (simp add: tcp_client.closing_service_axioms)
  have ok: "client_ok ce (sw_service self)" using mem cli(1) self(2) by (simp add: client_ok_def)
  have err: "e = start_error ce" if "client_start ce cli sig = Inr (e, sig1, s1)" for sig e sig1 s1
    using start_error_start [OF that] tcp cli(2) errno by simp
  obtain e sig s' where st: "client_start ce cli (sw_sig_started self) = Inr (e, sig, s')"
    and failed: "e \<noteq> 0 \<longrightarrow> (\<exists>es self'. TecServiceWorker_run (client_service ce) u self wh 0 h
      = Inr (e, [h, wh], es, self') \<and> sw_service self' = s')"
    and served: "e = 0 \<longrightarrow> (\<exists>es self' self''.
      TecServiceWorker_run (client_service ce) u self wh 0 h = Inr (0, [], es, self') \<and>
      TecServiceWorker_terminate (client_service ce) u self' Map.empty p 0 h'
        = Inr (0, [h', h, wh], [Hook on_exit_hook], self'') \<and> sk_fd (cl_sock (sw_service self'')) = - 1)"
    using service_worker_closes [OF contract ok self(1) p, of u wh h h'] self(2)
    unfolding client_service_def by auto
  have "e = start_error ce" by (rule err [OF st])
  with failed served show ?thesis by (cases "e = 0") auto
qed

theorem client_worker_lifecycle_witness:
  "\<exists>self es self' self''.
     TecServiceWorker_init (\<lambda>_. 0) True (unused_sw new_client) new_client 0 = Inr (True, self) \<and>
     TecServiceWorker_run (client_service up_env) plain_user self 77 0 78 = Inr (0, [], es, self') \<and>
     TecServiceWorker_terminate (client_service up_env) plain_user self' Map.empty 8 0 79
       = Inr (0, [79, 78, 77], [Hook on_exit_hook], self'') \<and>
     sk_fd (cl_sock (sw_service self'')) = - 1"
proof -
  obtain self where self: "TecServiceWorker_init (\<lambda>_. 0) True (unused_sw new_client) new_client 0 = Inr (True, self)"
    using service_worker_init_ready [OF unused_sw_worker] by metis
  have up: "par_socktype TecSocketParams_init = SOCK_STREAM" "env_ok (ce_mem up_env)"
    "par_buffer_size TecSocketParams_init \<noteq> 0" "(8 :: ptr) \<noteq> NULL" "start_error up_env = 0"
    "\<forall>err. ce_gai up_env = Inl err \<or> ce_socket up_env = Inl err \<or> ce_peer up_env = Inl err \<longrightarrow> err \<noteq> 0"
    by (simp_all add: TecSocketParams_init_def kTecDefaultSockType_def TECC_SOCK_BUFFER_SIZE_def up_env_def
        env_ok_ample start_error_def)
  from client_worker_lifecycle [OF new_client_init up(1-3) up(6) unused_sw_worker self up(4),
      of plain_user 77 78 79] self up(5)
  show ?thesis by auto
qed

end
